(* ===== verification/Prelude.thy ===== *)
theory Prelude
  imports Main "HOL-Library.Word"
begin

text \<open>
  The vocabulary every component of the model shares: addresses, the ways the runtime can
  stop, and programs over a state. A function of the runtime that reads and writes shared
  structures is a value of \<open>('s, 'a) prog\<close>: it maps a state to a failure or to a result and the
  next state. A failed \<open>CILK_ASSERT\<close>, a call of \<open>__cilkrts_bug\<close>, a corrupted magic number, a
  read through a pointer to nothing and a lock that can never be obtained are all failures,
  so every abnormal exit of the code is a value of the model.
\<close>

unbundle bit_operations_syntax

section \<open>Addresses and failures\<close>

type_synonym ptr = nat

abbreviation (input) NULL :: ptr where
  "NULL \<equiv> 0"

datatype failure =
    Assertion string     \<comment> \<open>\<open>CILK_ASSERT\<close> failed; the text of the condition\<close>
  | Bug string           \<comment> \<open>an explicit call of \<open>__cilkrts_bug\<close>\<close>
  | Rts_corrupted        \<comment> \<open>\<open>abort_because_rts_is_corrupted\<close>\<close>
  | Segfault             \<comment> \<open>access through NULL or an address that holds no object\<close>
  | Blocked              \<comment> \<open>a lock or a semaphore that this thread waits for without end\<close>
  | Diverges             \<comment> \<open>a loop that did not end within the fuel the model gives it\<close>
  | Abort                \<comment> \<open>\<open>abort()\<close>\<close>

section \<open>Programs\<close>

type_synonym ('s, 'a) prog = "'s \<Rightarrow> failure + ('a \<times> 's)"

definition ret :: "'a \<Rightarrow> ('s, 'a) prog" where
  "ret x = (\<lambda>s. Inr (x, s))"

definition bindP :: "('s, 'a) prog \<Rightarrow> ('a \<Rightarrow> ('s, 'b) prog) \<Rightarrow> ('s, 'b) prog" where
  "bindP m k = (\<lambda>s. case m s of Inl e \<Rightarrow> Inl e | Inr (x, t) \<Rightarrow> k x t)"

definition failP :: "failure \<Rightarrow> ('s, 'a) prog" where
  "failP e = (\<lambda>s. Inl e)"

definition gets :: "('s \<Rightarrow> 'a) \<Rightarrow> ('s, 'a) prog" where
  "gets f = (\<lambda>s. Inr (f s, s))"

definition modify :: "('s \<Rightarrow> 's) \<Rightarrow> ('s, unit) prog" where
  "modify f = (\<lambda>s. Inr ((), f s))"

definition whenP :: "bool \<Rightarrow> ('s, unit) prog \<Rightarrow> ('s, unit) prog" where
  "whenP b m = (if b then m else ret ())"

text \<open>A statement list: each statement runs after the one before it.\<close>

fun block :: "('s, unit) prog list \<Rightarrow> ('s, unit) prog" where
  "block [] = ret ()"
| "block (m # ms) = bindP m (\<lambda>_. block ms)"

text \<open>Statements followed by the value the function returns.\<close>

definition result :: "('s, unit) prog list \<Rightarrow> ('s, 'a) prog \<Rightarrow> ('s, 'a) prog" where
  "result ms m = bindP (block ms) (\<lambda>_. m)"

text \<open>
  \<open>CILK_ASSERT(ex)\<close> is compiled into every build: where the condition is false it calls
  \<open>__cilkrts_bug\<close>, which does not return.
\<close>

definition CILK_ASSERT :: "string \<Rightarrow> bool \<Rightarrow> ('s, unit) prog" where
  "CILK_ASSERT what ex = (if ex then ret () else failP (Assertion what))"

definition cilkrts_bug :: "string \<Rightarrow> ('s, 'a) prog" where
  "cilkrts_bug what = failP (Bug what)"

text \<open>Running programs: the simplifier executes a program on a state with these equations.\<close>

named_theorems run "equations that execute a program on a state"

lemma run_ret [run]: "ret x s = Inr (x, s)"
  by (simp add: ret_def)

lemma run_bindP [run]: "bindP m k s = (case m s of Inl e \<Rightarrow> Inl e | Inr (x, t) \<Rightarrow> k x t)"
  by (simp add: bindP_def)

lemma run_failP [run]: "failP e s = Inl e"
  by (simp add: failP_def)

lemma run_gets [run]: "gets f s = Inr (f s, s)"
  by (simp add: gets_def)

lemma run_modify [run]: "modify f s = Inr ((), f s)"
  by (simp add: modify_def)

lemma run_whenP [run]: "whenP b m s = (if b then m s else Inr ((), s))"
  by (simp add: whenP_def ret_def)

lemma run_block_Nil [run]: "block [] s = Inr ((), s)"
  by (simp add: ret_def)

lemma run_block_Cons [run]:
  "block (m # ms) s = (case m s of Inl e \<Rightarrow> Inl e | Inr (x, t) \<Rightarrow> block ms t)"
  by (simp add: bindP_def)

lemma run_result [run]:
  "result ms m s = (case block ms s of Inl e \<Rightarrow> Inl e | Inr (x, t) \<Rightarrow> m t)"
  by (simp add: result_def bindP_def)

lemma run_CILK_ASSERT [run]:
  "CILK_ASSERT what ex s = (if ex then Inr ((), s) else Inl (Assertion what))"
  by (simp add: CILK_ASSERT_def ret_def failP_def)

lemma run_cilkrts_bug [run]: "cilkrts_bug what s = Inl (Bug what)"
  by (simp add: cilkrts_bug_def failP_def)

declare block.simps [simp del]

lemma block_append: "block (ms @ ms') s = (case block ms s of Inl e \<Rightarrow> Inl e | Inr (x, t) \<Rightarrow> block ms' t)"
  by (induction ms arbitrary: s) (auto simp: run_block_Nil run_block_Cons split: sum.splits)

lemma block_snoc: "block ms s = Inr ((), t) \<Longrightarrow> block (ms @ [m]) s = m t"
  by (auto simp: block_append run_block_Cons run_block_Nil split: sum.splits)

text \<open>A \<open>for\<close> loop over consecutive indices, by an invariant.\<close>

lemma block_upt:
  assumes "a \<le> b" and "P a s" and "\<And>i s. a \<le> i \<Longrightarrow> i < b \<Longrightarrow> P i s \<Longrightarrow> \<exists>t. f i s = Inr ((), t) \<and> P (Suc i) t"
  shows "\<exists>t. block (map f [a..<b]) s = Inr ((), t) \<and> P b t"
  using assms(1,3)
proof (induction b rule: nat_induct_at_least)
  case base
  then show ?case using assms(2) by (simp add: run_block_Nil)
next
  case (Suc n)
  then obtain t where t: "block (map f [a..<n]) s = Inr ((), t)" "P n t" by auto
  with Suc.prems [of n t] Suc.hyps obtain u where "f n t = Inr ((), u)" "P (Suc n) u" by auto
  then show ?case using block_snoc [OF t(1), of "f n"] Suc.hyps by (simp add: upt_Suc_append)
qed

text \<open>Statements that only check.\<close>

lemma run_checks: "\<forall>m \<in> set ms. m s = Inr ((), s) \<Longrightarrow> block ms s = Inr ((), s)"
  by (induction ms) (auto simp: run)

lemma sum_case_Inr_iff:
  "(case r of Inl e \<Rightarrow> Inl e | Inr (x, t) \<Rightarrow> k x t) = Inr y \<longleftrightarrow> (\<exists>x t. r = Inr (x, t) \<and> k x t = Inr y)"
  by (auto split: sum.splits)

section \<open>Loops\<close>

text \<open>
  A loop whose body says how to go on, with the next loop state on the left or the result on
  the right, and at most \<open>fuel\<close> rounds. Each use shows that its fuel is enough.
\<close>

primrec loopP :: "nat \<Rightarrow> ('a \<Rightarrow> ('s, 'a + 'b) prog) \<Rightarrow> 'a \<Rightarrow> ('s, 'b) prog" where
  "loopP 0 body x = failP Diverges"
| "loopP (Suc fuel) body x =
     bindP (body x) (\<lambda>r. case r of Inl y \<Rightarrow> loopP fuel body y | Inr z \<Rightarrow> ret z)"

lemma run_loopP_Suc:
  "loopP (Suc fuel) body x s = (case body x s of Inl e \<Rightarrow> Inl e
     | Inr (Inl y, t) \<Rightarrow> loopP fuel body y t | Inr (Inr z, t) \<Rightarrow> Inr (z, t))"
  by (auto simp: loopP.simps run split: sum.splits)

declare loopP.simps [simp del]

text \<open>
  Total correctness: an invariant with a measure that each round lowers, and fuel above the
  measure.
\<close>

lemma loopP_rule:
  assumes "I x s" and "m x s < fuel"
    and "\<And>x s. I x s \<Longrightarrow>
           (\<exists>y t. body x s = Inr (Inl y, t) \<and> I y t \<and> m y t < m x s)
         \<or> (\<exists>z t. body x s = Inr (Inr z, t) \<and> Q z t)"
  shows "\<exists>z t. loopP fuel body x s = Inr (z, t) \<and> Q z t"
  using assms(1,2)
proof (induction fuel arbitrary: x s)
  case 0
  then show ?case by simp
next
  case (Suc fuel)
  from assms(3) [OF Suc.prems(1)] show ?case
  proof (elim disjE exE conjE)
    fix y t assume "body x s = Inr (Inl y, t)" "I y t" "m y t < m x s"
    with Suc show ?thesis by (auto simp: run_loopP_Suc)
  qed (simp add: run_loopP_Suc)
qed

section \<open>Contracts\<close>

text \<open>
  \<open>returns P m Q\<close> is total: from every state of \<open>P\<close> the program returns, and its result and final
  state satisfy \<open>Q\<close>. \<open>keeps I m\<close> is the invariant half: wherever the program returns from a
  state of \<open>I\<close> the final state is in \<open>I\<close> too.
\<close>

definition returns :: "('s \<Rightarrow> bool) \<Rightarrow> ('s, 'a) prog \<Rightarrow> ('a \<Rightarrow> 's \<Rightarrow> bool) \<Rightarrow> bool" where
  "returns P m Q \<longleftrightarrow> (\<forall>s. P s \<longrightarrow> (\<exists>x t. m s = Inr (x, t) \<and> Q x t))"

definition keeps :: "('s \<Rightarrow> bool) \<Rightarrow> ('s, 'a) prog \<Rightarrow> bool" where
  "keeps I m \<longleftrightarrow> (\<forall>s x t. I s \<longrightarrow> m s = Inr (x, t) \<longrightarrow> I t)"

lemma keepsI [intro?]: "(\<And>s x t. I s \<Longrightarrow> m s = Inr (x, t) \<Longrightarrow> I t) \<Longrightarrow> keeps I m"
  by (auto simp: keeps_def)

lemma keepsD: "keeps I m \<Longrightarrow> I s \<Longrightarrow> m s = Inr (x, t) \<Longrightarrow> I t"
  by (auto simp: keeps_def)

lemma returnsI [intro?]: "(\<And>s. P s \<Longrightarrow> \<exists>x t. m s = Inr (x, t) \<and> Q x t) \<Longrightarrow> returns P m Q"
  by (auto simp: returns_def)

lemma returnsD: "returns P m Q \<Longrightarrow> P s \<Longrightarrow> \<exists>x t. m s = Inr (x, t) \<and> Q x t"
  by (auto simp: returns_def)

named_theorems kept "programs that keep an invariant"

lemma keeps_ret [kept]: "keeps I (ret x)"
  by (simp add: keeps_def ret_def)

lemma keeps_failP [kept]: "keeps I (failP e)"
  by (simp add: keeps_def failP_def)

lemma keeps_gets [kept]: "keeps I (gets f)"
  by (simp add: keeps_def gets_def)

lemma keeps_bindP [kept]: "keeps I m \<Longrightarrow> (\<And>x. keeps I (k x)) \<Longrightarrow> keeps I (bindP m k)"
proof
  fix s y t
  assume m: "keeps I m" and k: "\<And>x. keeps I (k x)" and "I s" "bindP m k s = Inr (y, t)"
  then obtain x u where "m s = Inr (x, u)" "k x u = Inr (y, t)"
    by (auto simp: bindP_def sum_case_Inr_iff)
  with m k \<open>I s\<close> show "I t" by (blast dest: keepsD)
qed

lemma keeps_whenP [kept]: "keeps I m \<Longrightarrow> keeps I (whenP b m)"
  by (simp add: whenP_def keeps_ret)

lemma keeps_CILK_ASSERT [kept]: "keeps I (CILK_ASSERT what ex)"
  by (simp add: CILK_ASSERT_def keeps_ret keeps_failP)

lemma keeps_block_Nil [kept]: "keeps I (block [])"
  by (simp add: keeps_def run)

lemma keeps_block_Cons [kept]: "keeps I m \<Longrightarrow> keeps I (block ms) \<Longrightarrow> keeps I (block (m # ms))"
  unfolding block.simps by (rule keeps_bindP)

lemma keeps_result [kept]: "keeps I (block ms) \<Longrightarrow> keeps I m \<Longrightarrow> keeps I (result ms m)"
  unfolding result_def by (rule keeps_bindP)

section \<open>Objects in memory\<close>

text \<open>
  The objects of one C type are a partial map from their addresses; no object is at NULL.
  \<open>load\<close> reads a field through a pointer and \<open>store\<close> updates the object a pointer points to.
\<close>

definition deref :: "(ptr \<rightharpoonup> 'o) \<Rightarrow> ptr \<rightharpoonup> 'o" where
  "deref m p = (if p = NULL then None else m p)"

definition load :: "('s \<Rightarrow> ptr \<rightharpoonup> 'o) \<Rightarrow> ('o \<Rightarrow> 'a) \<Rightarrow> ptr \<Rightarrow> ('s, 'a) prog" where
  "load heap f p = (\<lambda>s. case deref (heap s) p of None \<Rightarrow> Inl Segfault | Some x \<Rightarrow> Inr (f x, s))"

definition store ::
  "('s \<Rightarrow> ptr \<rightharpoonup> 'o) \<Rightarrow> (((ptr \<rightharpoonup> 'o) \<Rightarrow> (ptr \<rightharpoonup> 'o)) \<Rightarrow> 's \<Rightarrow> 's) \<Rightarrow> ptr \<Rightarrow> ('o \<Rightarrow> 'o) \<Rightarrow> ('s, unit) prog"
where
  "store heap upd p g = (\<lambda>s. case deref (heap s) p of None \<Rightarrow> Inl Segfault
     | Some x \<Rightarrow> Inr ((), upd (\<lambda>_. (heap s)(p \<mapsto> g x)) s))"

lemma run_load [run]:
  "load heap f p s = (case deref (heap s) p of None \<Rightarrow> Inl Segfault | Some x \<Rightarrow> Inr (f x, s))"
  by (simp add: load_def)

lemma run_store [run]:
  "store heap upd p g s = (case deref (heap s) p of None \<Rightarrow> Inl Segfault
     | Some x \<Rightarrow> Inr ((), upd (\<lambda>_. (heap s)(p \<mapsto> g x)) s))"
  by (simp add: store_def)

text \<open>A program on one field of an object, run through a pointer to the object.\<close>

definition on_field ::
  "('s \<Rightarrow> ptr \<rightharpoonup> 'o) \<Rightarrow> (((ptr \<rightharpoonup> 'o) \<Rightarrow> (ptr \<rightharpoonup> 'o)) \<Rightarrow> 's \<Rightarrow> 's) \<Rightarrow> ('o \<Rightarrow> 'f) \<Rightarrow>
   (('f \<Rightarrow> 'f) \<Rightarrow> 'o \<Rightarrow> 'o) \<Rightarrow> ptr \<Rightarrow> ('f, 'a) prog \<Rightarrow> ('s, 'a) prog"
where
  "on_field heap upd fld fupd p m = (\<lambda>s. case deref (heap s) p of None \<Rightarrow> Inl Segfault
     | Some x \<Rightarrow> (case m (fld x) of Inl e \<Rightarrow> Inl e
         | Inr (a, y) \<Rightarrow> Inr (a, upd (\<lambda>_. (heap s)(p \<mapsto> fupd (\<lambda>_. y) x)) s)))"

lemma run_on_field [run]:
  "on_field heap upd fld fupd p m s = (case deref (heap s) p of None \<Rightarrow> Inl Segfault
     | Some x \<Rightarrow> (case m (fld x) of Inl e \<Rightarrow> Inl e
         | Inr (a, y) \<Rightarrow> Inr (a, upd (\<lambda>_. (heap s)(p \<mapsto> fupd (\<lambda>_. y) x)) s)))"
  by (simp add: on_field_def)

text \<open>A program on one component of the state.\<close>

definition on_part ::
  "('s \<Rightarrow> 'f) \<Rightarrow> (('f \<Rightarrow> 'f) \<Rightarrow> 's \<Rightarrow> 's) \<Rightarrow> ('f, 'a) prog \<Rightarrow> ('s, 'a) prog"
where
  "on_part fld fupd m = (\<lambda>s. case m (fld s) of Inl e \<Rightarrow> Inl e
     | Inr (a, y) \<Rightarrow> Inr (a, fupd (\<lambda>_. y) s))"

lemma run_on_part [run]:
  "on_part fld fupd m s = (case m (fld s) of Inl e \<Rightarrow> Inl e
     | Inr (a, y) \<Rightarrow> Inr (a, fupd (\<lambda>_. y) s))"
  by (simp add: on_part_def)

lemma deref_NULL [simp]: "deref m 0 = None"
  by (simp add: deref_def)

lemma deref_upd [simp]: "deref (m(p \<mapsto> x)) q = (if q = p \<and> p \<noteq> NULL then Some x else deref m q)"
  by (auto simp: deref_def)

lemma deref_del [simp]: "deref (m(p := None)) q = (if q = p then None else deref m q)"
  by (auto simp: deref_def)

lemma deref_empty [simp]: "deref (\<lambda>x. None) p = None"
  by (simp add: deref_def)

lemma deref_SomeD: "deref m p = Some x \<Longrightarrow> p \<noteq> 0 \<and> m p = Some x"
  by (simp add: deref_def split: if_splits)

lemma keeps_load [kept]: "keeps I (load heap f p)"
  by (rule keepsI) (simp add: run split: option.splits)

section \<open>Containers\<close>

text \<open>
  The contract of a structure that objects are added to and removed from: \<open>rep s c\<close> says that
  the state holds the contents \<open>c\<close>, \<open>ins\<close> and \<open>rem\<close> are what adding and removing do to the
  contents, \<open>can_be\<close> says what may be added, \<open>same\<close> what the operations leave alone, and
  \<open>budget\<close> for how many additions there is memory.
\<close>

datatype container_op = Add ptr | Remove ptr

fun apply_op :: "(ptr \<Rightarrow> 'c \<Rightarrow> 'c) \<Rightarrow> (ptr \<Rightarrow> 'c \<Rightarrow> 'c) \<Rightarrow> container_op \<Rightarrow> 'c \<Rightarrow> 'c" where
  "apply_op ins rem (Add x) c = ins x c"
| "apply_op ins rem (Remove x) c = rem x c"

text \<open>Only what is not there is added, only what is there is removed.\<close>

fun ops_fit ::
  "(ptr \<Rightarrow> 'c \<Rightarrow> bool) \<Rightarrow> (ptr \<Rightarrow> 'c \<Rightarrow> 'c) \<Rightarrow> (ptr \<Rightarrow> 'c \<Rightarrow> 'c) \<Rightarrow> (ptr \<Rightarrow> bool) \<Rightarrow> container_op list \<Rightarrow> 'c \<Rightarrow> bool"
where
  "ops_fit mem ins rem ok [] c = True"
| "ops_fit mem ins rem ok (Add x # ops) c = (ok x \<and> \<not> mem x c \<and> ops_fit mem ins rem ok ops (ins x c))"
| "ops_fit mem ins rem ok (Remove x # ops) c = (mem x c \<and> ops_fit mem ins rem ok ops (rem x c))"

locale container =
  fixes rep :: "'s \<Rightarrow> 'c \<Rightarrow> bool"
    and mem :: "ptr \<Rightarrow> 'c \<Rightarrow> bool"
    and ins :: "ptr \<Rightarrow> 'c \<Rightarrow> 'c"
    and rem :: "ptr \<Rightarrow> 'c \<Rightarrow> 'c"
    and can_be :: "'s \<Rightarrow> ptr \<Rightarrow> bool"
    and budget :: "'s \<Rightarrow> nat"
    and same :: "'s \<Rightarrow> 's \<Rightarrow> bool"
    and add :: "ptr \<Rightarrow> ('s, unit) prog"
    and del :: "ptr \<Rightarrow> ('s, unit) prog"
  assumes same_refl: "same s s"
    and same_trans: "same s t \<Longrightarrow> same t u \<Longrightarrow> same s u"
    and same_can_be: "same s t \<Longrightarrow> can_be t = can_be s"
    and add_law: "rep s c \<Longrightarrow> can_be s x \<Longrightarrow> \<not> mem x c \<Longrightarrow> 0 < budget s \<Longrightarrow>
      \<exists>t. add x s = Inr ((), t) \<and> rep t (ins x c) \<and> same s t \<and> budget s \<le> budget t + 1"
    and del_law: "rep s c \<Longrightarrow> mem x c \<Longrightarrow>
      \<exists>t. del x s = Inr ((), t) \<and> rep t (rem x c) \<and> same s t \<and> budget s \<le> budget t"
begin

lemma op_on_contents:
  assumes "rep s c" and "ops_fit mem ins rem (can_be s) (op # ops) c" and "0 < budget s"
  shows "\<exists>t. case_container_op add del op s = Inr ((), t) \<and> rep t (apply_op ins rem op c) \<and> same s t
     \<and> budget s \<le> budget t + 1 \<and> ops_fit mem ins rem (can_be t) ops (apply_op ins rem op c)"
proof (cases op)
  case (Add x)
  with assms add_law [of s c x] same_can_be show ?thesis by fastforce
next
  case (Remove x)
  with assms del_law [of s c x] same_can_be show ?thesis by fastforce
qed

lemma ops_on_contents:
  "rep s c \<Longrightarrow> ops_fit mem ins rem (can_be s) ops c \<Longrightarrow> length ops \<le> budget s \<Longrightarrow>
   \<exists>t. block (map (case_container_op add del) ops) s = Inr ((), t) \<and> rep t (fold (apply_op ins rem) ops c) \<and> same s t"
proof (induction ops arbitrary: s c)
  case Nil
  then show ?case by (simp add: run same_refl)
next
  case (Cons op ops)
  obtain t where t: "case_container_op add del op s = Inr ((), t)" "rep t (apply_op ins rem op c)" "same s t"
      "budget s \<le> budget t + 1" "ops_fit mem ins rem (can_be t) ops (apply_op ins rem op c)"
    using op_on_contents [OF Cons.prems(1,2)] Cons.prems(3) by fastforce
  then have "length ops \<le> budget t" using Cons.prems(3) by simp
  from Cons.IH [OF t(2,5) this] show ?case using t same_trans by (fastforce simp: run)
qed

end

section \<open>Machines that step\<close>

text \<open>
  The contract every interleaving model of the development has: states that start in an
  invariant and steps that keep it. What holds in the invariant then holds in every state
  the machine can reach.
\<close>

locale stepping =
  fixes init :: "'c \<Rightarrow> bool"
    and step :: "'c \<Rightarrow> 'c \<Rightarrow> bool"
    and inv :: "'c \<Rightarrow> bool"
  assumes inv_init: "init c \<Longrightarrow> inv c"
    and inv_step: "step c d \<Longrightarrow> inv c \<Longrightarrow> inv d"
begin

lemma inv_steps: "step\<^sup>*\<^sup>* c d \<Longrightarrow> inv c \<Longrightarrow> inv d"
  by (induction rule: rtranclp_induct) (auto intro: inv_step)

lemma inv_reachable: "init c \<Longrightarrow> step\<^sup>*\<^sup>* c d \<Longrightarrow> inv d"
  by (blast intro: inv_steps inv_init)

end

lemma snoc_step: "r\<^sup>*\<^sup>* c d \<Longrightarrow> r d e \<Longrightarrow> e = e' \<Longrightarrow> r\<^sup>*\<^sup>* c e'"
  by (auto intro: rtranclp.rtrancl_into_rtrancl)

section \<open>Lists and maps\<close>

text \<open>An update that the simplifier has applied to a bound variable is folded back.\<close>

lemma fold_fun_upd [simp]: "(\<lambda>a. if a = p then v else m a) = m(p := v)"
  by (simp add: fun_upd_def)

lemma nth_list_update_if: "i < length xs \<Longrightarrow> xs[j := x] ! i = (if i = j then x else xs ! i)"
  by (simp add: nth_list_update)

lemma mod_Suc_lt: "0 < n \<Longrightarrow> (k :: nat) < n \<Longrightarrow> (k + 1) mod n = (if k + 1 = n then 0 else k + 1)"
  by auto

end
