(* ===== verification/IO_Queue.thy ===== *)
theory IO_Queue
  imports Prelude
begin

text \<open>
  The queue between a worker and its I/O thread (\<open>cilk-io-queue.c\<close>): a ring of
  \<open>DEFAULT_IO_Q_SIZE\<close> operations with one producer, the worker, and one consumer, the I/O
  thread, and an eventfd in semaphore mode that counts the operations the consumer may
  still have to be woken for. The first part models the two functions as programs and
  shows that they implement a bounded first-in first-out queue; the second part lets the
  producer and the consumer interleave at every shared access of the code.
\<close>

section \<open>The data\<close>

record io_op =
  op_type :: int
  op_fildes :: int
  op_buf :: ptr
  op_nbyte :: "64 word"
  op_res :: "64 word"
  op_fut :: ptr

definition IOTYPE_INVALID :: int where "IOTYPE_INVALID = -1"
definition IOTYPE_READ :: int where "IOTYPE_READ = 0"
definition IOTYPE_WRITE :: int where "IOTYPE_WRITE = 1"

definition IO_Q_SIZE :: nat where "IO_Q_SIZE = 4096"

text \<open>The operation that stands for an empty queue; the fields C leaves out are zero.\<close>

definition inv_op :: io_op where
  "inv_op = \<lparr>op_type = IOTYPE_INVALID, op_fildes = 0, op_buf = NULL, op_nbyte = 0,
             op_res = 0, op_fut = NULL\<rparr>"

text \<open>\<open>q_eventfd\<close> is the counter of the eventfd, which the kernel keeps for the descriptor.\<close>

record io_queue =
  q_head :: nat
  q_tail :: nat
  q_eventfd :: nat
  q_slots :: "io_op list"

section \<open>The operations\<close>

text \<open>The index after \<open>i\<close> in the ring, as both functions compute it.\<close>

definition ring_next :: "nat \<Rightarrow> nat" where
  "ring_next i = (i + 1) mod IO_Q_SIZE"

text \<open>
  The memory of the slots is what \<open>malloc\<close> returned (\<open>garbage\<close>); \<open>eventfd\<close> is the
  descriptor the system call returned, with counter 0.
\<close>

definition new_io_queue :: "io_op list \<Rightarrow> int \<Rightarrow> ('s, io_queue) prog" where
  "new_io_queue garbage eventfd =
     result [CILK_ASSERT ''q->eventfd != -1'' (eventfd \<noteq> -1)]
       (ret \<lparr>q_head = 0, q_tail = 0, q_eventfd = 0, q_slots = garbage\<rparr>)"

definition io_queue_push :: "io_op \<Rightarrow> (io_queue, unit) prog" where
  "io_queue_push op =
     bindP (gets (\<lambda>q. ring_next (q_tail q))) (\<lambda>t.
     bindP (gets q_head) (\<lambda>h.
     if t = h then failP Blocked
     else block [
       modify (\<lambda>q. q\<lparr>q_slots := (q_slots q)[q_tail q := op]\<rparr>),
       modify (\<lambda>q. q\<lparr>q_tail := t\<rparr>),
       modify (\<lambda>q. q\<lparr>q_eventfd := q_eventfd q + 1\<rparr>)]))"

definition eventfd_read :: "(io_queue, unit) prog" where
  "eventfd_read =
     bindP (gets q_eventfd) (\<lambda>n.
       if n = 0 then failP Blocked else modify (\<lambda>q. q\<lparr>q_eventfd := n - 1\<rparr>))"

definition io_queue_pop :: "(io_queue, io_op) prog" where
  "io_queue_pop =
     bindP (gets (\<lambda>q. q_head q = q_tail q)) (\<lambda>empty.
     if empty then ret inv_op
     else bindP (gets (\<lambda>q. q_slots q ! q_head q)) (\<lambda>r.
       result [
         modify (\<lambda>q. q\<lparr>q_head := ring_next (q_head q)\<rparr>),
         eventfd_read]
       (ret r)))"

section \<open>The queue they implement\<close>

definition ring_count :: "nat \<Rightarrow> nat \<Rightarrow> nat" where
  "ring_count h t = (if h \<le> t then t - h else t + IO_Q_SIZE - h)"

definition ring_list :: "'a list \<Rightarrow> nat \<Rightarrow> nat \<Rightarrow> 'a list" where
  "ring_list xs h t = map (\<lambda>i. xs ! ((h + i) mod IO_Q_SIZE)) [0..<ring_count h t]"

definition contents :: "io_queue \<Rightarrow> io_op list" where
  "contents q = ring_list (q_slots q) (q_head q) (q_tail q)"

definition ring_wf :: "io_queue \<Rightarrow> bool" where
  "ring_wf q \<longleftrightarrow> q_head q < IO_Q_SIZE \<and> q_tail q < IO_Q_SIZE \<and> length (q_slots q) = IO_Q_SIZE"

text \<open>Between calls the semaphore counts exactly the queued operations.\<close>

definition io_queue_inv :: "io_queue \<Rightarrow> bool" where
  "io_queue_inv q \<longleftrightarrow> ring_wf q \<and> q_eventfd q = length (contents q)"

lemma ring_next_lt [simp]: "ring_next i < IO_Q_SIZE"
  by (simp add: ring_next_def IO_Q_SIZE_def)

lemma ring_next_if: "i < IO_Q_SIZE \<Longrightarrow> ring_next i = (if i = 4095 then 0 else i + 1)"
  by (auto simp: ring_next_def IO_Q_SIZE_def)

lemma length_ring_list [simp]: "length (ring_list xs h t) = ring_count h t"
  by (simp add: ring_list_def)

lemma ring_list_eq_Nil: "h < IO_Q_SIZE \<Longrightarrow> t < IO_Q_SIZE \<Longrightarrow> ring_list xs h t = [] \<longleftrightarrow> h = t"
  by (auto simp: ring_list_def ring_count_def)

lemma ring_count_push:
  "h < IO_Q_SIZE \<Longrightarrow> t < IO_Q_SIZE \<Longrightarrow> ring_next t \<noteq> h \<Longrightarrow>
   ring_count h (ring_next t) = Suc (ring_count h t)"
  by (auto simp: ring_count_def IO_Q_SIZE_def ring_next_if split: if_splits)

lemma ring_count_pop:
  "h < IO_Q_SIZE \<Longrightarrow> t < IO_Q_SIZE \<Longrightarrow> h \<noteq> t \<Longrightarrow>
   ring_count h t = Suc (ring_count (ring_next h) t)"
  by (auto simp: ring_count_def IO_Q_SIZE_def ring_next_if split: if_splits)

lemma ring_count_bound: "h < IO_Q_SIZE \<Longrightarrow> t < IO_Q_SIZE \<Longrightarrow> ring_count h t < IO_Q_SIZE"
  by (auto simp: ring_count_def IO_Q_SIZE_def)

lemma ring_count_full:
  "h < IO_Q_SIZE \<Longrightarrow> t < IO_Q_SIZE \<Longrightarrow> ring_next t = h \<longleftrightarrow> ring_count h t = IO_Q_SIZE - 1"
  by (auto simp: ring_count_def IO_Q_SIZE_def ring_next_if split: if_splits)

lemma ring_index:
  "h < IO_Q_SIZE \<Longrightarrow> i < IO_Q_SIZE \<Longrightarrow>
   (h + i) mod IO_Q_SIZE = (if h + i < IO_Q_SIZE then h + i else h + i - IO_Q_SIZE)"
  by (simp add: le_mod_geq not_less)

lemma ring_index_distinct:
  assumes "h < IO_Q_SIZE" "t < IO_Q_SIZE" "i < ring_count h t"
  shows "(h + i) mod IO_Q_SIZE \<noteq> t"
proof -
  have "i < IO_Q_SIZE" using assms ring_count_bound [of h t] by simp
  then show ?thesis
    using assms by (auto simp: ring_index ring_count_def split: if_splits)
qed

lemma ring_index_tail:
  assumes "h < IO_Q_SIZE" "t < IO_Q_SIZE"
  shows "(h + ring_count h t) mod IO_Q_SIZE = t"
  using assms ring_index [OF assms(1) ring_count_bound [OF assms]]
  by (auto simp: ring_count_def split: if_splits)

lemma ring_list_write:
  assumes "h < IO_Q_SIZE" "t < IO_Q_SIZE" "length xs = IO_Q_SIZE"
  shows "ring_list (xs[t := x]) h t = ring_list xs h t"
  unfolding ring_list_def
proof (rule map_cong [OF refl])
  fix i assume "i \<in> set [0..<ring_count h t]"
  then have "(h + i) mod IO_Q_SIZE \<noteq> t" using assms by (simp add: ring_index_distinct)
  then show "xs[t := x] ! ((h + i) mod IO_Q_SIZE) = xs ! ((h + i) mod IO_Q_SIZE)" by simp
qed

lemma ring_list_publish:
  assumes "h < IO_Q_SIZE" "t < IO_Q_SIZE" "ring_next t \<noteq> h"
  shows "ring_list xs h (ring_next t) = ring_list xs h t @ [xs ! t]"
  using assms by (simp add: ring_list_def ring_count_push ring_index_tail)

lemma ring_list_pop:
  assumes "h < IO_Q_SIZE" "t < IO_Q_SIZE" "h \<noteq> t"
  shows "ring_list xs h t = xs ! h # ring_list xs (ring_next h) t"
proof -
  have "[0..<ring_count h t] = 0 # map Suc [0..<ring_count (ring_next h) t]"
    using ring_count_pop [OF assms] by (simp add: map_Suc_upt upt_conv_Cons del: upt_Suc)
  then show ?thesis
    using assms by (simp add: ring_list_def comp_def ring_next_def mod_simps)
qed

section \<open>The interface the I/O scheduler relies on\<close>

text \<open>
  A bounded queue: \<open>push\<close> appends unless the capacity is reached, in which case the caller
  spins; \<open>pop\<close> takes the oldest element and answers \<open>nothing\<close> where there is none.
\<close>

locale bounded_fifo =
  fixes inv :: "'q \<Rightarrow> bool"
    and elems :: "'q \<Rightarrow> 'a list"
    and cap :: nat
    and push :: "'a \<Rightarrow> ('q, unit) prog"
    and pop :: "('q, 'a) prog"
    and nothing :: 'a
  assumes push_ok: "inv q \<Longrightarrow> length (elems q) < cap \<Longrightarrow>
      \<exists>q'. push x q = Inr ((), q') \<and> inv q' \<and> elems q' = elems q @ [x]"
    and push_full: "inv q \<Longrightarrow> length (elems q) = cap \<Longrightarrow> push x q = Inl Blocked"
    and pop_ok: "inv q \<Longrightarrow> elems q = x # xs \<Longrightarrow>
      \<exists>q'. pop q = Inr (x, q') \<and> inv q' \<and> elems q' = xs"
    and pop_empty: "inv q \<Longrightarrow> elems q = [] \<Longrightarrow> pop q = Inr (nothing, q)"
    and bounded: "inv q \<Longrightarrow> length (elems q) \<le> cap"
begin

lemma push_inv: "inv q \<Longrightarrow> push x q = Inr (u, q') \<Longrightarrow> inv q' \<and> elems q' = elems q @ [x]"
  using push_ok [of q x] push_full [of q x] bounded [of q]
  by (cases "length (elems q) < cap") auto

lemma pop_inv: "inv q \<Longrightarrow> pop q = Inr (x, q') \<Longrightarrow> inv q'"
  using pop_ok [of q] pop_empty [of q] by (cases "elems q") fastforce+

end

text \<open>
  Any sequence of pushes and pops, with what the pops returned: as the two functions do it, and as a list
  of at most \<open>cap\<close> elements does. A push that finds no room waits for the consumer, so the sequence ends there.
\<close>

datatype 'a queue_op = Push 'a | Pop

primrec run_queue :: "('a \<Rightarrow> ('q, unit) prog) \<Rightarrow> ('q, 'a) prog \<Rightarrow> 'a queue_op list \<Rightarrow> ('q, 'a list) prog" where
  "run_queue push pop [] = ret []"
| "run_queue push pop (op # ops) = (case op of
     Push x \<Rightarrow> result [push x] (run_queue push pop ops)
   | Pop \<Rightarrow> bindP pop (\<lambda>x. bindP (run_queue push pop ops) (\<lambda>xs. ret (x # xs))))"

primrec fifo :: "nat \<Rightarrow> 'a \<Rightarrow> 'a queue_op list \<Rightarrow> 'a list \<Rightarrow> failure + 'a list \<times> 'a list" where
  "fifo cap nothing [] q = Inr ([], q)"
| "fifo cap nothing (op # ops) q = (case op of
     Push x \<Rightarrow> if length q < cap then fifo cap nothing ops (q @ [x]) else Inl Blocked
   | Pop \<Rightarrow> (case fifo cap nothing ops (tl q) of Inl e \<Rightarrow> Inl e
       | Inr (xs, r) \<Rightarrow> Inr ((if q = [] then nothing else hd q) # xs, r)))"

context bounded_fifo begin

lemma serves_as_fifo:
  "inv q \<Longrightarrow> case run_queue push pop ops q of
     Inl e \<Rightarrow> fifo cap nothing ops (elems q) = Inl e
   | Inr (xs, q') \<Rightarrow> fifo cap nothing ops (elems q) = Inr (xs, elems q') \<and> inv q'"
proof (induction ops arbitrary: q)
  case (Cons op ops)
  show ?case
  proof (cases op)
    case (Push x)
    show ?thesis
    proof (cases "length (elems q) < cap")
      case True
      with push_ok [OF Cons.prems] obtain q1 where
        "push x q = Inr ((), q1)" "inv q1" "elems q1 = elems q @ [x]" by blast
      with True Cons.IH [of q1] show ?thesis by (simp add: Push run split: sum.splits prod.splits)
    next
      case False
      with bounded [OF Cons.prems] push_full [OF Cons.prems, of x] show ?thesis by (simp add: Push run)
    qed
  next
    case Pop
    obtain q1 where "pop q = Inr (if elems q = [] then nothing else hd (elems q), q1)" "inv q1" "elems q1 = tl (elems q)"
      using pop_empty [OF Cons.prems] pop_ok [OF Cons.prems] Cons.prems by (cases "elems q") fastforce+
    with Cons.IH [of q1] show ?thesis
      by (cases "elems q") (simp_all add: Pop run split: sum.splits prod.splits)
  qed
qed (simp add: run)

end

lemma contents_push:
  "ring_wf q \<Longrightarrow> ring_next (q_tail q) \<noteq> q_head q \<Longrightarrow>
   ring_list ((q_slots q)[q_tail q := x]) (q_head q) (ring_next (q_tail q))
     = contents q @ [x]"
  by (simp add: ring_wf_def contents_def ring_list_publish ring_list_write)

lemma contents_Cons:
  assumes "ring_wf q" "contents q = x # xs"
  shows "q_head q \<noteq> q_tail q" "q_slots q ! q_head q = x"
    "ring_list (q_slots q) (ring_next (q_head q)) (q_tail q) = xs"
  using assms ring_list_eq_Nil [of "q_head q" "q_tail q" "q_slots q"]
    ring_list_pop [of "q_head q" "q_tail q" "q_slots q"]
  by (auto simp: ring_wf_def contents_def)

interpretation ioq: bounded_fifo io_queue_inv contents "IO_Q_SIZE - 1" io_queue_push io_queue_pop inv_op
proof
  fix q :: io_queue and x
  assume inv: "io_queue_inv q"
  then have full: "ring_next (q_tail q) = q_head q \<longleftrightarrow> length (contents q) = IO_Q_SIZE - 1"
    by (simp add: io_queue_inv_def ring_wf_def contents_def ring_count_full)
  show "length (contents q) \<le> IO_Q_SIZE - 1"
    using inv ring_count_bound [of "q_head q" "q_tail q"]
    by (simp add: io_queue_inv_def ring_wf_def contents_def)
  show "length (contents q) = IO_Q_SIZE - 1 \<Longrightarrow> io_queue_push x q = Inl Blocked"
    using full by (simp add: io_queue_push_def run)
  assume "length (contents q) < IO_Q_SIZE - 1"
  with inv full contents_push [of q x]
  show "\<exists>q'. io_queue_push x q = Inr ((), q') \<and> io_queue_inv q' \<and> contents q' = contents q @ [x]"
    by (simp add: io_queue_push_def run io_queue_inv_def ring_wf_def contents_def ring_count_push)
next
  fix q :: io_queue and x xs
  assume inv: "io_queue_inv q" and c: "contents q = x # xs"
  then show "\<exists>q'. io_queue_pop q = Inr (x, q') \<and> io_queue_inv q' \<and> contents q' = xs"
    using contents_Cons [OF _ c] ring_count_pop [of "q_head q" "q_tail q"]
    by (simp add: io_queue_pop_def eventfd_read_def run io_queue_inv_def ring_wf_def contents_def)
next
  fix q :: io_queue
  assume "io_queue_inv q" "contents q = []"
  then show "io_queue_pop q = Inr (inv_op, q)"
    by (simp add: io_queue_pop_def run io_queue_inv_def ring_wf_def contents_def ring_list_eq_Nil)
qed

lemma fifo_fails_blocked: "fifo cap nothing ops q = Inl e \<Longrightarrow> e = Blocked"
  by (induction ops arbitrary: q) (auto split: queue_op.splits if_splits sum.splits)

text \<open>
  C9. The ring is a bounded queue: on every sequence of pushes and pops it behaves as the list of its
  contents, from which pops take the oldest operation and answer the invalid operation where there is
  none, and to which pushes append as long as it is shorter than 4095; a push that finds 4095 operations
  waits. Where the sequence is served the final contents are the final list, there are at most 4095 of them and the
  eventfd counts them.
\<close>

theorem io_queue_fifo:
  assumes "io_queue_inv q"
  shows "case run_queue io_queue_push io_queue_pop ops q of
     Inl e \<Rightarrow> e = Blocked \<and> fifo 4095 inv_op ops (contents q) = Inl Blocked
   | Inr (taken, q') \<Rightarrow> fifo 4095 inv_op ops (contents q) = Inr (taken, contents q')
       \<and> length (contents q') \<le> 4095 \<and> q_eventfd q' = length (contents q') \<and> io_queue_inv q'"
proof -
  have cap: "IO_Q_SIZE - 1 = 4095" by (simp add: IO_Q_SIZE_def)
  show ?thesis
    using ioq.serves_as_fifo [OF assms, of ops] ioq.bounded fifo_fails_blocked [of 4095 inv_op ops "contents q"]
    unfolding cap by (auto simp: io_queue_inv_def split: sum.splits)
qed

text \<open>One operation is queued, in the last slot of the ring; the next pushes go around the end.\<close>

definition sample_queue :: io_queue where
  "sample_queue = \<lparr>q_head = 4095, q_tail = 0, q_eventfd = 1, q_slots = replicate 4096 inv_op\<rparr>"

lemma sample_queue_inv: "io_queue_inv sample_queue" "contents sample_queue = [inv_op]"
  by (simp_all add: sample_queue_def io_queue_inv_def ring_wf_def contents_def ring_count_def
      IO_Q_SIZE_def ring_list_def)

theorem io_queue_fifo_witness:
  "case run_queue io_queue_push io_queue_pop [Push (inv_op\<lparr>op_fildes := 3\<rparr>), Push (inv_op\<lparr>op_fildes := 4\<rparr>), Pop, Pop, Pop, Pop]
       sample_queue of
     Inl e \<Rightarrow> False
   | Inr (taken, q') \<Rightarrow> taken = [inv_op, inv_op\<lparr>op_fildes := 3\<rparr>, inv_op\<lparr>op_fildes := 4\<rparr>, inv_op] \<and> contents q' = []"
  using io_queue_fifo [OF sample_queue_inv(1),
    of "[Push (inv_op\<lparr>op_fildes := 3\<rparr>), Push (inv_op\<lparr>op_fildes := 4\<rparr>), Pop, Pop, Pop, Pop]"]
  by (auto simp: sample_queue_inv(2) split: sum.splits)

section \<open>Producer and consumer at the same time\<close>

text \<open>
  One atomic step per access of shared memory. The producer runs \<open>io_queue_push\<close>: it
  computes \<open>t\<close> from its own tail, spins while the consumer's head equals it, writes the
  slot, publishes the tail, and writes the eventfd. The consumer runs \<open>io_queue_pop\<close>: it
  compares the indices, loads the slot, publishes the head, and reads the eventfd, which
  blocks while the counter is 0. The fences of the code order these steps as written.
  \<open>published\<close> and \<open>taken\<close> are the history: the operations whose tail was published and
  the ones a pop has returned.
\<close>

datatype producer_pc =
    P_idle
  | P_spin io_op nat
  | P_write io_op nat
  | P_publish io_op nat
  | P_wake

datatype consumer_pc =
    C_idle
  | C_test
  | C_load
  | C_advance io_op
  | C_drain io_op

record io_conf =
  io_q :: io_queue
  producer :: producer_pc
  consumer :: consumer_pc
  published :: "io_op list"
  taken :: "io_op list"

definition io_start :: "io_conf \<Rightarrow> bool" where
  "io_start c \<longleftrightarrow> q_head (io_q c) = 0 \<and> q_tail (io_q c) = 0 \<and> q_eventfd (io_q c) = 0
     \<and> length (q_slots (io_q c)) = IO_Q_SIZE \<and> producer c = P_idle \<and> consumer c = C_idle
     \<and> published c = [] \<and> taken c = []"

inductive producer_step :: "io_conf \<Rightarrow> io_conf \<Rightarrow> bool" where
  p_call: "producer c = P_idle \<Longrightarrow>
     producer_step c (c\<lparr>producer := P_spin op (ring_next (q_tail (io_q c)))\<rparr>)"
| p_spin: "producer c = P_spin op t \<Longrightarrow> t = q_head (io_q c) \<Longrightarrow> producer_step c c"
| p_room: "producer c = P_spin op t \<Longrightarrow> t \<noteq> q_head (io_q c) \<Longrightarrow>
     producer_step c (c\<lparr>producer := P_write op t\<rparr>)"
| p_write: "producer c = P_write op t \<Longrightarrow>
     producer_step c (c\<lparr>io_q := (io_q c)\<lparr>q_slots := (q_slots (io_q c))[q_tail (io_q c) := op]\<rparr>,
                        producer := P_publish op t\<rparr>)"
| p_publish: "producer c = P_publish op t \<Longrightarrow>
     producer_step c (c\<lparr>io_q := (io_q c)\<lparr>q_tail := t\<rparr>, producer := P_wake,
                        published := published c @ [op]\<rparr>)"
| p_wake: "producer c = P_wake \<Longrightarrow>
     producer_step c (c\<lparr>io_q := (io_q c)\<lparr>q_eventfd := q_eventfd (io_q c) + 1\<rparr>,
                        producer := P_idle\<rparr>)"

inductive consumer_step :: "io_conf \<Rightarrow> io_conf \<Rightarrow> bool" where
  c_call: "consumer c = C_idle \<Longrightarrow> consumer_step c (c\<lparr>consumer := C_test\<rparr>)"
| c_empty: "consumer c = C_test \<Longrightarrow> q_head (io_q c) = q_tail (io_q c) \<Longrightarrow>
     consumer_step c (c\<lparr>consumer := C_idle\<rparr>)"
| c_some: "consumer c = C_test \<Longrightarrow> q_head (io_q c) \<noteq> q_tail (io_q c) \<Longrightarrow>
     consumer_step c (c\<lparr>consumer := C_load\<rparr>)"
| c_load: "consumer c = C_load \<Longrightarrow>
     consumer_step c (c\<lparr>consumer := C_advance (q_slots (io_q c) ! q_head (io_q c))\<rparr>)"
| c_advance: "consumer c = C_advance r \<Longrightarrow>
     consumer_step c (c\<lparr>io_q := (io_q c)\<lparr>q_head := ring_next (q_head (io_q c))\<rparr>,
                        consumer := C_drain r\<rparr>)"
| c_drain: "consumer c = C_drain r \<Longrightarrow> 0 < q_eventfd (io_q c) \<Longrightarrow>
     consumer_step c (c\<lparr>io_q := (io_q c)\<lparr>q_eventfd := q_eventfd (io_q c) - 1\<rparr>,
                        consumer := C_idle, taken := taken c @ [r]\<rparr>)"

definition io_step :: "io_conf \<Rightarrow> io_conf \<Rightarrow> bool" where
  "io_step c d \<longleftrightarrow> producer_step c d \<or> consumer_step c d"

text \<open>What a pop in progress has taken out of the ring and not yet returned.\<close>

fun in_flight :: "consumer_pc \<Rightarrow> io_op list" where
  "in_flight (C_drain r) = [r]"
| "in_flight _ = []"

fun producer_ok :: "io_queue \<Rightarrow> producer_pc \<Rightarrow> bool" where
  "producer_ok q (P_spin op t) \<longleftrightarrow> t = ring_next (q_tail q)"
| "producer_ok q (P_write op t) \<longleftrightarrow> t = ring_next (q_tail q) \<and> t \<noteq> q_head q"
| "producer_ok q (P_publish op t) \<longleftrightarrow>
     t = ring_next (q_tail q) \<and> t \<noteq> q_head q \<and> q_slots q ! q_tail q = op"
| "producer_ok q _ \<longleftrightarrow> True"

fun consumer_ok :: "io_queue \<Rightarrow> consumer_pc \<Rightarrow> bool" where
  "consumer_ok q C_load \<longleftrightarrow> q_head q \<noteq> q_tail q"
| "consumer_ok q (C_advance r) \<longleftrightarrow> q_head q \<noteq> q_tail q \<and> q_slots q ! q_head q = r"
| "consumer_ok q _ \<longleftrightarrow> True"

definition io_inv :: "io_conf \<Rightarrow> bool" where
  "io_inv c \<longleftrightarrow> ring_wf (io_q c)
     \<and> published c = taken c @ in_flight (consumer c) @ contents (io_q c)
     \<and> producer_ok (io_q c) (producer c) \<and> consumer_ok (io_q c) (consumer c)
     \<and> length (in_flight (consumer c)) + length (contents (io_q c))
         = q_eventfd (io_q c) + (if producer c = P_wake then 1 else 0)"

lemma ring_next_neq:
  "h < IO_Q_SIZE \<Longrightarrow> t < IO_Q_SIZE \<Longrightarrow> h \<noteq> t \<Longrightarrow> ring_next h \<noteq> ring_next t"
  by (auto simp: ring_next_if split: if_splits)

lemma consumer_ok_write:
  "ring_wf q \<Longrightarrow> consumer_ok q c \<Longrightarrow> consumer_ok (q\<lparr>q_slots := (q_slots q)[q_tail q := op]\<rparr>) c"
  by (cases c) (auto simp: ring_wf_def)

lemma consumer_ok_publish:
  "ring_wf q \<Longrightarrow> ring_next (q_tail q) \<noteq> q_head q \<Longrightarrow> consumer_ok q c \<Longrightarrow>
   consumer_ok (q\<lparr>q_tail := ring_next (q_tail q)\<rparr>) c"
  by (cases c) auto

lemma consumer_ok_eventfd [simp]: "consumer_ok (q\<lparr>q_eventfd := n\<rparr>) c = consumer_ok q c"
  by (cases c) auto

lemma producer_ok_eventfd [simp]: "producer_ok (q\<lparr>q_eventfd := n\<rparr>) p = producer_ok q p"
  by (cases p) auto

lemma producer_ok_advance:
  "ring_wf q \<Longrightarrow> q_head q \<noteq> q_tail q \<Longrightarrow> producer_ok q p \<Longrightarrow>
   producer_ok (q\<lparr>q_head := ring_next (q_head q)\<rparr>) p"
  using ring_next_neq [of "q_head q" "q_tail q"] by (cases p) (auto simp: ring_wf_def)

lemma producer_step_inv: "producer_step c d \<Longrightarrow> io_inv c \<Longrightarrow> io_inv d"
proof (induction rule: producer_step.induct)
  case (p_write c op t)
  then show ?case
    using consumer_ok_write [of "io_q c" "consumer c" op]
    by (simp add: io_inv_def ring_wf_def contents_def ring_list_write)
next
  case (p_publish c op t)
  then show ?case
    using consumer_ok_publish [of "io_q c" "consumer c"]
    by (simp add: io_inv_def ring_wf_def contents_def ring_list_publish ring_count_push)
qed (auto simp: io_inv_def ring_wf_def contents_def)

lemma consumer_step_inv: "consumer_step c d \<Longrightarrow> io_inv c \<Longrightarrow> io_inv d"
proof (induction rule: consumer_step.induct)
  case (c_advance c r)
  then show ?case
    using producer_ok_advance [of "io_q c" "producer c"]
      ring_list_pop [of "q_head (io_q c)" "q_tail (io_q c)" "q_slots (io_q c)"]
      ring_count_pop [of "q_head (io_q c)" "q_tail (io_q c)"]
    by (auto simp: io_inv_def ring_wf_def contents_def)
qed (auto simp: io_inv_def ring_wf_def contents_def)

interpretation io_machine: stepping io_start io_step io_inv
proof
  fix c d :: io_conf
  show "io_start c \<Longrightarrow> io_inv c"
    by (simp add: io_start_def io_inv_def ring_wf_def contents_def ring_list_def ring_count_def
        IO_Q_SIZE_def)
  show "io_step c d \<Longrightarrow> io_inv c \<Longrightarrow> io_inv d"
    by (auto simp: io_step_def intro: producer_step_inv consumer_step_inv)
qed

text \<open>
  C4. Whatever the interleaving of the worker and its I/O thread, the operations that pops
  have returned are, in order, a prefix of the operations that pushes have published: none
  is lost, duplicated, reordered or read before it is written, and at most 4095 published
  operations are waiting in the ring.
\<close>

theorem io_interleaving_fifo:
  assumes "io_start c" and "io_step\<^sup>*\<^sup>* c d"
  shows "(\<exists>rest. published d = taken d @ rest) \<and> length (contents (io_q d)) \<le> 4095"
  using io_machine.inv_reachable [OF assms] ring_count_bound [of "q_head (io_q d)" "q_tail (io_q d)"]
  by (auto simp: io_inv_def ring_wf_def contents_def IO_Q_SIZE_def)

definition sample_conf :: io_conf where
  "sample_conf = \<lparr>io_q = \<lparr>q_head = 0, q_tail = 0, q_eventfd = 0, q_slots = replicate 4096 inv_op\<rparr>,
     producer = P_idle, consumer = C_idle, published = [], taken = []\<rparr>"

lemma sample_conf_start: "io_start sample_conf"
  by (simp add: sample_conf_def io_start_def IO_Q_SIZE_def)

lemma sample_conf_step: "io_step\<^sup>*\<^sup>* sample_conf (sample_conf\<lparr>producer := P_spin inv_op 1\<rparr>)"
  using p_call [of sample_conf inv_op]
  by (auto simp: sample_conf_def ring_next_def IO_Q_SIZE_def io_step_def)

theorem io_interleaving_fifo_witness:
  "io_step\<^sup>*\<^sup>* sample_conf (sample_conf\<lparr>producer := P_spin inv_op 1\<rparr>)
   \<and> (\<exists>rest. published (sample_conf\<lparr>producer := P_spin inv_op 1\<rparr>)
             = taken (sample_conf\<lparr>producer := P_spin inv_op 1\<rparr>) @ rest)"
  using io_interleaving_fifo [OF sample_conf_start sample_conf_step] sample_conf_step by blast

text \<open>
  C10. The semaphore never strands the I/O thread: if a pop waits in the read of the eventfd
  because its counter is 0, then the producer has published and is about to write the
  eventfd, so the wait is ended by a step that is always enabled.
\<close>

theorem io_eventfd_no_deadlock:
  assumes "io_start c" and "io_step\<^sup>*\<^sup>* c d" and "consumer d = C_drain r"
  shows "0 < q_eventfd (io_q d) \<or> (producer d = P_wake \<and>
     (\<exists>e. producer_step d e \<and> consumer e = C_drain r \<and> 0 < q_eventfd (io_q e)))"
proof (cases "0 < q_eventfd (io_q d)")
  case False
  then have wake: "producer d = P_wake"
    using io_machine.inv_reachable [OF assms(1,2)] assms(3) by (simp add: io_inv_def split: if_splits)
  let ?e = "d\<lparr>io_q := (io_q d)\<lparr>q_eventfd := q_eventfd (io_q d) + 1\<rparr>, producer := P_idle\<rparr>"
  have "producer_step d ?e" "consumer ?e = C_drain r" "0 < q_eventfd (io_q ?e)"
    using p_wake [OF wake] assms(3) by simp_all
  with wake show ?thesis by blast
qed simp

text \<open>A run in which the pop overtakes the push between its publication and its wake-up.\<close>

definition overtaken_conf :: io_conf where
  "overtaken_conf = \<lparr>io_q = \<lparr>q_head = 1, q_tail = 1, q_eventfd = 0,
       q_slots = (replicate 4096 inv_op)[0 := inv_op\<lparr>op_fildes := 3\<rparr>]\<rparr>,
     producer = P_wake, consumer = C_drain (inv_op\<lparr>op_fildes := 3\<rparr>),
     published = [inv_op\<lparr>op_fildes := 3\<rparr>], taken = []\<rparr>"

lemma producer_moves: "producer_step c d \<Longrightarrow> io_step c d"
  and consumer_moves: "consumer_step c d \<Longrightarrow> io_step c d"
  by (simp_all add: io_step_def)

lemma overtaken_conf_reachable: "io_step\<^sup>*\<^sup>* sample_conf overtaken_conf"
proof -
  let ?op = "inv_op\<lparr>op_fildes := 3\<rparr>"
  let ?q = "(io_q sample_conf)\<lparr>q_slots := (replicate 4096 inv_op)[0 := ?op]\<rparr>"
  let ?q1 = "?q\<lparr>q_tail := 1\<rparr>"
  have "io_step\<^sup>*\<^sup>* sample_conf (sample_conf\<lparr>producer := P_spin ?op 1\<rparr>)"
    by (rule snoc_step [where r = io_step, OF rtranclp.rtrancl_refl producer_moves [OF p_call [of _ ?op]]])
      (simp_all add: sample_conf_def ring_next_def IO_Q_SIZE_def)
  then have "io_step\<^sup>*\<^sup>* sample_conf (sample_conf\<lparr>producer := P_write ?op 1\<rparr>)"
    by (rule snoc_step [where r = io_step, OF _ producer_moves [OF p_room]]) (simp_all add: sample_conf_def)
  then have "io_step\<^sup>*\<^sup>* sample_conf (sample_conf\<lparr>io_q := ?q, producer := P_publish ?op 1\<rparr>)"
    by (rule snoc_step [where r = io_step, OF _ producer_moves [OF p_write]]) (simp_all add: sample_conf_def)
  then have "io_step\<^sup>*\<^sup>* sample_conf (sample_conf\<lparr>io_q := ?q1, producer := P_wake, published := [?op]\<rparr>)"
    by (rule snoc_step [where r = io_step, OF _ producer_moves [OF p_publish]]) (simp_all add: sample_conf_def)
  then have "io_step\<^sup>*\<^sup>* sample_conf (sample_conf\<lparr>io_q := ?q1, producer := P_wake, consumer := C_test,
      published := [?op]\<rparr>)"
    by (rule snoc_step [where r = io_step, OF _ consumer_moves [OF c_call]]) (simp_all add: sample_conf_def)
  then have "io_step\<^sup>*\<^sup>* sample_conf (sample_conf\<lparr>io_q := ?q1, producer := P_wake, consumer := C_load,
      published := [?op]\<rparr>)"
    by (rule snoc_step [where r = io_step, OF _ consumer_moves [OF c_some]]) (simp_all add: sample_conf_def)
  then have "io_step\<^sup>*\<^sup>* sample_conf (sample_conf\<lparr>io_q := ?q1, producer := P_wake,
      consumer := C_advance ?op, published := [?op]\<rparr>)"
    by (rule snoc_step [where r = io_step, OF _ consumer_moves [OF c_load]]) (simp_all add: sample_conf_def)
  then show ?thesis
    by (rule snoc_step [where r = io_step, OF _ consumer_moves [OF c_advance]])
      (simp_all add: sample_conf_def overtaken_conf_def ring_next_def IO_Q_SIZE_def)
qed

theorem io_eventfd_no_deadlock_witness:
  "consumer overtaken_conf = C_drain (inv_op\<lparr>op_fildes := 3\<rparr>) \<and> q_eventfd (io_q overtaken_conf) = 0
   \<and> (\<exists>e. producer_step overtaken_conf e \<and> 0 < q_eventfd (io_q e))"
  using io_eventfd_no_deadlock [OF sample_conf_start overtaken_conf_reachable,
      of "inv_op\<lparr>op_fildes := 3\<rparr>"]
  by (auto simp: overtaken_conf_def)

end
