(* ===== verification/Mutex.thy ===== *)
theory Mutex
  imports Prelude
begin

text \<open>
  The locks of the runtime: the owned mutex of \<open>worker_mutex.c\<close> and the plain spin lock of
  \<open>spin_mutex.c\<close>, as programs of one thread, in which a lock that is taken blocks, and the
  contract both of them keep.
\<close>

section \<open>The owned mutex\<close>

record mutex =
  mx_lock :: int
  mx_owner :: ptr

definition TRY_ACQUIRE :: "(mutex, bool) prog" where
  "TRY_ACQUIRE =
     bindP (gets mx_lock) (\<lambda>old.
       result [modify (mx_lock_update (\<lambda>_. 1))] (ret (old = 0)))"

definition cilkrts_mutex_init :: "(mutex, unit) prog" where
  "cilkrts_mutex_init = block [modify (mx_owner_update (\<lambda>_. NULL)), modify (mx_lock_update (\<lambda>_. 0))]"

definition cilkrts_mutex_lock :: "ptr \<Rightarrow> (mutex, unit) prog" where
  "cilkrts_mutex_lock w =
     bindP TRY_ACQUIRE (\<lambda>acquired.
       if acquired then
         bindP (gets mx_owner) (\<lambda>owner. block [
           CILK_ASSERT ''m->owner == 0'' (owner = NULL),
           modify (mx_owner_update (\<lambda>_. w))])
       else failP Blocked)"

definition cilkrts_mutex_trylock :: "ptr \<Rightarrow> (mutex, bool) prog" where
  "cilkrts_mutex_trylock w =
     bindP TRY_ACQUIRE (\<lambda>acquired.
       if acquired then
         bindP (gets mx_owner) (\<lambda>owner. result [
           CILK_ASSERT ''m->owner == 0'' (owner = NULL),
           modify (mx_owner_update (\<lambda>_. w))]
         (ret True))
       else ret False)"

definition cilkrts_mutex_unlock :: "ptr \<Rightarrow> (mutex, unit) prog" where
  "cilkrts_mutex_unlock w =
     bindP (gets mx_owner) (\<lambda>owner. block [
       CILK_ASSERT ''m->owner == w'' (owner = w),
       modify (mx_owner_update (\<lambda>_. NULL)),
       modify (mx_lock_update (\<lambda>_. 0))])"

definition free_mutex :: mutex where
  "free_mutex = \<lparr>mx_lock = 0, mx_owner = NULL\<rparr>"

definition held_by :: "ptr \<Rightarrow> mutex" where
  "held_by w = \<lparr>mx_lock = 1, mx_owner = w\<rparr>"

lemmas mutex_run =
  TRY_ACQUIRE_def cilkrts_mutex_init_def cilkrts_mutex_lock_def cilkrts_mutex_trylock_def
  cilkrts_mutex_unlock_def free_mutex_def held_by_def

lemma mutex_init_free [simp]: "cilkrts_mutex_init m = Inr ((), free_mutex)"
  by (simp add: mutex_run run)

lemma mutex_lock_free [simp]: "cilkrts_mutex_lock w free_mutex = Inr ((), held_by w)"
  by (simp add: mutex_run run)

lemma mutex_trylock_free [simp]: "cilkrts_mutex_trylock w free_mutex = Inr (True, held_by w)"
  by (simp add: mutex_run run)

lemma mutex_trylock_held [simp]: "cilkrts_mutex_trylock w (held_by v) = Inr (False, held_by v)"
  by (simp add: mutex_run run)

lemma mutex_lock_held [simp]: "cilkrts_mutex_lock w (held_by v) = Inl Blocked"
  by (simp add: mutex_run run)

lemma mutex_unlock_held [simp]:
  "cilkrts_mutex_unlock w (held_by v) =
     (if v = w then Inr ((), free_mutex) else Inl (Assertion ''m->owner == w''))"
  by (simp add: mutex_run run)

lemma mx_owner_held [simp]: "mx_owner (held_by w) = w" "mx_owner free_mutex = NULL"
  "mx_lock (held_by w) = 1" "mx_lock free_mutex = 0"
  by (simp_all add: held_by_def free_mutex_def)

section \<open>The spin mutex\<close>

record spin_mutex =
  sm_lock :: int

definition spin_mutex_init :: "(spin_mutex, unit) prog" where
  "spin_mutex_init = modify (sm_lock_update (\<lambda>_. 0))"

definition spin_mutex_trylock :: "(spin_mutex, bool) prog" where
  "spin_mutex_trylock =
     bindP (gets sm_lock) (\<lambda>old. result [modify (sm_lock_update (\<lambda>_. 1))] (ret (old = 0)))"

definition spin_mutex_lock :: "(spin_mutex, unit) prog" where
  "spin_mutex_lock = bindP spin_mutex_trylock (\<lambda>acquired. if acquired then ret () else failP Blocked)"

definition spin_mutex_unlock :: "(spin_mutex, unit) prog" where
  "spin_mutex_unlock = modify (sm_lock_update (\<lambda>_. 0))"

section \<open>The contract of a lock\<close>

text \<open>
  What the rest of the runtime relies on: a free lock can be taken, a taken lock refuses
  everyone, and the thread that took it can give it back.
\<close>

locale lock_interface =
  fixes unheld :: "'m \<Rightarrow> bool"
    and held :: "'o \<Rightarrow> 'm \<Rightarrow> bool"
    and acquire :: "'o \<Rightarrow> ('m, unit) prog"
    and attempt :: "'o \<Rightarrow> ('m, bool) prog"
    and release :: "'o \<Rightarrow> ('m, unit) prog"
  assumes acquire_unheld: "unheld m \<Longrightarrow> \<exists>n. acquire w m = Inr ((), n) \<and> held w n"
    and attempt_unheld: "unheld m \<Longrightarrow> \<exists>n. attempt w m = Inr (True, n) \<and> held w n"
    and acquire_held: "held v m \<Longrightarrow> acquire w m = Inl Blocked"
    and attempt_held: "held v m \<Longrightarrow> attempt w m = Inr (False, m)"
    and release_held: "held w m \<Longrightarrow> \<exists>n. release w m = Inr ((), n) \<and> unheld n"
begin

lemma critical_section: "unheld m \<Longrightarrow> \<exists>n. block [acquire w, release w] m = Inr ((), n) \<and> unheld n"
  using acquire_unheld [of m w] release_held by (fastforce simp: run)

lemma no_reentry: "unheld m \<Longrightarrow> block [acquire w, acquire v] m = Inl Blocked"
  using acquire_unheld [of m w] acquire_held by (fastforce simp: run)

end

interpretation worker_mutex: lock_interface "\<lambda>m. m = free_mutex" "\<lambda>w m. m = held_by w"
  cilkrts_mutex_lock cilkrts_mutex_trylock cilkrts_mutex_unlock
  by unfold_locales simp_all

interpretation spin: lock_interface "\<lambda>m :: spin_mutex. sm_lock m = 0" "\<lambda>(_ :: unit) m. sm_lock m = 1"
  "\<lambda>_. spin_mutex_lock" "\<lambda>_. spin_mutex_trylock" "\<lambda>_. spin_mutex_unlock"
  by unfold_locales (simp_all add: run spin_mutex_lock_def spin_mutex_trylock_def spin_mutex_unlock_def)

end
