(* ===== verification/Steal_Lock.thy ===== *)
theory Steal_Lock
  imports Mutex
begin

text \<open>
  A worker and its thieves at the same time. The owner runs \<open>__cilkrts_worker_lock\<close> and
  \<open>__cilkrts_worker_unlock\<close>, which set and reset its \<open>do_not_steal\<close> flag around its lock; a thief
  takes the same lock as \<open>random_steal\<close> does, by \<open>__cilkrts_mutex_trylock\<close> without a look at the flag, and gives
  it back by \<open>worker_unlock_other\<close>. Every access is one step, and the steps of the owner and of any number of
  thieves interleave freely. A \<open>CILK_ASSERT\<close> that fails sets \<open>lc_failed\<close>. (\<open>worker_trylock_other\<close>, the
  function that would look at the flag, is called nowhere; it is in \<open>Worker_Lock\<close>.)
\<close>

section \<open>The machine\<close>

text \<open>
  The owner: \<open>O_spin\<close> is the loop of \<open>__cilkrts_mutex_lock\<close> after the flag is set, \<open>O_won\<close>
  has exchanged the lock word, \<open>O_inside\<close> is the critical section, \<open>O_cleared\<close> has erased
  its name from the lock, and \<open>O_released\<close> still has the flag to reset.
\<close>

datatype owner_pc = O_idle | O_spin | O_won | O_inside | O_cleared | O_released

text \<open>
  A thief: \<open>T_won\<close> has exchanged the word of the lock and found it free, \<open>T_inside\<close> is the steal,
  \<open>T_leave\<close> has erased its name from the lock.
\<close>

datatype thief_pc = T_idle | T_won | T_inside | T_leave

record lock_conf =
  lc_lock :: mutex
  lc_do_not_steal :: int
  lc_owner :: owner_pc
  lc_thief :: "ptr \<Rightarrow> thief_pc"
  lc_failed :: bool
  lc_overtakes :: nat

text \<open>\<open>lc_overtakes\<close> counts the thieves that took the lock since the owner set its flag.\<close>

definition expect :: "bool \<Rightarrow> lock_conf \<Rightarrow> lock_conf" where
  "expect ex c = c\<lparr>lc_failed := lc_failed c \<or> \<not> ex\<rparr>"

definition at_thief :: "ptr \<Rightarrow> thief_pc \<Rightarrow> lock_conf \<Rightarrow> lock_conf" where
  "at_thief t p c = c\<lparr>lc_thief := (lc_thief c)(t := p)\<rparr>"

inductive owner_step :: "ptr \<Rightarrow> lock_conf \<Rightarrow> lock_conf \<Rightarrow> bool" for w where
  o_flag: "lc_owner c = O_idle \<Longrightarrow>
     owner_step w c (expect (lc_do_not_steal c = 0)
       (c\<lparr>lc_do_not_steal := 1, lc_owner := O_spin, lc_overtakes := 0\<rparr>))"
| o_spin: "lc_owner c = O_spin \<Longrightarrow> mx_lock (lc_lock c) \<noteq> 0 \<Longrightarrow>
     owner_step w c (c\<lparr>lc_lock := (lc_lock c)\<lparr>mx_lock := 1\<rparr>\<rparr>)"
| o_acquire: "lc_owner c = O_spin \<Longrightarrow> mx_lock (lc_lock c) = 0 \<Longrightarrow>
     owner_step w c (c\<lparr>lc_lock := (lc_lock c)\<lparr>mx_lock := 1\<rparr>, lc_owner := O_won\<rparr>)"
| o_own: "lc_owner c = O_won \<Longrightarrow>
     owner_step w c (expect (mx_owner (lc_lock c) = NULL)
       (c\<lparr>lc_lock := (lc_lock c)\<lparr>mx_owner := w\<rparr>, lc_owner := O_inside\<rparr>))"
| o_disown: "lc_owner c = O_inside \<Longrightarrow>
     owner_step w c (expect (mx_owner (lc_lock c) = w)
       (c\<lparr>lc_lock := (lc_lock c)\<lparr>mx_owner := NULL\<rparr>, lc_owner := O_cleared\<rparr>))"
| o_release: "lc_owner c = O_cleared \<Longrightarrow>
     owner_step w c (c\<lparr>lc_lock := (lc_lock c)\<lparr>mx_lock := 0\<rparr>, lc_owner := O_released\<rparr>)"
| o_unflag: "lc_owner c = O_released \<Longrightarrow>
     owner_step w c (expect (lc_do_not_steal c = 1) (c\<lparr>lc_do_not_steal := 0, lc_owner := O_idle\<rparr>))"

text \<open>
  An attempt that finds the lock taken exchanges the word and gives up; one that waits for the lock,
  as \<open>__cilkrts_mutex_lock\<close> does, repeats this step.
\<close>

inductive thief_step :: "ptr \<Rightarrow> lock_conf \<Rightarrow> lock_conf \<Rightarrow> bool" for t where
  t_fail: "lc_thief c t = T_idle \<Longrightarrow> mx_lock (lc_lock c) \<noteq> 0 \<Longrightarrow>
     thief_step t c (c\<lparr>lc_lock := (lc_lock c)\<lparr>mx_lock := 1\<rparr>\<rparr>)"
| t_win: "lc_thief c t = T_idle \<Longrightarrow> mx_lock (lc_lock c) = 0 \<Longrightarrow>
     thief_step t c (at_thief t T_won (c\<lparr>lc_lock := (lc_lock c)\<lparr>mx_lock := 1\<rparr>,
       lc_overtakes := lc_overtakes c + 1\<rparr>))"
| t_own: "lc_thief c t = T_won \<Longrightarrow>
     thief_step t c (expect (mx_owner (lc_lock c) = NULL)
       (at_thief t T_inside (c\<lparr>lc_lock := (lc_lock c)\<lparr>mx_owner := t\<rparr>\<rparr>)))"
| t_disown: "lc_thief c t = T_inside \<Longrightarrow>
     thief_step t c (expect (mx_owner (lc_lock c) = t)
       (at_thief t T_leave (c\<lparr>lc_lock := (lc_lock c)\<lparr>mx_owner := NULL\<rparr>\<rparr>)))"
| t_release: "lc_thief c t = T_leave \<Longrightarrow>
     thief_step t c (at_thief t T_idle (c\<lparr>lc_lock := (lc_lock c)\<lparr>mx_lock := 0\<rparr>\<rparr>))"

definition lock_step :: "ptr \<Rightarrow> lock_conf \<Rightarrow> lock_conf \<Rightarrow> bool" where
  "lock_step w c d \<longleftrightarrow> owner_step w c d \<or> (\<exists>t. t \<noteq> NULL \<and> thief_step t c d)"

definition lock_start :: "lock_conf \<Rightarrow> bool" where
  "lock_start c \<longleftrightarrow> lc_lock c = free_mutex \<and> lc_do_not_steal c = 0
     \<and> lc_owner c = O_idle \<and> lc_thief c = (\<lambda>_. T_idle) \<and> \<not> lc_failed c \<and> lc_overtakes c = 0"

section \<open>Its invariant\<close>

text \<open>Who has exchanged the word of the lock, and who has written its name in it.\<close>

definition thief_has_lock :: "thief_pc \<Rightarrow> bool" where
  "thief_has_lock p \<longleftrightarrow> p \<noteq> T_idle"

definition thief_named_lock :: "thief_pc \<Rightarrow> bool" where
  "thief_named_lock p \<longleftrightarrow> p = T_inside"

lemmas thief_parts [simp] = thief_has_lock_def thief_named_lock_def

fun owner_has_lock :: "owner_pc \<Rightarrow> bool" where
  "owner_has_lock O_won = True"
| "owner_has_lock O_inside = True"
| "owner_has_lock O_cleared = True"
| "owner_has_lock _ = False"

definition worker_lock_inv :: "ptr \<Rightarrow> lock_conf \<Rightarrow> bool" where
  "worker_lock_inv w c \<longleftrightarrow>
     (\<forall>t. thief_has_lock (lc_thief c t) \<longrightarrow> mx_lock (lc_lock c) \<noteq> 0 \<and> \<not> owner_has_lock (lc_owner c)
        \<and> mx_owner (lc_lock c) = (if thief_named_lock (lc_thief c t) then t else NULL))
     \<and> (\<forall>t u. thief_has_lock (lc_thief c t) \<longrightarrow> thief_has_lock (lc_thief c u) \<longrightarrow> t = u)
     \<and> (owner_has_lock (lc_owner c) \<longrightarrow> mx_lock (lc_lock c) \<noteq> 0
        \<and> mx_owner (lc_lock c) = (if lc_owner c = O_inside then w else NULL))
     \<and> (mx_lock (lc_lock c) = 0 \<longrightarrow> mx_owner (lc_lock c) = NULL)"

definition flag_inv :: "lock_conf \<Rightarrow> bool" where
  "flag_inv c \<longleftrightarrow> lc_do_not_steal c = (if lc_owner c = O_idle then 0 else 1)"

definition lock_inv :: "ptr \<Rightarrow> lock_conf \<Rightarrow> bool" where
  "lock_inv w c \<longleftrightarrow> worker_lock_inv w c \<and> flag_inv c \<and> \<not> lc_failed c"

lemma owner_keeps_lock: "owner_step w c d \<Longrightarrow> worker_lock_inv w c \<Longrightarrow> worker_lock_inv w d"
  by (induction rule: owner_step.induct) (auto simp: worker_lock_inv_def expect_def)

lemma owner_keeps_flag: "owner_step w c d \<Longrightarrow> flag_inv c \<Longrightarrow> flag_inv d"
  by (induction rule: owner_step.induct) (auto simp: flag_inv_def expect_def)

lemma owner_not_failed: "owner_step w c d \<Longrightarrow> lock_inv w c \<Longrightarrow> \<not> lc_failed d"
  by (induction rule: owner_step.induct)
    (auto simp: lock_inv_def worker_lock_inv_def flag_inv_def expect_def)

lemma worker_lock_invD:
  "worker_lock_inv w c \<Longrightarrow> thief_has_lock (lc_thief c t) \<Longrightarrow> mx_lock (lc_lock c) \<noteq> 0
     \<and> \<not> owner_has_lock (lc_owner c)
     \<and> mx_owner (lc_lock c) = (if thief_named_lock (lc_thief c t) then t else NULL)
     \<and> (\<forall>u. u \<noteq> t \<longrightarrow> \<not> thief_has_lock (lc_thief c u))"
  by (auto simp: worker_lock_inv_def)

lemma thief_excludes:
  "worker_lock_inv w c \<Longrightarrow> thief_has_lock (lc_thief c t) \<Longrightarrow> \<not> owner_has_lock (lc_owner c)
     \<and> (thief_has_lock (lc_thief c u) \<longrightarrow> t = u)"
  unfolding worker_lock_inv_def by blast

lemma lock_free:
  "worker_lock_inv w c \<Longrightarrow> mx_lock (lc_lock c) = 0 \<Longrightarrow>
     mx_owner (lc_lock c) = NULL \<and> \<not> owner_has_lock (lc_owner c) \<and> lc_thief c = (\<lambda>_. T_idle)"
  by (auto simp: worker_lock_inv_def)

lemma worker_lock_invI:
  "mx_lock (lc_lock c) \<noteq> 0 \<Longrightarrow> \<not> owner_has_lock (lc_owner c) \<Longrightarrow>
   \<forall>u. u \<noteq> t \<longrightarrow> \<not> thief_has_lock (lc_thief c u) \<Longrightarrow>
   mx_owner (lc_lock c) = (if thief_named_lock (lc_thief c t) then t else NULL) \<Longrightarrow>
   worker_lock_inv w c"
  by (unfold worker_lock_inv_def, intro conjI allI impI) metis+

lemma thief_keeps_lock: "thief_step t c d \<Longrightarrow> worker_lock_inv w c \<Longrightarrow> worker_lock_inv w d"
proof (induction rule: thief_step.induct)
  case (t_win c)
  then show ?case using lock_free [of w c]
    by (intro worker_lock_invI [of _ t]) (auto simp: at_thief_def)
next
  case (t_release c)
  then have "lc_thief c u = T_idle" if "u \<noteq> t" for u
    using that worker_lock_invD [of w c t] by simp
  moreover have "mx_owner (lc_lock c) = NULL" "\<not> owner_has_lock (lc_owner c)"
    using t_release worker_lock_invD [of w c t] by simp_all
  ultimately show ?case by (simp add: worker_lock_inv_def at_thief_def)
next
  case (t_own c)
  then show ?case using worker_lock_invD [of w c t]
    by (intro worker_lock_invI [of _ t]) (auto simp: at_thief_def expect_def)
next
  case (t_disown c)
  then show ?case using worker_lock_invD [of w c t]
    by (intro worker_lock_invI [of _ t]) (auto simp: at_thief_def expect_def)
qed (simp add: worker_lock_inv_def)

lemma thief_keeps_flag: "thief_step t c d \<Longrightarrow> flag_inv c \<Longrightarrow> flag_inv d"
  by (induction rule: thief_step.induct) (auto simp: flag_inv_def expect_def at_thief_def)

lemma thief_not_failed: "thief_step t c d \<Longrightarrow> lock_inv w c \<Longrightarrow> \<not> lc_failed d"
  by (induction rule: thief_step.induct)
    (auto simp: lock_inv_def expect_def at_thief_def dest: worker_lock_invD [of w _ t])

interpretation steal_lock_machine: stepping lock_start "lock_step w" "lock_inv w" for w
proof
  fix c d
  show "lock_start c \<Longrightarrow> lock_inv w c"
    by (simp add: lock_start_def lock_inv_def worker_lock_inv_def flag_inv_def)
  assume "lock_step w c d" and inv: "lock_inv w c"
  then show "lock_inv w d"
    unfolding lock_step_def
  proof (elim disjE exE conjE)
    assume "owner_step w c d"
    with inv show ?thesis
      using owner_not_failed owner_keeps_lock owner_keeps_flag unfolding lock_inv_def by blast
  next
    fix t assume "thief_step t c d"
    with inv show ?thesis
      using thief_not_failed thief_keeps_lock thief_keeps_flag unfolding lock_inv_def by blast
  qed
qed

text \<open>
  C7. The worker's lock excludes: in every state that a worker and any number of thieves can
  reach, no assertion of the mutex or of the \<open>do_not_steal\<close> flag has failed, the owner is not
  in its critical section while a thief is in its own, and no two thieves are.
\<close>

theorem steal_lock_excludes:
  assumes "lock_start c" and "(lock_step w)\<^sup>*\<^sup>* c d"
  shows "\<not> lc_failed d
     \<and> \<not> (lc_owner d = O_inside \<and> lc_thief d t = T_inside)
     \<and> (lc_thief d t = T_inside \<and> lc_thief d u = T_inside \<longrightarrow> t = u)"
proof -
  have "worker_lock_inv w d" "\<not> lc_failed d"
    using steal_lock_machine.inv_reachable [OF assms] by (simp_all add: lock_inv_def)
  then show ?thesis
    using thief_excludes [of w d t u] by (cases "lc_thief d t = T_inside") auto
qed

section \<open>What the flag does not promise\<close>

lemma thief_moves: "t \<noteq> 0 \<Longrightarrow> thief_step t c d \<Longrightarrow> lock_step w c d"
  by (auto simp: lock_step_def)

lemma owner_moves: "owner_step w c d \<Longrightarrow> lock_step w c d"
  by (simp add: lock_step_def)

text \<open>Where the lock is free a thief can take it and give it back, whatever the flag says.\<close>

lemma thief_visits:
  assumes "worker_lock_inv w c" and "mx_lock (lc_lock c) = 0" and "t \<noteq> NULL"
  shows "(lock_step w)\<^sup>*\<^sup>* c (c\<lparr>lc_overtakes := lc_overtakes c + 1\<rparr>)"
proof -
  note move = thief_moves [OF assms(3), of _ _ w] and unfold = at_thief_def expect_def
  have idle: "lc_thief c t = T_idle" "(lc_thief c)(t := T_idle) = lc_thief c" "mx_owner (lc_lock c) = NULL"
    using lock_free [OF assms(1,2)] by auto
  then have free: "(lc_lock c)\<lparr>mx_owner := 0, mx_lock := 0\<rparr> = lc_lock c"
    using assms(2) by (cases "lc_lock c") simp
  let ?won = "at_thief t T_won (c\<lparr>lc_lock := (lc_lock c)\<lparr>mx_lock := 1\<rparr>, lc_overtakes := lc_overtakes c + 1\<rparr>)"
  let ?inside = "at_thief t T_inside (?won\<lparr>lc_lock := (lc_lock ?won)\<lparr>mx_owner := t\<rparr>\<rparr>)"
  let ?leave = "at_thief t T_leave (?inside\<lparr>lc_lock := (lc_lock ?inside)\<lparr>mx_owner := NULL\<rparr>\<rparr>)"
  have "lock_step w c ?won" by (rule move [OF t_win [OF idle(1) assms(2)]])
  moreover have "lock_step w ?won ?inside"
    using move [OF t_own [of ?won t]] idle(3) by (simp add: unfold)
  moreover have "lock_step w ?inside ?leave"
    using move [OF t_disown [of ?inside t]] by (simp add: unfold)
  moreover have "lock_step w ?leave (c\<lparr>lc_overtakes := lc_overtakes c + 1\<rparr>)"
    using move [OF t_release [of ?leave t]] idle free by (simp add: unfold)
  ultimately show ?thesis by (meson converse_rtranclp_into_rtranclp rtranclp.rtrancl_refl)
qed

text \<open>
  C8. The comment in \<open>worker_trylock_other\<close> promises that a worker which has set its \<open>do_not_steal\<close> flag
  waits for at most one more thief. The thieves of \<open>random_steal\<close> do not keep that promise: from every
  reachable state in which the owner has set its flag and waits, and the lock is free for a moment, any number
  of thieves can take the lock one after the other before the owner gets it.
\<close>

theorem overtaking_has_no_bound:
  assumes "lock_start c" and "(lock_step w)\<^sup>*\<^sup>* c d"
    and "lc_owner d = O_spin" and "mx_lock (lc_lock d) = 0"
  shows "\<exists>e. (lock_step w)\<^sup>*\<^sup>* d e \<and> lc_owner e = O_spin \<and> lc_do_not_steal e = 1
     \<and> lc_overtakes e = lc_overtakes d + n"
proof -
  have inv: "lock_inv w d" by (rule steal_lock_machine.inv_reachable [OF assms(1,2)])
  have "(lock_step w)\<^sup>*\<^sup>* d (d\<lparr>lc_overtakes := lc_overtakes d + n\<rparr>)"
  proof (induction n)
    case (Suc n)
    have "worker_lock_inv w (d\<lparr>lc_overtakes := lc_overtakes d + n\<rparr>)"
      using inv by (simp add: lock_inv_def worker_lock_inv_def)
    from thief_visits [OF this, of 1] Suc.IH assms(4) show ?case by simp
  qed simp
  then show ?thesis
    using inv assms(3) by (intro exI [of _ "d\<lparr>lc_overtakes := lc_overtakes d + n\<rparr>"]) (simp add: lock_inv_def flag_inv_def)
qed

section \<open>A run\<close>

text \<open>
  The owner 7 sets its flag; before it looks at the lock, thief 8 takes it, is in its critical
  section while the owner spins, and gives it back.
\<close>

definition quiet_locks :: lock_conf where
  "quiet_locks = \<lparr>lc_lock = free_mutex, lc_do_not_steal = 0,
     lc_owner = O_idle, lc_thief = (\<lambda>_. T_idle), lc_failed = False, lc_overtakes = 0\<rparr>"

definition waiting_locks :: lock_conf where
  "waiting_locks = quiet_locks\<lparr>lc_do_not_steal := 1, lc_owner := O_spin\<rparr>"

definition overtaken_locks :: lock_conf where
  "overtaken_locks = \<lparr>lc_lock = \<lparr>mx_lock = 1, mx_owner = 8\<rparr>,
     lc_do_not_steal = 1, lc_owner = O_spin, lc_thief = (\<lambda>_. T_idle)(8 := T_inside),
     lc_failed = False, lc_overtakes = 1\<rparr>"

lemmas locks_defs = waiting_locks_def quiet_locks_def overtaken_locks_def free_mutex_def at_thief_def expect_def

lemma quiet_locks_start: "lock_start quiet_locks"
  by (simp add: quiet_locks_def lock_start_def)

lemma waiting_locks_reachable: "(lock_step 7)\<^sup>*\<^sup>* quiet_locks waiting_locks"
  using owner_moves [OF o_flag [of quiet_locks 7]] by (simp add: locks_defs)

lemma overtaken_locks_reachable: "(lock_step 7)\<^sup>*\<^sup>* quiet_locks overtaken_locks"
proof -
  note move = thief_moves [of 8, simplified]
  have "lock_step 7 waiting_locks (at_thief 8 T_won (waiting_locks\<lparr>lc_lock := \<lparr>mx_lock = 1, mx_owner = 0\<rparr>, lc_overtakes := 1\<rparr>))"
    using move [OF t_win [of waiting_locks 8]] by (simp add: locks_defs)
  moreover have "lock_step 7 (at_thief 8 T_won (waiting_locks\<lparr>lc_lock := \<lparr>mx_lock = 1, mx_owner = 0\<rparr>, lc_overtakes := 1\<rparr>))
      overtaken_locks"
    using move [OF t_own [of "at_thief 8 T_won (waiting_locks\<lparr>lc_lock := \<lparr>mx_lock = 1, mx_owner = 0\<rparr>, lc_overtakes := 1\<rparr>)" 8]]
    by (simp add: locks_defs)
  ultimately show ?thesis
    using waiting_locks_reachable by (meson rtranclp.rtrancl_into_rtrancl)
qed

theorem steal_lock_excludes_witness:
  "(lock_step 7)\<^sup>*\<^sup>* quiet_locks overtaken_locks \<and> lc_thief overtaken_locks 8 = T_inside \<and> \<not> lc_failed overtaken_locks
   \<and> lc_owner overtaken_locks \<noteq> O_inside \<and> lc_thief overtaken_locks 9 \<noteq> T_inside"
proof -
  have in8: "lc_thief overtaken_locks 8 = T_inside" by (simp add: overtaken_locks_def)
  note ex = steal_lock_excludes [OF quiet_locks_start overtaken_locks_reachable, of 8 9]
  from ex in8 overtaken_locks_reachable show ?thesis by auto
qed

theorem overtaking_has_no_bound_witness:
  "\<exists>e. (lock_step 7)\<^sup>*\<^sup>* waiting_locks e \<and> lc_owner e = O_spin \<and> lc_do_not_steal e = 1 \<and> lc_overtakes e = 1000"
  using overtaking_has_no_bound [OF quiet_locks_start waiting_locks_reachable, of 1000]
  by (simp add: waiting_locks_def quiet_locks_def free_mutex_def)

end
