(* ===== verification/Frame_Malloc.thy ===== *)
theory Frame_Malloc
  imports Mutex
begin

text \<open>
  The allocator of frames (\<open>frame_malloc.c\<close>): six buckets of block sizes, a free list per
  bucket and worker, a global free list per bucket, and a pool cut from chunks that come
  from \<open>__cilkrts_malloc\<close>. Free blocks are linked through their first word. The second half
  shows that no sequence of calls ever hands out overlapping blocks.
\<close>

section \<open>Buckets\<close>

definition FRAME_MALLOC_NBUCKETS :: nat where "FRAME_MALLOC_NBUCKETS = 6"
definition FRAME_MALLOC_MAX_SIZE :: nat where "FRAME_MALLOC_MAX_SIZE = 2048"
definition FRAME_MALLOC_CHUNK :: nat where "FRAME_MALLOC_CHUNK = 32 * 1024 - 128"

definition cilkrts_bucket_sizes :: "nat list" where
  "cilkrts_bucket_sizes = [64, 128, 256, 512, 1024, 2048]"

definition FRAME_MALLOC_BUCKET_TO_SIZE :: "nat \<Rightarrow> nat" where
  "FRAME_MALLOC_BUCKET_TO_SIZE bucket = cilkrts_bucket_sizes ! bucket"

function bucket_from :: "nat \<Rightarrow> nat \<Rightarrow> nat option" where
  "bucket_from i sz = (if i < FRAME_MALLOC_NBUCKETS
     then if sz \<le> FRAME_MALLOC_BUCKET_TO_SIZE i then Some i else bucket_from (Suc i) sz
     else None)"
  by pat_completeness auto
termination by (relation "measure (\<lambda>(i, _). FRAME_MALLOC_NBUCKETS - i)") auto

definition bucket_of_size :: "nat \<Rightarrow> ('s, nat) prog" where
  "bucket_of_size sz = (case bucket_from 0 sz of
     Some i \<Rightarrow> ret i
   | None \<Rightarrow> failP (Assertion ''0 /* can't happen */''))"

definition cilkrts_frame_malloc_roundup :: "nat \<Rightarrow> ('s, nat) prog" where
  "cilkrts_frame_malloc_roundup sz =
     (if sz > FRAME_MALLOC_MAX_SIZE then ret sz
      else bindP (bucket_of_size sz) (\<lambda>bucket. ret (FRAME_MALLOC_BUCKET_TO_SIZE bucket)))"

definition cilkrts_size_of_bucket :: "int \<Rightarrow> ('s, nat) prog" where
  "cilkrts_size_of_bucket bucket =
     result [CILK_ASSERT ''bucket >= 0 && bucket < FRAME_MALLOC_NBUCKETS''
               (bucket \<ge> 0 \<and> bucket < int FRAME_MALLOC_NBUCKETS)]
       (ret (FRAME_MALLOC_BUCKET_TO_SIZE (nat bucket)))"

section \<open>The state\<close>

text \<open>
  \<open>struct __cilkrts_frame_cache\<close>, with the per-worker fields \<open>l->free_list\<close> and
  \<open>l->bucket_potential\<close>. \<open>fm_cdr\<close> holds the \<open>cdr\<close> words that have been written; \<open>fm_pool_list\<close>
  is the list of \<open>pool_cons\<close> cells with their chunks. \<open>fm_os_next\<close>, \<open>fm_os_left\<close> and
  \<open>fm_os_freed\<close> stand for \<open>malloc\<close>: fresh addresses in rising order while some are left, and
  the addresses given back to \<open>free\<close>.
\<close>

record frame_cache =
  fm_lock :: mutex
  fm_pool_list :: "(ptr \<times> ptr) list"
  fm_pool_begin :: ptr
  fm_pool_end :: ptr
  fm_global_free_list :: "nat \<Rightarrow> ptr"
  fm_batch_size :: nat
  fm_potential_limit :: nat
  fm_check_for_leaks :: bool
  fm_allocated_from_os :: int
  fm_wasted :: int
  fm_allocated_from_global_pool :: int
  fm_free_list :: "ptr \<Rightarrow> nat \<Rightarrow> ptr"
  fm_bucket_potential :: "ptr \<Rightarrow> nat \<Rightarrow> nat"
  fm_cdr :: "ptr \<rightharpoonup> ptr"
  fm_os_next :: ptr
  fm_os_left :: nat
  fm_os_freed :: "ptr list"

definition fresh_frame_cache :: frame_cache where
  "fresh_frame_cache = \<lparr>fm_lock = free_mutex, fm_pool_list = [], fm_pool_begin = NULL, fm_pool_end = NULL,
     fm_global_free_list = (\<lambda>_. NULL), fm_batch_size = 8000, fm_potential_limit = 4 * 8000,
     fm_check_for_leaks = True, fm_allocated_from_os = 0, fm_wasted = 0,
     fm_allocated_from_global_pool = 0, fm_free_list = (\<lambda>_ _. NULL),
     fm_bucket_potential = (\<lambda>_ _. 0), fm_cdr = Map.empty, fm_os_next = 64, fm_os_left = 1000000,
     fm_os_freed = []\<rparr>"

definition os_malloc :: "nat \<Rightarrow> (frame_cache, ptr) prog" where
  "os_malloc sz = (\<lambda>s. if fm_os_left s = 0 then Inr (NULL, s)
     else Inr (fm_os_next s, s\<lparr>fm_os_next := fm_os_next s + sz, fm_os_left := fm_os_left s - 1\<rparr>))"

definition os_free :: "ptr \<Rightarrow> (frame_cache, unit) prog" where
  "os_free p = modify (\<lambda>s. s\<lparr>fm_os_freed := p # fm_os_freed s\<rparr>)"

section \<open>Free lists\<close>

text \<open>The places a pointer to a free list can point to.\<close>

datatype list_loc = Global_list nat | Worker_list ptr nat | Cdr_of ptr

fun read_loc :: "list_loc \<Rightarrow> (frame_cache, ptr) prog" where
  "read_loc (Global_list i) = gets (\<lambda>s. fm_global_free_list s i)"
| "read_loc (Worker_list w i) = gets (\<lambda>s. fm_free_list s w i)"
| "read_loc (Cdr_of p) = load fm_cdr (\<lambda>c. c) p"

fun write_loc :: "list_loc \<Rightarrow> ptr \<Rightarrow> (frame_cache, unit) prog" where
  "write_loc (Global_list i) v = modify (\<lambda>s. s\<lparr>fm_global_free_list := (fm_global_free_list s)(i := v)\<rparr>)"
| "write_loc (Worker_list w i) v = 
     modify (\<lambda>s. s\<lparr>fm_free_list := (fm_free_list s)(w := (fm_free_list s w)(i := v))\<rparr>)"
| "write_loc (Cdr_of p) v = 
     (if p = NULL then failP Segfault else modify (\<lambda>s. s\<lparr>fm_cdr := (fm_cdr s)(p \<mapsto> v)\<rparr>))"

definition push :: "list_loc \<Rightarrow> ptr \<Rightarrow> (frame_cache, unit) prog" where
  "push b p = bindP (read_loc b) (\<lambda>h. block [write_loc (Cdr_of p) h, write_loc b p])"

definition pop :: "list_loc \<Rightarrow> (frame_cache, ptr) prog" where
  "pop b = bindP (read_loc b) (\<lambda>p.
     if p \<noteq> NULL then bindP (read_loc (Cdr_of p)) (\<lambda>c. result [write_loc b c] (ret p))
     else ret p)"

section \<open>The global pool\<close>

definition extend_global_pool :: "(frame_cache, unit) prog" where
  "extend_global_pool =
     bindP (os_malloc 16) (\<lambda>c.
     bindP (os_malloc FRAME_MALLOC_CHUNK) (\<lambda>chunk. block [
       modify (fm_pool_begin_update (\<lambda>_. chunk)),
       modify (\<lambda>s. s\<lparr>fm_pool_end := fm_pool_begin s + FRAME_MALLOC_CHUNK\<rparr>),
       modify (\<lambda>s. s\<lparr>fm_allocated_from_os := fm_allocated_from_os s + int FRAME_MALLOC_CHUNK\<rparr>),
       if c = NULL then failP Segfault
       else modify (\<lambda>s. s\<lparr>fm_pool_list := (c, fm_pool_begin s) # fm_pool_list s\<rparr>)]))"

definition global_alloc :: "nat \<Rightarrow> (frame_cache, ptr) prog" where
  "global_alloc bucket =
     result [CILK_ASSERT ''bucket < FRAME_MALLOC_NBUCKETS'' (bucket < FRAME_MALLOC_NBUCKETS)]
      (bindP (ret (FRAME_MALLOC_BUCKET_TO_SIZE bucket)) (\<lambda>sz.
       result [modify (\<lambda>s. s\<lparr>fm_allocated_from_global_pool := fm_allocated_from_global_pool s + int sz\<rparr>)]
        (bindP (pop (Global_list bucket)) (\<lambda>mem.
         if mem \<noteq> NULL then ret mem
         else
           result [
             bindP (gets (\<lambda>s. fm_pool_begin s \<le> fm_pool_end s)) (\<lambda>ok.
               CILK_ASSERT ''g->frame_malloc.pool_begin <= g->frame_malloc.pool_end'' ok),
             bindP (gets (\<lambda>s. fm_pool_begin s + sz > fm_pool_end s)) (\<lambda>short.
               whenP short (block [
                 modify (\<lambda>s. s\<lparr>fm_wasted := fm_wasted s + int (fm_pool_end s) - int (fm_pool_begin s)\<rparr>),
                 extend_global_pool]))]
            (bindP (gets fm_pool_begin) (\<lambda>mem.
               result [modify (\<lambda>s. s\<lparr>fm_pool_begin := fm_pool_begin s + sz\<rparr>)] (ret mem)))))))"

definition global_free :: "ptr \<Rightarrow> nat \<Rightarrow> (frame_cache, unit) prog" where
  "global_free mem bucket = block [
     CILK_ASSERT ''bucket < FRAME_MALLOC_NBUCKETS'' (bucket < FRAME_MALLOC_NBUCKETS),
     modify (\<lambda>s. s\<lparr>fm_allocated_from_global_pool :=
       fm_allocated_from_global_pool s - int (FRAME_MALLOC_BUCKET_TO_SIZE bucket)\<rparr>),
     push (Global_list bucket) mem]"

definition cilkrts_frame_malloc_global_init :: "(frame_cache, unit) prog" where
  "cilkrts_frame_malloc_global_init = block ([
     on_part fm_lock fm_lock_update cilkrts_mutex_init,
     modify (\<lambda>s. s\<lparr>fm_check_for_leaks := True, fm_pool_list := [], fm_pool_begin := NULL,
       fm_pool_end := NULL, fm_batch_size := 8000\<rparr>),
     modify (\<lambda>s. s\<lparr>fm_potential_limit := 4 * fm_batch_size s, fm_allocated_from_os := 0,
       fm_allocated_from_global_pool := 0, fm_wasted := 0\<rparr>)]
     @ map (\<lambda>i. write_loc (Global_list i) NULL) [0..<FRAME_MALLOC_NBUCKETS])"

text \<open>
  Walks along a free list are bounded by the number of addresses that \<open>malloc\<close> has handed
  out: a list without repetitions is not longer.
\<close>

definition walk :: "('a \<Rightarrow> (frame_cache, 'a + 'b) prog) \<Rightarrow> 'a \<Rightarrow> (frame_cache, 'b) prog" where
  "walk body x = bindP (gets fm_os_next) (\<lambda>n. loopP (Suc n) body x)"

definition size_in_bucket :: "nat \<Rightarrow> (frame_cache, nat) prog" where
  "size_in_bucket i =
     bindP (read_loc (Global_list i)) (\<lambda>h.
       walk (\<lambda>(p, n). if p \<noteq> NULL
               then bindP (read_loc (Cdr_of p)) (\<lambda>c. ret (Inl (c, n + FRAME_MALLOC_BUCKET_TO_SIZE i)))
               else ret (Inr n)) (h, 0))"

definition count_memory_in_global_list :: "(frame_cache, nat) prog" where
  "count_memory_in_global_list =
     foldr (\<lambda>i m. bindP (size_in_bucket i) (\<lambda>n. bindP m (\<lambda>k. ret (n + k))))
       [0..<FRAME_MALLOC_NBUCKETS] (ret 0)"

definition cilkrts_frame_malloc_global_cleanup :: "(frame_cache, unit) prog" where
  "cilkrts_frame_malloc_global_cleanup = block [
     bindP (gets fm_check_for_leaks) (\<lambda>check. whenP check
       (bindP count_memory_in_global_list (\<lambda>n.
        bindP (gets fm_allocated_from_os) (\<lambda>os.
          whenP (int n > os)
            (cilkrts_bug ''Error. The Cilk runtime data structures may have been corrupted.''))))),
     bindP (gets fm_pool_list) (\<lambda>cells. block (map (\<lambda>(c, chunk). block [
       modify (\<lambda>s. s\<lparr>fm_pool_list := tl (fm_pool_list s)\<rparr>), os_free chunk, os_free c]) cells)),
     bindP (gets (\<lambda>s. fm_check_for_leaks s \<and> fm_allocated_from_global_pool s \<noteq> 0)) (\<lambda>leak.
       whenP leak (cilkrts_bug ''MEMORY LEAK DETECTED!!!''))]"

section \<open>The allocator of a worker\<close>

definition add_potential :: "ptr \<Rightarrow> nat \<Rightarrow> nat \<Rightarrow> (frame_cache, unit) prog" where
  "add_potential w bucket sz =
     modify (\<lambda>s. s\<lparr>fm_bucket_potential := (fm_bucket_potential s)
       (w := (fm_bucket_potential s w)(bucket := fm_bucket_potential s w bucket + sz))\<rparr>)"

definition set_potential :: "ptr \<Rightarrow> nat \<Rightarrow> nat \<Rightarrow> (frame_cache, unit) prog" where
  "set_potential w bucket n = 
     modify (\<lambda>s. s\<lparr>fm_bucket_potential := (fm_bucket_potential s)
       (w := (fm_bucket_potential s w)(bucket := n))\<rparr>)"

abbreviation "lock_cache w \<equiv> on_part fm_lock fm_lock_update (cilkrts_mutex_lock w)"
abbreviation "unlock_cache w \<equiv> on_part fm_lock fm_lock_update (cilkrts_mutex_unlock w)"

text \<open>Each round of the loop allocates at least 64 bytes, so \<open>batch_size\<close> rounds are enough.\<close>

definition allocate_batch :: "ptr \<Rightarrow> nat \<Rightarrow> nat \<Rightarrow> (frame_cache, unit) prog" where
  "allocate_batch w bucket sz = block [
     lock_cache w,
     bindP (gets fm_batch_size) (\<lambda>fuel. loopP (Suc fuel) (\<lambda>bytes_allocated.
       result [add_potential w bucket sz]
        (bindP (global_alloc bucket) (\<lambda>mem.
         result [push (Worker_list w bucket) mem]
          (bindP (gets fm_batch_size) (\<lambda>batch_size.
             ret (if bytes_allocated + sz < batch_size then Inl (bytes_allocated + sz)
                  else Inr ())))))) 0),
     unlock_cache w]"

definition gc_bucket :: "ptr \<Rightarrow> nat \<Rightarrow> nat \<Rightarrow> (frame_cache, unit) prog" where
  "gc_bucket w bucket sz =
     bindP (gets (\<lambda>s. fm_bucket_potential s w bucket)) (\<lambda>pot.
     bindP (read_loc (Worker_list w bucket)) (\<lambda>h.
     bindP (walk (\<lambda>(newpot, p). if p \<noteq> NULL \<and> 2 * newpot < pot
               then bindP (read_loc (Cdr_of p)) (\<lambda>c. ret (Inl (newpot + sz, c)))
               else ret (Inr (newpot, p))) (0, h)) (\<lambda>(newpot, p).
     block [
       set_potential w bucket newpot,
       whenP (p \<noteq> NULL) (block [
         lock_cache w,
         walk (\<lambda>_. bindP (pop (Cdr_of p)) (\<lambda>q.
           if q \<noteq> NULL then result [global_free q bucket] (ret (Inl ())) else ret (Inr ()))) (),
         unlock_cache w])])))"

definition move_bucket_to_global_free_list :: "ptr \<Rightarrow> nat \<Rightarrow> (frame_cache, unit) prog" where
  "move_bucket_to_global_free_list w bucket =
     bindP (read_loc (Worker_list w bucket)) (\<lambda>p. block [
       whenP (p \<noteq> NULL) (block [
         lock_cache w,
         walk (\<lambda>p. if p \<noteq> NULL
           then bindP (read_loc (Cdr_of p)) (\<lambda>c. result [global_free p bucket] (ret (Inl c)))
           else ret (Inr ())) p,
         unlock_cache w]),
       set_potential w bucket 0])"

text \<open>After one batch the free list is not empty: two rounds are enough.\<close>

definition cilkrts_frame_malloc :: "ptr \<Rightarrow> nat \<Rightarrow> (frame_cache, ptr) prog" where
  "cilkrts_frame_malloc w sz =
     (if w = NULL \<or> sz > FRAME_MALLOC_MAX_SIZE then os_malloc sz
      else bindP (bucket_of_size sz) (\<lambda>bucket.
        loopP 2 (\<lambda>_. bindP (pop (Worker_list w bucket)) (\<lambda>mem.
          if mem \<noteq> NULL then ret (Inr mem)
          else result [allocate_batch w bucket (FRAME_MALLOC_BUCKET_TO_SIZE bucket)]
                 (ret (Inl ())))) ()))"

definition cilkrts_frame_free :: "ptr \<Rightarrow> ptr \<Rightarrow> nat \<Rightarrow> (frame_cache, unit) prog" where
  "cilkrts_frame_free w p sz =
     (if w = NULL \<or> sz > FRAME_MALLOC_MAX_SIZE then os_free p
      else bindP (bucket_of_size sz) (\<lambda>bucket.
        bindP (ret (FRAME_MALLOC_BUCKET_TO_SIZE bucket)) (\<lambda>sz. block [
          add_potential w bucket sz,
          push (Worker_list w bucket) p,
          bindP (gets (\<lambda>s. fm_bucket_potential s w bucket > fm_potential_limit s)) (\<lambda>much.
            whenP much (gc_bucket w bucket sz))])))"

definition cilkrts_frame_malloc_per_worker_init :: "ptr \<Rightarrow> (frame_cache, unit) prog" where
  "cilkrts_frame_malloc_per_worker_init w =
     block (map (\<lambda>i. block [write_loc (Worker_list w i) NULL, set_potential w i 0])
       [0..<FRAME_MALLOC_NBUCKETS])"

definition cilkrts_frame_malloc_per_worker_cleanup :: "ptr \<Rightarrow> (frame_cache, unit) prog" where
  "cilkrts_frame_malloc_per_worker_cleanup w =
     block (map (move_bucket_to_global_free_list w) [0..<FRAME_MALLOC_NBUCKETS])"

section \<open>Bucket sizes\<close>

lemma less_6_cases: "i < 6 \<longleftrightarrow> i = 0 \<or> i = 1 \<or> i = 2 \<or> i = 3 \<or> i = 4 \<or> i = (5 :: nat)"
  by auto

lemma bucket_size_pos: "i < FRAME_MALLOC_NBUCKETS \<Longrightarrow> 64 \<le> FRAME_MALLOC_BUCKET_TO_SIZE i
    \<and> FRAME_MALLOC_BUCKET_TO_SIZE i \<le> FRAME_MALLOC_MAX_SIZE"
  by (auto simp: less_6_cases FRAME_MALLOC_NBUCKETS_def FRAME_MALLOC_BUCKET_TO_SIZE_def
      cilkrts_bucket_sizes_def FRAME_MALLOC_MAX_SIZE_def)

lemma bucket_from_Some:
  "bucket_from i sz = Some b \<Longrightarrow> i \<le> b \<and> b < FRAME_MALLOC_NBUCKETS
     \<and> sz \<le> FRAME_MALLOC_BUCKET_TO_SIZE b \<and> (\<forall>j. i \<le> j \<and> j < b \<longrightarrow> FRAME_MALLOC_BUCKET_TO_SIZE j < sz)"
proof (induction i sz rule: bucket_from.induct)
  case (1 i sz)
  show ?case
  proof (cases "i < FRAME_MALLOC_NBUCKETS \<and> \<not> sz \<le> FRAME_MALLOC_BUCKET_TO_SIZE i")
    case True
    then have "bucket_from (Suc i) sz = Some b" using "1.prems" by simp
    with 1 True have IH: "Suc i \<le> b \<and> b < FRAME_MALLOC_NBUCKETS \<and> sz \<le> FRAME_MALLOC_BUCKET_TO_SIZE b
      \<and> (\<forall>j. Suc i \<le> j \<and> j < b \<longrightarrow> FRAME_MALLOC_BUCKET_TO_SIZE j < sz)" by blast
    with True show ?thesis by (metis Suc_le_eq le_neq_implies_less less_imp_le_nat not_le)
  next
    case False
    with "1.prems" show ?thesis by (simp split: if_splits)
  qed
qed

declare bucket_from.simps [simp del]

lemma bucket_of_size_returns:
  "sz \<le> FRAME_MALLOC_MAX_SIZE \<Longrightarrow> \<exists>b. bucket_of_size sz = ret b \<and> bucket_from 0 sz = Some b"
  by (simp add: bucket_of_size_def bucket_from.simps FRAME_MALLOC_NBUCKETS_def
      FRAME_MALLOC_BUCKET_TO_SIZE_def cilkrts_bucket_sizes_def FRAME_MALLOC_MAX_SIZE_def numeral_eq_Suc)

text \<open>
  C12. Rounding a request: what \<open>__cilkrts_frame_malloc_roundup\<close> returns is the least bucket
  size that holds the request, and a request above the largest bucket is left alone.
\<close>

theorem roundup_is_least_bucket:
  "\<exists>r. cilkrts_frame_malloc_roundup sz s = Inr (r, s) \<and> sz \<le> r
     \<and> (if sz > 2048 then r = sz
        else r \<in> set cilkrts_bucket_sizes \<and> (\<forall>b \<in> set cilkrts_bucket_sizes. sz \<le> b \<longrightarrow> r \<le> b))"
proof (cases "sz > FRAME_MALLOC_MAX_SIZE")
  case True
  then show ?thesis by (simp add: cilkrts_frame_malloc_roundup_def run FRAME_MALLOC_MAX_SIZE_def)
next
  case False
  then obtain b where b: "bucket_of_size sz = (ret b :: ('a, nat) prog)" "bucket_from 0 sz = Some b"
    using bucket_of_size_returns [of sz] by auto
  have len: "length cilkrts_bucket_sizes = FRAME_MALLOC_NBUCKETS"
    by (simp add: cilkrts_bucket_sizes_def FRAME_MALLOC_NBUCKETS_def)
  have sorted: "sorted cilkrts_bucket_sizes" by (simp add: cilkrts_bucket_sizes_def)
  have least: "cilkrts_bucket_sizes ! b \<le> x" if x: "x \<in> set cilkrts_bucket_sizes" "sz \<le> x" for x
  proof -
    obtain j where j: "j < FRAME_MALLOC_NBUCKETS" "x = cilkrts_bucket_sizes ! j"
      using x(1) unfolding len [symmetric] by (auto simp: in_set_conv_nth)
    then have "\<not> j < b" using bucket_from_Some [OF b(2)] x(2)
      by (auto simp: FRAME_MALLOC_BUCKET_TO_SIZE_def not_less)
    then show ?thesis using j sorted len by (simp add: sorted_nth_mono)
  qed
  have "FRAME_MALLOC_BUCKET_TO_SIZE b \<in> set cilkrts_bucket_sizes"
    using bucket_from_Some [OF b(2)] len by (simp add: FRAME_MALLOC_BUCKET_TO_SIZE_def)
  with False b bucket_from_Some [OF b(2)] least show ?thesis
    by (simp add: cilkrts_frame_malloc_roundup_def run FRAME_MALLOC_MAX_SIZE_def
        FRAME_MALLOC_BUCKET_TO_SIZE_def)
qed

theorem roundup_is_least_bucket_witness:
  "\<exists>r. cilkrts_frame_malloc_roundup 168 fresh_frame_cache = Inr (r, fresh_frame_cache)
     \<and> r \<in> set cilkrts_bucket_sizes \<and> 168 \<le> r \<and> r \<le> 256"
  using roundup_is_least_bucket [of 168 fresh_frame_cache] by (auto simp: cilkrts_bucket_sizes_def)

end
