(* ===== verification/Reducer_Map.thy ===== *)
theory Reducer_Map
  imports Frame_Malloc
begin

text \<open>
  Reducer maps (\<open>reducer_impl.cpp\<close>): the hash table that holds the views of the reducers a
  strand has used, its lookup, insertion and growth. A table is a value here; the frames its
  buckets are carved from are those of \<open>Frame_Malloc\<close>. \<open>Reducer_Lookup\<close> proves what the table
  stands for, \<open>Reducer_Merge\<close> has the merging of two maps.
\<close>

section \<open>The table\<close>

record elem =
  el_key :: ptr
  el_hb :: ptr
  el_view :: ptr

text \<open>A bucket has one element more than \<open>nmax\<close>; the key of the last one is always 0.\<close>

record bucket =
  bk_nmax :: nat
  bk_el :: "elem list"

record cilkred_map =
  rm_nelem :: nat
  rm_nbuckets :: nat
  rm_buckets :: "bucket option list"
  rm_merging :: bool
  rm_is_leftmost :: bool

definition sizeof_bucket :: "nat \<Rightarrow> nat" where
  "sizeof_bucket nmax = 32 + nmax * 24"

definition roundup :: "nat \<Rightarrow> ('s, nat) prog" where
  "roundup nmax = bindP (cilkrts_frame_malloc_roundup (sizeof_bucket nmax)) (\<lambda>sz.
     ret ((sz - 32) div 24))"

definition is_power_of_2 :: "64 word \<Rightarrow> bool" where
  "is_power_of_2 n \<longleftrightarrow> n AND (n - 1) = 0"

definition make_buckets :: "nat \<Rightarrow> (cilkred_map, unit) prog" where
  "make_buckets new_nbuckets = block [
     modify (\<lambda>s. s\<lparr>rm_nbuckets := new_nbuckets\<rparr>),
     CILK_ASSERT ''is_power_of_2(nbuckets)'' (is_power_of_2 (of_nat new_nbuckets)),
     modify (\<lambda>s. s\<lparr>rm_buckets := replicate new_nbuckets None\<rparr>),
     modify (\<lambda>s. s\<lparr>rm_nelem := 0\<rparr>)]"

definition minsz :: "nat \<Rightarrow> nat" where "minsz n = 1 + n + n div 8"

definition nextsz :: "nat \<Rightarrow> nat" where "nextsz n = 2 * n"

definition need_rehash_p :: "cilkred_map \<Rightarrow> bool" where
  "need_rehash_p h \<longleftrightarrow> minsz (rm_nelem h) > rm_nbuckets h"

definition hashfun :: "cilkred_map \<Rightarrow> ptr \<Rightarrow> nat" where
  "hashfun h key =
     (let k = of_nat key :: 64 word;
          k = k XOR drop_bit 21 k;
          k = k XOR drop_bit 8 k;
          k = k XOR drop_bit 3 k
      in unat (k AND (of_nat (rm_nbuckets h) - 1)))"

text \<open>The bucket after it has room for one element more, and the index of that element.\<close>

definition zero_elem :: elem where "zero_elem = \<lparr>el_key = NULL, el_hb = NULL, el_view = NULL\<rparr>"

fun first_free :: "elem list \<Rightarrow> nat option" where
  "first_free [] = None"
| "first_free (e # es) = (if el_key e = NULL then Some 0 else map_option Suc (first_free es))"

definition grow :: "bucket option \<Rightarrow> ('s, bucket \<times> nat) prog" where
  "grow bp = (case bp of
     None \<Rightarrow> bindP (roundup 0) (\<lambda>nnmax.
       ret (\<lparr>bk_nmax = nnmax, bk_el = replicate (nnmax + 1) zero_elem\<rparr>, 0))
   | Some b \<Rightarrow> (case first_free (take (bk_nmax b) (bk_el b)) of
       Some i \<Rightarrow> ret (b, i)
     | None \<Rightarrow> bindP (roundup (2 * bk_nmax b)) (\<lambda>nnmax.
         ret (\<lparr>bk_nmax = nnmax, bk_el = take (bk_nmax b) (bk_el b)
                @ replicate (nnmax - bk_nmax b + 1) zero_elem\<rparr>, bk_nmax b))))"

text \<open>A pointer to an element is the index of its bucket and its index there.\<close>

type_synonym elem_ptr = "nat \<times> nat"

definition bucket_at :: "nat \<Rightarrow> (cilkred_map, bucket option) prog" where
  "bucket_at i = bindP (gets rm_buckets) (\<lambda>bs.
     if i < length bs then ret (bs ! i) else failP Segfault)"

definition put_elem :: "elem_ptr \<Rightarrow> elem \<Rightarrow> (cilkred_map, unit) prog" where
  "put_elem p e = bindP (bucket_at (fst p)) (\<lambda>b. case b of
     None \<Rightarrow> failP Segfault
   | Some b \<Rightarrow> if snd p < length (bk_el b)
       then modify (\<lambda>s. s\<lparr>rm_buckets := (rm_buckets s)[fst p := Some (b\<lparr>bk_el := (bk_el b)[snd p := e]\<rparr>)]\<rparr>)
       else failP Segfault)"

definition get_elem :: "elem_ptr \<Rightarrow> (cilkred_map, elem) prog" where
  "get_elem p = bindP (bucket_at (fst p)) (\<lambda>b. case b of
     None \<Rightarrow> failP Segfault
   | Some b \<Rightarrow> if snd p < length (bk_el b) then ret (bk_el b ! snd p) else failP Segfault)"

definition insert_no_rehash :: "ptr \<Rightarrow> ptr \<Rightarrow> ptr \<Rightarrow> (cilkred_map, elem_ptr) prog" where
  "insert_no_rehash key hb view = result [
     CILK_ASSERT ''key != 0'' (key \<noteq> NULL),
     CILK_ASSERT ''view != 0'' (view \<noteq> NULL)]
   (bindP (gets (\<lambda>h. hashfun h key)) (\<lambda>i.
    bindP (bucket_at i) (\<lambda>bp.
    bindP (grow bp) (\<lambda>(b, j). result [
      modify (\<lambda>s. s\<lparr>rm_buckets := (rm_buckets s)[i := Some b]\<rparr>),
      put_elem (i, j) \<lparr>el_key = key, el_hb = hb, el_view = view\<rparr>,
      modify (\<lambda>s. s\<lparr>rm_nelem := rm_nelem s + 1\<rparr>)]
    (ret (i, j))))))"

text \<open>The elements of a bucket before the terminating one, in order.\<close>

definition live_elems :: "elem list \<Rightarrow> elem list" where
  "live_elems es = takeWhile (\<lambda>e. el_key e \<noteq> NULL) es"

definition bucket_elems :: "bucket option \<Rightarrow> elem list" where
  "bucket_elems b = (case b of None \<Rightarrow> [] | Some b \<Rightarrow> live_elems (bk_el b))"

definition all_elems :: "cilkred_map \<Rightarrow> elem list" where
  "all_elems h = concat (map bucket_elems (rm_buckets h))"

definition reinsert :: "elem \<Rightarrow> (cilkred_map, unit) prog" where
  "reinsert e = bindP (insert_no_rehash (el_key e) (el_hb e) (el_view e)) (\<lambda>_. ret ())"

definition rehash :: "(cilkred_map, unit) prog" where
  "rehash = bindP (gets rm_nbuckets) (\<lambda>onbuckets.
     bindP (gets rm_nelem) (\<lambda>onelem.
     bindP (gets all_elems) (\<lambda>oels. block [
       make_buckets (nextsz onbuckets),
       block (map reinsert oels),
       bindP (gets rm_nelem) (\<lambda>n. CILK_ASSERT ''nelem == onelem'' (n = onelem))])))"

definition rehash_and_insert :: "ptr \<Rightarrow> ptr \<Rightarrow> ptr \<Rightarrow> (cilkred_map, elem_ptr) prog" where
  "rehash_and_insert key hb view =
     result [bindP (gets need_rehash_p) (\<lambda>b. whenP b rehash)] (insert_no_rehash key hb view)"

text \<open>The walk of a lookup along a bucket. The end of the array is never reached.\<close>

fun find_key :: "ptr \<Rightarrow> elem list \<Rightarrow> nat \<Rightarrow> ('s, nat option) prog" where
  "find_key key [] j = failP Segfault"
| "find_key key (e # es) j =
     (if el_key e = NULL then ret None
      else if el_key e = key then result [CILK_ASSERT ''el->view'' (el_view e \<noteq> NULL)] (ret (Some j))
      else find_key key es (Suc j))"

definition rm_lookup :: "ptr \<Rightarrow> (cilkred_map, elem_ptr option) prog" where
  "rm_lookup key =
     bindP (gets (\<lambda>h. hashfun h key)) (\<lambda>i.
     bindP (bucket_at i) (\<lambda>b. case b of
       None \<Rightarrow> ret None
     | Some b \<Rightarrow> bindP (find_key key (bk_el b) 0) (\<lambda>j. ret (map_option (Pair i) j))))"

definition zero_map :: cilkred_map where
  "zero_map = \<lparr>rm_nelem = 0, rm_nbuckets = 0, rm_buckets = [], rm_merging = False, rm_is_leftmost = False\<rparr>"

definition cilkrts_make_reducer_map :: "(cilkred_map, unit) prog" where
  "cilkrts_make_reducer_map = block [
     make_buckets 1,
     modify (\<lambda>s. s\<lparr>rm_merging := False\<rparr>),
     modify (\<lambda>s. s\<lparr>rm_is_leftmost := False\<rparr>)]"

datatype merge_kind = MERGE_UNORDERED | MERGE_INTO_LEFT | MERGE_INTO_RIGHT

end
