(* ===== verification/Runtime_State.thy ===== *)
theory Runtime_State
  imports Mutex Reducer_Map
begin

text \<open>
  The data of the runtime: the structures of \<open>abi.h\<close>, \<open>full_frame.h\<close>, \<open>deque.h\<close>,
  \<open>deque_pool.h\<close>, \<open>local_state.h\<close>, \<open>global_state.h\<close>, \<open>worker_mutex.h\<close> and \<open>cilk_fiber.h\<close> as
  records, and the memory they live in. A worker and its \<open>local_state\<close> are one record,
  built by extension, since \<open>w->l\<close> never changes after \<open>make_worker\<close>; the prefix of a field names its structure.
  Fields that only debuggers, tools, record and replay or padding use are left out.
\<close>

section \<open>Pedigrees and stack frames\<close>

text \<open>
  A node of a pedigree that another node can point to: the one of a stack frame, or the root of
  a user thread, which is the second of the two nodes of its leaf.
\<close>

datatype ped_ptr = PNULL | PFrame ptr | PRoot ptr

text \<open>The leaf of a user thread: the one it had before it was bound, or the copy in its worker.\<close>

datatype leaf_ptr = No_leaf | Leaf ptr | Worker_leaf ptr

record pedigree =
  ped_rank :: "64 word"
  ped_parent :: ped_ptr

definition CILK_FRAME_STOLEN :: "32 word" where "CILK_FRAME_STOLEN = 0x01"
definition CILK_FRAME_UNSYNCHED :: "32 word" where "CILK_FRAME_UNSYNCHED = 0x02"
definition CILK_FRAME_DETACHED :: "32 word" where "CILK_FRAME_DETACHED = 0x04"
definition CILK_FRAME_EXCEPTION_PROBED :: "32 word" where "CILK_FRAME_EXCEPTION_PROBED = 0x08"
definition CILK_FRAME_EXCEPTING :: "32 word" where "CILK_FRAME_EXCEPTING = 0x10"
definition CILK_FRAME_SF_PEDIGREE_UNSYNCHED :: "32 word" where
  "CILK_FRAME_SF_PEDIGREE_UNSYNCHED = 0x20"
definition CILK_FRAME_FUTURE_PARENT :: "32 word" where "CILK_FRAME_FUTURE_PARENT = 0x40"
definition CILK_FRAME_LAST :: "32 word" where "CILK_FRAME_LAST = 0x80"
definition CILK_FRAME_EXITING :: "32 word" where "CILK_FRAME_EXITING = 0x0100"
definition CILK_FRAME_SUSPENDED :: "32 word" where "CILK_FRAME_SUSPENDED = 0x8000"
definition CILK_FRAME_UNWINDING :: "32 word" where "CILK_FRAME_UNWINDING = 0x10000"
definition CILK_FRAME_VERSION_MASK :: "32 word" where "CILK_FRAME_VERSION_MASK = 0xFF000000"

definition CILK_FRAME_VERSION_VALUE :: "32 word \<Rightarrow> 32 word" where
  "CILK_FRAME_VERSION_VALUE flags = drop_bit 24 (flags AND CILK_FRAME_VERSION_MASK)"

lemmas frame_flag_defs =
  CILK_FRAME_STOLEN_def CILK_FRAME_UNSYNCHED_def CILK_FRAME_DETACHED_def
  CILK_FRAME_EXCEPTION_PROBED_def CILK_FRAME_EXCEPTING_def CILK_FRAME_SF_PEDIGREE_UNSYNCHED_def
  CILK_FRAME_FUTURE_PARENT_def CILK_FRAME_LAST_def CILK_FRAME_EXITING_def
  CILK_FRAME_SUSPENDED_def CILK_FRAME_UNWINDING_def

text \<open>\<open>flags & bit\<close> as a condition, \<open>flags |= bits\<close> and \<open>flags &= ~bits\<close>.\<close>

definition has_flag :: "32 word \<Rightarrow> 32 word \<Rightarrow> bool" where
  "has_flag flags b \<longleftrightarrow> flags AND b \<noteq> 0"

definition set_flag :: "32 word \<Rightarrow> 32 word \<Rightarrow> 32 word" where
  "set_flag bits flags = flags OR bits"

definition clear_flag :: "32 word \<Rightarrow> 32 word \<Rightarrow> 32 word" where
  "clear_flag bits flags = flags AND NOT bits"

text \<open>
  \<open>sf_sp\<close> and \<open>sf_fp\<close> are the stack and frame pointer the jump buffer of the frame holds. The two pedigrees of a
  frame are a union in C, hence one field.
\<close>

record stack_frame =
  sf_flags :: "32 word"
  sf_call_parent :: ptr
  sf_worker :: ptr
  sf_except_data :: ptr
  sf_sp :: "64 word"
  sf_fp :: "64 word"
  sf_pedigree :: pedigree

section \<open>Full frames\<close>

definition FULL_FRAME_MAGIC_0 :: "64 word" where "FULL_FRAME_MAGIC_0 = 0x361e710b9597d553"
definition FULL_FRAME_MAGIC_1 :: "64 word" where "FULL_FRAME_MAGIC_1 = 0x189986dcc7aee1ca"

record full_frame =
  ff_magic_0 :: "64 word"
  ff_lock :: mutex
  ff_join_counter :: int
  ff_is_call_child :: bool
  ff_simulated_stolen :: bool
  ff_parent :: ptr
  ff_left_sibling :: ptr
  ff_right_sibling :: ptr
  ff_rightmost_child :: ptr
  ff_call_stack :: ptr
  ff_children_reducer_map :: ptr
  ff_right_reducer_map :: ptr
  ff_pending_exception :: ptr
  ff_child_pending_exception :: ptr
  ff_right_pending_exception :: ptr
  ff_sync_sp :: "64 word"
  ff_frame_size :: "64 word"
  ff_fiber_self :: ptr
  ff_fiber_child :: ptr
  ff_sync_master :: ptr
  ff_magic_1 :: "64 word"

section \<open>Deques\<close>

text \<open>
  The pointers into a deque's arrays are indices from their first cell. \<open>E\<close> may also be the
  address -1 that stands for infinity.
\<close>

datatype exc_ptr = Exc int | EXC_INFINITY

definition ACTIVE_DEQUE_INDEX :: int where "ACTIVE_DEQUE_INDEX = -1"
definition INVALID_DEQUE_INDEX :: int where "INVALID_DEQUE_INDEX = -2"

record deque =
  dq_tail :: int
  dq_head :: int
  dq_exc :: exc_ptr
  dq_protected_tail :: int
  dq_ltq :: "ptr list"
  dq_fiber_tail :: int
  dq_fiber_head :: int
  dq_fiber_protected_tail :: int
  dq_fiber_ltq :: "ptr list"
  dq_frame_ff :: ptr
  dq_resumable :: int
  dq_team :: ptr
  dq_fiber :: ptr
  dq_saved_ped :: pedigree
  dq_call_stack :: ptr
  dq_link_next :: ptr
  dq_worker :: ptr
  dq_self :: int

text \<open>\<open>None\<close> is the null array a pool starts with; the cells of an array may be NULL.\<close>

record deque_pool =
  dp_array :: "ptr list option"
  dp_size :: nat
  dp_capacity :: nat

section \<open>Workers, fibers and the global state\<close>

definition WORKER_MAGIC_0 :: "64 word" where "WORKER_MAGIC_0 = 0xe0831a4a940c60b8"
definition WORKER_MAGIC_1 :: "64 word" where "WORKER_MAGIC_1 = 0x16164afb0ea0dff9"

datatype cilk_worker_type = WORKER_FREE | WORKER_SYSTEM | WORKER_USER | WORKER_IO

text \<open>The functions a worker can be told to run on its scheduling fiber.\<close>

datatype scheduling_stack_fcn =
  No_fcn | Fcn_do_sync | Fcn_do_return_from_spawn | Fcn_do_suspend_return_from_initial

text \<open>
  \<open>wk_the\<close> is the deque whose fields \<open>w->tail\<close>, \<open>w->head\<close>, \<open>w->exc\<close>, \<open>w->protected_tail\<close>,
  \<open>w->ltq_limit\<close>, \<open>w->l->current_ltq\<close> and \<open>w->l->frame_ff\<close> point to: \<open>deque_switch\<close>, the only
  function that assigns them, points all of them into one deque or sets all to NULL.
\<close>

record cilkrts_worker =
  wk_self :: int
  wk_reducer_map :: ptr
  wk_current_stack_frame :: ptr
  wk_pedigree :: pedigree
  wk_the :: ptr

text \<open>The fields of \<open>local_state\<close> that other workers may access.\<close>

record shared_state = cilkrts_worker +
  wk_magic_0 :: "64 word"
  wk_lock :: mutex
  wk_do_not_steal :: int
  wk_steal_lock :: mutex
  wk_next_frame_ff :: ptr
  wk_last_full_frame :: ptr
  wk_active_deque :: ptr
  wk_suspended_deques :: deque_pool
  wk_resumable_deques :: deque_pool
  wk_type :: cilk_worker_type

text \<open>The fields of \<open>local_state\<close> that only the worker itself accesses.\<close>

record worker = shared_state +
  wk_future_fiber_pool_idx :: int
  wk_future_fiber_pool :: "ptr list"
  wk_scheduling_fiber :: ptr
  wk_io_queue :: ptr
  wk_rand_seed :: "32 word"
  wk_post_suspend :: scheduling_stack_fcn
  wk_suspended_stack :: ptr
  wk_fiber_to_free :: ptr
  wk_pending_exception :: ptr
  wk_stats :: ptr
  wk_steal_failure_count :: "32 word"
  wk_work_stolen :: bool
  wk_signal_node :: ptr
  wk_original_pedigree_leaf :: leaf_ptr
  wk_magic_1 :: "64 word"

text \<open>The procedure a fiber runs first after the next switch to it.\<close>

datatype post_switch_proc = No_proc | Enter_runtime_transition

record fiber =
  fb_owner :: ptr
  fb_resume_sf :: ptr
  fb_resumable :: bool
  fb_from :: ptr
  fb_pending_remove :: ptr
  fb_post_switch :: post_switch_proc
  fb_from_thread :: bool

text \<open>An exception that waits to be merged (\<open>except-gcc.cpp\<close>).\<close>

record pending_exception =
  pe_active :: ptr
  pe_rethrow :: bool
  pe_caught :: ptr
  pe_uncaught :: "32 word"

text \<open>Where a system worker waits (\<open>signal_node.c\<close>): the message and the count of the semaphore.\<close>

record signal_node =
  sn_run :: bool
  sn_sem :: nat

record global_state =
  g_P :: int
  g_Q :: int
  g_total_workers :: int
  g_workers :: "ptr list"
  g_ltqsize :: nat
  g_stealing_disabled :: bool
  g_work_done :: bool
  g_active_workers :: int
  g_exit_frame :: ptr
  g_original_deque :: ptr
  g_max_steal_failures :: "32 word"
  g_io_mode :: int
  g_force_reduce :: bool
  g_workers_running :: bool
  g_published :: bool
  g_threads :: ptr

section \<open>Memory\<close>

text \<open>
  \<open>r_tls\<close>, \<open>r_cur_fiber\<close> and \<open>r_tls_leaf\<close> are the worker, the fiber and the pedigree leaf of the
  running thread, and \<open>r_pedigree_counter\<close> counts the roots made so far. \<open>r_fiber_supply\<close> holds the fibers that \<open>cilk_fiber_allocate\<close> can still hand out.
  \<open>r_eh_caught\<close> and \<open>r_eh_uncaught\<close> are what the C++ runtime keeps of the exceptions of this thread,
  \<open>__cxa_eh_globals\<close>: the chain of those caught and the number of those uncaught. \<open>malloc\<close> hands out the addresses above
  \<open>r_brk\<close> while \<open>r_mem_left\<close> lasts and then answers NULL.
\<close>

record rts =
  r_frames :: "ptr \<rightharpoonup> full_frame"
  r_sfs :: "ptr \<rightharpoonup> stack_frame"
  r_deques :: "ptr \<rightharpoonup> deque"
  r_workers :: "ptr \<rightharpoonup> worker"
  r_fibers :: "ptr \<rightharpoonup> fiber"
  r_excs :: "ptr \<rightharpoonup> pending_exception"
  r_rmaps :: "ptr \<rightharpoonup> cilkred_map"
  r_leaves :: "ptr \<rightharpoonup> pedigree \<times> pedigree"
  r_nodes :: "ptr \<rightharpoonup> signal_node"
  r_fm :: frame_cache
  r_g :: global_state
  r_tls :: ptr
  r_cur_fiber :: ptr
  r_fiber_supply :: "ptr list"
  r_tls_leaf :: leaf_ptr
  r_pedigree_counter :: "64 word"
  r_eh_caught :: ptr
  r_eh_uncaught :: "32 word"
  r_brk :: ptr
  r_mem_left :: nat

abbreviation ld_ff :: "(full_frame \<Rightarrow> 'a) \<Rightarrow> ptr \<Rightarrow> (rts, 'a) prog" where
  "ld_ff f p \<equiv> load r_frames f p"
abbreviation st_ff :: "ptr \<Rightarrow> (full_frame \<Rightarrow> full_frame) \<Rightarrow> (rts, unit) prog" where
  "st_ff p f \<equiv> store r_frames r_frames_update p f"
abbreviation ld_sf :: "(stack_frame \<Rightarrow> 'a) \<Rightarrow> ptr \<Rightarrow> (rts, 'a) prog" where
  "ld_sf f p \<equiv> load r_sfs f p"
abbreviation st_sf :: "ptr \<Rightarrow> (stack_frame \<Rightarrow> stack_frame) \<Rightarrow> (rts, unit) prog" where
  "st_sf p f \<equiv> store r_sfs r_sfs_update p f"
abbreviation ld_dq :: "(deque \<Rightarrow> 'a) \<Rightarrow> ptr \<Rightarrow> (rts, 'a) prog" where
  "ld_dq f p \<equiv> load r_deques f p"
abbreviation st_dq :: "ptr \<Rightarrow> (deque \<Rightarrow> deque) \<Rightarrow> (rts, unit) prog" where
  "st_dq p f \<equiv> store r_deques r_deques_update p f"
abbreviation ld_wk :: "(worker \<Rightarrow> 'a) \<Rightarrow> ptr \<Rightarrow> (rts, 'a) prog" where
  "ld_wk f p \<equiv> load r_workers f p"
abbreviation st_wk :: "ptr \<Rightarrow> (worker \<Rightarrow> worker) \<Rightarrow> (rts, unit) prog" where
  "st_wk p f \<equiv> store r_workers r_workers_update p f"
abbreviation ld_fb :: "(fiber \<Rightarrow> 'a) \<Rightarrow> ptr \<Rightarrow> (rts, 'a) prog" where
  "ld_fb f p \<equiv> load r_fibers f p"
abbreviation st_fb :: "ptr \<Rightarrow> (fiber \<Rightarrow> fiber) \<Rightarrow> (rts, unit) prog" where
  "st_fb p f \<equiv> store r_fibers r_fibers_update p f"
abbreviation ld_ex :: "(pending_exception \<Rightarrow> 'a) \<Rightarrow> ptr \<Rightarrow> (rts, 'a) prog" where
  "ld_ex f p \<equiv> load r_excs f p"
abbreviation st_ex :: "ptr \<Rightarrow> (pending_exception \<Rightarrow> pending_exception) \<Rightarrow> (rts, unit) prog" where
  "st_ex p f \<equiv> store r_excs r_excs_update p f"
abbreviation ld_sn :: "(signal_node \<Rightarrow> 'a) \<Rightarrow> ptr \<Rightarrow> (rts, 'a) prog" where
  "ld_sn f p \<equiv> load r_nodes f p"
abbreviation st_sn :: "ptr \<Rightarrow> (signal_node \<Rightarrow> signal_node) \<Rightarrow> (rts, unit) prog" where
  "st_sn p f \<equiv> store r_nodes r_nodes_update p f"
abbreviation ld_g :: "(global_state \<Rightarrow> 'a) \<Rightarrow> (rts, 'a) prog" where
  "ld_g f \<equiv> gets (\<lambda>s. f (r_g s))"
abbreviation st_g :: "(global_state \<Rightarrow> global_state) \<Rightarrow> (rts, unit) prog" where
  "st_g f \<equiv> modify (r_g_update f)"

definition cilkrts_malloc :: "(rts, ptr) prog" where
  "cilkrts_malloc = (\<lambda>s. if r_mem_left s = 0 then Inr (NULL, s)
     else Inr (r_brk s + 1, s\<lparr>r_brk := r_brk s + 1, r_mem_left := r_mem_left s - 1\<rparr>))"

lemma run_cilkrts_malloc [run]:
  "cilkrts_malloc s = (if r_mem_left s = 0 then Inr (NULL, s)
     else Inr (r_brk s + 1, s\<lparr>r_brk := r_brk s + 1, r_mem_left := r_mem_left s - 1\<rparr>))"
  by (simp add: cilkrts_malloc_def)

text \<open>What a pointer to an object of each type reads in a state.\<close>

abbreviation "frame_at s p \<equiv> deref (r_frames s) p"
abbreviation "sf_at s p \<equiv> deref (r_sfs s) p"
abbreviation "deque_at s p \<equiv> deref (r_deques s) p"
abbreviation "worker_at s p \<equiv> deref (r_workers s) p"
abbreviation "fiber_at s p \<equiv> deref (r_fibers s) p"
abbreviation "exc_at s p \<equiv> deref (r_excs s) p"
abbreviation "rmap_at s p \<equiv> deref (r_rmaps s) p"

section \<open>Flags\<close>

lemma has_flag_0 [simp]: "\<not> has_flag 0 b"
  by (simp add: has_flag_def)

lemma has_flag_set_same: "b \<noteq> 0 \<Longrightarrow> has_flag (set_flag b f) b"
  by (simp add: has_flag_def set_flag_def bit.conj_disj_distrib2)

lemma has_flag_clear_same [simp]: "\<not> has_flag (clear_flag b f) b"
  by (simp add: has_flag_def clear_flag_def and.assoc)

lemma AND_NOT_disjoint: "a AND b = 0 \<Longrightarrow> NOT b AND a = (a :: 32 word)"
  by (auto simp: bit_eq_iff bit_simps)

lemma has_flag_clear_other: "a AND b = 0 \<Longrightarrow> has_flag (clear_flag b f) a = has_flag f a"
  by (simp add: has_flag_def clear_flag_def and.assoc AND_NOT_disjoint)

lemma has_flag_set_other: "a AND b = 0 \<Longrightarrow> has_flag (set_flag b f) a = has_flag f a"
  by (simp add: has_flag_def set_flag_def bit.conj_disj_distrib2 and.commute [of b a])

section \<open>Sample states\<close>

text \<open>A pool with no cells, a worker that has just been made, and a state with one worker.\<close>

definition sample_pool :: deque_pool where
  "sample_pool = \<lparr>dp_array = Some (replicate 4 NULL), dp_size = 0, dp_capacity = 4\<rparr>"

definition sample_worker :: worker where
  "sample_worker = \<lparr>wk_self = 0, wk_reducer_map = NULL, wk_current_stack_frame = NULL,
     wk_pedigree = \<lparr>ped_rank = 1, ped_parent = PNULL\<rparr>, wk_the = NULL, wk_magic_0 = WORKER_MAGIC_0,
     wk_lock = \<lparr>mx_lock = 0, mx_owner = NULL\<rparr>, wk_do_not_steal = 0,
     wk_steal_lock = \<lparr>mx_lock = 0, mx_owner = NULL\<rparr>, wk_next_frame_ff = NULL,
     wk_last_full_frame = NULL, wk_active_deque = NULL, wk_suspended_deques = sample_pool,
     wk_resumable_deques = sample_pool, wk_type = WORKER_SYSTEM, wk_future_fiber_pool_idx = -1,
     wk_future_fiber_pool = [], wk_scheduling_fiber = NULL, wk_io_queue = NULL, wk_rand_seed = 0,
     wk_post_suspend = No_fcn, wk_suspended_stack = NULL, wk_fiber_to_free = NULL,
     wk_pending_exception = NULL, wk_stats = NULL, wk_steal_failure_count = 0,
     wk_work_stolen = False, wk_signal_node = NULL,
     wk_original_pedigree_leaf = No_leaf, wk_magic_1 = WORKER_MAGIC_1\<rparr>"

definition sample_deque :: deque where
  "sample_deque = \<lparr>dq_tail = 0, dq_head = 0, dq_exc = Exc 0, dq_protected_tail = 4, dq_ltq = replicate 4 NULL,
     dq_fiber_tail = 0, dq_fiber_head = 0, dq_fiber_protected_tail = 4, dq_fiber_ltq = replicate 4 NULL,
     dq_frame_ff = NULL, dq_resumable = 0, dq_team = 10, dq_fiber = NULL,
     dq_saved_ped = \<lparr>ped_rank = 0, ped_parent = PNULL\<rparr>, dq_call_stack = NULL, dq_link_next = NULL,
     dq_worker = NULL, dq_self = INVALID_DEQUE_INDEX\<rparr>"

definition sample_global :: global_state where
  "sample_global = \<lparr>g_P = 2, g_Q = 0, g_total_workers = 2, g_workers = [10, 11], g_ltqsize = 4,
     g_stealing_disabled = False, g_work_done = False, g_active_workers = 0, g_exit_frame = NULL,
     g_original_deque = NULL, g_max_steal_failures = 128, g_io_mode = 1,
     g_force_reduce = False, g_workers_running = True, g_published = True, g_threads = 900\<rparr>"

definition sample_sf :: stack_frame where
  "sample_sf = \<lparr>sf_flags = 0x01000000, sf_call_parent = NULL, sf_worker = 10, sf_except_data = NULL,
     sf_sp = 0, sf_fp = 0, sf_pedigree = \<lparr>ped_rank = 0, ped_parent = PNULL\<rparr>\<rparr>"

definition sample_rts :: rts where
  "sample_rts = \<lparr>r_frames = Map.empty, r_sfs = Map.empty, r_deques = Map.empty,
     r_workers = [10 \<mapsto> sample_worker], r_fibers = Map.empty, r_excs = Map.empty, r_rmaps = Map.empty,
     r_leaves = Map.empty, r_nodes = Map.empty, r_fm = fresh_frame_cache, r_g = sample_global, r_tls = 10, r_cur_fiber = NULL,
     r_fiber_supply = [], r_tls_leaf = No_leaf, r_pedigree_counter = 0, r_eh_caught = NULL, r_eh_uncaught = 0,
     r_brk = 1000, r_mem_left = 10\<rparr>"

lemma worker_at_sample [simp]: "worker_at sample_rts 10 = Some sample_worker"
  by (simp add: sample_rts_def deref_def)

end
