(* ===== verification/Worker_Lock.thy ===== *)
theory Worker_Lock
  imports Runtime_State
begin

text \<open>
  The lock of a worker and its \<open>do_not_steal\<close> flag (\<open>scheduler.c\<close>), as programs of one thread;
  \<open>Steal_Lock\<close> interleaves the same steps of several threads.
\<close>

section \<open>The locks of a worker\<close>

definition abort_because_rts_is_corrupted :: "(rts, unit) prog" where
  "abort_because_rts_is_corrupted = failP Rts_corrupted"

definition validate_worker :: "ptr \<Rightarrow> (rts, unit) prog" where
  "validate_worker w =
     bindP (ld_wk (\<lambda>x. wk_magic_0 x \<noteq> WORKER_MAGIC_0 \<or> wk_magic_1 x \<noteq> WORKER_MAGIC_1) w) (\<lambda>bad.
       whenP bad abort_because_rts_is_corrupted)"

abbreviation on_worker_lock :: "ptr \<Rightarrow> (mutex, 'a) prog \<Rightarrow> (rts, 'a) prog" where
  "on_worker_lock w m \<equiv> on_field r_workers r_workers_update wk_lock wk_lock_update w m"

abbreviation on_steal_lock :: "ptr \<Rightarrow> (mutex, 'a) prog \<Rightarrow> (rts, 'a) prog" where
  "on_steal_lock w m \<equiv> on_field r_workers r_workers_update wk_steal_lock wk_steal_lock_update w m"

definition cilkrts_worker_lock :: "ptr \<Rightarrow> (rts, unit) prog" where
  "cilkrts_worker_lock w = block [
     validate_worker w,
     bindP (ld_wk wk_do_not_steal w) (\<lambda>d. CILK_ASSERT ''w->l->do_not_steal == 0'' (d = 0)),
     st_wk w (wk_do_not_steal_update (\<lambda>_. 1)),
     on_worker_lock w (cilkrts_mutex_lock w)]"

definition cilkrts_worker_unlock :: "ptr \<Rightarrow> (rts, unit) prog" where
  "cilkrts_worker_unlock w = block [
     on_worker_lock w (cilkrts_mutex_unlock w),
     bindP (ld_wk wk_do_not_steal w) (\<lambda>d. CILK_ASSERT ''w->l->do_not_steal == 1'' (d = 1)),
     st_wk w (wk_do_not_steal_update (\<lambda>_. 0))]"

definition worker_trylock_other :: "ptr \<Rightarrow> ptr \<Rightarrow> (rts, bool) prog" where
  "worker_trylock_other w other =
     result [validate_worker other]
      (bindP (on_steal_lock other (cilkrts_mutex_trylock w)) (\<lambda>chosen.
         if chosen then
           bindP (ld_wk wk_do_not_steal other) (\<lambda>d.
           bindP (if d \<noteq> 0 then ret False
                  else on_worker_lock other (cilkrts_mutex_trylock w)) (\<lambda>status.
             result [on_steal_lock other (cilkrts_mutex_unlock w)] (ret status)))
         else ret False))"

definition worker_unlock_other :: "ptr \<Rightarrow> ptr \<Rightarrow> (rts, unit) prog" where
  "worker_unlock_other w other = on_worker_lock other (cilkrts_mutex_unlock w)"

text \<open>\<open>BEGIN_WITH_WORKER_LOCK(w) { body } END_WITH_WORKER_LOCK(w)\<close>.\<close>

definition with_worker_lock :: "ptr \<Rightarrow> (rts, unit) prog list \<Rightarrow> (rts, unit) prog" where
  "with_worker_lock w body = block [cilkrts_worker_lock w, block body, cilkrts_worker_unlock w]"

lemma run_validate_worker [run]:
  "validate_worker w s = (case worker_at s w of None \<Rightarrow> Inl Segfault
     | Some x \<Rightarrow> if wk_magic_0 x = WORKER_MAGIC_0 \<and> wk_magic_1 x = WORKER_MAGIC_1
         then Inr ((), s) else Inl Rts_corrupted)"
  by (auto simp: validate_worker_def abort_because_rts_is_corrupted_def run split: option.splits)

text \<open>A worker that is not corrupted and that nobody locks.\<close>

definition worker_unlocked :: "worker \<Rightarrow> bool" where
  "worker_unlocked x \<longleftrightarrow> wk_magic_0 x = WORKER_MAGIC_0 \<and> wk_magic_1 x = WORKER_MAGIC_1
     \<and> wk_lock x = free_mutex \<and> wk_do_not_steal x = 0"

lemma worker_lock_unlocked:
  "worker_at s w = Some x \<Longrightarrow> worker_unlocked x \<Longrightarrow>
   cilkrts_worker_lock w s =
     Inr ((), s\<lparr>r_workers := (r_workers s)(w \<mapsto> x\<lparr>wk_do_not_steal := 1, wk_lock := held_by w\<rparr>)\<rparr>)"
  by (auto simp: cilkrts_worker_lock_def run worker_unlocked_def dest: deref_SomeD)

lemma worker_unlock_locked:
  "worker_at s w = Some x \<Longrightarrow> wk_lock x = held_by w \<Longrightarrow> wk_do_not_steal x = 1 \<Longrightarrow>
   cilkrts_worker_unlock w s =
     Inr ((), s\<lparr>r_workers := (r_workers s)(w \<mapsto> x\<lparr>wk_lock := free_mutex, wk_do_not_steal := 0\<rparr>)\<rparr>)"
  by (auto simp: cilkrts_worker_unlock_def run dest: deref_SomeD)

end
