(* ===== verification/Frame_Malloc_Safety.thy ===== *)
theory Frame_Malloc_Safety
  imports Frame_Malloc
begin

text \<open>
  The allocator of frames is safe: blocks in use, blocks on free lists and the rest of the
  pool never overlap, through any sequence of calls by any workers. The invariant names the
  bucket of every block that was ever cut from the pool (\<open>lay\<close>), the free lists as lists
  (\<open>F\<close>) and the blocks in use (\<open>L\<close>).
\<close>

section \<open>Free lists as lists\<close>

fun path :: "(ptr \<rightharpoonup> ptr) \<Rightarrow> ptr \<Rightarrow> ptr list \<Rightarrow> bool" where
  "path m p [] \<longleftrightarrow> p = NULL"
| "path m p (x # xs) \<longleftrightarrow> p = x \<and> x \<noteq> NULL \<and> (\<exists>q. m x = Some q \<and> path m q xs)"

lemma path_upd [simp]: "p \<notin> set xs \<Longrightarrow> path (m(p \<mapsto> v)) q xs = path m q xs"
  by (induction xs arbitrary: q) auto

lemma path_NULL [simp]: "path m 0 xs \<longleftrightarrow> xs = []"
  by (cases xs) auto

lemma path_append: "path m p (xs @ q # ys) \<longleftrightarrow>
    (\<exists>c. path (m(q \<mapsto> NULL)) p (xs @ [q]) \<and> m q = Some c \<and> path m c ys)"
  if "q \<notin> set xs"
  using that by (induction xs arbitrary: p) auto

fun is_home :: "list_loc \<Rightarrow> bool" where
  "is_home (Cdr_of p) = False"
| "is_home h = True"

fun bucket_at :: "list_loc \<Rightarrow> nat" where
  "bucket_at (Global_list i) = i"
| "bucket_at (Worker_list w i) = i"
| "bucket_at (Cdr_of p) = 0"

fun head_of :: "frame_cache \<Rightarrow> list_loc \<Rightarrow> ptr" where
  "head_of s (Global_list i) = fm_global_free_list s i"
| "head_of s (Worker_list w i) = fm_free_list s w i"
| "head_of s (Cdr_of p) = NULL"

fun set_head :: "list_loc \<Rightarrow> ptr \<Rightarrow> frame_cache \<Rightarrow> frame_cache" where
  "set_head (Global_list i) v s = s\<lparr>fm_global_free_list := (fm_global_free_list s)(i := v)\<rparr>"
| "set_head (Worker_list w i) v s = s\<lparr>fm_free_list := (fm_free_list s)(w := (fm_free_list s w)(i := v))\<rparr>"
| "set_head (Cdr_of p) v s = s"

lemma read_home: "is_home h \<Longrightarrow> read_loc h s = Inr (head_of s h, s)"
  by (cases h) (simp_all add: run)

lemma write_home: "is_home h \<Longrightarrow> write_loc h v s = Inr ((), set_head h v s)"
  by (cases h) (simp_all add: run)

lemma head_of_set_head: "is_home h \<Longrightarrow> head_of (set_head h v s) k = (if k = h then v else head_of s k)"
  by (cases h; cases k) auto

lemma set_head_other [simp]:
  "fm_cdr (set_head h v s) = fm_cdr s" "fm_lock (set_head h v s) = fm_lock s"
  "fm_pool_begin (set_head h v s) = fm_pool_begin s" "fm_pool_end (set_head h v s) = fm_pool_end s"
  "fm_os_next (set_head h v s) = fm_os_next s" "fm_os_left (set_head h v s) = fm_os_left s"
  "fm_batch_size (set_head h v s) = fm_batch_size s"
  "fm_potential_limit (set_head h v s) = fm_potential_limit s"
  "fm_bucket_potential (set_head h v s) = fm_bucket_potential s"
  "fm_free_list (set_head (Global_list i) v s) = fm_free_list s"
  by (cases h; simp)+

section \<open>The invariant\<close>

abbreviation "bsize \<equiv> FRAME_MALLOC_BUCKET_TO_SIZE"

definition layout_ok :: "(ptr \<rightharpoonup> nat) \<Rightarrow> frame_cache \<Rightarrow> bool" where
  "layout_ok lay s \<longleftrightarrow>
     (\<forall>a i. lay a = Some i \<longrightarrow> i < FRAME_MALLOC_NBUCKETS \<and> 0 < a \<and> a + bsize i \<le> fm_os_next s
        \<and> (a + bsize i \<le> fm_pool_begin s \<or> fm_pool_end s \<le> a))
     \<and> (\<forall>a b i j. lay a = Some i \<longrightarrow> lay b = Some j \<longrightarrow> a \<noteq> b \<longrightarrow> a + bsize i \<le> b \<or> b + bsize j \<le> a)
     \<and> fm_pool_begin s \<le> fm_pool_end s \<and> fm_pool_end s \<le> fm_os_next s \<and> 0 < fm_os_next s
     \<and> (fm_pool_begin s = 0 \<longrightarrow> fm_pool_end s = 0)"

definition lists_ok ::
  "(list_loc \<Rightarrow> ptr list) \<Rightarrow> (ptr \<rightharpoonup> nat) \<Rightarrow> (ptr \<rightharpoonup> nat) \<Rightarrow> list_loc set \<Rightarrow> frame_cache \<Rightarrow> bool"
where
  "lists_ok F lay L W s \<longleftrightarrow> (\<forall>h \<in> W. is_home h \<and> path (fm_cdr s) (head_of s h) (F h) \<and> distinct (F h)
     \<and> (\<forall>a \<in> set (F h). lay a = Some (bucket_at h) \<and> L a = None)
     \<and> (\<forall>k \<in> W. h \<noteq> k \<longrightarrow> set (F h) \<inter> set (F k) = {}))"

definition fm_inv ::
  "(list_loc \<Rightarrow> ptr list) \<Rightarrow> (ptr \<rightharpoonup> nat) \<Rightarrow> (ptr \<rightharpoonup> nat) \<Rightarrow> list_loc set \<Rightarrow> frame_cache \<Rightarrow> bool"
where
  "fm_inv F lay L W s \<longleftrightarrow> layout_ok lay s \<and> lists_ok F lay L W s \<and> L \<subseteq>\<^sub>m lay"

definition fm_ok :: "(ptr \<rightharpoonup> nat) \<Rightarrow> list_loc set \<Rightarrow> frame_cache \<Rightarrow> bool" where
  "fm_ok L W s \<longleftrightarrow> (\<exists>F lay. fm_inv F lay L W s)"

lemma lists_ok_at:
  "fm_inv F lay L W s \<Longrightarrow> h \<in> W \<Longrightarrow> is_home h \<and> path (fm_cdr s) (head_of s h) (F h) \<and> distinct (F h)"
  by (simp add: fm_inv_def lists_ok_def)

lemma layout_ok_cong:
  "fm_pool_begin t = fm_pool_begin s \<Longrightarrow> fm_pool_end t = fm_pool_end s \<Longrightarrow> fm_os_next t = fm_os_next s \<Longrightarrow>
   layout_ok lay t = layout_ok lay s"
  by (simp add: layout_ok_def)

lemma fm_inv_cong:
  "fm_inv F lay L W s \<Longrightarrow> fm_pool_begin t = fm_pool_begin s \<Longrightarrow> fm_pool_end t = fm_pool_end s \<Longrightarrow>
   fm_os_next t = fm_os_next s \<Longrightarrow> fm_cdr t = fm_cdr s \<Longrightarrow> (\<And>h. h \<in> W \<Longrightarrow> head_of t h = head_of s h) \<Longrightarrow>
   fm_inv F lay L W t"
  by (simp add: fm_inv_def lists_ok_def layout_ok_cong [of t s])

lemma fm_ok_cong:
  "fm_ok L W s \<Longrightarrow> fm_pool_begin t = fm_pool_begin s \<Longrightarrow> fm_pool_end t = fm_pool_end s \<Longrightarrow>
   fm_os_next t = fm_os_next s \<Longrightarrow> fm_cdr t = fm_cdr s \<Longrightarrow>
   fm_free_list t = fm_free_list s \<Longrightarrow> fm_global_free_list t = fm_global_free_list s \<Longrightarrow> fm_ok L W t"
proof -
  assume "fm_ok L W s" and same: "fm_pool_begin t = fm_pool_begin s" "fm_pool_end t = fm_pool_end s"
    "fm_os_next t = fm_os_next s" "fm_cdr t = fm_cdr s" "fm_free_list t = fm_free_list s"
    "fm_global_free_list t = fm_global_free_list s"
  moreover have "head_of t h = head_of s h" for h using same by (cases h) auto
  ultimately show "fm_ok L W t" unfolding fm_ok_def by (blast intro: fm_inv_cong)
qed

lemma fm_ok_blocks_disjoint:
  assumes "fm_ok L W s" "L a = Some i" "L b = Some j" "a \<noteq> b"
  shows "a + bsize i \<le> b \<or> b + bsize j \<le> a"
proof -
  obtain lay where "layout_ok lay s" "L \<subseteq>\<^sub>m lay"
    using assms(1) by (auto simp: fm_ok_def fm_inv_def)
  with assms show ?thesis unfolding layout_ok_def map_le_def by (metis domI)
qed

lemma list_length_bound:
  assumes "fm_inv F lay L W s" "h \<in> W"
  shows "length (F h) \<le> fm_os_next s"
proof -
  have "distinct (F h)" and at: "\<forall>a \<in> set (F h). lay a = Some (bucket_at h)"
    using assms by (auto simp: fm_inv_def lists_ok_def)
  moreover have "set (F h) \<subseteq> {..<fm_os_next s}"
  proof
    fix a assume "a \<in> set (F h)"
    then have "lay a = Some (bucket_at h)" using at by blast
    then have "bucket_at h < FRAME_MALLOC_NBUCKETS" "a + bsize (bucket_at h) \<le> fm_os_next s"
      using assms(1) unfolding fm_inv_def layout_ok_def by blast+
    then show "a \<in> {..<fm_os_next s}" using bucket_size_pos [of "bucket_at h"] by simp
  qed
  ultimately show ?thesis
    by (metis card_mono card_lessThan distinct_card finite_lessThan)
qed

lemma map_leD: "f \<subseteq>\<^sub>m g \<Longrightarrow> f a = Some b \<Longrightarrow> g a = Some b"
  by (metis domI map_le_def)

section \<open>Popping and pushing\<close>

lemma pop_empty: "is_home h \<Longrightarrow> head_of s h = NULL \<Longrightarrow> pop h s = Inr (NULL, s)"
  by (simp add: pop_def run read_home)

lemma pop_home:
  assumes inv: "fm_inv F lay L W s" and h: "h \<in> W" "F h = p # ps"
  shows "\<exists>c. pop h s = Inr (p, set_head h c s) \<and> p \<noteq> NULL \<and> L p = None
     \<and> fm_inv (F(h := ps)) lay (L(p \<mapsto> bucket_at h)) W (set_head h c s)"
proof -
  have home: "is_home h" "path (fm_cdr s) (head_of s h) (p # ps)" "distinct (p # ps)"
    and lay: "lay p = Some (bucket_at h)" "L p = None"
    using inv h by (auto simp: fm_inv_def lists_ok_def)
  then obtain c where c: "fm_cdr s p = Some c" "path (fm_cdr s) c ps" "head_of s h = p" "p \<noteq> NULL" by auto
  have fresh: "p \<notin> set (F k)" if "k \<in> W" "k \<noteq> h" for k
    using inv h that unfolding fm_inv_def lists_ok_def by fastforce
  have "pop h s = Inr (p, set_head h c s)"
    using home c by (simp add: pop_def run read_home write_home deref_def)
  moreover have "lists_ok (F(h := ps)) lay (L(p \<mapsto> bucket_at h)) W (set_head h c s)"
    unfolding lists_ok_def
  proof (intro ballI conjI impI)
    fix k a assume k: "k \<in> W" and a: "a \<in> set ((F(h := ps)) k)"
    then have "a \<noteq> p" using fresh home by (auto split: if_splits)
    with k a show "(L(p \<mapsto> bucket_at h)) a = None" "lay a = Some (bucket_at k)"
      using inv h by (auto simp: fm_inv_def lists_ok_def split: if_splits)
  next
    fix k k' assume "k \<in> W" "k' \<in> W" "k \<noteq> k'"
    then have "set (F k) \<inter> set (F k') = {}" using inv unfolding fm_inv_def lists_ok_def by blast
    then show "set ((F(h := ps)) k) \<inter> set ((F(h := ps)) k') = {}"
      using h \<open>k \<noteq> k'\<close> by (auto split: if_splits)
  qed (use inv h home c in \<open>auto simp: fm_inv_def lists_ok_def head_of_set_head\<close>)
  moreover have "layout_ok lay (set_head h c s)"
    using inv by (simp add: fm_inv_def layout_ok_cong [of "set_head h c s" s])
  ultimately show ?thesis
    using inv lay c by (auto simp: fm_inv_def map_le_def)
qed

lemma push_home:
  assumes inv: "fm_inv F lay L W s" and h: "h \<in> W" and p: "L p = Some (bucket_at h)"
  shows "\<exists>t. push h p s = Inr ((), t) \<and> t = set_head h p (s\<lparr>fm_cdr := (fm_cdr s)(p \<mapsto> head_of s h)\<rparr>)
     \<and> p \<noteq> NULL \<and> fm_inv (F(h := p # F h)) lay (L(p := None)) W t"
proof -
  let ?t = "set_head h p (s\<lparr>fm_cdr := (fm_cdr s)(p \<mapsto> head_of s h)\<rparr>)"
  have lay: "lay p = Some (bucket_at h)" using inv p by (auto simp: fm_inv_def map_leD)
  then have "0 < p" using inv unfolding fm_inv_def layout_ok_def by blast
  have home: "is_home h" using inv h by (auto simp: fm_inv_def lists_ok_def)
  have fresh: "p \<notin> set (F k)" if "k \<in> W" for k
    using inv p that by (force simp: fm_inv_def lists_ok_def)
  have "push h p s = Inr ((), ?t)"
    using home \<open>0 < p\<close> by (simp add: push_def run read_home write_home)
  moreover have "lists_ok (F(h := p # F h)) lay (L(p := None)) W ?t"
    unfolding lists_ok_def
  proof (intro ballI conjI impI)
    fix k k' assume k: "k \<in> W" "k' \<in> W" "k \<noteq> k'"
    then have "set (F k) \<inter> set (F k') = {}" using inv unfolding fm_inv_def lists_ok_def by blast
    then show "set ((F(h := p # F h)) k) \<inter> set ((F(h := p # F h)) k') = {}"
      using fresh k by auto
  next
    fix k assume "k \<in> W"
    then show "path (fm_cdr ?t) (head_of ?t k) ((F(h := p # F h)) k)"
      using inv home fresh \<open>0 < p\<close>
      by (cases h; cases k) (auto simp: fm_inv_def lists_ok_def head_of_set_head)
  qed (use inv h home fresh lay in \<open>auto simp: fm_inv_def lists_ok_def split: if_splits\<close>)
  moreover have "layout_ok lay ?t"
    using inv by (simp add: fm_inv_def layout_ok_cong [of ?t s])
  ultimately show ?thesis
    using inv \<open>0 < p\<close> by (auto simp: fm_inv_def map_le_def)
qed

lemma pop_ok:
  assumes "fm_ok L W s" and "h \<in> W"
  shows "(head_of s h = NULL \<and> pop h s = Inr (NULL, s))
     \<or> (\<exists>p c. head_of s h = p \<and> p \<noteq> NULL \<and> pop h s = Inr (p, set_head h c s) \<and> L p = None
          \<and> fm_ok (L(p \<mapsto> bucket_at h)) W (set_head h c s))"
proof -
  obtain F lay where inv: "fm_inv F lay L W s" using assms(1) by (auto simp: fm_ok_def)
  then have home: "is_home h" "path (fm_cdr s) (head_of s h) (F h)"
    using assms(2) by (auto simp: fm_inv_def lists_ok_def)
  show ?thesis
  proof (cases "F h")
    case Nil
    with home show ?thesis by (simp add: pop_empty)
  next
    case (Cons p ps)
    with home pop_home [OF inv assms(2) Cons] show ?thesis by (auto simp: fm_ok_def)
  qed
qed

lemma push_ok:
  assumes "fm_ok L W s" and "h \<in> W" and "L p = Some (bucket_at h)"
  shows "push h p s = Inr ((), set_head h p (s\<lparr>fm_cdr := (fm_cdr s)(p \<mapsto> head_of s h)\<rparr>))
     \<and> p \<noteq> NULL \<and> fm_ok (L(p := None)) W (set_head h p (s\<lparr>fm_cdr := (fm_cdr s)(p \<mapsto> head_of s h)\<rparr>))"
  using assms push_home [of _ _ L W s h p] unfolding fm_ok_def by blast

section \<open>Cutting blocks from the pool\<close>

text \<open>What the allocation of a block leaves alone.\<close>

definition same_settings :: "frame_cache \<Rightarrow> frame_cache \<Rightarrow> bool" where
  "same_settings s t \<longleftrightarrow> fm_lock t = fm_lock s \<and> fm_batch_size t = fm_batch_size s
     \<and> fm_potential_limit t = fm_potential_limit s"

lemma same_settings_refl [simp]: "same_settings s s"
  by (simp add: same_settings_def)

lemma same_settings_trans: "same_settings s t \<Longrightarrow> same_settings t u \<Longrightarrow> same_settings s u"
  by (simp add: same_settings_def)

lemma cut_ok:
  assumes ok: "fm_ok L W s" and i: "i < FRAME_MALLOC_NBUCKETS"
    and room: "fm_pool_begin s + bsize i \<le> fm_pool_end s"
  shows "L (fm_pool_begin s) = None \<and> 0 < fm_pool_begin s
     \<and> fm_ok (L(fm_pool_begin s \<mapsto> i)) W (s\<lparr>fm_pool_begin := fm_pool_begin s + bsize i\<rparr>)"
proof -
  let ?p = "fm_pool_begin s" and ?t = "s\<lparr>fm_pool_begin := fm_pool_begin s + bsize i\<rparr>"
  obtain F lay where inv: "fm_inv F lay L W s" using ok by (auto simp: fm_ok_def)
  have pos: "0 < bsize i" "64 \<le> bsize i" using bucket_size_pos [OF i] by auto
  have lay: "layout_ok lay s" using inv by (simp add: fm_inv_def)
  then have p0: "0 < ?p" using room pos by (auto simp: layout_ok_def intro: ccontr)
  have new: "lay ?p = None"
  proof (rule ccontr)
    assume "lay ?p \<noteq> None"
    then obtain j where "lay ?p = Some j" by blast
    with lay have "j < FRAME_MALLOC_NBUCKETS" "?p + bsize j \<le> ?p \<or> fm_pool_end s \<le> ?p"
      unfolding layout_ok_def by blast+
    then show False using room pos bucket_size_pos [of j] by auto
  qed
  then have "L ?p = None" using inv map_leD [of L lay] by (cases "L ?p") (auto simp: fm_inv_def)
  have old: "a + bsize j \<le> ?p \<or> ?p + bsize i \<le> a" "a + bsize j \<le> ?p \<or> fm_pool_end s \<le> a"
    "j < FRAME_MALLOC_NBUCKETS" "0 < a" "a + bsize j \<le> fm_os_next s"
    if "lay a = Some j" for a j
    using lay that room unfolding layout_ok_def by (meson le_trans)+
  have "layout_ok (lay(?p \<mapsto> i)) ?t"
    unfolding layout_ok_def
  proof (intro conjI allI impI)
    fix a b j k assume "(lay(?p \<mapsto> i)) a = Some j" "(lay(?p \<mapsto> i)) b = Some k" "a \<noteq> b"
    then show "a + bsize j \<le> b \<or> b + bsize k \<le> a"
      using old(1) lay unfolding layout_ok_def by (auto split: if_splits)
  next
    fix a j assume "(lay(?p \<mapsto> i)) a = Some j"
    then show "a + bsize j \<le> fm_pool_begin ?t \<or> fm_pool_end ?t \<le> a"
      using old(2) room by (auto split: if_splits intro: trans_le_add1)
  qed (use lay room p0 i old in \<open>auto simp: layout_ok_def split: if_splits\<close>)
  moreover have "lists_ok F (lay(?p \<mapsto> i)) (L(?p \<mapsto> i)) W ?t"
  proof -
    have "head_of ?t h = head_of s h" for h by (cases h) auto
    moreover have "a \<noteq> ?p" if "h \<in> W" "a \<in> set (F h)" for h a
      using inv that new by (auto simp: fm_inv_def lists_ok_def)
    ultimately show ?thesis using inv by (simp add: fm_inv_def lists_ok_def)
  qed
  moreover have "L(?p \<mapsto> i) \<subseteq>\<^sub>m lay(?p \<mapsto> i)" using inv by (auto simp: fm_inv_def map_le_def)
  ultimately show ?thesis using p0 \<open>L ?p = None\<close> by (auto simp: fm_ok_def fm_inv_def)
qed

lemma new_chunk_ok:
  assumes "fm_ok L W s"
  shows "fm_ok L W (s\<lparr>fm_os_next := fm_os_next s + k + FRAME_MALLOC_CHUNK, fm_os_left := n,
     fm_pool_begin := fm_os_next s + k, fm_pool_end := fm_os_next s + k + FRAME_MALLOC_CHUNK,
     fm_allocated_from_os := o', fm_pool_list := cells\<rparr>)" (is "fm_ok L W ?t")
proof -
  obtain F lay where inv: "fm_inv F lay L W s" using assms by (auto simp: fm_ok_def)
  then have lay: "layout_ok lay s" by (simp add: fm_inv_def)
  have "layout_ok lay ?t"
    unfolding layout_ok_def
  proof (intro conjI allI impI)
    fix a j assume "lay a = Some j"
    then have "a + bsize j \<le> fm_os_next s" using lay unfolding layout_ok_def by blast
    then show "a + bsize j \<le> fm_os_next ?t" "a + bsize j \<le> fm_pool_begin ?t \<or> fm_pool_end ?t \<le> a"
      by simp_all
  qed (use lay in \<open>auto simp: layout_ok_def\<close>)
  moreover have "lists_ok F lay L W ?t"
  proof -
    have "head_of ?t h = head_of s h" for h by (cases h) auto
    then show ?thesis using inv by (simp add: fm_inv_def lists_ok_def)
  qed
  ultimately show ?thesis using inv by (auto simp: fm_ok_def fm_inv_def)
qed

lemma extend_ok:
  assumes "fm_ok L W s" and "2 \<le> fm_os_left s"
  shows "\<exists>t. extend_global_pool s = Inr ((), t) \<and> fm_ok L W t \<and> same_settings s t
     \<and> fm_free_list t = fm_free_list s \<and> fm_os_left t = fm_os_left s - 2
     \<and> fm_pool_begin t + FRAME_MALLOC_CHUNK = fm_pool_end t"
proof -
  have "0 < fm_os_next s" using assms(1) by (auto simp: fm_ok_def fm_inv_def layout_ok_def)
  with assms(2) new_chunk_ok [OF assms(1), where k = 16]
  show ?thesis by (simp add: extend_global_pool_def os_malloc_def run same_settings_def)
qed

lemma global_alloc_ok:
  assumes ok: "fm_ok L W s" and home: "Global_list i \<in> W" and i: "i < FRAME_MALLOC_NBUCKETS"
    and left: "2 \<le> fm_os_left s"
  shows "\<exists>p t. global_alloc i s = Inr (p, t) \<and> p \<noteq> NULL \<and> L p = None \<and> fm_ok (L(p \<mapsto> i)) W t
     \<and> same_settings s t \<and> fm_free_list t = fm_free_list s \<and> fm_os_left s \<le> fm_os_left t + 2"
proof -
  let ?s = "s\<lparr>fm_allocated_from_global_pool := fm_allocated_from_global_pool s + int (bsize i)\<rparr>"
  have ok': "fm_ok L W ?s" by (rule fm_ok_cong [OF ok]) simp_all
  have begin_ok: "fm_pool_begin s \<le> fm_pool_end s"
    using ok by (auto simp: fm_ok_def fm_inv_def layout_ok_def)
  from pop_ok [OF ok' home] show ?thesis
  proof (elim disjE exE conjE)
    fix p c
    assume "p \<noteq> NULL" "pop (Global_list i) ?s = Inr (p, set_head (Global_list i) c ?s)" "L p = None"
      "fm_ok (L(p \<mapsto> bucket_at (Global_list i))) W (set_head (Global_list i) c ?s)"
    then show ?thesis using i by (simp add: global_alloc_def run same_settings_def)
  next
    assume empty: "pop (Global_list i) ?s = Inr (NULL, ?s)"
    show ?thesis
    proof (cases "fm_pool_begin s + bsize i > fm_pool_end s")
      case False
      with cut_ok [OF ok' i] empty i begin_ok show ?thesis
        by (simp add: global_alloc_def run same_settings_def)
    next
      case True
      let ?u = "?s\<lparr>fm_wasted := fm_wasted s + int (fm_pool_end s) - int (fm_pool_begin s)\<rparr>"
      have "fm_ok L W ?u" by (rule fm_ok_cong [OF ok]) simp_all
      then obtain t where t: "extend_global_pool ?u = Inr ((), t)" "fm_ok L W t" "same_settings ?u t"
          "fm_free_list t = fm_free_list s" "fm_os_left t = fm_os_left s - 2"
          "fm_pool_begin t + FRAME_MALLOC_CHUNK = fm_pool_end t"
        using extend_ok [of L W ?u] left by auto
      have "bsize i \<le> FRAME_MALLOC_CHUNK"
        using bucket_size_pos [OF i] by (simp add: FRAME_MALLOC_MAX_SIZE_def FRAME_MALLOC_CHUNK_def)
      with cut_ok [OF t(2) i] t True empty i begin_ok show ?thesis
        by (simp add: global_alloc_def run same_settings_def)
    qed
  qed
qed

section \<open>Allocating and freeing frames\<close>

definition homes :: "ptr set \<Rightarrow> list_loc set" where
  "homes ws = {Global_list i |i. i < FRAME_MALLOC_NBUCKETS}
     \<union> {Worker_list w i |w i. w \<in> ws \<and> i < FRAME_MALLOC_NBUCKETS}"

lemma homes_iff [simp]:
  "Global_list i \<in> homes ws \<longleftrightarrow> i < FRAME_MALLOC_NBUCKETS"
  "Worker_list w i \<in> homes ws \<longleftrightarrow> w \<in> ws \<and> i < FRAME_MALLOC_NBUCKETS"
  by (auto simp: homes_def)

lemma run_read_write [simp]:
  "read_loc (Worker_list w i) s = Inr (fm_free_list s w i, s)"
  "read_loc (Cdr_of p) s = (case deref (fm_cdr s) p of None \<Rightarrow> Inl Segfault | Some c \<Rightarrow> Inr (c, s))"
  by (simp_all add: run)

lemma batch_round_ok:
  assumes ok: "fm_ok L (homes ws) s" and w: "w \<in> ws" and i: "i < FRAME_MALLOC_NBUCKETS"
    and left: "2 \<le> fm_os_left s"
  shows "\<exists>t. result [add_potential w i sz] (bindP (global_alloc i) (\<lambda>mem.
           result [push (Worker_list w i) mem] (k mem))) s = k (fm_free_list t w i) t
     \<and> fm_ok L (homes ws) t \<and> same_settings s t \<and> fm_free_list t w i \<noteq> NULL
     \<and> fm_os_left s \<le> fm_os_left t + 2"
proof -
  let ?s = "s\<lparr>fm_bucket_potential := (fm_bucket_potential s)
      (w := (fm_bucket_potential s w)(i := fm_bucket_potential s w i + sz))\<rparr>"
  have "fm_ok L (homes ws) ?s" by (rule fm_ok_cong [OF ok]) simp_all
  from global_alloc_ok [OF this, of i] i left obtain p t where t: "global_alloc i ?s = Inr (p, t)"
      "p \<noteq> NULL" "L p = None" "fm_ok (L(p \<mapsto> i)) (homes ws) t" "same_settings ?s t"
      "fm_os_left s \<le> fm_os_left t + 2" by auto
  let ?h = "Worker_list w i"
  let ?u = "set_head ?h p (t\<lparr>fm_cdr := (fm_cdr t)(p \<mapsto> head_of t ?h)\<rparr>)"
  have push: "push ?h p t = Inr ((), ?u)" "fm_ok ((L(p \<mapsto> i))(p := None)) (homes ws) ?u"
    using push_ok [OF t(4), of ?h p] w i by auto
  moreover have "(L(p \<mapsto> i))(p := None) = L" using t(3) by auto
  ultimately show ?thesis
    using t by (intro exI [of _ ?u]) (simp add: run add_potential_def same_settings_def)
qed

lemma allocate_batch_ok:
  assumes ok: "fm_ok L (homes ws) s" and w: "w \<in> ws" and i: "i < FRAME_MALLOC_NBUCKETS"
    and free: "fm_lock s = free_mutex" and left: "2 * fm_batch_size s + 2 \<le> fm_os_left s"
  shows "\<exists>t. allocate_batch w i (bsize i) s = Inr ((), t) \<and> fm_ok L (homes ws) t
     \<and> same_settings s t \<and> fm_free_list t w i \<noteq> NULL
     \<and> fm_os_left s \<le> fm_os_left t + 2 * fm_batch_size s + 2"
proof -
  let ?s = "s\<lparr>fm_lock := held_by w\<rparr>"
  let ?body = "\<lambda>bytes_allocated. result [add_potential w i (bsize i)]
        (bindP (global_alloc i) (\<lambda>mem.
         result [push (Worker_list w i) mem]
          (bindP (gets fm_batch_size) (\<lambda>batch_size.
             ret (if bytes_allocated + bsize i < batch_size then Inl (bytes_allocated + bsize i)
                  else Inr ())))))"
  let ?I = "\<lambda>n t. fm_ok L (homes ws) t \<and> same_settings ?s t
      \<and> n \<le> fm_batch_size t \<and> fm_os_left s \<le> fm_os_left t + 2 * n"
  let ?Q = "\<lambda>_ t. fm_ok L (homes ws) t \<and> same_settings ?s t \<and> fm_free_list t w i \<noteq> NULL
      \<and> fm_os_left s \<le> fm_os_left t + 2 * fm_batch_size s + 2"
  have pos: "64 \<le> bsize i" using bucket_size_pos [OF i] by simp
  have "\<exists>z t. loopP (Suc (fm_batch_size s)) ?body 0 ?s = Inr (z, t) \<and> ?Q z t"
  proof (rule loopP_rule [where I = ?I and m = "\<lambda>n t. fm_batch_size t - n"])
    show "?I 0 ?s" using left by (auto intro: fm_ok_cong [OF ok])
    fix n t assume I: "?I n t"
    then have "2 \<le> fm_os_left t" using left by (simp add: same_settings_def)
    with I obtain u where u: "?body n t = bindP (gets fm_batch_size) (\<lambda>batch_size.
          ret (if n + bsize i < batch_size then Inl (n + bsize i) else Inr ())) u"
        "fm_ok L (homes ws) u" "same_settings t u" "fm_free_list u w i \<noteq> NULL"
        "fm_os_left t \<le> fm_os_left u + 2"
      using batch_round_ok [where k = "\<lambda>_. bindP (gets fm_batch_size) (\<lambda>batch_size.
          ret (if n + bsize i < batch_size then Inl (n + bsize i) else Inr ()))"
          and L = L and ws = ws and s = t and w = w and i = i and sz = "bsize i"] w i by blast
    show "(\<exists>y u. ?body n t = Inr (Inl y, u) \<and> ?I y u \<and> fm_batch_size u - y < fm_batch_size t - n)
        \<or> (\<exists>z u. ?body n t = Inr (Inr z, u) \<and> ?Q z u)"
    proof (cases "n + bsize i < fm_batch_size u")
      case True
      then have "?body n t = Inr (Inl (n + bsize i), u)" unfolding u(1) by (simp add: run)
      moreover have "?I (n + bsize i) u"
        using I u True pos by (auto simp: same_settings_def)
      ultimately show ?thesis using u(3) True pos by (auto simp: same_settings_def)
    next
      case False
      then have "?body n t = Inr (Inr (), u)" unfolding u(1) by (simp add: run)
      moreover have "?Q () u" using I u by (auto simp: same_settings_def)
      ultimately show ?thesis by blast
    qed
  qed simp
  then obtain t where t: "loopP (Suc (fm_batch_size s)) ?body 0 ?s = Inr ((), t)" "?Q () t" by auto
  let ?t = "t\<lparr>fm_lock := free_mutex\<rparr>"
  have "allocate_batch w i (bsize i) s = Inr ((), ?t)"
    using t free by (simp add: allocate_batch_def run same_settings_def)
  moreover have "fm_ok L (homes ws) ?t" using t by (auto intro: fm_ok_cong)
  ultimately show ?thesis using t free by (auto simp: same_settings_def)
qed

lemma frame_malloc_ok:
  assumes ok: "fm_ok L (homes ws) s" and w: "w \<in> ws" "w \<noteq> NULL" and sz: "sz \<le> FRAME_MALLOC_MAX_SIZE"
    and free: "fm_lock s = free_mutex" and left: "2 * fm_batch_size s + 2 \<le> fm_os_left s"
  shows "\<exists>b p t. bucket_from 0 sz = Some b \<and> cilkrts_frame_malloc w sz s = Inr (p, t) \<and> p \<noteq> NULL
     \<and> L p = None \<and> fm_ok (L(p \<mapsto> b)) (homes ws) t \<and> same_settings s t
     \<and> fm_os_left s \<le> fm_os_left t + 2 * fm_batch_size s + 2"
proof -
  obtain b where b: "bucket_of_size sz = (ret b :: (frame_cache, nat) prog)" "bucket_from 0 sz = Some b"
    using bucket_of_size_returns [OF sz] by auto
  let ?h = "Worker_list w b"
  have i: "b < FRAME_MALLOC_NBUCKETS" using bucket_from_Some [OF b(2)] by simp
  then have h: "?h \<in> homes ws" using w by simp
  let ?body = "\<lambda>_ :: unit. bindP (pop ?h) (\<lambda>mem. if mem \<noteq> NULL then ret (Inr mem)
      else result [allocate_batch w b (bsize b)] (ret (Inl ())))"
  have hit: "\<exists>p t. ?body () u = Inr (Inr p, t) \<and> p \<noteq> NULL \<and> L p = None
       \<and> fm_ok (L(p \<mapsto> b)) (homes ws) t \<and> same_settings u t \<and> fm_os_left t = fm_os_left u"
    if "fm_ok L (homes ws) u" "fm_free_list u w b \<noteq> NULL" for u
    using pop_ok [OF that(1) h] that(2) by (auto simp: run same_settings_def simp del: set_head.simps)
  show ?thesis
  proof (cases "fm_free_list s w b = NULL")
    case False
    with hit [OF ok] obtain p t where "?body () s = Inr (Inr p, t)" "p \<noteq> NULL" "L p = None"
       "fm_ok (L(p \<mapsto> b)) (homes ws) t" "same_settings s t" "fm_os_left t = fm_os_left s" by blast
    then show ?thesis
      using w sz b by (auto simp: cilkrts_frame_malloc_def run run_loopP_Suc numeral_2_eq_2)
  next
    case True
    then have "?body () s = (case allocate_batch w b (bsize b) s of Inl e \<Rightarrow> Inl e
        | Inr (x, t) \<Rightarrow> Inr (Inl (), t))"
      by (auto simp: run pop_def split: sum.splits)
    moreover obtain u where u: "allocate_batch w b (bsize b) s = Inr ((), u)" "fm_ok L (homes ws) u"
        "same_settings s u" "fm_free_list u w b \<noteq> NULL"
        "fm_os_left s \<le> fm_os_left u + 2 * fm_batch_size s + 2"
      using allocate_batch_ok [OF ok w(1) i free left] by blast
    ultimately have "?body () s = Inr (Inl (), u)" by simp
    moreover obtain p t where "?body () u = Inr (Inr p, t)" "p \<noteq> NULL" "L p = None"
        "fm_ok (L(p \<mapsto> b)) (homes ws) t" "same_settings u t" "fm_os_left t = fm_os_left u"
      using hit [OF u(2,4)] by blast
    ultimately show ?thesis
      using w sz b u(5) same_settings_trans [OF u(3)]
      by (auto simp: cilkrts_frame_malloc_def run_bindP run_ret run_loopP_Suc numeral_2_eq_2)
  qed
qed

section \<open>Garbage collection of a bucket\<close>

text \<open>The tail of a free list behind one of its blocks is given back block by block.\<close>

lemma path_split:
  "path m p (xs @ q # ys) \<Longrightarrow> q \<noteq> NULL \<and> (\<exists>c. m q = Some c \<and> path m c ys)"
  by (induction xs arbitrary: p) auto

lemma path_replace_tail:
  "path m p (xs @ q # ys) \<Longrightarrow> q \<notin> set xs \<Longrightarrow> q \<notin> set zs \<Longrightarrow> path m c zs \<Longrightarrow>
   path (m(q \<mapsto> c)) p (xs @ q # zs)"
  by (induction xs arbitrary: p) auto

lemma pop_behind:
  assumes inv: "fm_inv F lay L W s" and h: "h \<in> W" "F h = xs @ p # q # ys"
  shows "\<exists>c. pop (Cdr_of p) s = Inr (q, s\<lparr>fm_cdr := (fm_cdr s)(p \<mapsto> c)\<rparr>) \<and> q \<noteq> NULL \<and> L q = None
     \<and> fm_inv (F(h := xs @ p # ys)) lay (L(q \<mapsto> bucket_at h)) W (s\<lparr>fm_cdr := (fm_cdr s)(p \<mapsto> c)\<rparr>)"
proof -
  have home: "path (fm_cdr s) (head_of s h) (xs @ p # q # ys)" "distinct (xs @ p # q # ys)"
    using lists_ok_at [OF inv h(1)] h(2) by simp_all
  have lay: "lay q = Some (bucket_at h)" "L q = None"
    using inv h by (auto simp: fm_inv_def lists_ok_def)
  obtain c where c: "fm_cdr s p = Some q" "p \<noteq> NULL" "q \<noteq> NULL" "fm_cdr s q = Some c" "path (fm_cdr s) c ys"
    using path_split [OF home(1)] by auto
  let ?t = "s\<lparr>fm_cdr := (fm_cdr s)(p \<mapsto> c)\<rparr>"
  have fresh: "p \<notin> set (F k) \<and> q \<notin> set (F k)" if "k \<in> W" "k \<noteq> h" for k
    using inv h that unfolding fm_inv_def lists_ok_def by fastforce
  have "pop (Cdr_of p) s = Inr (q, ?t)" using c by (simp add: pop_def run deref_def)
  moreover have "lists_ok (F(h := xs @ p # ys)) lay (L(q \<mapsto> bucket_at h)) W ?t"
    unfolding lists_ok_def
  proof (intro ballI conjI impI)
    fix k a assume k: "k \<in> W" and a: "a \<in> set ((F(h := xs @ p # ys)) k)"
    then have "a \<noteq> q" using fresh home by (auto split: if_splits)
    with k a show "(L(q \<mapsto> bucket_at h)) a = None" "lay a = Some (bucket_at k)"
      using inv h by (auto simp: fm_inv_def lists_ok_def split: if_splits)
  next
    fix k k' assume "k \<in> W" "k' \<in> W" "k \<noteq> k'"
    then have "set (F k) \<inter> set (F k') = {}" using inv unfolding fm_inv_def lists_ok_def by blast
    then show "set ((F(h := xs @ p # ys)) k) \<inter> set ((F(h := xs @ p # ys)) k') = {}"
      using h \<open>k \<noteq> k'\<close> by (auto split: if_splits)
  next
    fix k assume k: "k \<in> W"
    have "head_of ?t k = head_of s k" by (cases k) auto
    then show "path (fm_cdr ?t) (head_of ?t k) ((F(h := xs @ p # ys)) k)"
      using k inv fresh [of k] path_replace_tail [OF home(1), of ys c] home(2) c(5)
      by (auto simp: fm_inv_def lists_ok_def)
  next
    fix k assume k: "k \<in> W"
    show "distinct ((F(h := xs @ p # ys)) k)"
      using home(2) lists_ok_at [OF inv k] by (cases "k = h") auto
    show "is_home k" using lists_ok_at [OF inv k] by simp
  qed
  moreover have "layout_ok lay ?t" using inv by (simp add: fm_inv_def layout_ok_cong [of ?t s])
  ultimately show ?thesis using inv lay c by (auto simp: fm_inv_def map_le_def)
qed

lemma global_free_inv:
  assumes inv: "fm_inv F lay (L(q \<mapsto> i)) W s" and h: "Global_list i \<in> W" and i: "i < FRAME_MALLOC_NBUCKETS"
    and q: "L q = None"
  shows "\<exists>t. global_free q i s = Inr ((), t) \<and> same_settings s t \<and> fm_free_list t = fm_free_list s
     \<and> fm_os_next t = fm_os_next s
     \<and> fm_inv (F(Global_list i := q # F (Global_list i))) lay L W t"
proof -
  let ?s = "s\<lparr>fm_allocated_from_global_pool := fm_allocated_from_global_pool s - int (bsize i)\<rparr>"
  have "head_of ?s h = head_of s h" for h by (cases h) auto
  then have "fm_inv F lay (L(q \<mapsto> i)) W ?s" by (intro fm_inv_cong [OF inv]) simp_all
  from push_home [OF this h, of q] obtain t where "push (Global_list i) q ?s = Inr ((), t)"
      "t = set_head (Global_list i) q (?s\<lparr>fm_cdr := (fm_cdr ?s)(q \<mapsto> head_of ?s (Global_list i))\<rparr>)"
      "fm_inv (F(Global_list i := q # F (Global_list i))) lay ((L(q \<mapsto> i))(q := None)) W t"
    by auto
  moreover have "(L(q \<mapsto> i))(q := None) = L" using q by auto
  ultimately show ?thesis
    using i by (simp add: global_free_def run same_settings_def)
qed

lemma give_back_ok:
  assumes inv: "fm_inv F lay L (homes ws) s" and w: "w \<in> ws" and i: "i < FRAME_MALLOC_NBUCKETS"
    and F: "F (Worker_list w i) = xs @ p # ys"
  shows "\<exists>t. walk (\<lambda>_. bindP (pop (Cdr_of p)) (\<lambda>q.
           if q \<noteq> NULL then result [global_free q i] (ret (Inl ())) else ret (Inr ()))) () s
         = Inr ((), t) \<and> fm_ok L (homes ws) t \<and> same_settings s t"
proof -
  let ?h = "Worker_list w i"
  let ?body = "\<lambda>_ :: unit. bindP (pop (Cdr_of p)) (\<lambda>q.
           if q \<noteq> NULL then result [global_free q i] (ret (Inl ())) else ret (Inr ()))"
  let ?tails = "\<lambda>t. {ys. \<exists>F. fm_inv F lay L (homes ws) t \<and> F ?h = xs @ p # ys}"
  let ?I = "\<lambda>(_ :: unit) t. same_settings s t \<and> fm_os_next t = fm_os_next s \<and> ?tails t \<noteq> {}"
  let ?m = "\<lambda>(_ :: unit) t. LEAST n. \<exists>ys \<in> ?tails t. n = length ys"
  have next_round: "(zs = [] \<and> ?body () t = Inr (Inr (), t))
      \<or> (\<exists>z zs' u. zs = z # zs' \<and> ?body () t = Inr (Inl (), u) \<and> same_settings t u
            \<and> fm_os_next u = fm_os_next t \<and> zs' \<in> ?tails u)"
    if G: "fm_inv G lay L (homes ws) t" "G ?h = xs @ p # zs" for G t zs
  proof (cases zs)
    case Nil
    have "path (fm_cdr t) (head_of t ?h) (xs @ p # zs)"
      using lists_ok_at [OF G(1), of ?h] G(2) w i by simp
    then have "fm_cdr t p = Some NULL" "p \<noteq> NULL" using path_split Nil by fastforce+
    with Nil show ?thesis by (simp add: run pop_def deref_def)
  next
    case (Cons z zs')
    then obtain c where c: "pop (Cdr_of p) t = Inr (z, t\<lparr>fm_cdr := (fm_cdr t)(p \<mapsto> c)\<rparr>)" "z \<noteq> NULL"
        "L z = None" "fm_inv (G(?h := xs @ p # zs')) lay (L(z \<mapsto> i)) (homes ws)
           (t\<lparr>fm_cdr := (fm_cdr t)(p \<mapsto> c)\<rparr>)"
      using pop_behind [OF G(1), of ?h xs p z zs'] G(2) w i by auto
    from global_free_inv [OF c(4) _ i c(3)] i obtain u
      where "global_free z i (t\<lparr>fm_cdr := (fm_cdr t)(p \<mapsto> c)\<rparr>) = Inr ((), u)" "same_settings t u"
        "fm_os_next u = fm_os_next t"
        "fm_inv ((G(?h := xs @ p # zs'))(Global_list i := z # (G(?h := xs @ p # zs')) (Global_list i)))
           lay L (homes ws) u"
      by (auto simp: same_settings_def)
    then show ?thesis using Cons c(1,2) by (fastforce simp: run)
  qed
  have least: "\<exists>G zs. fm_inv G lay L (homes ws) t \<and> G ?h = xs @ p # zs \<and> ?m () t = length zs"
    if "?tails t \<noteq> {}" for t
  proof -
    from that obtain ys where "ys \<in> ?tails t" by blast
    then have "\<exists>n. \<exists>ys \<in> ?tails t. n = length ys" by blast
    from LeastI_ex [OF this] show ?thesis by auto
  qed
  have "\<exists>z t. loopP (Suc (fm_os_next s)) ?body () s = Inr (z, t)
      \<and> (\<lambda>_ t. fm_ok L (homes ws) t \<and> same_settings s t) z t"
  proof (rule loopP_rule [where I = ?I and m = ?m])
    show "?I () s" using inv F by auto
    obtain G zs where "fm_inv G lay L (homes ws) s" "G ?h = xs @ p # zs" "?m () s = length zs"
      using least [of s] inv F by blast
    then show "?m () s < Suc (fm_os_next s)"
      using list_length_bound [of G lay L "homes ws" s ?h] w i by simp
    fix x :: unit and t assume I: "?I x t"
    then obtain G zs where G: "fm_inv G lay L (homes ws) t" "G ?h = xs @ p # zs" "?m () t = length zs"
      using least [of t] by blast
    from next_round [OF G(1,2)]
    show "(\<exists>y u. ?body x t = Inr (Inl y, u) \<and> ?I y u \<and> ?m y u < ?m x t)
      \<or> (\<exists>z u. ?body x t = Inr (Inr z, u) \<and> fm_ok L (homes ws) u \<and> same_settings s u)"
    proof (elim disjE exE conjE)
      assume "?body () t = Inr (Inr (), t)"
      then show ?thesis using I G(1) by (auto simp: fm_ok_def)
    next
      fix z zs' u
      assume u: "zs = z # zs'" "?body () t = Inr (Inl (), u)" "same_settings t u"
        "fm_os_next u = fm_os_next t" "zs' \<in> ?tails u"
      have "?m () u \<le> length zs'" using u(5) by (intro Least_le) blast
      then have less: "?m () u < ?m () t" using G(3) u(1) by simp
      have Iu: "?I () u"
        by (rule conjI [OF same_settings_trans [OF conjunct1 [OF I] u(3)]
            conjI [OF trans [OF u(4) conjunct1 [OF conjunct2 [OF I]]] ex_in_conv [THEN iffD1, OF exI, OF u(5)]]])
      show ?thesis by (rule disjI1, rule exI [of _ "()"], rule exI [of _ u], intro conjI u(2) Iu less)
    qed
  qed
  then show ?thesis by (auto simp: walk_def run)
qed

text \<open>The scan of \<open>gc_bucket\<close> stops at a block of the list or at its end.\<close>

lemma gc_scan_ok:
  assumes inv: "fm_inv F lay L (homes ws) s" and w: "w \<in> ws" and i: "i < FRAME_MALLOC_NBUCKETS"
  shows "\<exists>newpot p. walk (\<lambda>(newpot, p). if p \<noteq> NULL \<and> 2 * newpot < pot
               then bindP (read_loc (Cdr_of p)) (\<lambda>c. ret (Inl (newpot + bsize i, c)))
               else ret (Inr (newpot, p))) (0, fm_free_list s w i) s = Inr ((newpot, p), s)
     \<and> (p \<noteq> NULL \<longrightarrow> (\<exists>xs ys. F (Worker_list w i) = xs @ p # ys))"
proof -
  let ?h = "Worker_list w i"
  let ?body = "\<lambda>(newpot, p). if p \<noteq> NULL \<and> 2 * newpot < pot
               then bindP (read_loc (Cdr_of p)) (\<lambda>c. ret (Inl (newpot + bsize i, c)))
               else ret (Inr (newpot, p))"
  have path: "path (fm_cdr s) (fm_free_list s w i) (F ?h)"
    using lists_ok_at [OF inv, of ?h] w i by simp
  have scan: "\<exists>newpot p. loopP fuel ?body (n, q) s = Inr ((newpot, p), s)
      \<and> (p \<noteq> NULL \<longrightarrow> (\<exists>xs ys. zs @ qs = xs @ p # ys))"
    if "path (fm_cdr s) q qs" "length qs < fuel" for fuel n q qs zs
    using that
  proof (induction qs arbitrary: fuel n q zs)
    case Nil
    then show ?case by (cases fuel) (auto simp: run_loopP_Suc run)
  next
    case (Cons x qs)
    then obtain c fuel' where c: "q = x" "x \<noteq> NULL" "fm_cdr s x = Some c" "path (fm_cdr s) c qs"
        "fuel = Suc fuel'" "length qs < fuel'" by (cases fuel) auto
    show ?case
    proof (cases "2 * n < pot")
      case True
      with c Cons.IH [OF c(4,6), where zs = "zs @ [x]" and n = "n + bsize i"] show ?thesis
        by (simp add: run_loopP_Suc run deref_def)
    next
      case False
      with c show ?thesis by (auto simp: run_loopP_Suc run)
    qed
  qed
  have "length (F ?h) < Suc (fm_os_next s)"
    using list_length_bound [OF inv, of ?h] w i by simp
  from scan [OF path this, where n = 0 and zs = "[]"] show ?thesis by (simp add: walk_def run)
qed

lemma gc_bucket_ok:
  assumes ok: "fm_ok L (homes ws) s" and w: "w \<in> ws" and i: "i < FRAME_MALLOC_NBUCKETS"
    and free: "fm_lock s = free_mutex"
  shows "\<exists>t. gc_bucket w i (bsize i) s = Inr ((), t) \<and> fm_ok L (homes ws) t \<and> same_settings s t"
proof -
  obtain F lay where inv: "fm_inv F lay L (homes ws) s" using ok by (auto simp: fm_ok_def)
  let ?pot = "fm_bucket_potential s w i"
  obtain newpot p where scan: "walk (\<lambda>(newpot, p). if p \<noteq> NULL \<and> 2 * newpot < ?pot
               then bindP (read_loc (Cdr_of p)) (\<lambda>c. ret (Inl (newpot + bsize i, c)))
               else ret (Inr (newpot, p))) (0, fm_free_list s w i) s = Inr ((newpot, p), s)"
      "p \<noteq> NULL \<longrightarrow> (\<exists>xs ys. F (Worker_list w i) = xs @ p # ys)"
    using gc_scan_ok [OF inv w i] by blast
  let ?s = "s\<lparr>fm_bucket_potential := (fm_bucket_potential s)(w := (fm_bucket_potential s w)(i := newpot))\<rparr>"
  have head: "head_of (?s\<lparr>fm_lock := m\<rparr>) h = head_of s h" for h m by (cases h) auto
  show ?thesis
  proof (cases "p = NULL")
    case True
    moreover have "fm_ok L (homes ws) ?s" by (rule fm_ok_cong [OF ok]) simp_all
    ultimately show ?thesis
      using scan by (simp add: gc_bucket_def run_bindP run_gets run_block_Cons run_block_Nil run_whenP
          set_potential_def run_modify same_settings_def)
  next
    case False
    then obtain xs ys where F: "F (Worker_list w i) = xs @ p # ys" using scan(2) by blast
    let ?l = "?s\<lparr>fm_lock := held_by w\<rparr>"
    have "fm_inv F lay L (homes ws) ?l" by (rule fm_inv_cong [OF inv]) (simp_all add: head)
    from give_back_ok [OF this w i F] obtain t where t: "walk (\<lambda>_. bindP (pop (Cdr_of p)) (\<lambda>q.
           if q \<noteq> NULL then result [global_free q i] (ret (Inl ())) else ret (Inr ()))) () ?l
         = Inr ((), t)" "fm_ok L (homes ws) t" "same_settings ?l t" by blast
    have "fm_ok L (homes ws) (t\<lparr>fm_lock := free_mutex\<rparr>)" by (rule fm_ok_cong [OF t(2)]) simp_all
    then show ?thesis
      using scan t False free
      by (simp add: gc_bucket_def run_bindP run_gets run_block_Cons run_block_Nil run_whenP
          set_potential_def run_modify run_on_part same_settings_def)
  qed
qed

lemma frame_free_ok:
  assumes ok: "fm_ok L (homes ws) s" and w: "w \<in> ws" "w \<noteq> NULL" and sz: "sz \<le> FRAME_MALLOC_MAX_SIZE"
    and p: "L p = bucket_from 0 sz" and free: "fm_lock s = free_mutex"
  shows "\<exists>t. cilkrts_frame_free w p sz s = Inr ((), t) \<and> fm_ok (L(p := None)) (homes ws) t
     \<and> same_settings s t"
proof -
  obtain b where b: "bucket_of_size sz = (ret b :: (frame_cache, nat) prog)" "bucket_from 0 sz = Some b"
    using bucket_of_size_returns [OF sz] by auto
  let ?h = "Worker_list w b"
  have i: "b < FRAME_MALLOC_NBUCKETS" using bucket_from_Some [OF b(2)] by simp
  let ?s = "s\<lparr>fm_bucket_potential := (fm_bucket_potential s)
      (w := (fm_bucket_potential s w)(b := fm_bucket_potential s w b + bsize b))\<rparr>"
  have "fm_ok L (homes ws) ?s" by (rule fm_ok_cong [OF ok]) simp_all
  from push_ok [OF this, of ?h p] b p w i obtain t where t: "push ?h p ?s = Inr ((), t)"
      "fm_ok (L(p := None)) (homes ws) t" "same_settings ?s t"
    by (auto simp: same_settings_def)
  show ?thesis
  proof (cases "fm_bucket_potential t w b > fm_potential_limit t")
    case False
    with t w sz b show ?thesis
      by (simp add: cilkrts_frame_free_def run add_potential_def same_settings_def)
  next
    case True
    have "fm_lock t = free_mutex" using t(3) free by (simp add: same_settings_def)
    from gc_bucket_ok [OF t(2) w(1) i this] obtain u where "gc_bucket w b (bsize b) t = Inr ((), u)"
      "fm_ok (L(p := None)) (homes ws) u" "same_settings t u" by blast
    with True t w sz b show ?thesis
      by (simp add: cilkrts_frame_free_def run add_potential_def same_settings_def)
  qed
qed

section \<open>Sessions\<close>

text \<open>
  What the runtime does with the allocator: initialise it and the lists of its workers, then
  allocate and free frames of at most 2048 bytes, each by any worker, as long as \<open>malloc\<close>
  has memory for one more batch. \<open>live\<close> maps the frames in use to the sizes requested.
\<close>

inductive fm_session :: "ptr list \<Rightarrow> (ptr \<rightharpoonup> nat) \<Rightarrow> frame_cache \<Rightarrow> bool" for ws where
  fm_start: "0 < fm_os_next s \<Longrightarrow> NULL \<notin> set ws \<Longrightarrow>
     block (cilkrts_frame_malloc_global_init # map cilkrts_frame_malloc_per_worker_init ws) s = Inr ((), t) \<Longrightarrow>
     fm_session ws Map.empty t"
| fm_malloc: "fm_session ws live s \<Longrightarrow> w \<in> set ws \<Longrightarrow> sz \<le> FRAME_MALLOC_MAX_SIZE \<Longrightarrow>
     2 * fm_batch_size s + 2 \<le> fm_os_left s \<Longrightarrow> cilkrts_frame_malloc w sz s = Inr (p, t) \<Longrightarrow>
     fm_session ws (live(p \<mapsto> sz)) t"
| fm_free: "fm_session ws live s \<Longrightarrow> w \<in> set ws \<Longrightarrow> live p = Some sz \<Longrightarrow>
     cilkrts_frame_free w p sz s = Inr ((), t) \<Longrightarrow> fm_session ws (live(p := None)) t"

definition buckets :: "(ptr \<rightharpoonup> nat) \<Rightarrow> ptr \<rightharpoonup> nat" where
  "buckets live p = (case live p of None \<Rightarrow> None | Some sz \<Rightarrow> bucket_from 0 sz)"

lemma buckets_upd: "buckets (live(p := x)) = (buckets live)(p := (case x of None \<Rightarrow> None | Some sz \<Rightarrow> bucket_from 0 sz))"
  by (auto simp: buckets_def)

text \<open>Initialisation empties the lists, the pool and the lock.\<close>

lemma write_globals:
  "block (map (\<lambda>i. write_loc (Global_list i) NULL) xs) s =
     Inr ((), s\<lparr>fm_global_free_list := (\<lambda>i. if i \<in> set xs then NULL else fm_global_free_list s i)\<rparr>)"
  by (induction xs arbitrary: s) (auto simp: run fun_eq_iff)

definition just_made :: "ptr set \<Rightarrow> frame_cache \<Rightarrow> bool" where
  "just_made ws s \<longleftrightarrow> fm_lock s = free_mutex \<and> fm_pool_begin s = NULL \<and> fm_pool_end s = NULL
     \<and> 0 < fm_os_next s \<and> (\<forall>i < FRAME_MALLOC_NBUCKETS. fm_global_free_list s i = NULL)
     \<and> (\<forall>w \<in> ws. \<forall>i < FRAME_MALLOC_NBUCKETS. fm_free_list s w i = NULL)"

lemma global_init_just_made:
  "0 < fm_os_next s \<Longrightarrow> \<exists>t. cilkrts_frame_malloc_global_init s = Inr ((), t) \<and> just_made {} t"
  by (simp add: cilkrts_frame_malloc_global_init_def run block_append write_globals just_made_def
      del: write_loc.simps)

lemma init_lists:
  "\<exists>t. block (map (\<lambda>i. block [write_loc (Worker_list w i) NULL, set_potential w i 0]) xs) s = Inr ((), t)
     \<and> fm_lock t = fm_lock s \<and> fm_pool_begin t = fm_pool_begin s \<and> fm_pool_end t = fm_pool_end s
     \<and> fm_os_next t = fm_os_next s \<and> fm_global_free_list t = fm_global_free_list s
     \<and> (\<forall>v i. fm_free_list t v i = (if v = w \<and> i \<in> set xs then NULL else fm_free_list s v i))"
proof (induction xs arbitrary: s)
  case (Cons i xs)
  let ?s = "s\<lparr>fm_free_list := (fm_free_list s)(w := (fm_free_list s w)(i := NULL)),
     fm_bucket_potential := (fm_bucket_potential s)(w := (fm_bucket_potential s w)(i := 0))\<rparr>"
  from Cons.IH [of ?s] show ?case by (auto simp: run set_potential_def)
qed (simp add: run)

lemma worker_init_just_made:
  "just_made ws s \<Longrightarrow> \<exists>t. cilkrts_frame_malloc_per_worker_init w s = Inr ((), t) \<and> just_made (insert w ws) t"
  using init_lists [of w "[0..<FRAME_MALLOC_NBUCKETS]" s]
  by (auto simp: cilkrts_frame_malloc_per_worker_init_def just_made_def)

lemma all_init_just_made:
  "just_made vs s \<Longrightarrow> block (map cilkrts_frame_malloc_per_worker_init ws) s = Inr ((), t) \<Longrightarrow>
   just_made (vs \<union> set ws) t"
proof (induction ws arbitrary: vs s)
  case (Cons w ws)
  obtain u where u: "cilkrts_frame_malloc_per_worker_init w s = Inr ((), u)" "just_made (insert w vs) u"
    using worker_init_just_made [OF Cons.prems(1)] by blast
  with Cons.prems(2) Cons.IH [OF u(2)] show ?case by (simp add: run)
qed (simp add: run)

lemma just_made_ok: "just_made ws s \<Longrightarrow> fm_ok Map.empty (homes ws) s"
proof -
  assume made: "just_made ws s"
  have "is_home h \<and> head_of s h = NULL" if "h \<in> homes ws" for h
    using made that by (auto simp: homes_def just_made_def)
  then have "fm_inv (\<lambda>_. []) Map.empty Map.empty (homes ws) s"
    using made by (auto simp: fm_inv_def layout_ok_def lists_ok_def just_made_def)
  then show ?thesis by (auto simp: fm_ok_def)
qed

lemma session_ok:
  "fm_session ws live s \<Longrightarrow> NULL \<notin> set ws \<and> fm_lock s = free_mutex \<and> fm_ok (buckets live) (homes (set ws)) s
     \<and> (\<forall>p sz. live p = Some sz \<longrightarrow> sz \<le> FRAME_MALLOC_MAX_SIZE)"
proof (induction rule: fm_session.induct)
  case (fm_start s t)
  then obtain u where u: "cilkrts_frame_malloc_global_init s = Inr ((), u)" "just_made {} u"
    using global_init_just_made by blast
  with fm_start have "just_made (set ws) t"
    using all_init_just_made [OF u(2)] by (simp add: run)
  moreover have "buckets Map.empty = Map.empty" by (auto simp: buckets_def)
  ultimately show ?case using fm_start just_made_ok by (auto simp: just_made_def)
next
  case (fm_malloc live s w sz p t)
  then have "w \<noteq> NULL" by (intro notI) simp
  with fm_malloc frame_malloc_ok [of "buckets live" "set ws" s w sz] obtain b
    where b: "bucket_from 0 sz = Some b" "fm_ok ((buckets live)(p \<mapsto> b)) (homes (set ws)) t"
      "same_settings s t" by auto
  then have "fm_ok (buckets (live(p \<mapsto> sz))) (homes (set ws)) t" by (simp add: buckets_upd)
  moreover have "\<forall>q n. (live(p \<mapsto> sz)) q = Some n \<longrightarrow> n \<le> FRAME_MALLOC_MAX_SIZE" using fm_malloc by auto
  moreover have "fm_lock t = free_mutex" using b fm_malloc by (simp add: same_settings_def)
  ultimately show ?case using fm_malloc by blast
next
  case (fm_free live s w p sz t)
  then have "w \<noteq> NULL" by (intro notI) simp
  moreover have "buckets live p = bucket_from 0 sz" using fm_free by (simp add: buckets_def)
  ultimately have t: "fm_ok ((buckets live)(p := None)) (homes (set ws)) t" "same_settings s t"
    using fm_free frame_free_ok [of "buckets live" "set ws" s w sz p] by auto
  then have "fm_ok (buckets (live(p := None))) (homes (set ws)) t" by (simp add: buckets_upd)
  moreover have "\<forall>q n. (live(p := None)) q = Some n \<longrightarrow> n \<le> FRAME_MALLOC_MAX_SIZE" using fm_free by auto
  moreover have "fm_lock t = free_mutex" using t fm_free by (simp add: same_settings_def)
  ultimately show ?case using fm_free by blast
qed

lemma session_block:
  assumes "fm_session ws live s" and "live p = Some sz"
  shows "\<exists>b. buckets live p = Some b \<and> sz \<le> bsize b"
proof -
  have "sz \<le> FRAME_MALLOC_MAX_SIZE" using session_ok [OF assms(1)] assms(2) by blast
  then obtain b where "bucket_from 0 sz = Some b" using bucket_of_size_returns [of sz] by blast
  then show ?thesis using assms(2) bucket_from_Some by (auto simp: buckets_def)
qed

lemma frames_pos:
  assumes "fm_session ws live s" and "live a = Some m"
  shows "a \<noteq> NULL"
proof -
  obtain i where "buckets live a = Some i" using session_block assms by blast
  moreover have "fm_ok (buckets live) (homes (set ws)) s" using session_ok [OF assms(1)] by simp
  ultimately show ?thesis unfolding fm_ok_def fm_inv_def layout_ok_def by (metis less_irrefl map_leD)
qed

text \<open>
  C5. No overlap: through any sequence of allocations and frees by any workers, the frames in
  use are pairwise disjoint ranges of memory and none is at NULL, however blocks travel
  between the workers' lists, the global lists and the pool.
\<close>

theorem frames_never_overlap:
  assumes "fm_session ws live s" and "live a = Some m" and "live b = Some n" and "a \<noteq> b"
  shows "a \<noteq> NULL \<and> (a + m \<le> b \<or> b + n \<le> a)"
proof -
  obtain i j where ij: "buckets live a = Some i" "m \<le> bsize i" "buckets live b = Some j" "n \<le> bsize j"
    using session_block assms by blast
  have ok: "fm_ok (buckets live) (homes (set ws)) s" using session_ok [OF assms(1)] by simp
  then have "a \<noteq> NULL" using ij(1)
    unfolding fm_ok_def fm_inv_def layout_ok_def by (metis less_irrefl map_leD)
  moreover have "a + bsize i \<le> b \<or> b + bsize j \<le> a"
    by (rule fm_ok_blocks_disjoint [OF ok ij(1,3) assms(4)])
  ultimately show ?thesis using ij(2,4) by auto
qed

text \<open>
  C6. The allocator always answers: in any session, a request of up to 2048 bytes by a worker
  returns a frame that is not NULL and not in use, taking the global lock and giving it back,
  and a frame in use can be freed by any worker; the loops of the code end in both cases.
\<close>

theorem frame_malloc_answers:
  assumes "fm_session ws live s" and "w \<in> set ws"
  shows "(sz \<le> FRAME_MALLOC_MAX_SIZE \<longrightarrow> 2 * fm_batch_size s + 2 \<le> fm_os_left s \<longrightarrow>
           (\<exists>p t. cilkrts_frame_malloc w sz s = Inr (p, t) \<and> p \<noteq> NULL \<and> live p = None
              \<and> fm_lock t = free_mutex))
     \<and> (live q = Some n \<longrightarrow> (\<exists>t. cilkrts_frame_free w q n s = Inr ((), t) \<and> fm_lock t = free_mutex))"
proof (intro conjI impI)
  have inv: "w \<noteq> NULL" "fm_lock s = free_mutex" "fm_ok (buckets live) (homes (set ws)) s"
    using session_ok [OF assms(1)] assms(2) by (intro notI, simp_all)
  have dead: "live p = None" if "buckets live p = None" for p
    using session_block [OF assms(1), of p] that by (cases "live p") auto
  show "\<exists>p t. cilkrts_frame_malloc w sz s = Inr (p, t) \<and> p \<noteq> NULL \<and> live p = None \<and> fm_lock t = free_mutex"
    if "sz \<le> FRAME_MALLOC_MAX_SIZE" "2 * fm_batch_size s + 2 \<le> fm_os_left s"
    using frame_malloc_ok [OF inv(3) assms(2) inv(1) that(1) inv(2) that(2)] dead inv(2)
    by (auto simp: same_settings_def)
  show "\<exists>t. cilkrts_frame_free w q n s = Inr ((), t) \<and> fm_lock t = free_mutex" if "live q = Some n"
  proof -
    have "n \<le> FRAME_MALLOC_MAX_SIZE" "buckets live q = bucket_from 0 n"
      using session_ok [OF assms(1)] that by (auto simp: buckets_def)
    from frame_free_ok [OF inv(3) assms(2) inv(1) this inv(2)] show ?thesis
      using inv(2) by (auto simp: same_settings_def)
  qed
qed

text \<open>A session of two workers in which the first takes two frames.\<close>

lemma started_cache_eq: "block (cilkrts_frame_malloc_global_init # map cilkrts_frame_malloc_per_worker_init [10, 11])
    fresh_frame_cache = Inr ((), fresh_frame_cache)"
  by (simp add: cilkrts_frame_malloc_global_init_def cilkrts_frame_malloc_per_worker_init_def run
      set_potential_def FRAME_MALLOC_NBUCKETS_def fresh_frame_cache_def upt_rec fun_eq_iff)

lemma started_session: "fm_session [10, 11] Map.empty fresh_frame_cache"
  by (rule fm_start [OF _ _ started_cache_eq]) (simp_all add: fresh_frame_cache_def)

lemma two_frames: "\<exists>a b s. fm_session [10, 11] [a \<mapsto> 168, b \<mapsto> 100] s \<and> a \<noteq> b"
proof -
  have settings: "fm_batch_size fresh_frame_cache = 8000" "fm_os_left fresh_frame_cache = 1000000"
    by (simp_all add: fresh_frame_cache_def)
  note ok = session_ok [OF started_session]
  from frame_malloc_ok [of "buckets Map.empty" "set [10, 11]" fresh_frame_cache 10 168] ok settings
  obtain a t where t: "cilkrts_frame_malloc 10 168 fresh_frame_cache = Inr (a, t)"
      "same_settings fresh_frame_cache t" "1000000 \<le> fm_os_left t + 2 * 8000 + 2"
    by (auto simp: FRAME_MALLOC_MAX_SIZE_def)
  have one: "fm_session [10, 11] [a \<mapsto> 168] t"
    by (rule fm_malloc [OF started_session _ _ _ t(1)]) (simp_all add: settings FRAME_MALLOC_MAX_SIZE_def)
  have batch: "fm_batch_size t = 8000" using t(2) settings by (simp add: same_settings_def)
  note ok = session_ok [OF one]
  from frame_malloc_ok [of "buckets [a \<mapsto> 168]" "set [10, 11]" t 11 100] ok batch t(3)
  obtain b u where u: "cilkrts_frame_malloc 11 100 t = Inr (b, u)" "buckets [a \<mapsto> 168] b = None"
    by (auto simp: FRAME_MALLOC_MAX_SIZE_def)
  have "buckets [a \<mapsto> 168] a \<noteq> None" using session_block [OF one, of a 168] by auto
  then have "a \<noteq> b" using u(2) by auto
  moreover have "fm_session [10, 11] ([a \<mapsto> 168](b \<mapsto> 100)) u"
    by (rule fm_malloc [OF one _ _ _ u(1)]) (use batch t(3) in \<open>simp_all add: FRAME_MALLOC_MAX_SIZE_def\<close>)
  ultimately show ?thesis by blast
qed

theorem frames_never_overlap_witness:
  "\<exists>a b s. fm_session [10, 11] [a \<mapsto> 168, b \<mapsto> 100] s \<and> a \<noteq> NULL \<and> (a + 168 \<le> b \<or> b + 100 \<le> a)"
proof -
  obtain a b s where "fm_session [10, 11] [a \<mapsto> 168, b \<mapsto> 100] s" "a \<noteq> b" using two_frames by blast
  with frames_never_overlap [OF this(1), of a 168 b 100] show ?thesis by auto
qed

theorem frame_malloc_answers_witness:
  "\<exists>p t. cilkrts_frame_malloc 10 168 fresh_frame_cache = Inr (p, t) \<and> p \<noteq> NULL \<and> fm_lock t = free_mutex"
  using frame_malloc_answers [OF started_session, of 10 168 0 0]
  by (simp add: fresh_frame_cache_def FRAME_MALLOC_MAX_SIZE_def)

end
