(* ===== verification/Full_Frame.thy ===== *)
theory Full_Frame
  imports Worker_Lock Frame_Malloc_Safety
begin

text \<open>
  Full frames (\<open>full_frame.c\<close>) and the spawn tree they form (\<open>scheduler.c\<close>): making and
  destroying frames, the arithmetic of the stack pointer at a sync, the list of the children
  of a frame, the join counter, and the promotion of a stolen call stack to full frames.
\<close>

section \<open>Operations of full\_frame.c\<close>

definition SIZEOF_FULL_FRAME :: nat where "SIZEOF_FULL_FRAME = 168"

definition PLACEHOLDER_FIBER :: ptr where "PLACEHOLDER_FIBER = 2 ^ 64 - 2"

text \<open>What \<open>__cilkrts_make_full_frame\<close> writes into the new object.\<close>

definition fresh_full_frame :: "ptr \<Rightarrow> full_frame" where
  "fresh_full_frame sf = \<lparr>ff_magic_0 = FULL_FRAME_MAGIC_0, ff_lock = free_mutex, ff_join_counter = 0,
     ff_is_call_child = False, ff_simulated_stolen = False, ff_parent = NULL, ff_left_sibling = NULL,
     ff_right_sibling = NULL, ff_rightmost_child = NULL, ff_call_stack = sf,
     ff_children_reducer_map = NULL, ff_right_reducer_map = NULL, ff_pending_exception = NULL,
     ff_child_pending_exception = NULL, ff_right_pending_exception = NULL, ff_sync_sp = 0,
     ff_frame_size = 0, ff_fiber_self = NULL, ff_fiber_child = NULL, ff_sync_master = NULL,
     ff_magic_1 = FULL_FRAME_MAGIC_1\<rparr>"

definition cilkrts_make_full_frame :: "ptr \<Rightarrow> ptr \<Rightarrow> (rts, ptr) prog" where
  "cilkrts_make_full_frame w sf =
     bindP (on_part r_fm r_fm_update (cilkrts_frame_malloc w SIZEOF_FULL_FRAME)) (\<lambda>ff.
       if ff = NULL then failP Segfault
       else result [modify (\<lambda>s. s\<lparr>r_frames := (r_frames s)(ff \<mapsto> fresh_full_frame sf)\<rparr>)] (ret ff))"

text \<open>Pointers added and subtracted as 64-bit numbers.\<close>

definition cilkrts_put_stack :: "ptr \<Rightarrow> ptr \<Rightarrow> (rts, unit) prog" where
  "cilkrts_put_stack ff sf =
     bindP (ld_ff ff_sync_sp ff) (\<lambda>sync_sp_i.
     bindP (ld_sf sf_sp sf) (\<lambda>sp.
       st_ff ff (ff_sync_sp_update (\<lambda>_. sp + sync_sp_i))))"

definition cilkrts_take_stack :: "ptr \<Rightarrow> 64 word \<Rightarrow> (rts, unit) prog" where
  "cilkrts_take_stack ff sp =
     bindP (ld_ff ff_sync_sp ff) (\<lambda>sync_sp.
     bindP (ret (sync_sp - sp)) (\<lambda>sync_sp_i.
       st_ff ff (ff_sync_sp_update (\<lambda>_. sync_sp_i))))"

definition cilkrts_adjust_stack :: "ptr \<Rightarrow> 64 word \<Rightarrow> (rts, unit) prog" where
  "cilkrts_adjust_stack ff n =
     bindP (ld_ff ff_sync_sp ff) (\<lambda>sync_sp. st_ff ff (ff_sync_sp_update (\<lambda>_. sync_sp + n)))"

definition validate_full_frame :: "ptr \<Rightarrow> (rts, unit) prog" where
  "validate_full_frame ff =
     bindP (ld_ff (\<lambda>x. ff_magic_0 x \<noteq> FULL_FRAME_MAGIC_0 \<or> ff_magic_1 x \<noteq> FULL_FRAME_MAGIC_1) ff) (\<lambda>bad.
       whenP bad abort_because_rts_is_corrupted)"

definition cilkrts_destroy_full_frame :: "ptr \<Rightarrow> ptr \<Rightarrow> (rts, unit) prog" where
  "cilkrts_destroy_full_frame w ff = block [
     validate_full_frame ff,
     bindP (ld_ff ff_children_reducer_map ff) (\<lambda>m. CILK_ASSERT ''ff->children_reducer_map == 0'' (m = NULL)),
     bindP (ld_ff ff_right_reducer_map ff) (\<lambda>m. CILK_ASSERT ''ff->right_reducer_map == 0'' (m = NULL)),
     bindP (ld_ff ff_pending_exception ff) (\<lambda>e. CILK_ASSERT ''NULL == ff->pending_exception'' (e = NULL)),
     bindP (ld_ff ff_child_pending_exception ff) (\<lambda>e.
       CILK_ASSERT ''NULL == ff->child_pending_exception'' (e = NULL)),
     bindP (ld_ff ff_right_pending_exception ff) (\<lambda>e.
       CILK_ASSERT ''NULL == ff->right_pending_exception'' (e = NULL)),
     modify (\<lambda>s. s\<lparr>r_frames := (r_frames s)(ff := None)\<rparr>),
     on_part r_fm r_fm_update (cilkrts_frame_free w ff SIZEOF_FULL_FRAME)]"

abbreviation on_frame_lock :: "ptr \<Rightarrow> (mutex, 'a) prog \<Rightarrow> (rts, 'a) prog" where
  "on_frame_lock ff m \<equiv> on_field r_frames r_frames_update ff_lock ff_lock_update ff m"

definition cilkrts_frame_lock :: "ptr \<Rightarrow> ptr \<Rightarrow> (rts, unit) prog" where
  "cilkrts_frame_lock w ff = block [validate_full_frame ff, on_frame_lock ff (cilkrts_mutex_lock w)]"

definition cilkrts_frame_unlock :: "ptr \<Rightarrow> ptr \<Rightarrow> (rts, unit) prog" where
  "cilkrts_frame_unlock w ff = on_frame_lock ff (cilkrts_mutex_unlock w)"

text \<open>\<open>BEGIN_WITH_FRAME_LOCK(w, ff) { body } END_WITH_FRAME_LOCK(w, ff)\<close>.\<close>

definition with_frame_lock :: "ptr \<Rightarrow> ptr \<Rightarrow> (rts, unit) prog list \<Rightarrow> (rts, unit) prog" where
  "with_frame_lock w ff body = block [cilkrts_frame_lock w ff, block body, cilkrts_frame_unlock w ff]"

section \<open>The spawn tree\<close>

definition double_link :: "ptr \<Rightarrow> ptr \<Rightarrow> (rts, unit) prog" where
  "double_link left_ff right_ff = block [
     whenP (left_ff \<noteq> NULL) (st_ff left_ff (ff_right_sibling_update (\<lambda>_. right_ff))),
     whenP (right_ff \<noteq> NULL) (st_ff right_ff (ff_left_sibling_update (\<lambda>_. left_ff)))]"

definition push_child :: "ptr \<Rightarrow> ptr \<Rightarrow> (rts, unit) prog" where
  "push_child parent_ff child_ff = block [
     bindP (ld_ff ff_rightmost_child parent_ff) (\<lambda>r. double_link r child_ff),
     double_link child_ff NULL,
     st_ff parent_ff (ff_rightmost_child_update (\<lambda>_. child_ff))]"

definition unlink_child :: "ptr \<Rightarrow> ptr \<Rightarrow> (rts, unit) prog" where
  "unlink_child parent_ff child_ff = block [
     bindP (ld_ff ff_left_sibling child_ff) (\<lambda>l.
     bindP (ld_ff ff_right_sibling child_ff) (\<lambda>r. double_link l r)),
     bindP (ld_ff ff_right_sibling child_ff) (\<lambda>r. whenP (r = NULL) (block [
       bindP (ld_ff ff_rightmost_child parent_ff) (\<lambda>c.
         CILK_ASSERT ''parent_ff->rightmost_child == child_ff'' (c = child_ff)),
       bindP (ld_ff ff_left_sibling child_ff) (\<lambda>l.
         st_ff parent_ff (ff_rightmost_child_update (\<lambda>_. l)))])),
     st_ff child_ff (ff_right_sibling_update (\<lambda>_. NULL)),
     st_ff child_ff (ff_left_sibling_update (\<lambda>_. NULL))]"

definition incjoin :: "ptr \<Rightarrow> (rts, unit) prog" where
  "incjoin ff = bindP (ld_ff ff_join_counter ff) (\<lambda>n. st_ff ff (ff_join_counter_update (\<lambda>_. n + 1)))"

definition decjoin :: "ptr \<Rightarrow> (rts, int) prog" where
  "decjoin ff =
     bindP (ld_ff ff_join_counter ff) (\<lambda>n. result [
       CILK_ASSERT ''ff->join_counter > 0'' (n > 0),
       st_ff ff (ff_join_counter_update (\<lambda>_. n - 1))]
     (ret (n - 1)))"

definition simulate_decjoin :: "ptr \<Rightarrow> (rts, int) prog" where
  "simulate_decjoin ff =
     bindP (ld_ff ff_join_counter ff) (\<lambda>n.
       result [CILK_ASSERT ''ff->join_counter > 0'' (n > 0)] (ret (n - 1)))"

definition make_runnable :: "ptr \<Rightarrow> ptr \<Rightarrow> ptr \<Rightarrow> (rts, unit) prog" where
  "make_runnable w ff d = block [
     st_dq d (dq_frame_ff_update (\<lambda>_. ff)),
     st_ff ff (ff_call_stack_update (\<lambda>_. NULL))]"

text \<open>\<open>(ptrdiff_t)FP(sf) - (ptrdiff_t)SP(sf)\<close>.\<close>

definition cilkrts_get_frame_size :: "ptr \<Rightarrow> (rts, 64 word) prog" where
  "cilkrts_get_frame_size sf = ld_sf (\<lambda>x. sf_fp x - sf_sp x) sf"

definition cilkrts_make_unrunnable_sysdep :: "ptr \<Rightarrow> ptr \<Rightarrow> ptr \<Rightarrow> bool \<Rightarrow> (rts, unit) prog" where
  "cilkrts_make_unrunnable_sysdep w ff sf is_loot = block [
     st_sf sf (sf_except_data_update (\<lambda>_. NULL)),
     whenP is_loot (block [
       bindP (ld_ff ff_frame_size ff) (\<lambda>n. whenP (n = 0)
         (bindP (cilkrts_get_frame_size sf) (\<lambda>k. st_ff ff (ff_frame_size_update (\<lambda>_. k))))),
       st_sf sf (sf_sp_update (\<lambda>_. 0))])]"

definition make_unrunnable :: "ptr \<Rightarrow> ptr \<Rightarrow> ptr \<Rightarrow> bool \<Rightarrow> (rts, unit) prog" where
  "make_unrunnable w ff sf is_loot = block [
     st_ff ff (ff_call_stack_update (\<lambda>_. sf)),
     whenP (sf \<noteq> NULL) (block [
       bindP (ld_sf sf_flags sf) (\<lambda>f.
         st_sf sf (sf_flags_update (\<lambda>_. set_flag (CILK_FRAME_STOLEN OR CILK_FRAME_SUSPENDED) f))),
       st_sf sf (sf_worker_update (\<lambda>_. NULL)),
       bindP (ld_sf sf_flags sf) (\<lambda>f.
         whenP (is_loot \<and> \<not> has_flag f CILK_FRAME_FUTURE_PARENT) (cilkrts_put_stack ff sf)),
       cilkrts_make_unrunnable_sysdep w ff sf is_loot])]"

section \<open>The next frame of a worker\<close>

definition cilkrts_push_next_frame :: "ptr \<Rightarrow> ptr \<Rightarrow> (rts, unit) prog" where
  "cilkrts_push_next_frame w ff = block [
     CILK_ASSERT ''ff'' (ff \<noteq> NULL),
     bindP (ld_wk wk_next_frame_ff w) (\<lambda>n. CILK_ASSERT ''!w->l->next_frame_ff'' (n = NULL)),
     incjoin ff,
     st_wk w (wk_next_frame_ff_update (\<lambda>_. ff))]"

definition pop_next_frame :: "ptr \<Rightarrow> (rts, ptr) prog" where
  "pop_next_frame w =
     bindP (ld_wk wk_next_frame_ff w) (\<lambda>ff.
       result [whenP (ff \<noteq> NULL) (st_wk w (wk_next_frame_ff_update (\<lambda>_. NULL)))] (ret ff))"

definition set_sync_master :: "ptr \<Rightarrow> ptr \<Rightarrow> (rts, unit) prog" where
  "set_sync_master w ff = block [
     st_wk w (wk_last_full_frame_update (\<lambda>_. ff)),
     st_ff ff (ff_sync_master_update (\<lambda>_. w))]"

definition unset_sync_master :: "ptr \<Rightarrow> ptr \<Rightarrow> (rts, unit) prog" where
  "unset_sync_master w ff = block [
     bindP (ld_wk wk_type w) (\<lambda>ty. CILK_ASSERT ''WORKER_USER == w->l->type'' (ty = WORKER_USER)),
     bindP (ld_ff ff_sync_master ff) (\<lambda>m. CILK_ASSERT ''ff->sync_master == w'' (m = w)),
     st_ff ff (ff_sync_master_update (\<lambda>_. NULL)),
     st_wk w (wk_last_full_frame_update (\<lambda>_. NULL)),
     bindP (ld_wk wk_active_deque w) (\<lambda>d.
     bindP (ld_dq dq_team d) (\<lambda>team.
     bindP (ld_wk wk_active_deque team) (\<lambda>d'.
       st_g (g_original_deque_update (\<lambda>_. d')))))]"

section \<open>Promotion of a call stack\<close>

definition make_child :: "ptr \<Rightarrow> ptr \<Rightarrow> ptr \<Rightarrow> ptr \<Rightarrow> (rts, ptr) prog" where
  "make_child w parent_ff child_sf fiber =
     bindP (cilkrts_make_full_frame w child_sf) (\<lambda>child_ff.
     bindP (ld_ff ff_call_stack parent_ff) (\<lambda>psf.
     result [CILK_ASSERT ''parent_ff->call_stack'' (psf \<noteq> NULL)]
      (bindP (ld_sf sf_flags psf) (\<lambda>pflags.
       result [whenP (\<not> has_flag pflags CILK_FRAME_FUTURE_PARENT) (block [
           st_ff child_ff (ff_parent_update (\<lambda>_. parent_ff)),
           push_child parent_ff child_ff,
           st_ff child_ff (ff_is_call_child_update (\<lambda>_. fiber = NULL)),
           bindP (ret (if fiber = PLACEHOLDER_FIBER then NULL else fiber)) (\<lambda>fiber. block [
             bindP (ld_ff ff_fiber_self parent_ff) (\<lambda>fb.
               st_ff child_ff (ff_fiber_self_update (\<lambda>_. fb))),
             st_ff child_ff (ff_sync_master_update (\<lambda>_. NULL)),
             bindP (ld_ff ff_is_call_child child_ff) (\<lambda>called.
               if called then st_ff parent_ff (ff_fiber_self_update (\<lambda>_. NULL))
               else st_ff parent_ff (ff_fiber_self_update (\<lambda>_. fiber))),
             incjoin parent_ff])])]
        (ret child_ff)))))"

definition cilkrts_advance_frame :: "ptr \<Rightarrow> (rts, ptr) prog" where
  "cilkrts_advance_frame sf =
     bindP (ld_sf sf_call_parent sf) (\<lambda>p. result [st_sf sf (sf_call_parent_update (\<lambda>_. NULL))] (ret p))"

definition unroll_mask :: "32 word" where
  "unroll_mask = CILK_FRAME_DETACHED OR CILK_FRAME_STOLEN OR CILK_FRAME_LAST"

text \<open>
  The loop that turns the links of a call stack around, from the youngest frame to the oldest,
  and the loop that promotes the frames from the oldest to the youngest. Memory holds at most
  \<open>r_brk\<close> frames, so that many rounds are enough.
\<close>

definition reverse_round :: "ptr \<times> ptr \<Rightarrow> (rts, (ptr \<times> ptr) + ptr) prog" where
  "reverse_round = (\<lambda>(sf, rev_sf).
     bindP (ld_sf sf_flags sf) (\<lambda>flags.
     bindP (if has_flag flags unroll_mask then ret NULL else ld_sf sf_call_parent sf) (\<lambda>t_sf.
       result [st_sf sf (sf_call_parent_update (\<lambda>_. rev_sf))]
         (ret (if t_sf \<noteq> NULL then Inl (t_sf, sf) else Inr sf)))))"

definition promote_round :: "ptr \<Rightarrow> ptr \<Rightarrow> ptr \<times> ptr \<times> ptr \<Rightarrow> (rts, (ptr \<times> ptr \<times> ptr) + (ptr \<times> ptr)) prog" where
  "promote_round w loot_sf = (\<lambda>(ff, sf, t_sf).
     if t_sf = NULL then ret (Inr (ff, sf))
     else bindP (make_child w ff t_sf NULL) (\<lambda>ff.
       result [make_unrunnable w ff t_sf (t_sf = loot_sf)]
         (bindP (cilkrts_advance_frame t_sf) (\<lambda>next_sf. ret (Inl (ff, t_sf, next_sf))))))"

definition loopM :: "('a \<Rightarrow> (rts, 'a + 'b) prog) \<Rightarrow> 'a \<Rightarrow> (rts, 'b) prog" where
  "loopM body x = bindP (gets r_brk) (\<lambda>fuel. loopP (Suc fuel) body x)"

definition unroll_call_stack :: "ptr \<Rightarrow> ptr \<Rightarrow> ptr \<Rightarrow> (rts, ptr) prog" where
  "unroll_call_stack w ff loot_sf =
     result [
       CILK_ASSERT ''sf'' (loot_sf \<noteq> NULL),
       bindP (ld_sf sf_worker loot_sf) (\<lambda>owner.
       bindP (if owner \<noteq> w then ret True
              else bindP (ld_wk wk_active_deque w) (\<lambda>d. ld_dq (\<lambda>x. dq_frame_ff x \<noteq> ff) d)) (\<lambda>foreign.
       bindP (ld_sf sf_flags loot_sf) (\<lambda>flags.
         whenP (foreign \<and> \<not> has_flag flags CILK_FRAME_FUTURE_PARENT)
           (st_sf loot_sf (sf_flags_update (\<lambda>_. set_flag CILK_FRAME_UNSYNCHED flags))))))]
     (bindP (loopM reverse_round (loot_sf, NULL)) (\<lambda>sf.
      result [make_unrunnable w ff sf (sf = loot_sf)]
       (bindP (cilkrts_advance_frame sf) (\<lambda>t_sf.
        bindP (loopM (promote_round w loot_sf) (ff, sf, t_sf)) (\<lambda>(ff, sf).
          result [bindP (ld_sf sf_call_parent sf) (\<lambda>p. CILK_ASSERT ''!sf->call_parent'' (p = NULL))]
            (ret ff))))))"

end
