(* ===== verification/Spawn_Tree.thy ===== *)
theory Spawn_Tree
  imports Full_Frame
begin

text \<open>
  What the operations of \<open>Full_Frame\<close> achieve: the links of the children of a frame are a list
  in the serial order, the stack pointer of a frame survives steals, and a stolen call stack
  becomes a chain of full frames.
\<close>

section \<open>The list of children\<close>

text \<open>
  \<open>seg m l cs r\<close>: the frames \<open>cs\<close> are linked in this order; the first has \<open>l\<close> on its left and
  the last has \<open>r\<close> on its right.
\<close>

fun seg :: "(ptr \<rightharpoonup> full_frame) \<Rightarrow> ptr \<Rightarrow> ptr list \<Rightarrow> ptr \<Rightarrow> bool" where
  "seg m l [] r = True"
| "seg m l (c # cs) r = ((\<exists>x. deref m c = Some x \<and> ff_left_sibling x = l \<and> ff_right_sibling x = hd (cs @ [r]))
     \<and> seg m c cs r)"

definition children :: "(ptr \<rightharpoonup> full_frame) \<Rightarrow> ptr \<Rightarrow> ptr list \<Rightarrow> bool" where
  "children m p cs \<longleftrightarrow> (\<exists>x. deref m p = Some x \<and> ff_rightmost_child x = last (NULL # cs))
     \<and> seg m NULL cs NULL \<and> distinct (p # cs)"

lemma seg_append: "seg m l (as @ bs) r \<longleftrightarrow> seg m l as (hd (bs @ [r])) \<and> seg m (last (l # as)) bs r"
  by (induction as arbitrary: l) (auto simp: hd_append)

lemma seg_upd [simp]: "q \<notin> set cs \<Longrightarrow> seg (m(q \<mapsto> x)) l cs r = seg m l cs r"
  by (induction cs arbitrary: l) auto

lemma seg_no_NULL: "seg m l cs r \<Longrightarrow> NULL \<notin> set cs"
  by (induction cs arbitrary: l) (auto dest: deref_SomeD)

lemma seg_mem: "seg m l cs r \<Longrightarrow> c \<in> set cs \<Longrightarrow> \<exists>x. deref m c = Some x"
  by (induction cs arbitrary: l) auto

text \<open>What the two links of a cut in the list are set to.\<close>

lemma seg_set_right:
  "seg m l (as @ [a]) r \<Longrightarrow> deref m a = Some x \<Longrightarrow> a \<notin> set as \<Longrightarrow>
   seg (m(a \<mapsto> x\<lparr>ff_right_sibling := r'\<rparr>)) l (as @ [a]) r'"
  by (auto simp: seg_append dest: deref_SomeD)

lemma seg_set_left:
  "seg m l (b # bs) r \<Longrightarrow> deref m b = Some x \<Longrightarrow> b \<notin> set bs \<Longrightarrow>
   seg (m(b \<mapsto> x\<lparr>ff_left_sibling := l'\<rparr>)) l' (b # bs) r"
  by (auto dest: deref_SomeD)

text \<open>Operations on the list change only links.\<close>

definition without_links :: "full_frame \<Rightarrow> full_frame" where
  "without_links x = x\<lparr>ff_left_sibling := NULL, ff_right_sibling := NULL, ff_rightmost_child := NULL\<rparr>"

definition only_links :: "(ptr \<rightharpoonup> full_frame) \<Rightarrow> (ptr \<rightharpoonup> full_frame) \<Rightarrow> bool" where
  "only_links m m' \<longleftrightarrow> (\<forall>q. map_option without_links (m' q) = map_option without_links (m q))"

lemma only_links_refl [simp]: "only_links m m"
  by (simp add: only_links_def)

lemma only_links_trans: "only_links m n \<Longrightarrow> only_links n k \<Longrightarrow> only_links m k"
  by (simp add: only_links_def)

lemma without_links_simps [simp]:
  "without_links (x\<lparr>ff_left_sibling := a\<rparr>) = without_links x"
  "without_links (x\<lparr>ff_right_sibling := a\<rparr>) = without_links x"
  "without_links (x\<lparr>ff_rightmost_child := a\<rparr>) = without_links x"
  by (simp_all add: without_links_def)

lemma run_double_link:
  "(l = NULL \<or> deref (r_frames s) l = Some x) \<Longrightarrow> (r = NULL \<or> deref (r_frames s) r = Some y) \<Longrightarrow> l \<noteq> r \<or> l = NULL \<Longrightarrow>
   double_link l r s = Inr ((), s\<lparr>r_frames :=
     (let m = (if l = NULL then r_frames s else (r_frames s)(l \<mapsto> x\<lparr>ff_right_sibling := r\<rparr>))
      in if r = NULL then m else m(r \<mapsto> y\<lparr>ff_left_sibling := l\<rparr>))\<rparr>)"
  by (auto simp: double_link_def run Let_def)

lemma push_child_ok:
  assumes ch: "children (r_frames s) p cs" and px: "deref (r_frames s) p = Some x" and c: "deref (r_frames s) c = Some y" "c \<notin> set (p # cs)"
  shows "\<exists>m. push_child p c s = Inr ((), s\<lparr>r_frames := m\<rparr>) \<and> children m p (cs @ [c])
     \<and> only_links (r_frames s) m \<and> (\<forall>q. q \<noteq> p \<longrightarrow> q \<noteq> c \<longrightarrow> q \<noteq> last (NULL # cs) \<longrightarrow> m q = r_frames s q)
     \<and> m p = Some (x\<lparr>ff_rightmost_child := c\<rparr>)
     \<and> m c = Some (y\<lparr>ff_left_sibling := last (NULL # cs), ff_right_sibling := NULL\<rparr>)"
proof -
  have x: "deref (r_frames s) p = Some x" "ff_rightmost_child x = last (NULL # cs)"
    and sg: "seg (r_frames s) NULL cs NULL" and d: "distinct (p # cs)"
    using ch px by (auto simp: children_def)
  have nz: "p \<noteq> 0" "c \<noteq> 0" "p \<noteq> c" using x c by (auto dest: deref_SomeD)
  show ?thesis
  proof (cases cs rule: rev_cases)
    case Nil
    let ?m = "(r_frames s)(c \<mapsto> y\<lparr>ff_left_sibling := NULL, ff_right_sibling := NULL\<rparr>, p \<mapsto> x\<lparr>ff_rightmost_child := c\<rparr>)"
    have "push_child p c s = Inr ((), s\<lparr>r_frames := ?m\<rparr>)"
      using x c nz Nil by (simp add: push_child_def run double_link_def fun_upd_twist)
    moreover have "children ?m p [c]" using nz by (auto simp: children_def)
    moreover have "only_links (r_frames s) ?m"
      using x c nz by (auto simp: only_links_def dest!: deref_SomeD)
    ultimately show ?thesis using Nil nz by (intro exI [of _ ?m]) simp
  next
    case (snoc as a)
    obtain z where z: "deref (r_frames s) a = Some z" using seg_mem [OF sg, of a] snoc by auto
    have a: "a \<noteq> 0" "a \<noteq> p" "a \<noteq> c" "a \<notin> set as" "p \<notin> set as" "c \<notin> set as"
      using z d c snoc by (auto dest: deref_SomeD)
    let ?m1 = "(r_frames s)(a \<mapsto> z\<lparr>ff_right_sibling := c\<rparr>)"
    let ?m = "?m1(c \<mapsto> y\<lparr>ff_left_sibling := a, ff_right_sibling := NULL\<rparr>, p \<mapsto> x\<lparr>ff_rightmost_child := c\<rparr>)"
    have "push_child p c s = Inr ((), s\<lparr>r_frames := ?m\<rparr>)"
      using x c nz snoc z a by (simp add: push_child_def run double_link_def)
    moreover have "seg ?m1 NULL (as @ [a]) c"
      by (rule seg_set_right) (use sg snoc z a in auto)
    then have "children ?m p (cs @ [c])" using nz a d c snoc
      by (auto simp: children_def seg_append)
    moreover have "only_links (r_frames s) ?m"
      using x c nz z a by (auto simp: only_links_def dest!: deref_SomeD)
    ultimately show ?thesis using snoc nz a by (intro exI [of _ ?m]) simp
  qed
qed

text \<open>Unlinking a frame in the middle, by the neighbours it has.\<close>

lemma unlink_links:
  assumes "children (r_frames s) p (as @ c # bs)"
  shows "\<exists>m. unlink_child p c s = Inr ((), s\<lparr>r_frames := m\<rparr>) \<and> children m p (as @ bs)
     \<and> only_links (r_frames s) m \<and> (\<forall>q. q \<notin> {p, c, last (NULL # as), hd (bs @ [NULL])} \<longrightarrow> m q = r_frames s q)"
proof -
  let ?f = "r_frames s"
  obtain x y where x: "deref ?f p = Some x" "ff_rightmost_child x = last (NULL # as @ c # bs)"
    and y: "deref ?f c = Some y" "ff_left_sibling y = last (NULL # as)" "ff_right_sibling y = hd (bs @ [NULL])"
    and sg: "seg ?f NULL as c" "seg ?f c bs NULL" and d: "distinct (p # as @ c # bs)"
    using assms by (auto simp: children_def seg_append)
  let ?y = "y\<lparr>ff_right_sibling := NULL, ff_left_sibling := NULL\<rparr>"
  have nz: "p \<noteq> 0" "c \<noteq> 0" "p \<noteq> c" using x y d by (auto dest: deref_SomeD)
  show ?thesis
  proof (cases as rule: rev_cases)
    case as: Nil
    show ?thesis
    proof (cases bs)
      case bs: Nil
      let ?m = "?f(p \<mapsto> x\<lparr>ff_rightmost_child := NULL\<rparr>, c \<mapsto> ?y)"
      have "unlink_child p c s = Inr ((), s\<lparr>r_frames := ?m\<rparr>)"
        using x y nz as bs by (simp add: unlink_child_def run double_link_def)
      moreover have "children ?m p []" using nz x by (auto simp: children_def)
      moreover have "only_links ?f ?m" using x y nz by (auto simp: only_links_def dest!: deref_SomeD)
      ultimately show ?thesis using as bs by auto
    next
      case bs: (Cons b bs')
      obtain z where z: "deref ?f b = Some z" using seg_mem [OF sg(2), of b] bs by auto
      have b: "b \<noteq> 0" "b \<noteq> p" "b \<noteq> c" "b \<notin> set bs'" using z d bs by (auto dest: deref_SomeD)
      let ?m = "?f(b \<mapsto> z\<lparr>ff_left_sibling := NULL\<rparr>, c \<mapsto> ?y)"
      have "unlink_child p c s = Inr ((), s\<lparr>r_frames := ?m\<rparr>)"
        using x y nz as bs z b by (simp add: unlink_child_def run double_link_def)
      moreover have "seg (?f(b \<mapsto> z\<lparr>ff_left_sibling := NULL\<rparr>)) NULL bs NULL"
        unfolding bs by (rule seg_set_left [where l = c, OF _ z]) (use sg bs b in auto)
      then have "children ?m p bs" using nz x b d bs as by (auto simp: children_def)
      moreover have "only_links ?f ?m" using x y z b nz by (auto simp: only_links_def dest!: deref_SomeD)
      ultimately show ?thesis using as bs by auto
    qed
  next
    case as: (snoc as' a)
    obtain u where u: "deref ?f a = Some u" using seg_mem [OF sg(1), of a] as by auto
    have a: "a \<noteq> 0" "a \<noteq> p" "a \<noteq> c" "a \<notin> set as'" using u d as by (auto dest: deref_SomeD)
    show ?thesis
    proof (cases bs)
      case bs: Nil
      let ?m1 = "?f(a \<mapsto> u\<lparr>ff_right_sibling := NULL\<rparr>)"
      let ?m = "?m1(p \<mapsto> x\<lparr>ff_rightmost_child := a\<rparr>, c \<mapsto> ?y)"
      have "unlink_child p c s = Inr ((), s\<lparr>r_frames := ?m\<rparr>)"
        using x y nz as bs u a by (simp add: unlink_child_def run double_link_def)
      moreover have "seg ?m1 NULL as NULL"
        unfolding as by (rule seg_set_right [where r = c, OF _ u]) (use sg as a in auto)
      then have "children ?m p as" using nz x a d as bs by (auto simp: children_def)
      moreover have "only_links ?f ?m" using x y u a nz by (auto simp: only_links_def dest!: deref_SomeD)
      ultimately show ?thesis using as bs by auto
    next
      case bs: (Cons b bs')
      obtain z where z: "deref ?f b = Some z" using seg_mem [OF sg(2), of b] bs by auto
      have b: "b \<noteq> 0" "b \<noteq> p" "b \<noteq> c" "b \<notin> set bs'" "b \<noteq> a" "b \<notin> set as'" "a \<notin> set bs'"
        using z d bs as by (auto dest: deref_SomeD)
      let ?m1 = "?f(a \<mapsto> u\<lparr>ff_right_sibling := b\<rparr>, b \<mapsto> z\<lparr>ff_left_sibling := a\<rparr>)"
      let ?m = "?m1(c \<mapsto> ?y)"
      have "unlink_child p c s = Inr ((), s\<lparr>r_frames := ?m\<rparr>)"
        using x y nz as bs u a z b by (simp add: unlink_child_def run double_link_def)
      moreover have "seg (?f(a \<mapsto> u\<lparr>ff_right_sibling := b\<rparr>)) NULL as b"
        unfolding as by (rule seg_set_right [where r = c, OF _ u]) (use sg as a in auto)
      then have "seg ?m1 NULL as b" using b as by simp
      moreover have "seg (?f(b \<mapsto> z\<lparr>ff_left_sibling := a\<rparr>)) a bs NULL"
        unfolding bs by (rule seg_set_left [where l = c, OF _ z]) (use sg bs b in auto)
      then have "seg ?m1 a bs NULL" using a b bs by (simp add: fun_upd_twist [of a b])
      ultimately have "children ?m p (as @ bs)" using nz x a b d as bs
        by (auto simp: children_def seg_append)
      moreover have "only_links ?f ?m" using x y u a z b nz by (auto simp: only_links_def dest!: deref_SomeD)
      ultimately show ?thesis using \<open>unlink_child p c s = _\<close> as bs by auto
    qed
  qed
qed

text \<open>
  The list of children as a container: adding puts a frame at the right end, removing takes it
  out wherever it is, and nothing else changes.
\<close>

lemma only_links_deref: "only_links m m' \<Longrightarrow> (deref m' q = None) = (deref m q = None)"
  by (simp add: only_links_def deref_def) (metis map_option_is_None)

interpretation kid_list: container "\<lambda>s. children (r_frames s) p" "\<lambda>c cs. c \<in> set cs"
  "\<lambda>c cs. cs @ [c]" remove1 "\<lambda>s c. frame_at s c \<noteq> None \<and> c \<noteq> p" "\<lambda>_. n"
  "\<lambda>s t. only_links (r_frames s) (r_frames t) \<and> t = s\<lparr>r_frames := r_frames t\<rparr>"
  "push_child p" "unlink_child p" for p n
proof (unfold_locales, goal_cases)
  case (2 s t u)
  then show ?case by (metis only_links_trans rts.surjective rts.update_convs(1))
next
  case (3 s t)
  then show ?case using only_links_deref [of "r_frames s" "r_frames t"] by (auto simp: fun_eq_iff)
next
  case (4 s cs c)
  then obtain x y where "frame_at s p = Some x" "frame_at s c = Some y" by (auto simp: children_def)
  with push_child_ok [of s p cs x c y] 4 show ?case by fastforce
next
  case (5 s cs c)
  then obtain as bs where cs: "cs = as @ c # bs" "c \<notin> set as" by (auto dest: split_list_first)
  from unlink_links [of s p as c bs] 5 cs show ?case by (fastforce simp: remove1_append)
qed simp

text \<open>
  C13. The spawn tree keeps the serial order. Through any sequence of \<open>push_child\<close> and
  \<open>unlink_child\<close> on a parent the doubly linked list of its children is the list in which a new
  child is rightmost and a dying child just disappears; nothing but links changes.
\<close>

theorem spawn_tree_serial_order:
  assumes "children (r_frames s) p cs"
    and "ops_fit (\<lambda>c cs. c \<in> set cs) (\<lambda>c cs. cs @ [c]) remove1 (\<lambda>c. frame_at s c \<noteq> None \<and> c \<noteq> p) ops cs"
  shows "\<exists>t. block (map (case_container_op (push_child p) (unlink_child p)) ops) s = Inr ((), t)
     \<and> children (r_frames t) p (fold (apply_op (\<lambda>c cs. cs @ [c]) remove1) ops cs)
     \<and> only_links (r_frames s) (r_frames t) \<and> t = s\<lparr>r_frames := r_frames t\<rparr>"
  using kid_list.ops_on_contents [OF assms order_refl] by auto

definition four_frames :: rts where
  "four_frames = sample_rts\<lparr>r_frames := [1 \<mapsto> fresh_full_frame 0, 2 \<mapsto> fresh_full_frame 0,
     3 \<mapsto> fresh_full_frame 0, 4 \<mapsto> fresh_full_frame 0]\<rparr>"

theorem spawn_tree_serial_order_witness:
  "\<exists>t. block [push_child 1 2, push_child 1 3, push_child 1 4, unlink_child 1 3] four_frames = Inr ((), t)
     \<and> children (r_frames t) 1 [2, 4]"
  using spawn_tree_serial_order [of four_frames 1 "[]" "[Add 2, Add 3, Add 4, Remove 3]"]
  by (auto simp: four_frames_def children_def fresh_full_frame_def deref_def)

section \<open>The stack pointer at a sync\<close>

lemma run_put_stack [run]:
  "cilkrts_put_stack ff sf s = (case frame_at s ff of None \<Rightarrow> Inl Segfault | Some x \<Rightarrow>
     (case sf_at s sf of None \<Rightarrow> Inl Segfault | Some y \<Rightarrow>
       Inr ((), s\<lparr>r_frames := (r_frames s)(ff \<mapsto> x\<lparr>ff_sync_sp := sf_sp y + ff_sync_sp x\<rparr>)\<rparr>)))"
  by (auto simp: cilkrts_put_stack_def run split: option.splits)

lemma run_take_stack [run]:
  "cilkrts_take_stack ff sp s = (case frame_at s ff of None \<Rightarrow> Inl Segfault | Some x \<Rightarrow>
     Inr ((), s\<lparr>r_frames := (r_frames s)(ff \<mapsto> x\<lparr>ff_sync_sp := ff_sync_sp x - sp\<rparr>)\<rparr>))"
  by (auto simp: cilkrts_take_stack_def run split: option.splits)

lemma run_adjust_stack [run]:
  "cilkrts_adjust_stack ff n s = (case frame_at s ff of None \<Rightarrow> Inl Segfault | Some x \<Rightarrow>
     Inr ((), s\<lparr>r_frames := (r_frames s)(ff \<mapsto> x\<lparr>ff_sync_sp := ff_sync_sp x + n\<rparr>)\<rparr>))"
  by (auto simp: cilkrts_adjust_stack_def run split: option.splits)

text \<open>
  A run of a stolen frame: it is resumed at some stack pointer, deallocates some
  variable-length arrays, and is suspended again with the stack pointer in its jump buffer.
\<close>

type_synonym stack_run = "64 word \<times> 64 word \<times> ptr"

definition run_on_stack :: "ptr \<Rightarrow> stack_run \<Rightarrow> (rts, unit) prog" where
  "run_on_stack ff = (\<lambda>(r, vla, sf). block [
     cilkrts_take_stack ff r, cilkrts_adjust_stack ff vla, cilkrts_put_stack ff sf])"

definition depth_change :: "(ptr \<Rightarrow> 64 word) \<Rightarrow> stack_run \<Rightarrow> 64 word" where
  "depth_change sp = (\<lambda>(r, vla, sf). sp sf + vla - r)"

lemma same_frame_upd: "frame_at s p = Some x \<Longrightarrow> s\<lparr>r_frames := (r_frames s)(p \<mapsto> x)\<rparr> = s"
  by (simp add: fun_upd_idem deref_def split: if_splits)

lemma same_sync_sp: "ff_sync_sp x = v \<Longrightarrow> x\<lparr>ff_sync_sp := v\<rparr> = x"
  by (metis full_frame.surjective full_frame.update_convs(16))

text \<open>The state in which only the \<open>sync_sp\<close> of one frame has been changed.\<close>

definition with_sp :: "rts \<Rightarrow> ptr \<Rightarrow> 64 word \<Rightarrow> rts" where
  "with_sp s ff v = s\<lparr>r_frames := (r_frames s)(ff := map_option (ff_sync_sp_update (\<lambda>_. v)) (r_frames s ff))\<rparr>"

lemma with_sp_simps [simp]:
  "with_sp (with_sp s ff u) ff v = with_sp s ff v"
  "sf_at (with_sp s ff v) = sf_at s"
  by (cases "r_frames s ff") (simp_all add: with_sp_def)

lemma frame_at_with_sp [simp]:
  "frame_at s ff = Some x \<Longrightarrow> frame_at (with_sp s ff v) ff = Some (x\<lparr>ff_sync_sp := v\<rparr>)"
  by (auto simp: with_sp_def deref_def split: if_splits)

lemma with_same_sp: "frame_at s ff = Some x \<Longrightarrow> ff_sync_sp x = v \<Longrightarrow> with_sp s ff v = s"
  by (simp add: with_sp_def same_sync_sp fun_upd_idem deref_def split: if_splits)

lemma take_stack_eq:
  "frame_at s ff = Some x \<Longrightarrow> cilkrts_take_stack ff sp s = Inr ((), with_sp s ff (ff_sync_sp x - sp))"
  by (auto simp: run_take_stack with_sp_def dest: deref_SomeD)

lemma put_stack_eq:
  "frame_at s ff = Some x \<Longrightarrow> sf_at s sf = Some y \<Longrightarrow>
   cilkrts_put_stack ff sf s = Inr ((), with_sp s ff (sf_sp y + ff_sync_sp x))"
  by (auto simp: run_put_stack with_sp_def dest: deref_SomeD)

lemma one_run:
  assumes "frame_at s ff = Some x" and "sf_at s (snd (snd q)) = Some y"
  shows "run_on_stack ff q s = Inr ((), with_sp s ff (ff_sync_sp x + depth_change (\<lambda>sf. sf_sp (the (sf_at s sf))) q))"
proof -
  obtain r vla sf where "q = (r, vla, sf)" by (cases q) auto
  with assms show ?thesis
    by (auto simp: run_on_stack_def run with_sp_def depth_change_def algebra_simps dest!: deref_SomeD)
qed

lemma stack_runs:
  "frame_at s ff = Some x \<Longrightarrow> (\<forall>q \<in> set runs. \<exists>y. sf_at s (snd (snd q)) = Some y) \<Longrightarrow>
   block (map (run_on_stack ff) runs) s = Inr ((), with_sp s ff
     (ff_sync_sp x + sum_list (map (depth_change (\<lambda>sf. sf_sp (the (sf_at s sf)))) runs)))"
proof (induction runs arbitrary: s x)
  case Nil
  then show ?case by (simp add: run_block_Nil with_same_sp)
next
  case (Cons q runs)
  let ?v = "ff_sync_sp x + depth_change (\<lambda>sf. sf_sp (the (sf_at s sf))) q"
  obtain y where "run_on_stack ff q s = Inr ((), with_sp s ff ?v)"
    using one_run Cons.prems by fastforce
  with Cons.IH [of "with_sp s ff ?v" "x\<lparr>ff_sync_sp := ?v\<rparr>"] Cons.prems show ?case
    by (simp add: run_block_Cons add.assoc)
qed

text \<open>
  The stack pointer at a sync, as \<open>full_frame.h\<close> documents it: after a frame is stolen and
  then resumed and suspended any number of times, on whatever stacks, \<open>sync_sp\<close> is the stack
  pointer it was stolen with plus the change of depth of every run, and taking the stack at
  that very value leaves null, ready for the next steal.
\<close>

theorem sync_sp_tracks_depth:
  assumes "frame_at s ff = Some x" and "ff_sync_sp x = 0" and "sf_at s sf = Some y"
    and "\<forall>q \<in> set runs. \<exists>y. sf_at s (snd (snd q)) = Some y"
  defines "sp \<equiv> sf_sp y + sum_list (map (depth_change (\<lambda>sf. sf_sp (the (sf_at s sf)))) runs)"
  shows "block (cilkrts_put_stack ff sf # map (run_on_stack ff) runs) s = Inr ((), with_sp s ff sp)
     \<and> block (cilkrts_put_stack ff sf # map (run_on_stack ff) runs @ [cilkrts_take_stack ff sp]) s = Inr ((), s)"
proof -
  have put: "cilkrts_put_stack ff sf s = Inr ((), with_sp s ff (sf_sp y))"
    using put_stack_eq [OF assms(1,3)] assms(2) by simp
  have runs: "block (map (run_on_stack ff) runs) (with_sp s ff (sf_sp y)) = Inr ((), with_sp s ff sp)"
    using stack_runs [of "with_sp s ff (sf_sp y)" ff _ runs] assms(1,4) by (simp add: sp_def)
  have "cilkrts_take_stack ff sp (with_sp s ff sp) = Inr ((), s)"
    using take_stack_eq [OF frame_at_with_sp [OF assms(1), of sp], of sp] with_same_sp [OF assms(1,2)] by simp
  with put runs show ?thesis by (simp add: run_block_Cons run_block_Nil block_append)
qed

definition frame_and_jump_buffer :: rts where
  "frame_and_jump_buffer = sample_rts\<lparr>r_frames := [1 \<mapsto> fresh_full_frame 5],
     r_sfs := [5 \<mapsto> \<lparr>sf_flags = 0, sf_call_parent = 0, sf_worker = 10, sf_except_data = 0, sf_sp = 0x7000,
       sf_fp = 0x7100, sf_pedigree = \<lparr>ped_rank = 0, ped_parent = PNULL\<rparr>\<rparr>]\<rparr>"

theorem sync_sp_tracks_depth_witness:
  "\<exists>t. block [cilkrts_put_stack 1 5, run_on_stack 1 (0x9000, 0, 5)] frame_and_jump_buffer = Inr ((), t)
     \<and> map_option ff_sync_sp (frame_at t 1) = Some 0x5000"
proof -
  have ff: "frame_at frame_and_jump_buffer 1 = Some (fresh_full_frame 5)"
    by (simp add: frame_and_jump_buffer_def deref_def)
  have sf: "\<exists>y. sf_at frame_and_jump_buffer 5 = Some y \<and> sf_sp y = 0x7000"
    by (simp add: frame_and_jump_buffer_def deref_def)
  then obtain y where y: "sf_at frame_and_jump_buffer 5 = Some y" "sf_sp y = 0x7000" by blast
  have "ff_sync_sp (fresh_full_frame 5) = 0" by (simp add: fresh_full_frame_def)
  from sync_sp_tracks_depth [OF ff this y(1), of "[(0x9000, 0, 5)]"] y ff show ?thesis
    by (auto simp: depth_change_def simp del: One_nat_def)
qed

section \<open>Making frames and children\<close>

text \<open>
  The memory of full frames: every full frame lies in a block of the allocator that is in use,
  and there is room for \<open>n\<close> more.
\<close>

definition mem_ok :: "ptr set \<Rightarrow> rts \<Rightarrow> bool" where
  "mem_ok ws s \<longleftrightarrow> fm_lock (r_fm s) = free_mutex
     \<and> (\<exists>L. fm_ok L (homes ws) (r_fm s)
           \<and> (\<forall>p x. frame_at s p = Some x \<longrightarrow> L p = bucket_from 0 SIZEOF_FULL_FRAME))"

definition room :: "nat \<Rightarrow> rts \<Rightarrow> bool" where
  "room n s \<longleftrightarrow> n * (2 * fm_batch_size (r_fm s) + 2) \<le> fm_os_left (r_fm s)"

lemma full_frame_fits: "SIZEOF_FULL_FRAME \<le> FRAME_MALLOC_MAX_SIZE"
  by (simp add: SIZEOF_FULL_FRAME_def FRAME_MALLOC_MAX_SIZE_def)

lemma mem_ok_cong: "mem_ok ws s \<Longrightarrow> r_fm t = r_fm s \<Longrightarrow> (\<And>p. frame_at t p \<noteq> None \<Longrightarrow> frame_at s p \<noteq> None) \<Longrightarrow> mem_ok ws t"
  unfolding mem_ok_def by (metis option.distinct(1) option.exhaust)

lemma room_cong: "room n s \<Longrightarrow> r_fm t = r_fm s \<Longrightarrow> room n t"
  by (simp add: room_def)

lemma room_le: "room n s \<Longrightarrow> k \<le> n \<Longrightarrow> room k s"
  unfolding room_def by (meson mult_le_mono1 order_trans)

lemma make_full_frame_ok:
  assumes ok: "mem_ok ws s" and w: "w \<in> ws" "w \<noteq> NULL" and n: "room (Suc n) s"
  shows "\<exists>c t. cilkrts_make_full_frame w sf s = Inr (c, t) \<and> c \<noteq> NULL \<and> frame_at s c = None
     \<and> t = s\<lparr>r_frames := (r_frames s)(c \<mapsto> fresh_full_frame sf), r_fm := r_fm t\<rparr> \<and> mem_ok ws t \<and> room n t"
proof -
  obtain L where L: "fm_ok L (homes ws) (r_fm s)" "fm_lock (r_fm s) = free_mutex"
    "\<forall>p x. frame_at s p = Some x \<longrightarrow> L p = bucket_from 0 SIZEOF_FULL_FRAME"
    using ok by (auto simp: mem_ok_def)
  have left: "2 * fm_batch_size (r_fm s) + 2 \<le> fm_os_left (r_fm s)"
    using n by (simp add: room_def)
  obtain b c f where f: "bucket_from 0 SIZEOF_FULL_FRAME = Some b"
      "cilkrts_frame_malloc w SIZEOF_FULL_FRAME (r_fm s) = Inr (c, f)" "c \<noteq> NULL" "L c = None"
      "fm_ok (L(c \<mapsto> b)) (homes ws) f" "same_settings (r_fm s) f"
      "fm_os_left (r_fm s) \<le> fm_os_left f + 2 * fm_batch_size (r_fm s) + 2"
    using frame_malloc_ok [OF L(1) w full_frame_fits L(2) left] by blast
  let ?t = "s\<lparr>r_frames := (r_frames s)(c \<mapsto> fresh_full_frame sf), r_fm := f\<rparr>"
  have "cilkrts_make_full_frame w sf s = Inr (c, ?t)"
    using f(2,3) by (simp add: cilkrts_make_full_frame_def run)
  moreover have "frame_at s c = None" using L(3) f(1,4) by (cases "frame_at s c") auto
  moreover have "fm_lock f = free_mutex" using f(6) L(2) by (simp add: same_settings_def)
  then have "mem_ok ws ?t" using f(1,5) L(3) by (auto simp: mem_ok_def intro!: exI [of _ "L(c \<mapsto> b)"])
  moreover have "room n ?t" using n f(6,7) by (simp add: room_def same_settings_def)
  ultimately show ?thesis using f(3) by (auto intro!: exI [of _ c] exI [of _ ?t])
qed

text \<open>A frame without children, and changes that leave a list of children alone.\<close>

lemma children_fresh: "deref m c = Some x \<Longrightarrow> ff_rightmost_child x = NULL \<Longrightarrow> children m c []"
  by (simp add: children_def)

definition siblings_at :: "(ptr \<rightharpoonup> full_frame) \<Rightarrow> ptr \<Rightarrow> (ptr \<times> ptr) option" where
  "siblings_at m q = map_option (\<lambda>x. (ff_left_sibling x, ff_right_sibling x)) (deref m q)"

lemma seg_cong: "(\<And>q. q \<in> set cs \<Longrightarrow> siblings_at m' q = siblings_at m q) \<Longrightarrow> seg m l cs r \<Longrightarrow> seg m' l cs r"
proof (induction cs arbitrary: l)
  case (Cons c cs)
  then obtain x where "deref m c = Some x" by auto
  with Cons.prems(1) [of c] obtain y where "deref m' c = Some y"
      "ff_left_sibling y = ff_left_sibling x" "ff_right_sibling y = ff_right_sibling x"
    by (auto simp: siblings_at_def)
  with Cons \<open>deref m c = Some x\<close> show ?case by auto
qed simp

lemma children_cong:
  "children m p cs \<Longrightarrow> (\<And>q. q \<in> set cs \<Longrightarrow> siblings_at m' q = siblings_at m q) \<Longrightarrow>
   map_option ff_rightmost_child (deref m' p) = map_option ff_rightmost_child (deref m p) \<Longrightarrow> children m' p cs"
  unfolding children_def using seg_cong [of cs m' m NULL NULL] by (auto simp: map_option_eq_Some)

lemma siblings_upd [simp]:
  "siblings_at (m(q \<mapsto> x)) p =
     (if p = q \<and> q \<noteq> NULL then Some (ff_left_sibling x, ff_right_sibling x) else siblings_at m p)"
  by (simp add: siblings_at_def)

text \<open>
  \<open>make_child\<close>: the child gets the fiber of the parent and becomes its rightmost child; the
  parent gets the new fiber, none for a called child.
\<close>

definition child_frame :: "ptr \<Rightarrow> full_frame \<Rightarrow> ptr \<Rightarrow> ptr \<Rightarrow> full_frame" where
  "child_frame p x sf fiber = (fresh_full_frame sf)\<lparr>ff_left_sibling := ff_rightmost_child x, ff_parent := p,
     ff_is_call_child := (fiber = NULL), ff_fiber_self := ff_fiber_self x\<rparr>"

definition parent_after :: "ptr \<Rightarrow> full_frame \<Rightarrow> ptr \<Rightarrow> full_frame" where
  "parent_after c x fiber = x\<lparr>ff_rightmost_child := c,
     ff_fiber_self := (if fiber = PLACEHOLDER_FIBER then NULL else fiber),
     ff_join_counter := ff_join_counter x + 1\<rparr>"

lemma make_child_ok:
  assumes ok: "mem_ok ws s" and w: "w \<in> ws" "w \<noteq> NULL" and n: "room (Suc n) s"
    and p: "frame_at s p = Some x" "children (r_frames s) p cs"
    and psf: "sf_at s (ff_call_stack x) = Some y" "\<not> has_flag (sf_flags y) CILK_FRAME_FUTURE_PARENT"
  shows "\<exists>c t. make_child w p sf fiber s = Inr (c, t) \<and> c \<noteq> NULL \<and> frame_at s c = None
     \<and> t = s\<lparr>r_frames := r_frames t, r_fm := r_fm t\<rparr> \<and> mem_ok ws t \<and> room n t
     \<and> frame_at t c = Some (child_frame p x sf fiber) \<and> frame_at t p = Some (parent_after c x fiber)
     \<and> children (r_frames t) p (cs @ [c]) \<and> only_links ((r_frames s)(p := None, c := None)) ((r_frames t)(p := None, c := None))
     \<and> (\<forall>q. q \<noteq> p \<longrightarrow> q \<noteq> c \<longrightarrow> q \<noteq> last (NULL # cs) \<longrightarrow> r_frames t q = r_frames s q)"
proof -
  obtain c u where u: "cilkrts_make_full_frame w sf s = Inr (c, u)" "c \<noteq> NULL" "frame_at s c = None"
      "u = s\<lparr>r_frames := (r_frames s)(c \<mapsto> fresh_full_frame sf), r_fm := r_fm u\<rparr>" "mem_ok ws u" "room n u"
    using make_full_frame_ok [OF ok w n] by blast
  have uf: "r_frames u = (r_frames s)(c \<mapsto> fresh_full_frame sf)" "r_sfs u = r_sfs s"
    by (subst u(4), simp)+
  have pc: "p \<noteq> c" "p \<noteq> NULL" "ff_call_stack x \<noteq> NULL" using p(1) u(3) psf by (auto dest: deref_SomeD)
  have ncs: "c \<notin> set cs" using p(2) u(3) seg_mem [of "r_frames s" NULL cs NULL c] by (auto simp: children_def)
  have "children (r_frames u) p cs"
    by (rule children_cong [OF p(2)]) (use ncs pc uf in auto)
  then have up: "frame_at u p = Some x" "children (r_frames u) p cs" "frame_at u c = Some (fresh_full_frame sf)"
    using p pc u(2) by (simp_all add: uf)
  let ?c = "(fresh_full_frame sf)\<lparr>ff_parent := p\<rparr>"
  let ?v = "u\<lparr>r_frames := (r_frames u)(c \<mapsto> ?c)\<rparr>"
  have chv: "children (r_frames ?v) p cs"
    by (rule children_cong [OF up(2)]) (use ncs pc up u(2) in auto)
  obtain m where m: "push_child p c ?v = Inr ((), ?v\<lparr>r_frames := m\<rparr>)" "children m p (cs @ [c])"
      "only_links (r_frames ?v) m" "\<forall>q. q \<noteq> p \<longrightarrow> q \<noteq> c \<longrightarrow> q \<noteq> last (NULL # cs) \<longrightarrow> m q = r_frames ?v q"
      "m p = Some (x\<lparr>ff_rightmost_child := c\<rparr>)"
      "m c = Some (?c\<lparr>ff_left_sibling := last (NULL # cs), ff_right_sibling := NULL\<rparr>)"
    using push_child_ok [OF chv, of x c ?c] up pc u(2) ncs by auto
  have rm: "ff_rightmost_child x = last (NULL # cs)" using p by (auto simp: children_def)
  let ?m = "m(c \<mapsto> child_frame p x sf fiber, p \<mapsto> parent_after c x fiber)"
  let ?t = "u\<lparr>r_frames := ?m\<rparr>"
  have "make_child w p sf fiber s = Inr (c, ?t)"
    using u(1,2) up pc psf m(1,5,6)
    by (auto simp: make_child_def run uf deref_def incjoin_def child_frame_def parent_after_def rm
        fresh_full_frame_def fun_upd_twist)
  moreover have "children ?m p (cs @ [c])"
    by (rule children_cong [OF m(2)])
      (use m(5,6) pc u(2) p(2) ncs rm in \<open>auto simp: siblings_at_def deref_def parent_after_def
         child_frame_def fresh_full_frame_def children_def\<close>)
  moreover have "mem_ok ws ?t"
  proof (rule mem_ok_cong [OF u(5)])
    fix q assume q: "frame_at ?t q \<noteq> None"
    have "(deref m q = None) = (frame_at ?v q = None)" by (rule only_links_deref [OF m(3)])
    with q up show "frame_at u q \<noteq> None" by (auto split: if_splits)
  qed simp
  moreover have "room n ?t" by (rule room_cong [OF u(6)]) simp
  moreover have "?t = s\<lparr>r_frames := r_frames ?t, r_fm := r_fm ?t\<rparr>" by (subst u(4)) simp
  moreover have "only_links ((r_frames s)(p := None, c := None)) (?m(p := None, c := None))"
    using m(3) by (auto simp: only_links_def uf)
  moreover have "\<forall>q. q \<noteq> p \<longrightarrow> q \<noteq> c \<longrightarrow> q \<noteq> last (NULL # cs) \<longrightarrow> ?m q = r_frames s q"
    using m(4) by (simp add: uf)
  ultimately show ?thesis using u(2,3) pc
    by (intro exI [of _ c] exI [of _ ?t]) simp
qed

section \<open>Promotion of a call stack\<close>

definition suspended_sf :: "bool \<Rightarrow> stack_frame \<Rightarrow> stack_frame" where
  "suspended_sf loot y = y\<lparr>sf_flags := set_flag (CILK_FRAME_STOLEN OR CILK_FRAME_SUSPENDED) (sf_flags y),
     sf_worker := NULL, sf_except_data := NULL, sf_sp := (if loot then 0 else sf_sp y)\<rparr>"

definition suspended_ff :: "bool \<Rightarrow> ptr \<Rightarrow> stack_frame \<Rightarrow> full_frame \<Rightarrow> full_frame" where
  "suspended_ff loot sf y x = x\<lparr>ff_call_stack := sf,
     ff_sync_sp := (if loot \<and> \<not> has_flag (sf_flags y) CILK_FRAME_FUTURE_PARENT
       then sf_sp y + ff_sync_sp x else ff_sync_sp x),
     ff_frame_size := (if loot \<and> ff_frame_size x = 0 then sf_fp y - sf_sp y else ff_frame_size x)\<rparr>"

lemma flag_facts [simp]:
  "has_flag (set_flag (CILK_FRAME_STOLEN OR CILK_FRAME_SUSPENDED) f) CILK_FRAME_FUTURE_PARENT
     = has_flag f CILK_FRAME_FUTURE_PARENT"
  "has_flag (set_flag CILK_FRAME_UNSYNCHED f) CILK_FRAME_FUTURE_PARENT = has_flag f CILK_FRAME_FUTURE_PARENT"
  "has_flag (set_flag CILK_FRAME_UNSYNCHED f) unroll_mask = has_flag f unroll_mask"
  by (rule has_flag_set_other, simp add: frame_flag_defs unroll_mask_def)+

lemma make_unrunnable_eq:
  "frame_at s ff = Some x \<Longrightarrow> sf_at s sf = Some y \<Longrightarrow>
   make_unrunnable w ff sf loot s = Inr ((), s\<lparr>r_frames := (r_frames s)(ff \<mapsto> suspended_ff loot sf y x),
     r_sfs := (r_sfs s)(sf \<mapsto> suspended_sf loot y)\<rparr>)"
  by (auto simp: make_unrunnable_def cilkrts_make_unrunnable_sysdep_def cilkrts_get_frame_size_def run
      suspended_ff_def suspended_sf_def dest!: deref_SomeD)

lemma suspended_simps [simp]:
  "ff_rightmost_child (suspended_ff loot sf y x) = ff_rightmost_child x"
  "ff_left_sibling (suspended_ff loot sf y x) = ff_left_sibling x"
  "ff_right_sibling (suspended_ff loot sf y x) = ff_right_sibling x"
  "ff_parent (suspended_ff loot sf y x) = ff_parent x"
  "ff_call_stack (suspended_ff loot sf y x) = sf"
  "ff_is_call_child (suspended_ff loot sf y x) = ff_is_call_child x"
  "ff_join_counter (suspended_ff loot sf y x) = ff_join_counter x"
  "ff_fiber_self (suspended_ff loot sf y x) = ff_fiber_self x"
  "ff_lock (suspended_ff loot sf y x) = ff_lock x"
  "has_flag (sf_flags (suspended_sf loot y)) CILK_FRAME_FUTURE_PARENT = has_flag (sf_flags y) CILK_FRAME_FUTURE_PARENT"
  "sf_call_parent (suspended_sf loot y) = sf_call_parent y"
  by (simp_all add: suspended_ff_def suspended_sf_def)

lemma advance_frame_eq:
  "sf_at s sf = Some y \<Longrightarrow> cilkrts_advance_frame sf s =
     Inr (sf_call_parent y, s\<lparr>r_sfs := (r_sfs s)(sf \<mapsto> y\<lparr>sf_call_parent := NULL\<rparr>)\<rparr>)"
  by (auto simp: cilkrts_advance_frame_def run dest: deref_SomeD)

text \<open>
  A call stack as the steal finds it, from the youngest frame to the oldest, and as the first
  loop leaves it, from the oldest to the youngest.
\<close>

fun call_chain :: "(ptr \<rightharpoonup> stack_frame) \<Rightarrow> ptr list \<Rightarrow> bool" where
  "call_chain m [] = False"
| "call_chain m [g] = (\<exists>y. deref m g = Some y \<and> (has_flag (sf_flags y) unroll_mask \<or> sf_call_parent y = NULL))"
| "call_chain m (g # h # gs) = ((\<exists>y. deref m g = Some y \<and> \<not> has_flag (sf_flags y) unroll_mask
     \<and> sf_call_parent y = h) \<and> call_chain m (h # gs))"

fun down_chain :: "(ptr \<rightharpoonup> stack_frame) \<Rightarrow> ptr list \<Rightarrow> ptr \<Rightarrow> bool" where
  "down_chain m [] e = True"
| "down_chain m (h # hs) e = ((\<exists>y. deref m h = Some y \<and> sf_call_parent y = hd (hs @ [e])) \<and> down_chain m hs e)"

lemma call_chain_mem: "call_chain m gs \<Longrightarrow> g \<in> set gs \<Longrightarrow> deref m g \<noteq> None"
  by (induction m gs rule: call_chain.induct) auto

lemma call_chain_upd: "q \<notin> set gs \<Longrightarrow> call_chain (m(q \<mapsto> y)) gs = call_chain m gs"
  by (induction m gs rule: call_chain.induct) auto

lemma down_chain_upd: "q \<notin> set hs \<Longrightarrow> down_chain (m(q \<mapsto> y)) hs e = down_chain m hs e"
  by (induction hs) auto

lemma down_chain_append:
  "down_chain m (hs @ ks) e \<longleftrightarrow> down_chain m hs (hd (ks @ [e])) \<and> down_chain m ks e"
  by (induction hs) (auto simp: hd_append)

text \<open>The stack frames of a state up to the links of \<open>gs\<close>.\<close>

definition links_in :: "ptr set \<Rightarrow> (ptr \<rightharpoonup> stack_frame) \<Rightarrow> (ptr \<rightharpoonup> stack_frame) \<Rightarrow> bool" where
  "links_in G m m' \<longleftrightarrow> (\<forall>q. (q \<notin> G \<longrightarrow> m' q = m q)
     \<and> map_option (sf_call_parent_update (\<lambda>_. NULL)) (m' q) = map_option (sf_call_parent_update (\<lambda>_. NULL)) (m q))"

lemma reverse_loop:
  "call_chain (r_sfs s) gs \<Longrightarrow> distinct gs \<Longrightarrow> length gs \<le> fuel \<Longrightarrow>
   \<exists>m. loopP fuel reverse_round (hd gs, e) s = Inr (last gs, s\<lparr>r_sfs := m\<rparr>)
     \<and> down_chain m (rev gs) e \<and> links_in (set gs) (r_sfs s) m"
proof (induction gs arbitrary: fuel e s)
  case Nil
  then show ?case by simp
next
  case (Cons g gs)
  obtain fuel' where fuel: "fuel = Suc fuel'" using Cons.prems(3) by (cases fuel) auto
  obtain y where y: "sf_at s g = Some y" using call_chain_mem [OF Cons.prems(1), of g] by auto
  have g: "g \<noteq> NULL" "r_sfs s g = Some y" using y by (auto dest: deref_SomeD)
  let ?s = "s\<lparr>r_sfs := (r_sfs s)(g \<mapsto> y\<lparr>sf_call_parent := e\<rparr>)\<rparr>"
  show ?case
  proof (cases gs)
    case Nil
    with Cons.prems y fuel have "loopP fuel reverse_round (g, e) s = Inr (g, ?s)"
      by (auto simp: run_loopP_Suc reverse_round_def run)
    moreover have "down_chain ((r_sfs s)(g \<mapsto> y\<lparr>sf_call_parent := e\<rparr>)) [g] e" using g by simp
    moreover have "links_in {g} (r_sfs s) ((r_sfs s)(g \<mapsto> y\<lparr>sf_call_parent := e\<rparr>))"
      using g by (simp add: links_in_def)
    ultimately show ?thesis using Nil by auto
  next
    case (Cons h hs)
    have "deref (r_sfs s) h \<noteq> None" using call_chain_mem [OF Cons.prems(1), of h] Cons by simp
    then have "h \<noteq> NULL" by (intro notI) simp
    with Cons Cons.prems y have y': "\<not> has_flag (sf_flags y) unroll_mask" "sf_call_parent y = h" "h \<noteq> NULL"
      by auto
    have "call_chain (r_sfs ?s) gs" using Cons Cons.prems(1,2) by (simp add: call_chain_upd)
    with Cons.IH [of ?s fuel' g] Cons.prems fuel obtain m where
      m: "loopP fuel' reverse_round (hd gs, g) ?s = Inr (last gs, ?s\<lparr>r_sfs := m\<rparr>)"
        "down_chain m (rev gs) g" "links_in (set gs) (r_sfs ?s) m" by auto
    have mg: "m g = Some (y\<lparr>sf_call_parent := e\<rparr>)" using m(3) Cons.prems(2) by (simp add: links_in_def)
    have "loopP fuel reverse_round (g, e) s = Inr (last gs, s\<lparr>r_sfs := m\<rparr>)"
      using m(1) y y' Cons fuel by (simp add: run_loopP_Suc reverse_round_def run)
    moreover have "down_chain m (rev (g # gs)) e"
      using m(2) mg g by (simp add: down_chain_append deref_def)
    moreover have "links_in (set (g # gs)) (r_sfs s) m"
      using m(3) g mg Cons.prems(2) unfolding links_in_def by (auto split: if_splits)
    ultimately show ?thesis using Cons by auto
  qed
qed

text \<open>
  What the second loop makes: a chain of full frames, one for each stack frame, each the only
  child of the one before it and called by it; the last one has the fiber.
\<close>

fun promoted :: "rts \<Rightarrow> ptr \<Rightarrow> ptr \<Rightarrow> ptr list \<Rightarrow> ptr list \<Rightarrow> bool" where
  "promoted t fb p (h # hs) (F # Fs) = ((\<exists>z. frame_at t F = Some z \<and> ff_parent z = p \<and> ff_call_stack z = h
      \<and> ff_is_call_child z \<and> ff_lock z = free_mutex
      \<and> ff_join_counter z = (if Fs = [] then 0 else 1) \<and> ff_fiber_self z = (if Fs = [] then fb else NULL))
     \<and> children (r_frames t) F (if Fs = [] then [] else [hd Fs]) \<and> promoted t fb F hs Fs)"
| "promoted t fb p [] [] = True"
| "promoted t fb p _ _ = False"

definition promoted_sf :: "rts \<Rightarrow> rts \<Rightarrow> ptr \<Rightarrow> ptr \<Rightarrow> bool" where
  "promoted_sf s t loot h \<longleftrightarrow> (\<exists>y. sf_at s h = Some y
     \<and> sf_at t h = Some ((suspended_sf (h = loot) y)\<lparr>sf_call_parent := NULL\<rparr>))"

definition head_after :: "full_frame \<Rightarrow> ptr list \<Rightarrow> full_frame" where
  "head_after x Fs = (if Fs = [] then x else parent_after (hd Fs) x NULL)"

definition others_same :: "ptr set \<Rightarrow> rts \<Rightarrow> rts \<Rightarrow> bool" where
  "others_same G s t \<longleftrightarrow> (\<forall>q. q \<notin> G \<longrightarrow> frame_at t q = frame_at s q)"

definition links_outside :: "ptr set \<Rightarrow> rts \<Rightarrow> rts \<Rightarrow> bool" where
  "links_outside G s t \<longleftrightarrow>
     (\<forall>q. q \<notin> G \<longrightarrow> map_option without_links (r_frames t q) = map_option without_links (r_frames s q))"

lemma links_outside_trans:
  "links_outside G s t \<Longrightarrow> links_outside H t u \<Longrightarrow> links_outside (G \<union> H) s u"
  by (simp add: links_outside_def)

lemma links_outside_exists: "links_outside G s t \<Longrightarrow> q \<notin> G \<Longrightarrow> frame_at s q \<noteq> None \<Longrightarrow> frame_at t q \<noteq> None"
  unfolding links_outside_def deref_def by (metis map_option_is_None)

lemma parent_after_simps [simp]:
  "ff_call_stack (parent_after c x fiber) = ff_call_stack x" "ff_parent (parent_after c x fiber) = ff_parent x"
  "ff_is_call_child (parent_after c x fiber) = ff_is_call_child x" "ff_lock (parent_after c x fiber) = ff_lock x"
  "ff_join_counter (parent_after c x fiber) = ff_join_counter x + 1"
  "ff_fiber_self (parent_after c x NULL) = NULL" "ff_rightmost_child (parent_after c x fiber) = c"
  "ff_left_sibling (parent_after c x fiber) = ff_left_sibling x"
  "ff_right_sibling (parent_after c x fiber) = ff_right_sibling x"
  by (simp_all add: parent_after_def)

lemma child_frame_simps [simp]:
  "ff_call_stack (child_frame p x sf fiber) = sf" "ff_parent (child_frame p x sf fiber) = p"
  "ff_is_call_child (child_frame p x sf fiber) = (fiber = NULL)" "ff_lock (child_frame p x sf fiber) = free_mutex"
  "ff_join_counter (child_frame p x sf fiber) = 0" "ff_fiber_self (child_frame p x sf fiber) = ff_fiber_self x"
  "ff_rightmost_child (child_frame p x sf fiber) = NULL"
  by (simp_all add: child_frame_def fresh_full_frame_def)

lemma promote_round_ok:
  assumes ok: "mem_ok ws s" and w: "w \<in> ws" "w \<noteq> NULL" and n: "room (Suc n) s"
    and ff: "frame_at s ff = Some x" "children (r_frames s) ff cs"
    and psf: "sf_at s (ff_call_stack x) = Some y0" "\<not> has_flag (sf_flags y0) CILK_FRAME_FUTURE_PARENT"
    and h: "sf_at s h = Some y"
  shows "\<exists>F t. promote_round w loot (ff, g, h) s = Inr (Inl (F, h, sf_call_parent y), t)
     \<and> frame_at s F = None \<and> F \<noteq> NULL
     \<and> frame_at t F = Some (suspended_ff (h = loot) h y (child_frame ff x h NULL))
     \<and> frame_at t ff = Some (parent_after F x NULL)
     \<and> children (r_frames t) ff (cs @ [F]) \<and> others_same {ff, F, last (NULL # cs)} s t
     \<and> links_outside {ff, F} s t
     \<and> r_sfs t = (r_sfs s)(h \<mapsto> (suspended_sf (h = loot) y)\<lparr>sf_call_parent := NULL\<rparr>)
     \<and> t = s\<lparr>r_frames := r_frames t, r_fm := r_fm t, r_sfs := r_sfs t\<rparr> \<and> mem_ok ws t \<and> room n t"
proof -
  obtain F u where u: "make_child w ff h NULL s = Inr (F, u)" "F \<noteq> NULL" "frame_at s F = None"
      "u = s\<lparr>r_frames := r_frames u, r_fm := r_fm u\<rparr>" "mem_ok ws u" "room n u"
      "frame_at u F = Some (child_frame ff x h NULL)" "frame_at u ff = Some (parent_after F x NULL)"
      "children (r_frames u) ff (cs @ [F])"
      "only_links ((r_frames s)(ff := None, F := None)) ((r_frames u)(ff := None, F := None))"
      "\<forall>q. q \<noteq> ff \<longrightarrow> q \<noteq> F \<longrightarrow> q \<noteq> last (NULL # cs) \<longrightarrow> r_frames u q = r_frames s q"
    using make_child_ok [OF ok w n ff psf, of h NULL] by blast
  have uh: "sf_at u h = Some y" by (subst u(4)) (simp add: h)
  have hz: "h \<noteq> NULL" using h by (auto dest: deref_SomeD)
  have F: "F \<noteq> ff" using u(3) ff(1) by auto
  let ?F = "suspended_ff (h = loot) h y (child_frame ff x h NULL)"
  let ?h = "(suspended_sf (h = loot) y)\<lparr>sf_call_parent := NULL\<rparr>"
  let ?t = "u\<lparr>r_frames := (r_frames u)(F \<mapsto> ?F), r_sfs := (r_sfs u)(h \<mapsto> ?h)\<rparr>"
  have "promote_round w loot (ff, g, h) s = Inr (Inl (F, h, sf_call_parent y), ?t)"
    using u(1,7) uh hz by (simp add: promote_round_def run make_unrunnable_eq advance_frame_eq)
  moreover have "children (r_frames ?t) ff (cs @ [F])"
    by (rule children_cong [OF u(9)]) (use u(2,7) F in \<open>auto simp: siblings_at_def\<close>)
  moreover have "r_sfs ?t = (r_sfs s)(h \<mapsto> ?h)" by (subst u(4)) simp
  moreover have "mem_ok ws ?t" by (rule mem_ok_cong [OF u(5)]) (use u(7) in \<open>auto split: if_splits\<close>)
  moreover have "room n ?t" by (rule room_cong [OF u(6)]) simp
  moreover have "?t = s\<lparr>r_frames := r_frames ?t, r_fm := r_fm ?t, r_sfs := r_sfs ?t\<rparr>" by (subst u(4)) simp
  moreover have "others_same {ff, F, last (NULL # cs)} s ?t" using u(11) by (simp add: others_same_def deref_def)
  moreover have "links_outside {ff, F} s ?t"
    using u(10) by (auto simp: only_links_def links_outside_def split: if_splits)
  ultimately show ?thesis using u(2,3,7,8) F by (intro exI [of _ F] exI [of _ ?t]) simp
qed

lemma promote_loop:
  assumes "mem_ok ws s" and "w \<in> ws" "w \<noteq> NULL" and "room (length hs) s"
    and "frame_at s ff = Some x" "ff_call_stack x = g" "children (r_frames s) ff cs"
    and "sf_at s g = Some y0" "hs \<noteq> [] \<longrightarrow> \<not> has_flag (sf_flags y0) CILK_FRAME_FUTURE_PARENT"
    and "down_chain (r_sfs s) hs NULL" "distinct (g # hs)"
    and "\<forall>h \<in> set (butlast hs). \<forall>y. sf_at s h = Some y \<longrightarrow> \<not> has_flag (sf_flags y) CILK_FRAME_FUTURE_PARENT"
    and "length hs < fuel"
  shows "\<exists>Fs t. loopP fuel (promote_round w loot) (ff, g, hd (hs @ [NULL])) s = Inr ((last (ff # Fs), last (g # hs)), t)
     \<and> promoted t (ff_fiber_self x) ff hs Fs \<and> distinct (ff # Fs) \<and> (\<forall>F \<in> set Fs. frame_at s F = None \<and> F \<noteq> NULL)
     \<and> frame_at t ff = Some (head_after x Fs) \<and> children (r_frames t) ff (cs @ take 1 Fs)
     \<and> others_same (set (ff # Fs) \<union> {last (NULL # cs)}) s t \<and> links_outside (set (ff # Fs)) s t
     \<and> (\<forall>h \<in> set hs. promoted_sf s t loot h) \<and> (\<forall>q. q \<notin> set hs \<longrightarrow> r_sfs t q = r_sfs s q)
     \<and> t = s\<lparr>r_frames := r_frames t, r_fm := r_fm t, r_sfs := r_sfs t\<rparr> \<and> mem_ok ws t"
  using assms
proof (induction hs arbitrary: fuel ff x cs g y0 s)
  case Nil
  from Nil.prems(13) obtain k where "fuel = Suc k" by (cases fuel) auto
  then have "loopP fuel (promote_round w loot) (ff, g, NULL) s = Inr ((ff, g), s)"
    by (simp add: run_loopP_Suc promote_round_def run)
  with Nil.prems show ?case
    by (intro exI [of _ "[]"] exI [of _ s]) (simp add: head_after_def others_same_def links_outside_def)
next
  case (Cons h hs)
  note prems = Cons.prems
  from prems(13) obtain k where k: "fuel = Suc k" "length hs < k" by (cases fuel) auto
  obtain y where y: "sf_at s h = Some y" "sf_call_parent y = hd (hs @ [NULL])" using prems(10) by auto
  have n: "room (Suc (length hs)) s" using prems(4) by simp
  have psf: "sf_at s (ff_call_stack x) = Some y0" "\<not> has_flag (sf_flags y0) CILK_FRAME_FUTURE_PARENT"
    using prems(6,8,9) by auto
  let ?h = "(suspended_sf (h = loot) y)\<lparr>sf_call_parent := NULL\<rparr>"
  obtain F u where u: "promote_round w loot (ff, g, h) s = Inr (Inl (F, h, sf_call_parent y), u)"
      "frame_at s F = None" "F \<noteq> NULL"
      "frame_at u F = Some (suspended_ff (h = loot) h y (child_frame ff x h NULL))"
      "frame_at u ff = Some (parent_after F x NULL)"
      "children (r_frames u) ff (cs @ [F])" "others_same {ff, F, last (NULL # cs)} s u"
      "links_outside {ff, F} s u" "r_sfs u = (r_sfs s)(h \<mapsto> ?h)"
      "u = s\<lparr>r_frames := r_frames u, r_fm := r_fm u, r_sfs := r_sfs u\<rparr>" "mem_ok ws u" "room (length hs) u"
    using promote_round_ok [OF prems(1-3) n prems(5,7) psf y(1)] by blast
  let ?F = "suspended_ff (h = loot) h y (child_frame ff x h NULL)"
  have hz: "h \<noteq> NULL" using y by (auto dest: deref_SomeD)
  have uh: "sf_at u h = Some ?h" using hz by (simp add: u(9))
  have fut: "hs \<noteq> [] \<longrightarrow> \<not> has_flag (sf_flags ?h) CILK_FRAME_FUTURE_PARENT" using prems(12) y(1) by (cases hs) auto
  have dc: "down_chain (r_sfs u) hs NULL" using prems(10,11) by (simp add: u(9) down_chain_upd)
  have rest: "\<forall>h \<in> set (butlast hs). \<forall>y. sf_at u h = Some y \<longrightarrow> \<not> has_flag (sf_flags y) CILK_FRAME_FUTURE_PARENT"
    using prems(11,12) by (auto simp: u(9) dest: in_set_butlastD split: if_splits)
  have fresh: "children (r_frames u) F []" using u(4) by (rule children_fresh) simp
  have d: "distinct (h # hs)" using prems(11) by simp
  obtain Fs t where t: "loopP k (promote_round w loot) (F, h, hd (hs @ [NULL])) u = Inr ((last (F # Fs), last (h # hs)), t)"
      "promoted t (ff_fiber_self ?F) F hs Fs" "distinct (F # Fs)" "\<forall>F \<in> set Fs. frame_at u F = None \<and> F \<noteq> NULL"
      "frame_at t F = Some (head_after ?F Fs)" "children (r_frames t) F ([] @ take 1 Fs)"
      "others_same (set (F # Fs) \<union> {last (NULL # [])}) u t" "links_outside (set (F # Fs)) u t"
      "\<forall>h \<in> set hs. promoted_sf u t loot h" "\<forall>q. q \<notin> set hs \<longrightarrow> r_sfs t q = r_sfs u q"
      "t = u\<lparr>r_frames := r_frames t, r_fm := r_fm t, r_sfs := r_sfs t\<rparr>" "mem_ok ws t"
    using Cons.IH [OF u(11) prems(2,3) u(12,4) _ fresh uh fut dc d rest k(2)] by auto
  have new: "frame_at s G = None \<and> G \<noteq> ff" if G: "G \<in> set Fs" for G
  proof -
    have "G \<noteq> F" "G \<noteq> ff" "frame_at u G = None" using t(3,4) u(5) G by auto
    then show ?thesis using links_outside_exists [OF u(8), of G] by (cases "frame_at s G") auto
  qed
  have ffnew: "ff \<noteq> F" "ff \<noteq> NULL" "ff \<notin> set Fs" using u(2) prems(5) new by (auto dest: deref_SomeD)
  have tff: "frame_at t ff = Some (parent_after F x NULL)"
    using t(7) u(5) ffnew by (simp add: others_same_def deref_def)
  have "siblings_at (r_frames t) q = siblings_at (r_frames u) q" if q: "q \<in> set (cs @ [F])" for q
  proof (cases "q = F")
    case True
    then show ?thesis using t(5) u(4) by (simp add: siblings_at_def head_after_def)
  next
    case False
    have "frame_at u q \<noteq> None"
      using u(6) seg_mem [OF _ q, of "r_frames u" NULL NULL] by (auto simp: children_def)
    moreover from this have "q \<noteq> NULL" by (intro notI) simp
    ultimately have "frame_at u q \<noteq> None" "q \<noteq> NULL" by simp_all
    then have "q \<notin> set (F # Fs)" using t(4) False by auto
    then show ?thesis using t(7) \<open>q \<noteq> NULL\<close> by (simp add: others_same_def siblings_at_def deref_def)
  qed
  then have kids: "children (r_frames t) ff (cs @ [F])"
    using children_cong [OF u(6)] tff u(5) by simp
  have "loopP fuel (promote_round w loot) (ff, g, hd ((h # hs) @ [NULL])) s
      = Inr ((last (ff # F # Fs), last (g # h # hs)), t)"
    using u(1) t(1) y(2) k(1) by (simp add: run_loopP_Suc)
  moreover have "promoted t (ff_fiber_self x) ff (h # hs) (F # Fs)"
    using t(2,5,6) by (cases Fs) (auto simp: head_after_def)
  moreover have "others_same (set (ff # F # Fs) \<union> {last (NULL # cs)}) s t"
    using u(7) t(7) unfolding others_same_def by (auto split: if_splits) (metis deref_NULL gr0I)+
  moreover have "links_outside (set (ff # F # Fs)) s t"
    using links_outside_trans [OF u(8) t(8)] by (simp add: insert_commute)
  moreover have "promoted_sf s t loot h'" if h': "h' \<in> set (h # hs)" for h'
  proof (cases "h' = h")
    case True
    have "sf_at t h = sf_at u h" using t(10) d by (simp add: deref_def)
    with True y(1) uh show ?thesis by (simp add: promoted_sf_def)
  next
    case False
    then have "promoted_sf u t loot h'" "sf_at u h' = sf_at s h'" using t(9) h' by (simp_all add: u(9))
    then show ?thesis by (simp add: promoted_sf_def)
  qed
  moreover have "\<forall>q. q \<notin> set (h # hs) \<longrightarrow> r_sfs t q = r_sfs s q" using t(10) u(9) by simp
  moreover have "t = s\<lparr>r_frames := r_frames t, r_fm := r_fm t, r_sfs := r_sfs t\<rparr>" by (subst t(11), subst u(10)) simp
  moreover have "distinct (ff # F # Fs)" using t(3) ffnew by simp
  ultimately show ?case using t(12) new u(2,3) t(4) tff kids
    by (intro exI [of _ "F # Fs"] exI [of _ t]) (simp add: head_after_def)
qed

text \<open>The state of a stack frame before and after it is stolen.\<close>

definition stolen_sf :: "rts \<Rightarrow> rts \<Rightarrow> ptr \<Rightarrow> ptr \<Rightarrow> bool" where
  "stolen_sf s t loot g \<longleftrightarrow> (\<exists>y z. sf_at s g = Some y \<and> sf_at t g = Some z
     \<and> sf_worker z = NULL \<and> sf_call_parent z = NULL \<and> sf_sp z = (if g = loot then 0 else sf_sp y)
     \<and> sf_flags z = set_flag (CILK_FRAME_STOLEN OR CILK_FRAME_SUSPENDED)
         (if g = loot \<and> \<not> has_flag (sf_flags y) CILK_FRAME_FUTURE_PARENT
          then set_flag CILK_FRAME_UNSYNCHED (sf_flags y) else sf_flags y))"

definition marked_loot :: "stack_frame \<Rightarrow> stack_frame" where
  "marked_loot y = (if has_flag (sf_flags y) CILK_FRAME_FUTURE_PARENT then y
     else y\<lparr>sf_flags := set_flag CILK_FRAME_UNSYNCHED (sf_flags y)\<rparr>)"

lemma marked_loot_simps [simp]:
  "sf_call_parent (marked_loot y) = sf_call_parent y" "sf_sp (marked_loot y) = sf_sp y"
  "has_flag (sf_flags (marked_loot y)) unroll_mask = has_flag (sf_flags y) unroll_mask"
  "has_flag (sf_flags (marked_loot y)) CILK_FRAME_FUTURE_PARENT = has_flag (sf_flags y) CILK_FRAME_FUTURE_PARENT"
  by (simp_all add: marked_loot_def)

lemma call_chain_mark:
  "call_chain m (g # gs) \<Longrightarrow> deref m g = Some y \<Longrightarrow> g \<notin> set gs \<Longrightarrow> call_chain (m(g \<mapsto> marked_loot y)) (g # gs)"
  by (cases gs) (auto simp: call_chain_upd dest: deref_SomeD)

lemma run_loopM: "loopM body x s = loopP (Suc (r_brk s)) body x s"
  by (simp add: loopM_def run)

text \<open>
  C14. A steal promotes the call stack. Given the call stack of a victim, \<open>unroll_call_stack\<close>
  ends and returns: the oldest stack frame goes to the full frame that was at hand, each
  younger one to a new full frame, called by the one before it and its only child, so that
  the spawn tree repeats the call stack; the fiber ends up with the youngest, which is the
  frame returned; the join counter of each parent is one higher; every stack frame is marked
  stolen and suspended and belongs to no worker; and the rest of memory is untouched.
\<close>

theorem unroll_promotes_stack:
  assumes "mem_ok ws s" and "w \<in> ws" "w \<noteq> NULL" and "room (length rest) s"
    and "frame_at s ff = Some x" and "children (r_frames s) ff cs"
    and "call_chain (r_sfs s) (loot # rest)" and "distinct (loot # rest)" and "length rest < r_brk s"
    and "sf_at s loot = Some l" "sf_worker l \<noteq> w"
    and "\<forall>g \<in> set rest. \<forall>y. sf_at s g = Some y \<longrightarrow> \<not> has_flag (sf_flags y) CILK_FRAME_FUTURE_PARENT"
  defines "oldest \<equiv> last (loot # rest)"
  shows "\<exists>Fs t y. unroll_call_stack w ff loot s = Inr (last (ff # Fs), t)
     \<and> distinct (ff # Fs) \<and> (\<forall>F \<in> set Fs. frame_at s F = None)
     \<and> frame_at t ff = Some (head_after (suspended_ff (oldest = loot) oldest y x) Fs)
     \<and> children (r_frames t) ff (cs @ take 1 Fs)
     \<and> promoted t (ff_fiber_self x) ff (tl (rev (loot # rest))) Fs
     \<and> (\<forall>g \<in> set (loot # rest). stolen_sf s t loot g)
     \<and> (\<forall>q. q \<notin> set (loot # rest) \<longrightarrow> r_sfs t q = r_sfs s q)
     \<and> others_same (set (ff # Fs) \<union> {last (NULL # cs)}) s t \<and> links_outside (set (ff # Fs)) s t
     \<and> t = s\<lparr>r_frames := r_frames t, r_fm := r_fm t, r_sfs := r_sfs t\<rparr> \<and> mem_ok ws t"
proof -
  note prems = assms(1-12)
  let ?gs = "loot # rest"
  define hs where "hs = tl (rev ?gs)"
  have lz: "loot \<noteq> NULL" using prems(10) by (auto dest: deref_SomeD)
  let ?s1 = "s\<lparr>r_sfs := (r_sfs s)(loot \<mapsto> marked_loot l)\<rparr>"
  have mark: "(if \<not> has_flag (sf_flags l) CILK_FRAME_FUTURE_PARENT
      then s\<lparr>r_sfs := (r_sfs s)(loot \<mapsto> l\<lparr>sf_flags := set_flag CILK_FRAME_UNSYNCHED (sf_flags l)\<rparr>)\<rparr> else s) = ?s1"
    using prems(10) by (auto simp: marked_loot_def fun_upd_idem dest: deref_SomeD)
  have "call_chain (r_sfs ?s1) ?gs" using call_chain_mark [OF prems(7,10)] prems(8) by simp
  then obtain m where m: "loopM reverse_round (loot, NULL) ?s1 = Inr (oldest, ?s1\<lparr>r_sfs := m\<rparr>)"
      "down_chain m (rev ?gs) NULL" "links_in (set ?gs) (r_sfs ?s1) m"
    using reverse_loop [of ?s1 ?gs "Suc (r_brk s)" NULL] prems(8,9) by (auto simp: run_loopM oldest_def)
  have rev: "rev ?gs = oldest # hs" unfolding oldest_def hs_def
    by (metis hd_rev list.collapse list.distinct(1) rev_is_Nil_conv)
  have hs: "set hs = set ?gs - {oldest}" "length hs = length rest" "distinct (oldest # hs)" "last (oldest # hs) = loot"
  proof -
    have d: "distinct (oldest # hs)" using prems(8) by (metis rev distinct_rev)
    then show "distinct (oldest # hs)" .
    have "set (oldest # hs) = set ?gs" by (metis rev set_rev)
    with d show "set hs = set ?gs - {oldest}" by auto
    show "length hs = length rest" by (simp add: hs_def)
    show "last (oldest # hs) = loot" by (metis rev last_rev list.sel(1))
  qed
  have og: "oldest \<in> set ?gs" by (simp add: oldest_def)
  have at: "\<exists>y. sf_at s g = Some y \<and> (\<exists>c. deref m g = Some ((if g = loot then marked_loot y else y)\<lparr>sf_call_parent := c\<rparr>))"
    if g: "g \<in> set ?gs" for g
  proof -
    obtain y where y: "sf_at s g = Some y" using call_chain_mem [OF prems(7) g] by auto
    then have gz: "g \<noteq> NULL" "r_sfs s g = Some y" by (auto dest: deref_SomeD)
    let ?y = "if g = loot then marked_loot y else y"
    have "r_sfs ?s1 g = Some ?y" using y gz prems(10) by auto
    moreover have "map_option (sf_call_parent_update (\<lambda>_. NULL)) (m g)
        = map_option (sf_call_parent_update (\<lambda>_. NULL)) (r_sfs ?s1 g)"
      using m(3) by (simp add: links_in_def)
    ultimately obtain z where z: "m g = Some z" "z\<lparr>sf_call_parent := NULL\<rparr> = ?y\<lparr>sf_call_parent := NULL\<rparr>"
      by auto
    have "z = (z\<lparr>sf_call_parent := NULL\<rparr>)\<lparr>sf_call_parent := sf_call_parent z\<rparr>" by simp
    also have "\<dots> = (?y\<lparr>sf_call_parent := NULL\<rparr>)\<lparr>sf_call_parent := sf_call_parent z\<rparr>"
      by (rule arg_cong [OF z(2)])
    finally have "z = ?y\<lparr>sf_call_parent := sf_call_parent z\<rparr>" by simp
    with z(1) y gz show ?thesis by (metis deref_def)
  qed
  obtain y0 c0 where y0: "sf_at s oldest = Some y0"
      "deref m oldest = Some ((if oldest = loot then marked_loot y0 else y0)\<lparr>sf_call_parent := c0\<rparr>)"
    using at [OF og] by blast
  let ?y = "(if oldest = loot then marked_loot y0 else y0)\<lparr>sf_call_parent := c0\<rparr>"
  have c0: "c0 = hd (hs @ [NULL])" using m(2) y0(2) unfolding rev by auto
  have oz: "oldest \<noteq> NULL" using y0 by (auto dest: deref_SomeD)
  have fz: "ff \<noteq> NULL" using prems(5) by (auto dest: deref_SomeD)
  let ?x = "suspended_ff (oldest = loot) oldest ?y x"
  let ?o = "(suspended_sf (oldest = loot) ?y)\<lparr>sf_call_parent := NULL\<rparr>"
  let ?s2 = "s\<lparr>r_sfs := m(oldest \<mapsto> ?o), r_frames := (r_frames s)(ff \<mapsto> ?x)\<rparr>"
  have "mem_ok ws ?s2" by (rule mem_ok_cong [OF prems(1)]) (use prems(5) in \<open>auto split: if_splits\<close>)
  moreover have "room (length hs) ?s2" using prems(4) hs(2) by (simp add: room_def)
  moreover have "frame_at ?s2 ff = Some ?x" using fz by simp
  moreover have "children (r_frames ?s2) ff cs"
    by (rule children_cong [OF prems(6)]) (use prems(5) fz in \<open>auto simp: siblings_at_def\<close>)
  moreover have "sf_at ?s2 oldest = Some ?o" using oz by simp
  moreover have "hs \<noteq> [] \<longrightarrow> \<not> has_flag (sf_flags ?o) CILK_FRAME_FUTURE_PARENT"
  proof
    assume "hs \<noteq> []"
    then have "oldest \<noteq> loot" "oldest \<in> set rest"
      using prems(8) rev og by (auto simp: oldest_def split: if_splits)
    then show "\<not> has_flag (sf_flags ?o) CILK_FRAME_FUTURE_PARENT" using prems(12) y0(1) by simp
  qed
  moreover have "down_chain (r_sfs ?s2) hs NULL"
    using m(2) hs(3) unfolding rev by (simp add: down_chain_upd)
  moreover have "\<forall>h \<in> set (butlast hs). \<forall>y. sf_at ?s2 h = Some y \<longrightarrow> \<not> has_flag (sf_flags y) CILK_FRAME_FUTURE_PARENT"
  proof (intro ballI allI impI)
    fix h y assume h: "h \<in> set (butlast hs)" and y: "sf_at ?s2 h = Some y"
    have hh: "h \<in> set hs" using h by (rule in_set_butlastD)
    have "hs = butlast hs @ [loot]" using hs(4) h by (cases "hs = []") (auto simp: append_butlast_last_id)
    then have "h \<noteq> loot" using h hs(3) by (metis distinct.simps(2) distinct_append not_distinct_conv_prefix disjoint_iff list.set_intros(1))
    then have "h \<in> set rest" "h \<noteq> oldest" using hh hs(1) by auto
    then show "\<not> has_flag (sf_flags y) CILK_FRAME_FUTURE_PARENT"
      using at [of h] y prems(12) \<open>h \<noteq> loot\<close> by auto
  qed
  moreover have "length hs < Suc (r_brk s)" using prems(9) hs(2) by simp
  ultimately obtain Fs t where t:
      "loopP (Suc (r_brk s)) (promote_round w loot) (ff, oldest, hd (hs @ [NULL])) ?s2
         = Inr ((last (ff # Fs), loot), t)"
      "promoted t (ff_fiber_self ?x) ff hs Fs" "distinct (ff # Fs)" "\<forall>F \<in> set Fs. frame_at ?s2 F = None \<and> F \<noteq> NULL"
      "frame_at t ff = Some (head_after ?x Fs)" "children (r_frames t) ff (cs @ take 1 Fs)"
      "others_same (set (ff # Fs) \<union> {last (NULL # cs)}) ?s2 t" "links_outside (set (ff # Fs)) ?s2 t"
      "\<forall>h \<in> set hs. promoted_sf ?s2 t loot h" "\<forall>q. q \<notin> set hs \<longrightarrow> r_sfs t q = r_sfs ?s2 q"
      "t = ?s2\<lparr>r_frames := r_frames t, r_fm := r_fm t, r_sfs := r_sfs t\<rparr>" "mem_ok ws t"
    using promote_loop [of ws ?s2 w hs ff ?x oldest cs ?o "Suc (r_brk s)" loot] prems(2,3) hs(3,4) by auto
  have stolen: "stolen_sf s t loot g" if g: "g \<in> set ?gs" for g
  proof -
    obtain y c where y: "sf_at s g = Some y"
        "deref m g = Some ((if g = loot then marked_loot y else y)\<lparr>sf_call_parent := c\<rparr>)"
      using at [OF g] by blast
    have gz: "g \<noteq> NULL" using y by (auto dest: deref_SomeD)
    have "sf_at t g = Some ((suspended_sf (g = loot) ((if g = loot then marked_loot y else y)\<lparr>sf_call_parent := c\<rparr>))
        \<lparr>sf_call_parent := NULL\<rparr>)"
    proof (cases "g = oldest")
      case True
      then show ?thesis using t(10) hs(3) y y0 gz by (auto simp: deref_def)
    next
      case False
      then have "promoted_sf ?s2 t loot g" using t(9) hs(1) g by blast
      with False y gz show ?thesis by (auto simp: promoted_sf_def)
    qed
    with y(1) show ?thesis by (auto simp: stolen_sf_def suspended_sf_def marked_loot_def)
  qed
  obtain v where v: "sf_at t loot = Some v" "sf_call_parent v = NULL"
    using stolen [of loot] by (auto simp: stolen_sf_def)
  have "unroll_call_stack w ff loot s = Inr (last (ff # Fs), t)"
  proof -
    have u1: "make_unrunnable w ff oldest (oldest = loot) (s\<lparr>r_sfs := m\<rparr>) =
        Inr ((), s\<lparr>r_frames := (r_frames s)(ff \<mapsto> ?x), r_sfs := m(oldest \<mapsto> suspended_sf (oldest = loot) ?y)\<rparr>)"
      using make_unrunnable_eq [of "s\<lparr>r_sfs := m\<rparr>" ff x oldest ?y w "oldest = loot"] prems(5) y0(2) by simp
    have u2: "cilkrts_advance_frame oldest (s\<lparr>r_frames := (r_frames s)(ff \<mapsto> ?x),
          r_sfs := m(oldest \<mapsto> suspended_sf (oldest = loot) ?y)\<rparr>) = Inr (c0, ?s2)"
      using oz by (simp add: advance_frame_eq)
    show ?thesis
      using prems(10,11) lz mark m(1) u1 u2 t(1) v c0
      by (simp add: unroll_call_stack_def run run_loopM split: if_splits)
  qed
  moreover have "\<forall>q. q \<notin> set ?gs \<longrightarrow> r_sfs t q = r_sfs s q"
    using t(10) m(3) hs(1) og by (auto simp: links_in_def)
  moreover have "others_same (set (ff # Fs) \<union> {last (NULL # cs)}) s t" "links_outside (set (ff # Fs)) s t"
    using t(7,8) by (auto simp: others_same_def links_outside_def)
  moreover have "\<forall>F \<in> set Fs. frame_at s F = None"
  proof
    fix F assume "F \<in> set Fs"
    with t(3,4) have "F \<noteq> ff" "frame_at ?s2 F = None" by auto
    then show "frame_at s F = None" by simp
  qed
  moreover have "t = s\<lparr>r_frames := r_frames t, r_fm := r_fm t, r_sfs := r_sfs t\<rparr>" by (subst t(11)) simp
  ultimately show ?thesis using t(2,3,5,6,12) stolen unfolding hs_def [symmetric]
    by (intro exI [of _ Fs] exI [of _ t] exI [of _ ?y]) simp
qed

text \<open>A state with the two stack frames of a call, and one full frame for the older.\<close>

definition two_calls :: rts where
  "two_calls = sample_rts\<lparr>r_sfs := [5 \<mapsto> \<lparr>sf_flags = 0, sf_call_parent = 6, sf_worker = 11, sf_except_data = 0,
       sf_sp = 0x7000, sf_fp = 0x7100, sf_pedigree = \<lparr>ped_rank = 0, ped_parent = PNULL\<rparr>\<rparr>,
     6 \<mapsto> \<lparr>sf_flags = CILK_FRAME_DETACHED, sf_call_parent = 7, sf_worker = 11, sf_except_data = 0,
       sf_sp = 0x7200, sf_fp = 0x7300, sf_pedigree = \<lparr>ped_rank = 0, ped_parent = PNULL\<rparr>\<rparr>]\<rparr>"

lemma two_calls_mem: "mem_ok {10, 11} two_calls" "room 4 two_calls"
proof -
  have "fm_ok (buckets Map.empty) (homes (set [10, 11])) fresh_frame_cache" "fm_lock fresh_frame_cache = free_mutex"
    using session_ok [OF started_session] by simp_all
  then show "mem_ok {10, 11} two_calls" by (auto simp: mem_ok_def two_calls_def sample_rts_def deref_def)
  show "room 4 two_calls" by (simp add: room_def two_calls_def sample_rts_def fresh_frame_cache_def)
qed

theorem unroll_promotes_stack_witness:
  "\<exists>ff s F t. cilkrts_make_full_frame 10 NULL two_calls = Inr (ff, s)
     \<and> unroll_call_stack 10 ff 5 s = Inr (F, t) \<and> F \<noteq> ff \<and> children (r_frames t) ff [F]
     \<and> map_option ff_parent (frame_at t F) = Some ff \<and> map_option ff_call_stack (frame_at t F) = Some 5"
proof -
  have "room (Suc 3) two_calls" using two_calls_mem(2) by simp
  from make_full_frame_ok [OF two_calls_mem(1) _ _ this, of 10 NULL]
  obtain ff s where s: "cilkrts_make_full_frame 10 NULL two_calls = Inr (ff, s)" "ff \<noteq> NULL"
      "s = two_calls\<lparr>r_frames := (r_frames two_calls)(ff \<mapsto> fresh_full_frame NULL), r_fm := r_fm s\<rparr>"
      "mem_ok {10, 11} s" "room 3 s"
    by auto
  have sfs: "r_sfs s = r_sfs two_calls" "r_brk s = 1000" by (subst s(3), simp add: two_calls_def sample_rts_def)+
  have fr: "frame_at s ff = Some (fresh_full_frame NULL)" by (subst s(3)) (simp add: s(2))
  have kids: "children (r_frames s) ff []" by (rule children_fresh [OF fr]) (simp add: fresh_full_frame_def)
  have chain: "call_chain (r_sfs s) [5, 6]"
    by (simp add: sfs two_calls_def deref_def has_flag_def unroll_mask_def frame_flag_defs)
  have loot: "sf_at s 5 = r_sfs two_calls 5" by (simp add: sfs deref_def)
  have "room (length [6]) s" using s(5) by (rule room_le) simp
  moreover have "\<forall>g \<in> set [6]. \<forall>y. sf_at s g = Some y \<longrightarrow> \<not> has_flag (sf_flags y) CILK_FRAME_FUTURE_PARENT"
    by (simp add: sfs two_calls_def deref_def has_flag_def frame_flag_defs)
  ultimately obtain Fs t where t: "unroll_call_stack 10 ff 5 s = Inr (last (ff # Fs), t)" "distinct (ff # Fs)"
      "children (r_frames t) ff ([] @ take 1 Fs)"
      "promoted t (ff_fiber_self (fresh_full_frame NULL)) ff (tl (rev [5, 6])) Fs"
    using unroll_promotes_stack [OF s(4) _ _ _ fr kids chain _ _ loot [unfolded two_calls_def, simplified], of 10]
    by (auto simp: sfs)
  then obtain F where "Fs = [F]" by (cases Fs; cases "tl Fs") auto
  with t s(1) show ?thesis by (auto intro!: exI [of _ ff] exI [of _ s] exI [of _ F] exI [of _ t])
qed

end
