(* ===== verification/RNG.thy ===== *)
theory RNG
  imports Runtime_State
begin

text \<open>
  The pseudo-random numbers of \<open>scheduler.c\<close>: the multiplicative generator \<open>myrand\<close>, its
  seeding \<open>mysrand\<close>, and the choices of workers that are made with them.
\<close>

section \<open>The generator\<close>

definition RNGMOD :: "32 word" where "RNGMOD = 4294967291"
definition RNGMUL :: "32 word" where "RNGMUL = 69070"

text \<open>\<open>(unsigned)((RNGMUL * (unsigned long long)state) % RNGMOD)\<close>.\<close>

definition rng_next :: "32 word \<Rightarrow> 32 word" where
  "rng_next state = ucast (((ucast RNGMUL :: 64 word) * ucast state) mod ucast RNGMOD)"

definition rng_seed :: "32 word \<Rightarrow> 32 word" where
  "rng_seed seed = (let s = seed mod RNGMOD in s + (if s = 0 then 1 else 0))"

definition myrand :: "ptr \<Rightarrow> (rts, 32 word) prog" where
  "myrand w =
     bindP (ld_wk wk_rand_seed w) (\<lambda>state.
     bindP (ret (rng_next state)) (\<lambda>state.
       result [st_wk w (wk_rand_seed_update (\<lambda>_. state))] (ret state)))"

definition mysrand :: "ptr \<Rightarrow> 32 word \<Rightarrow> (rts, unit) prog" where
  "mysrand w seed = st_wk w (wk_rand_seed_update (\<lambda>_. rng_seed seed))"

lemma run_myrand [run]:
  "myrand w s = (case worker_at s w of None \<Rightarrow> Inl Segfault
     | Some x \<Rightarrow> Inr (rng_next (wk_rand_seed x),
         s\<lparr>r_workers := (r_workers s)(w \<mapsto> x\<lparr>wk_rand_seed := rng_next (wk_rand_seed x)\<rparr>)\<rparr>))"
  by (auto simp: myrand_def run split: option.splits dest: deref_SomeD)

section \<open>It stays in the multiplicative group\<close>

definition in_group :: "32 word \<Rightarrow> bool" where
  "in_group s \<longleftrightarrow> 0 < s \<and> s < RNGMOD"

lemma in_group_nat: "in_group s \<longleftrightarrow> 0 < unat s \<and> unat s < 4294967291"
  by (auto simp: in_group_def RNGMOD_def word_less_nat_alt unat_gt_0 word_gt_0_no)

text \<open>The product of two 32-bit numbers does not overflow 64 bits.\<close>

lemma unat_rng_next: "unat (rng_next s) = (69070 * unat s) mod 4294967291"
proof -
  have "unat s < 2 ^ 32" using unsigned_less [of s] by simp
  then have "69070 * unat s < 2 ^ 64" by simp
  then have "unat ((69070 :: 64 word) * ucast s) = 69070 * unat s"
    by (simp add: unat_word_ariths unsigned_ucast_eq take_bit_nat_eq_self)
  then show ?thesis
    by (simp add: rng_next_def RNGMUL_def RNGMOD_def unsigned_ucast_eq take_bit_nat_eq_self unat_mod)
qed

lemma coprime_rng: "coprime (69070 :: nat) 4294967291"
proof (rule coprimeI)
  fix d :: nat
  assume "d dvd 69070" "d dvd 4294967291"
  then have "d dvd 3866465487 * 69070 - 62179 * 4294967291"
    by (intro dvd_diff_nat dvd_mult)
  then show "is_unit d" by simp
qed

lemma rng_next_in_group: "in_group s \<Longrightarrow> in_group (rng_next s)"
proof -
  assume "in_group s"
  then have "\<not> (4294967291 :: nat) dvd unat s" by (auto simp: in_group_nat dest: dvd_imp_le)
  then have "\<not> (4294967291 :: nat) dvd 69070 * unat s"
    using coprime_rng by (simp add: coprime_dvd_mult_right_iff coprime_commute)
  then show ?thesis by (simp add: in_group_nat unat_rng_next mod_greater_zero_iff_not_dvd)
qed

lemma rng_seed_in_group: "in_group (rng_seed seed)"
proof -
  have "unat (seed mod RNGMOD) < 4294967291"
    by (simp add: unat_mod RNGMOD_def)
  then show ?thesis
    by (cases "seed mod RNGMOD = 0") (simp_all add: rng_seed_def in_group_nat unat_gt_0)
qed

lemma rng_power_in_group: "in_group s \<Longrightarrow> in_group ((rng_next ^^ k) s)"
  by (induction k) (auto intro: rng_next_in_group)

lemma unat_rng_power: "in_group s \<Longrightarrow> unat ((rng_next ^^ k) s) = (69070 ^ k * unat s) mod 4294967291"
  by (induction k) (simp_all add: in_group_nat unat_rng_next mod_mult_right_eq mult.assoc)

text \<open>\<open>n\<close> draws in a row.\<close>

primrec draws :: "nat \<Rightarrow> ptr \<Rightarrow> (rts, 32 word list) prog" where
  "draws 0 w = ret []"
| "draws (Suc n) w = bindP (myrand w) (\<lambda>x. bindP (draws n w) (\<lambda>xs. ret (x # xs)))"

lemma draws_eq:
  "worker_at s w = Some x \<Longrightarrow>
   \<exists>t. draws n w s = Inr (map (\<lambda>k. (rng_next ^^ Suc k) (wk_rand_seed x)) [0..<n], t)"
proof (induction n arbitrary: s x)
  case 0
  then show ?case by (simp add: run)
next
  case (Suc n)
  let ?x = "x\<lparr>wk_rand_seed := rng_next (wk_rand_seed x)\<rparr>"
  let ?s = "s\<lparr>r_workers := (r_workers s)(w \<mapsto> ?x)\<rparr>"
  have "worker_at ?s w = Some ?x" using Suc.prems by (auto dest: deref_SomeD)
  from Suc.IH [OF this] obtain t
    where t: "draws n w ?s = Inr (map (\<lambda>k. (rng_next ^^ Suc k) (wk_rand_seed ?x)) [0..<n], t)"
    by blast
  have "rng_next (wk_rand_seed x) # map (\<lambda>k. (rng_next ^^ Suc k) (wk_rand_seed ?x)) [0..<n]
      = map (\<lambda>k. (rng_next ^^ Suc k) (wk_rand_seed x)) [0..<Suc n]"
    by (subst upt_conv_Cons) (simp_all add: map_Suc_upt [symmetric] funpow_swap1 del: upt_Suc map_Suc_upt)
  with Suc.prems t show ?case by (simp add: run)
qed

text \<open>
  C11. After \<open>mysrand\<close> with any seed, every number \<open>myrand\<close> ever returns lies between 1 and
  \<open>RNGMOD - 1\<close> (the generator never gets stuck at 0, whatever the seed), and is the power
  of the multiplier that the comment announces.
\<close>

theorem rng_never_stuck:
  assumes "worker_at s w = Some x"
  shows "\<exists>xs t. result [mysrand w seed] (draws n w) s = Inr (xs, t) \<and> length xs = n
     \<and> (\<forall>r \<in> set xs. 0 < r \<and> r < RNGMOD)
     \<and> (\<forall>k < n. unat (xs ! k) = (69070 ^ Suc k * unat (rng_seed seed)) mod 4294967291)"
proof -
  let ?x = "x\<lparr>wk_rand_seed := rng_seed seed\<rparr>"
  let ?s = "s\<lparr>r_workers := (r_workers s)(w \<mapsto> ?x)\<rparr>"
  have at: "worker_at ?s w = Some ?x" using assms by (auto dest: deref_SomeD)
  obtain t where "draws n w ?s = Inr (map (\<lambda>k. (rng_next ^^ Suc k) (rng_seed seed)) [0..<n], t)"
    using draws_eq [OF at] by auto
  moreover have "in_group ((rng_next ^^ Suc k) (rng_seed seed))" for k
    by (rule rng_power_in_group) (rule rng_seed_in_group)
  ultimately show ?thesis
    using assms unat_rng_power [OF rng_seed_in_group [of seed]]
    by (intro exI [of _ "map (\<lambda>k. (rng_next ^^ Suc k) (rng_seed seed)) [0..<n]"] exI [of _ t])
      (simp add: mysrand_def run in_group_def del: funpow.simps power_Suc)
qed

section \<open>Choosing workers\<close>

text \<open>
  A worker other than \<open>me\<close> out of \<open>n\<close>: the number modulo \<open>n - 1\<close>, moved over \<open>me\<close>. Both the
  choice of a victim and the second of two candidate pools are made this way.
\<close>

definition skip_self :: "int \<Rightarrow> int \<Rightarrow> 32 word \<Rightarrow> int" where
  "skip_self n me r = (let v = uint (r mod word_of_int (n - 1)) in if v \<ge> me then v + 1 else v)"

definition any_worker :: "int \<Rightarrow> 32 word \<Rightarrow> int" where
  "any_worker n r = uint (r mod word_of_int n)"

lemma uint_mod_of_int:
  fixes r :: "32 word"
  assumes "0 < n" "n < 2 ^ 32"
  shows "uint (r mod word_of_int n) = uint r mod n"
  using assms by (simp add: uint_mod unsigned_of_int take_bit_int_eq_self)

lemma any_worker_range: "0 < n \<Longrightarrow> n < 2 ^ 31 \<Longrightarrow> 0 \<le> any_worker n r \<and> any_worker n r < n"
  by (simp add: any_worker_def uint_mod_of_int)

lemma skip_self_range:
  assumes "1 < n" "n < 2 ^ 31" "0 \<le> me" "me < n"
  shows "0 \<le> skip_self n me r \<and> skip_self n me r < n \<and> skip_self n me r \<noteq> me"
proof -
  have "uint (r mod word_of_int (n - 1)) = uint r mod (n - 1)"
    using assms by (intro uint_mod_of_int) auto
  moreover have "0 \<le> uint r mod (n - 1)" "uint r mod (n - 1) < n - 1" using assms by simp_all
  ultimately show ?thesis by (auto simp: skip_self_def Let_def)
qed

lemma skip_self_onto:
  assumes "1 < n" "n < 2 ^ 31" "0 \<le> me" "me < n" "0 \<le> v" "v < n" "v \<noteq> me"
  shows "\<exists>r. skip_self n me r = v"
proof -
  define k where "k = (if v > me then v - 1 else v)"
  have k: "0 \<le> k" "k < n - 1" using assms by (auto simp: k_def split: if_splits)
  have "uint ((word_of_int k :: 32 word) mod word_of_int (n - 1)) = uint (word_of_int k :: 32 word) mod (n - 1)"
    using assms by (intro uint_mod_of_int) auto
  moreover have "uint (word_of_int k :: 32 word) = k"
    using k assms by (simp add: unsigned_of_int take_bit_int_eq_self)
  ultimately have "skip_self n me (word_of_int k) = v"
    using k assms by (auto simp: skip_self_def Let_def k_def)
  then show ?thesis by blast
qed

text \<open>
  A thief's choice of a victim is fair in the weak sense that matters: for a worker
  numbered \<open>me\<close> among \<open>n\<close>, the possible choices are exactly the other workers, never itself
  and never an index outside the array of workers.
\<close>

theorem victims_are_the_others:
  assumes "1 < n" "n < 2 ^ 31" "0 \<le> me" "me < n"
  shows "range (skip_self n me) = {0..<n} - {me}"
  using skip_self_range [OF assms] skip_self_onto [OF assms] by fastforce

theorem victims_are_the_others_witness: "range (skip_self 3 1) = {0, 2}"
proof -
  have "{0..<3} - {1 :: int} = {0, 2}" by auto
  then show ?thesis using victims_are_the_others [of 3 1] by simp
qed

theorem rng_never_stuck_witness:
  "worker_at sample_rts 10 = Some sample_worker
   \<and> (\<exists>xs t. result [mysrand 10 4294967291] (draws 5 10) sample_rts = Inr (xs, t)
        \<and> length xs = 5 \<and> (\<forall>r \<in> set xs. 0 < r))"
  using rng_never_stuck [of sample_rts 10 sample_worker 4294967291 5] by auto

end
