(* ===== verification/Reducer_Lookup.thy ===== *)
theory Reducer_Lookup
  imports Reducer_Map
begin

text \<open>
  The hash table of the reducers is a finite map: what an insertion leaves, that growing the table
  loses nothing, and that a lookup finds exactly what was inserted. The contract is stated as a
  locale and the table of \<open>Reducer_Map\<close> interprets it.
\<close>

section \<open>Buckets\<close>

text \<open>A bucket whose live elements are \<open>L\<close>: they come first, and after them every key is 0.\<close>

definition shape :: "bucket \<Rightarrow> elem list \<Rightarrow> bool" where
  "shape b L \<longleftrightarrow> (\<exists>R. bk_el b = L @ R \<and> R \<noteq> [] \<and> (\<forall>e \<in> set L. el_key e \<noteq> NULL) \<and> (\<forall>e \<in> set R. el_key e = NULL))
     \<and> length (bk_el b) = bk_nmax b + 1 \<and> 1 \<le> bk_nmax b"

fun bshape :: "bucket option \<Rightarrow> elem list \<Rightarrow> bool" where
  "bshape None L = (L = [])"
| "bshape (Some b) L = shape b L"

lemma bucket_elems_shape: "bshape bo L \<Longrightarrow> bucket_elems bo = L"
proof (cases bo)
  case (Some b)
  moreover assume "bshape bo L"
  ultimately obtain R where "bk_el b = L @ R" "\<forall>e \<in> set L. el_key e \<noteq> NULL" "R \<noteq> []" "\<forall>e \<in> set R. el_key e = NULL"
    by (auto simp: shape_def)
  then show ?thesis
    using Some by (cases R) (simp_all add: bucket_elems_def live_elems_def takeWhile_append2)
qed (simp add: bucket_elems_def)

lemma first_free_append:
  "\<forall>e \<in> set L. el_key e \<noteq> NULL \<Longrightarrow> first_free (L @ R) = map_option ((+) (length L)) (first_free R)"
  by (induction L) (cases "first_free R"; simp)+

lemma first_free_null: "\<forall>e \<in> set R. el_key e = NULL \<Longrightarrow> first_free R = (if R = [] then None else Some 0)"
  by (cases R) auto

lemma roundup_ok: "\<exists>m. roundup n s = Inr (m, s) \<and> n \<le> m \<and> 1 \<le> m"
proof -
  obtain r where r: "cilkrts_frame_malloc_roundup (sizeof_bucket n) s = Inr (r, s)" "sizeof_bucket n \<le> r" "64 \<le> r"
  proof (cases "sizeof_bucket n > FRAME_MALLOC_MAX_SIZE")
    case True
    then show ?thesis
      using that by (simp add: cilkrts_frame_malloc_roundup_def run FRAME_MALLOC_MAX_SIZE_def)
  next
    case False
    then obtain b where b: "bucket_of_size (sizeof_bucket n) = (ret b :: ('a, nat) prog)"
        "bucket_from 0 (sizeof_bucket n) = Some b"
      using bucket_of_size_returns [of "sizeof_bucket n"] by auto
    with False that bucket_from_Some [OF b(2)] bucket_size_pos [of b] show ?thesis
      by (simp add: cilkrts_frame_malloc_roundup_def run)
  qed
  then have "n \<le> (r - 32) div 24 \<and> 1 \<le> (r - 32) div 24"
    by (simp add: sizeof_bucket_def less_eq_div_iff_mult_less_eq) linarith
  with r show ?thesis by (auto simp: roundup_def run)
qed

lemma grow_ok:
  assumes "bshape bo L"
  shows "\<exists>b. grow bo s = Inr ((b, length L), s) \<and> shape b L \<and> length L < bk_nmax b"
proof (cases bo)
  case None
  obtain m where "roundup 0 s = Inr (m, s)" "1 \<le> m" using roundup_ok [of 0 s] by blast
  with None assms show ?thesis by (auto simp: grow_def run shape_def zero_elem_def)
next
  case (Some b)
  with assms obtain R where b: "bk_el b = L @ R" "\<forall>e \<in> set L. el_key e \<noteq> NULL" "\<forall>e \<in> set R. el_key e = NULL"
      "R \<noteq> []" "length L + length R = bk_nmax b + 1" "1 \<le> bk_nmax b"
    by (auto simp: shape_def)
  let ?n = "bk_nmax b"
  have take_R: "\<forall>e \<in> set (take (?n - length L) R). el_key e = NULL" using b(3) by (auto dest: in_set_takeD)
  have le: "length L \<le> ?n" using b(4,5) by (cases R) auto
  have ff: "first_free (take ?n (bk_el b)) = (if length L < ?n then Some (length L) else None)"
    using le b(2,4,5) take_R by (auto simp: b(1) first_free_append first_free_null)
  show ?thesis
  proof (cases "length L < ?n")
    case True
    then have "grow bo s = Inr ((b, length L), s)" unfolding grow_def Some by (simp add: ff run_ret)
    moreover have "shape b L" using assms Some by simp
    ultimately show ?thesis using True by blast
  next
    case False
    with le have eq: "length L = ?n" by simp
    have tk: "take ?n (bk_el b) = L" by (simp add: b(1) eq [symmetric])
    obtain m where m: "roundup (2 * ?n) s = Inr (m, s)" "2 * ?n \<le> m" using roundup_ok [of "2 * ?n" s] by auto
    have "grow bo s = Inr ((\<lparr>bk_nmax = m, bk_el = L @ replicate (m - ?n + 1) zero_elem\<rparr>, length L), s)"
      using ff unfolding grow_def Some option.case by (simp add: tk m(1) eq run_bindP run_ret)
    moreover have "shape \<lparr>bk_nmax = m, bk_el = L @ replicate (m - ?n + 1) zero_elem\<rparr> L"
      unfolding shape_def using b(2,6) m(2) eq
      by (intro conjI exI [of _ "replicate (m - ?n + 1) zero_elem"]) (simp_all add: zero_elem_def)
    ultimately show ?thesis using m(2) b(6) eq by simp
  qed
qed

lemma shape_snoc:
  "shape b L \<Longrightarrow> length L < bk_nmax b \<Longrightarrow> el_key e \<noteq> NULL \<Longrightarrow> shape (b\<lparr>bk_el := (bk_el b)[length L := e]\<rparr>) (L @ [e])"
proof -
  assume b: "shape b L" "length L < bk_nmax b" "el_key e \<noteq> NULL"
  then obtain x R where R: "bk_el b = L @ x # R" "\<forall>e \<in> set L. el_key e \<noteq> NULL" "\<forall>e \<in> set R. el_key e = NULL"
      "length L + length R = bk_nmax b"
    by (auto simp: shape_def neq_Nil_conv)
  moreover from R(4) b(2) have "R \<noteq> []" by auto
  ultimately show ?thesis using b by (auto simp: shape_def list_update_append)
qed

lemma shape_length: "shape b L \<Longrightarrow> length L < length (bk_el b)"
proof -
  assume "shape b L"
  then obtain R where "bk_el b = L @ R" "R \<noteq> []" by (auto simp: shape_def)
  then show ?thesis by simp
qed

section \<open>Tables\<close>

definition rm_ok :: "cilkred_map \<Rightarrow> bool" where
  "rm_ok h \<longleftrightarrow> (\<exists>k < 64. rm_nbuckets h = 2 ^ k) \<and> length (rm_buckets h) = rm_nbuckets h
     \<and> rm_nelem h = length (all_elems h)
     \<and> (\<forall>i < rm_nbuckets h. bshape (rm_buckets h ! i) (bucket_elems (rm_buckets h ! i))
          \<and> distinct (map el_key (bucket_elems (rm_buckets h ! i)))
          \<and> (\<forall>e \<in> set (bucket_elems (rm_buckets h ! i)).
               hashfun h (el_key e) = i \<and> el_key e \<noteq> NULL \<and> el_view e \<noteq> NULL))"

text \<open>What the table stands for: the hyperobject and the view of each key.\<close>

definition rm_map :: "cilkred_map \<Rightarrow> ptr \<rightharpoonup> ptr \<times> ptr" where
  "rm_map h = map_of (map (\<lambda>e. (el_key e, (el_hb e, el_view e))) (all_elems h))"

lemma rm_okD:
  assumes "rm_ok h"
  shows "length (rm_buckets h) = rm_nbuckets h" "0 < rm_nbuckets h" "rm_nelem h = length (all_elems h)"
    "\<exists>k < 64. rm_nbuckets h = 2 ^ k"
    "i < rm_nbuckets h \<Longrightarrow> bshape (rm_buckets h ! i) (bucket_elems (rm_buckets h ! i))"
    "i < rm_nbuckets h \<Longrightarrow> distinct (map el_key (bucket_elems (rm_buckets h ! i)))"
    "i < rm_nbuckets h \<Longrightarrow> e \<in> set (bucket_elems (rm_buckets h ! i)) \<Longrightarrow>
       hashfun h (el_key e) = i \<and> el_key e \<noteq> NULL \<and> el_view e \<noteq> NULL"
  using assms unfolding rm_ok_def by fastforce+

lemma hashfun_lt: "rm_ok h \<Longrightarrow> hashfun h k < rm_nbuckets h"
proof -
  assume "rm_ok h"
  then obtain j where j: "j < 64" "rm_nbuckets h = 2 ^ j" by (auto simp: rm_ok_def)
  then have "(of_nat (rm_nbuckets h) - 1 :: 64 word) = mask j" by (simp add: mask_eq_exp_minus_1)
  then have "hashfun h k = unat (take_bit j (let k = of_nat k :: 64 word; k = k XOR drop_bit 21 k;
      k = k XOR drop_bit 8 k in k XOR drop_bit 3 k))"
    by (simp add: hashfun_def Let_def take_bit_eq_mask)
  then show ?thesis using j by (simp add: unsigned_take_bit_eq)
qed

lemma bex_nth: "(\<exists>x \<in> set xs. P x) \<longleftrightarrow> (\<exists>i < length xs. P (xs ! i))"
  by (metis in_set_conv_nth)

lemma mem_concat_nth: "x \<in> set (concat xss) \<longleftrightarrow> (\<exists>i < length xss. x \<in> set (xss ! i))"
  by (simp add: bex_nth)

lemma mem_all_elems:
  "e \<in> set (all_elems h) \<longleftrightarrow> (\<exists>i < length (rm_buckets h). e \<in> set (bucket_elems (rm_buckets h ! i)))"
  unfolding all_elems_def mem_concat_nth by (auto simp: nth_map)

lemma hashfun_update [simp]:
  "hashfun (h\<lparr>rm_buckets := bs, rm_nelem := n\<rparr>) = hashfun h" "hashfun (h\<lparr>rm_buckets := bs\<rparr>) = hashfun h"
  by (simp_all add: hashfun_def fun_eq_iff)

lemma mem_all_elems_hash:
  "rm_ok h \<Longrightarrow> e \<in> set (all_elems h) \<longleftrightarrow> e \<in> set (bucket_elems (rm_buckets h ! hashfun h (el_key e)))"
proof
  assume h: "rm_ok h" and "e \<in> set (all_elems h)"
  then obtain i where i: "i < rm_nbuckets h" "e \<in> set (bucket_elems (rm_buckets h ! i))"
    using rm_okD(1) [OF h] by (auto simp: mem_all_elems)
  with rm_okD(7) [OF h i] show "e \<in> set (bucket_elems (rm_buckets h ! hashfun h (el_key e)))" by simp
next
  assume h: "rm_ok h" and "e \<in> set (bucket_elems (rm_buckets h ! hashfun h (el_key e)))"
  then show "e \<in> set (all_elems h)"
    using hashfun_lt [OF h] rm_okD(1) [OF h] by (auto simp: mem_all_elems)
qed

text \<open>Lists indexed by a hash value are disjoint.\<close>

lemma distinct_concat_index:
  "(\<And>i. i < length xss \<Longrightarrow> distinct (xss ! i)) \<Longrightarrow> (\<And>i x. i < length xss \<Longrightarrow> x \<in> set (xss ! i) \<Longrightarrow> h x = i + k)
   \<Longrightarrow> distinct (concat xss)"
proof (induction xss arbitrary: k)
  case (Cons xs xss)
  have "distinct (concat xss)"
    using Cons.prems(1) [of "Suc i" for i] Cons.prems(2) [of "Suc i" for i]
    by (intro Cons.IH [of "Suc k"]) auto
  moreover have "h x = k" if "x \<in> set xs" for x using that Cons.prems(2) [of 0 x] by simp
  moreover have "h x > k" if x: "x \<in> set (concat xss)" for x
  proof -
    obtain i where "i < length xss" "x \<in> set (xss ! i)" using x unfolding mem_concat_nth by blast
    then show ?thesis using Cons.prems(2) [of "Suc i" x] by simp
  qed
  ultimately show ?case using Cons.prems(1) [of 0] by fastforce
qed simp

lemma distinct_keys: "rm_ok h \<Longrightarrow> distinct (map el_key (all_elems h))"
proof -
  assume h: "rm_ok h"
  have "distinct (concat (map (\<lambda>b. map el_key (bucket_elems b)) (rm_buckets h)))"
    using rm_okD(1,6,7) [OF h]
    by (intro distinct_concat_index [where h = "hashfun h" and k = 0]) auto
  then show ?thesis by (simp add: all_elems_def map_concat comp_def)
qed

lemma rm_map_Some:
  "rm_ok h \<Longrightarrow> rm_map h k = Some (hb, v) \<longleftrightarrow> (\<exists>e \<in> set (all_elems h). el_key e = k \<and> el_hb e = hb \<and> el_view e = v)"
  unfolding rm_map_def using distinct_keys [of h]
  by (subst map_of_eq_Some_iff) (auto simp: comp_def)

lemma rm_map_mem: "rm_ok h \<Longrightarrow> e \<in> set (all_elems h) \<Longrightarrow> rm_map h (el_key e) = Some (el_hb e, el_view e)"
  by (auto simp: rm_map_Some)

lemma rm_map_None: "rm_map h k = None \<longleftrightarrow> (\<forall>e \<in> set (all_elems h). el_key e \<noteq> k)"
  unfolding rm_map_def map_of_eq_None_iff by force

section \<open>Insertion\<close>

text \<open>A pointer to a live element, and what adding the element \<open>e\<close> means for a table.\<close>

definition in_place :: "elem_ptr \<Rightarrow> cilkred_map \<Rightarrow> bool" where
  "in_place p h \<longleftrightarrow> fst p < rm_nbuckets h \<and> snd p < length (bucket_elems (rm_buckets h ! fst p))"

definition adds :: "elem \<Rightarrow> cilkred_map \<Rightarrow> cilkred_map \<Rightarrow> bool" where
  "adds e h h' \<longleftrightarrow> rm_ok h' \<and> set (all_elems h') = insert e (set (all_elems h)) \<and> rm_nelem h' = rm_nelem h + 1
     \<and> rm_is_leftmost h' = rm_is_leftmost h \<and> rm_merging h' = rm_merging h"

lemma length_concat_update:
  "i < length xss \<Longrightarrow> length (concat (xss[i := xss ! i @ [x]])) = length (concat xss) + 1"
  by (induction xss arbitrary: i) (auto split: nat.splits)

lemma set_concat_update:
  "i < length xss \<Longrightarrow> set (concat (xss[i := xss ! i @ [x]])) = insert x (set (concat xss))"
  by (induction xss arbitrary: i) (auto split: nat.splits)

lemma insert_no_rehash_ok:
  assumes h: "rm_ok h" and e: "key \<noteq> NULL" "view \<noteq> NULL" and fresh: "rm_map h key = None"
  shows "\<exists>j h'. insert_no_rehash key hb view h = Inr ((hashfun h key, j), h')
    \<and> adds \<lparr>el_key = key, el_hb = hb, el_view = view\<rparr> h h' \<and> rm_nbuckets h' = rm_nbuckets h
    \<and> get_elem (hashfun h key, j) h' = Inr (\<lparr>el_key = key, el_hb = hb, el_view = view\<rparr>, h') \<and> in_place (hashfun h key, j) h'"
proof -
  let ?i = "hashfun h key" and ?e = "\<lparr>el_key = key, el_hb = hb, el_view = view\<rparr>"
  let ?L = "bucket_elems (rm_buckets h ! ?i)"
  note i = hashfun_lt [OF h, of key]
  obtain b where b: "grow (rm_buckets h ! ?i) h = Inr ((b, length ?L), h)" "shape b ?L" "length ?L < bk_nmax b"
    using grow_ok [OF rm_okD(5) [OF h i], of h] by auto
  let ?b = "b\<lparr>bk_el := (bk_el b)[length ?L := ?e]\<rparr>"
  let ?h = "h\<lparr>rm_buckets := (rm_buckets h)[?i := Some ?b], rm_nelem := rm_nelem h + 1\<rparr>"
  note len = rm_okD(1) [OF h] shape_length [OF b(2)]
  have ins: "insert_no_rehash key hb view h = Inr ((?i, length ?L), ?h)"
    using e i len by (simp add: insert_no_rehash_def bucket_at_def put_elem_def run b(1))
  have sh: "shape ?b (?L @ [?e])" using b e by (intro shape_snoc) simp_all
  then have el: "bucket_elems (Some ?b) = ?L @ [?e]" by (intro bucket_elems_shape) simp
  have upd: "map bucket_elems ((rm_buckets h)[?i := Some ?b])
      = (map bucket_elems (rm_buckets h))[?i := map bucket_elems (rm_buckets h) ! ?i @ [?e]]"
    using el i len by (simp add: map_update)
  have bs: "rm_buckets ?h = (rm_buckets h)[?i := Some ?b]" by simp
  have all: "set (all_elems ?h) = insert ?e (set (all_elems h))" "length (all_elems ?h) = length (all_elems h) + 1"
    using i len set_concat_update [of ?i "map bucket_elems (rm_buckets h)"]
      length_concat_update [of ?i "map bucket_elems (rm_buckets h)"]
    unfolding all_elems_def bs upd by simp_all
  have new: "el_key x \<noteq> key" if "x \<in> set ?L" for x
    using fresh that mem_all_elems_hash [OF h, of x] rm_okD(7) [OF h i that] by (auto simp: rm_map_None)
  have "rm_ok ?h"
    unfolding rm_ok_def
  proof (intro conjI allI impI)
    fix j assume j: "j < rm_nbuckets ?h"
    then have j': "j < rm_nbuckets h" by simp
    have "bucket_elems (rm_buckets ?h ! j) = (if j = ?i then ?L @ [?e] else bucket_elems (rm_buckets h ! j))"
      using el j' len by (simp add: nth_list_update)
    moreover have "bshape (rm_buckets ?h ! j) (if j = ?i then ?L @ [?e] else bucket_elems (rm_buckets h ! j))"
      using sh j' len rm_okD(5) [OF h j'] by (simp add: nth_list_update)
    ultimately show "bshape (rm_buckets ?h ! j) (bucket_elems (rm_buckets ?h ! j))"
      "distinct (map el_key (bucket_elems (rm_buckets ?h ! j)))"
      "\<forall>e \<in> set (bucket_elems (rm_buckets ?h ! j)). hashfun ?h (el_key e) = j \<and> el_key e \<noteq> NULL \<and> el_view e \<noteq> NULL"
      using new e rm_okD(6,7) [OF h j'] by auto
  qed (use h all(2) in \<open>simp_all add: rm_ok_def\<close>)
  moreover have "get_elem (?i, length ?L) ?h = Inr (?e, ?h)"
    using i len by (simp add: get_elem_def bucket_at_def run)
  moreover have "in_place (?i, length ?L) ?h" using i len el by (simp add: in_place_def)
  ultimately show ?thesis using ins all by (auto simp: adds_def)
qed

lemma option_eqI: "(\<And>x. a = Some x \<longleftrightarrow> b = Some x) \<Longrightarrow> a = b"
  by (cases a; cases b) auto

lemma elem_eta [simp]: "\<lparr>el_key = el_key e, el_hb = el_hb e, el_view = el_view e\<rparr> = e"
  by (cases e) simp

lemma adds_map:
  assumes "rm_ok h" "adds e h h'" "rm_map h (el_key e) = None"
  shows "rm_map h' = (rm_map h)(el_key e \<mapsto> (el_hb e, el_view e))"
proof (rule ext, rule option_eqI)
  fix k and x :: "ptr \<times> ptr"
  obtain hb v where x: "x = (hb, v)" by (cases x)
  have "rm_ok h'" "set (all_elems h') = insert e (set (all_elems h))" using assms(2) by (simp_all add: adds_def)
  then show "rm_map h' k = Some x \<longleftrightarrow> ((rm_map h)(el_key e \<mapsto> (el_hb e, el_view e))) k = Some x"
    using assms(1,3) by (auto simp: x rm_map_Some rm_map_None)
qed

section \<open>Growing the table\<close>

lemma power_of_2_ok: "is_power_of_2 (2 ^ k)"
proof -
  have "(2 ^ k :: 64 word) AND (2 ^ k - 1) = take_bit k (2 ^ k)" by (simp add: take_bit_eq_mask mask_eq_exp_minus_1)
  also have "\<dots> = 0" by (rule bit_word_eqI) (auto simp: bit_take_bit_iff bit_exp_iff)
  finally show ?thesis by (simp add: is_power_of_2_def)
qed

lemma make_buckets_ok:
  assumes "k < 64"
  shows "\<exists>h'. make_buckets (2 ^ k) h = Inr ((), h') \<and> rm_ok h' \<and> all_elems h' = []
    \<and> rm_is_leftmost h' = rm_is_leftmost h \<and> rm_merging h' = rm_merging h \<and> rm_nbuckets h' = 2 ^ k"
proof -
  let ?h = "h\<lparr>rm_nbuckets := 2 ^ k, rm_buckets := replicate (2 ^ k) None, rm_nelem := 0\<rparr>"
  have "make_buckets (2 ^ k) h = Inr ((), ?h)" using power_of_2_ok by (simp add: make_buckets_def run)
  moreover have "all_elems ?h = []" by (simp add: all_elems_def bucket_elems_def)
  ultimately show ?thesis using assms by (auto simp: rm_ok_def bucket_elems_def)
qed

lemma inserts_ok:
  assumes "rm_ok h" "distinct (map el_key es)" "\<forall>e \<in> set es. el_key e \<noteq> NULL \<and> el_view e \<noteq> NULL \<and> rm_map h (el_key e) = None"
  shows "\<exists>h'. block (map reinsert es) h = Inr ((), h')
    \<and> rm_ok h' \<and> set (all_elems h') = set (all_elems h) \<union> set es \<and> rm_nelem h' = rm_nelem h + length es
    \<and> rm_is_leftmost h' = rm_is_leftmost h \<and> rm_merging h' = rm_merging h \<and> rm_nbuckets h' = rm_nbuckets h"
  using assms
proof (induction es arbitrary: h)
  case Nil
  then show ?case by (simp add: run)
next
  case (Cons e es)
  obtain j h1 where h1: "insert_no_rehash (el_key e) (el_hb e) (el_view e) h = Inr (j, h1)"
      "adds e h h1" "rm_nbuckets h1 = rm_nbuckets h"
    using insert_no_rehash_ok [OF Cons.prems(1), of "el_key e" "el_view e" "el_hb e"] Cons.prems(3) by auto
  then have m: "rm_map h1 = (rm_map h)(el_key e \<mapsto> (el_hb e, el_view e))"
    using Cons.prems by (intro adds_map) auto
  have ne: "\<forall>e' \<in> set es. el_key e' \<noteq> el_key e" using Cons.prems(2) by (auto simp: image_iff)
  have "rm_ok h1" "\<forall>e \<in> set es. el_key e \<noteq> NULL \<and> el_view e \<noteq> NULL \<and> rm_map h1 (el_key e) = None"
    using h1(2) Cons.prems(3) ne by (simp_all add: adds_def m)
  with Cons.IH [of h1] Cons.prems(2) obtain h' where
    "block (map reinsert es) h1 = Inr ((), h')"
    "rm_ok h' \<and> set (all_elems h') = set (all_elems h1) \<union> set es \<and> rm_nelem h' = rm_nelem h1 + length es
    \<and> rm_is_leftmost h' = rm_is_leftmost h1 \<and> rm_merging h' = rm_merging h1 \<and> rm_nbuckets h' = rm_nbuckets h1"
    by auto
  moreover have "reinsert e h = Inr ((), h1)" by (simp add: reinsert_def run h1(1))
  ultimately show ?case using h1 by (auto simp: run adds_def)
qed

text \<open>Growing keeps the elements, and the assertion on their number holds.\<close>

lemma rehash_ok:
  assumes h: "rm_ok h" and small: "rm_nbuckets h < 2 ^ 62"
  shows "\<exists>h'. rehash h = Inr ((), h') \<and> rm_ok h' \<and> set (all_elems h') = set (all_elems h) \<and> rm_nelem h' = rm_nelem h
    \<and> rm_is_leftmost h' = rm_is_leftmost h \<and> rm_merging h' = rm_merging h \<and> rm_nbuckets h' = 2 * rm_nbuckets h"
proof -
  obtain k where k: "rm_nbuckets h = 2 ^ k" using rm_okD(4) [OF h] by blast
  with small have "k < 62" using power_increasing [of 62 k "2 :: nat"] by (cases "k < 62") auto
  then have "Suc k < 64" by simp
  then obtain h1 where h1: "make_buckets (2 ^ Suc k) h = Inr ((), h1)" "rm_ok h1" "all_elems h1 = []"
    "rm_is_leftmost h1 = rm_is_leftmost h" "rm_merging h1 = rm_merging h" "rm_nbuckets h1 = 2 ^ Suc k"
    using make_buckets_ok [of "Suc k" h] by auto
  have els: "el_key e \<noteq> NULL \<and> el_view e \<noteq> NULL" if "e \<in> set (all_elems h)" for e
    using that rm_okD(1,7) [OF h] by (fastforce simp: mem_all_elems)
  have "rm_map h1 key = None" for key by (simp add: rm_map_None h1)
  with inserts_ok [OF h1(2) distinct_keys [OF h]] els obtain h' where
    "block (map reinsert (all_elems h)) h1 = Inr ((), h')"
    "rm_ok h'" "set (all_elems h') = set (all_elems h)" "rm_nelem h' = rm_nelem h1 + length (all_elems h)"
    "rm_is_leftmost h' = rm_is_leftmost h1" "rm_merging h' = rm_merging h1" "rm_nbuckets h' = rm_nbuckets h1"
    using h1(3) by auto
  moreover have "rm_nelem h1 = 0" using rm_okD(3) [OF h1(2)] h1(3) by simp
  moreover have "nextsz (rm_nbuckets h) = 2 ^ Suc k" by (simp add: nextsz_def k)
  ultimately show ?thesis using h1 k rm_okD(3) [OF h] by (simp add: rehash_def run)
qed

lemma rehash_and_insert_ok:
  assumes h: "rm_ok h" and e: "key \<noteq> NULL" "view \<noteq> NULL" and fresh: "rm_map h key = None" and small: "rm_nelem h < 2 ^ 60"
  shows "\<exists>p h'. rehash_and_insert key hb view h = Inr (p, h')
    \<and> adds \<lparr>el_key = key, el_hb = hb, el_view = view\<rparr> h h'
    \<and> get_elem p h' = Inr (\<lparr>el_key = key, el_hb = hb, el_view = view\<rparr>, h') \<and> in_place p h'"
proof -
  let ?e = "\<lparr>el_key = key, el_hb = hb, el_view = view\<rparr>"
  obtain h1 where h1: "(if need_rehash_p h then rehash h else Inr ((), h)) = Inr ((), h1)" "rm_ok h1"
      "set (all_elems h1) = set (all_elems h)" "rm_nelem h1 = rm_nelem h"
      "rm_is_leftmost h1 = rm_is_leftmost h" "rm_merging h1 = rm_merging h"
  proof (cases "need_rehash_p h")
    case True
    then have "rm_nbuckets h < 1 + rm_nelem h + rm_nelem h div 8" by (simp add: need_rehash_p_def minsz_def)
    with small have "rm_nbuckets h < 2 ^ 62" by simp
    with True that rehash_ok [OF h] show ?thesis by auto
  qed (use h that in auto)
  have "rm_map h1 key = None" using fresh h1(3) by (simp add: rm_map_None)
  with insert_no_rehash_ok [OF h1(2) e] obtain j h' where
    "insert_no_rehash key hb view h1 = Inr ((hashfun h1 key, j), h')" "adds ?e h1 h'"
    "get_elem (hashfun h1 key, j) h' = Inr (?e, h')" "in_place (hashfun h1 key, j) h'" by blast
  moreover have "rehash_and_insert key hb view h = insert_no_rehash key hb view h1"
    using h1(1) by (cases "need_rehash_p h") (simp_all add: rehash_and_insert_def run)
  ultimately show ?thesis using h1 by (auto simp: adds_def)
qed

section \<open>Looking up\<close>

lemma find_key_live:
  assumes "\<forall>e \<in> set L. el_key e \<noteq> NULL \<and> el_view e \<noteq> NULL" "R \<noteq> []" "\<forall>e \<in> set R. el_key e = NULL" "key \<noteq> NULL"
  shows "(\<forall>e \<in> set L. el_key e \<noteq> key) \<and> find_key key (L @ R) j s = Inr (None, s)
    \<or> (\<exists>i < length L. el_key (L ! i) = key \<and> find_key key (L @ R) j s = Inr (Some (j + i), s))"
  using assms(1)
proof (induction L arbitrary: j)
  case Nil
  with assms(2-4) show ?case by (cases R) (simp_all add: run)
next
  case (Cons e L)
  show ?case
  proof (cases "el_key e = key")
    case True
    with Cons.prems assms(4) show ?thesis by (auto simp: run intro!: exI [of _ 0])
  next
    case False
    then have "find_key key ((e # L) @ R) j s = find_key key (L @ R) (Suc j) s" using Cons.prems by simp
    moreover have "\<forall>e \<in> set L. el_key e \<noteq> NULL \<and> el_view e \<noteq> NULL" using Cons.prems by simp
    note Cons.IH [OF this, of "Suc j"]
    ultimately show ?thesis using False by (auto intro: exI [of _ "Suc i" for i])
  qed
qed

text \<open>A lookup leaves the table alone; what it returns points to the element of the key.\<close>

lemma rm_lookup_ok:
  assumes h: "rm_ok h" and key: "key \<noteq> NULL"
  shows "rm_map h key = None \<and> rm_lookup key h = Inr (None, h)
    \<or> (\<exists>p e. rm_lookup key h = Inr (Some p, h) \<and> get_elem p h = Inr (e, h) \<and> el_key e = key \<and> e \<in> set (all_elems h) \<and> in_place p h)"
proof -
  let ?i = "hashfun h key" let ?b = "rm_buckets h ! ?i"
  note i = hashfun_lt [OF h, of key]
  note len = rm_okD(1) [OF h]
  have none: "rm_map h key = None \<longleftrightarrow> (\<forall>e \<in> set (bucket_elems ?b). el_key e \<noteq> key)"
    using mem_all_elems_hash [OF h] i by (auto simp: rm_map_None mem_all_elems len)
  show ?thesis
  proof (cases ?b)
    case None
    with none i len show ?thesis by (simp add: rm_lookup_def bucket_at_def run bucket_elems_def)
  next
    case (Some b)
    with rm_okD(5) [OF h i] obtain R where R: "bk_el b = bucket_elems ?b @ R" "R \<noteq> []" "\<forall>e \<in> set R. el_key e = NULL"
      by (auto simp: shape_def)
    let ?L = "bucket_elems ?b"
    have get: "rm_lookup key h = (case find_key key (?L @ R) 0 h of Inl e \<Rightarrow> Inl e
        | Inr (j, t) \<Rightarrow> Inr (map_option (Pair ?i) j, t))"
      using i len Some R(1) by (auto simp: rm_lookup_def bucket_at_def run split: sum.split)
    have "\<forall>e \<in> set ?L. el_key e \<noteq> NULL \<and> el_view e \<noteq> NULL" using rm_okD(7) [OF h i] by blast
    from find_key_live [OF this R(2,3) key, of 0 h] show ?thesis
    proof (elim disjE exE conjE)
      assume "\<forall>e \<in> set ?L. el_key e \<noteq> key" "find_key key (?L @ R) 0 h = Inr (None, h)"
      then show ?thesis using get none by simp
    next
      fix j assume j: "j < length ?L" "el_key (?L ! j) = key" "find_key key (?L @ R) 0 h = Inr (Some (0 + j), h)"
      have "get_elem (?i, j) h = Inr (?L ! j, h)"
        using Some R(1) i len j(1) by (simp add: get_elem_def bucket_at_def run nth_append)
      moreover have "?L ! j \<in> set (all_elems h)" "in_place (?i, j) h"
        using j(1) i len by (auto simp: mem_all_elems in_place_def)
      ultimately show ?thesis using get j by auto
    qed
  qed
qed

section \<open>The contract\<close>

text \<open>
  A map from keys to elements: what insertion and lookup promise. The runtime inserts only keys that
  are not there, and only so many that the budget holds.
\<close>

locale key_map =
  fixes rep :: "'s \<Rightarrow> ('k \<rightharpoonup> 'v) \<Rightarrow> bool"
    and fits :: "'k \<Rightarrow> 'v \<Rightarrow> bool"
    and budget :: "'s \<Rightarrow> nat"
    and ins :: "'k \<Rightarrow> 'v \<Rightarrow> ('s, unit) prog"
    and look :: "'k \<Rightarrow> ('s, 'v option) prog"
  assumes ins_law: "rep s m \<Longrightarrow> fits k v \<Longrightarrow> m k = None \<Longrightarrow> 0 < budget s \<Longrightarrow>
      \<exists>t. ins k v s = Inr ((), t) \<and> rep t (m(k \<mapsto> v)) \<and> budget s \<le> budget t + 1"
    and look_law: "rep s m \<Longrightarrow> fits k v \<Longrightarrow> look k s = Inr (m k, s)"
begin

lemma inserted_then_found:
  "rep s m \<Longrightarrow> \<forall>(k, v) \<in> set kvs. fits k v \<and> m k = None \<Longrightarrow> distinct (map fst kvs) \<Longrightarrow> length kvs \<le> budget s \<Longrightarrow>
   \<exists>t. block (map (\<lambda>(k, v). ins k v) kvs) s = Inr ((), t) \<and> rep t (m ++ map_of kvs)
     \<and> (\<forall>k v. fits k v \<longrightarrow> look k t = Inr ((m ++ map_of kvs) k, t))"
proof (induction kvs arbitrary: s m)
  case Nil
  then show ?case using look_law by (auto simp: run)
next
  case (Cons kv kvs)
  obtain k v where kv: "kv = (k, v)" by (cases kv)
  obtain t where t: "ins k v s = Inr ((), t)" "rep t (m(k \<mapsto> v))" "budget s \<le> budget t + 1"
    using ins_law [of s m k v] Cons.prems by (fastforce simp: kv)
  have "\<forall>(k', v') \<in> set kvs. fits k' v' \<and> (m(k \<mapsto> v)) k' = None"
    using Cons.prems(2,3) by (auto simp: kv rev_image_eqI)
  moreover have "m(k \<mapsto> v) ++ map_of kvs = m ++ map_of (kv # kvs)"
    using Cons.prems(3) by (simp add: kv map_add_upd_left dom_map_of_conv_image_fst)
  ultimately show ?case using Cons.IH [OF t(2)] Cons.prems(3,4) t(1,3) by (auto simp: run kv)
qed

end

definition rm_insert :: "ptr \<Rightarrow> ptr \<times> ptr \<Rightarrow> (cilkred_map, unit) prog" where
  "rm_insert key hv = bindP (rehash_and_insert key (fst hv) (snd hv)) (\<lambda>_. ret ())"

definition rm_find :: "ptr \<Rightarrow> (cilkred_map, (ptr \<times> ptr) option) prog" where
  "rm_find key = bindP (rm_lookup key) (\<lambda>p. case p of None \<Rightarrow> ret None
     | Some p \<Rightarrow> bindP (get_elem p) (\<lambda>e. ret (Some (el_hb e, el_view e))))"

interpretation reducers: key_map "\<lambda>h m. rm_ok h \<and> rm_map h = m" "\<lambda>k hv. k \<noteq> NULL \<and> snd hv \<noteq> NULL"
  "\<lambda>h. 2 ^ 60 - rm_nelem h" rm_insert rm_find
proof
  fix h m and k :: ptr and v :: "ptr \<times> ptr"
  assume h: "rm_ok h \<and> rm_map h = m" and kv: "k \<noteq> NULL \<and> snd v \<noteq> NULL"
  show "rm_find k h = Inr (m k, h)"
    using rm_lookup_ok [of h k] h kv rm_map_mem [of h]
    by (auto simp: rm_find_def run)
  assume "m k = None" "0 < 2 ^ 60 - rm_nelem h"
  then obtain p h' where "rehash_and_insert k (fst v) (snd v) h = Inr (p, h')"
      "adds \<lparr>el_key = k, el_hb = fst v, el_view = snd v\<rparr> h h'"
    using rehash_and_insert_ok [of h k "snd v" "fst v"] h kv by auto
  moreover from this(2) have "rm_map h' = (rm_map h)(k \<mapsto> v)"
    using adds_map [of h _ h'] h \<open>m k = None\<close> by fastforce
  ultimately show "\<exists>t. rm_insert k v h = Inr ((), t) \<and> (rm_ok t \<and> rm_map t = m(k \<mapsto> v))
      \<and> 2 ^ 60 - rm_nelem h \<le> 2 ^ 60 - rm_nelem t + 1"
    using h by (auto simp: rm_insert_def run adds_def)
qed

lemma fresh_map_ok: "\<exists>h. cilkrts_make_reducer_map zero_map = Inr ((), h) \<and> rm_ok h \<and> rm_map h = Map.empty
    \<and> rm_nelem h = 0 \<and> \<not> rm_is_leftmost h \<and> \<not> rm_merging h"
proof -
  obtain h where "make_buckets 1 zero_map = Inr ((), h)" "rm_ok h" "all_elems h = []"
    using make_buckets_ok [of 0 zero_map] by auto
  moreover have "rm_ok (h\<lparr>rm_merging := False, rm_is_leftmost := False\<rparr>)" if "rm_ok h"
    using that by (simp add: rm_ok_def all_elems_def hashfun_def)
  ultimately show ?thesis
    using rm_okD(3) [of h]
    by (simp add: cilkrts_make_reducer_map_def run rm_map_def all_elems_def)
qed

text \<open>
  C18. The hash table of the reducers is a map. A table made by \<open>__cilkrts_make_reducer_map\<close>, into which
  any views are inserted under different keys, growing whenever it must, answers every lookup with the
  hyperobject and view inserted for that key, and with nothing for every other key; no assertion of the
  code fails on the way.
\<close>

theorem reducer_map_finds_what_was_inserted:
  assumes "\<forall>(key, hb, view) \<in> set kvs. key \<noteq> NULL \<and> view \<noteq> NULL" "distinct (map fst kvs)" "length kvs \<le> 2 ^ 60"
  shows "\<exists>h. block (cilkrts_make_reducer_map
       # map (\<lambda>(key, hb, view). bindP (rehash_and_insert key hb view) (\<lambda>_. ret ())) kvs) zero_map = Inr ((), h)
     \<and> (\<forall>key. key \<noteq> NULL \<longrightarrow> rm_find key h = Inr (map_of kvs key, h))"
proof -
  obtain h where h: "cilkrts_make_reducer_map zero_map = Inr ((), h)" "rm_ok h \<and> rm_map h = Map.empty" "rm_nelem h = 0"
    using fresh_map_ok by blast
  have eq: "map (\<lambda>(k, v). rm_insert k v) kvs
      = map (\<lambda>(key, hb, view). bindP (rehash_and_insert key hb view) (\<lambda>_. ret ())) kvs"
    by (auto simp: rm_insert_def)
  from reducers.inserted_then_found [OF h(2), of kvs] assms h(3) obtain t where
    "block (map (\<lambda>(k, v). rm_insert k v) kvs) h = Inr ((), t)"
    "\<forall>k v. k \<noteq> NULL \<and> snd v \<noteq> NULL \<longrightarrow> rm_find k t = Inr ((Map.empty ++ map_of kvs) k, t)" by fastforce
  then have "\<forall>k. k \<noteq> NULL \<longrightarrow> rm_find k t = Inr (map_of kvs k, t)" by (metis empty_map_add snd_conv zero_neq_one)
  with h(1) \<open>block (map (\<lambda>(k, v). rm_insert k v) kvs) h = Inr ((), t)\<close> show ?thesis by (simp add: run eq)
qed

theorem reducer_map_finds_what_was_inserted_witness:
  "\<exists>h. block (cilkrts_make_reducer_map
       # map (\<lambda>(key, hb, view). bindP (rehash_and_insert key hb view) (\<lambda>_. ret ()))
           [(8, 8, 100), (16, 16, 200), (24, 24, 300)]) zero_map = Inr ((), h)
     \<and> rm_find 16 h = Inr (Some (16, 200), h) \<and> rm_find 32 h = Inr (None, h)"
  using reducer_map_finds_what_was_inserted [of "[(8, 8, 100), (16, 16, 200), (24, 24, 300)]"] by fastforce

end
