(* ===== verification/Reducer_Merge.thy ===== *)
theory Reducer_Merge
  imports Reducer_Lookup
begin

text \<open>
  Merging reducer maps (\<open>cilkred_map::merge\<close>, \<open>__cilkrts_destroy_reducer_map\<close>, \<open>elem::destroy\<close>): every
  element of the other map is moved into this one, or reduced with the view that is there. The views
  are objects of the client in a heap of their own; \<open>reduce hb a b\<close> is the value that the \<open>reduce_fn\<close> of
  the hyperobject \<open>hb\<close> leaves in its left view. A reduction here has no other effect, so it comes back
  on the worker it started on; \<open>Reductions\<close> has the code around it for one that may do anything.
\<close>

section \<open>The code\<close>

record 'v merge_state =
  ms_this :: cilkred_map
  ms_other :: cilkred_map
  ms_view :: "ptr \<rightharpoonup> 'v"

abbreviation on_this :: "(cilkred_map, 'a) prog \<Rightarrow> ('v merge_state, 'a) prog" where
  "on_this \<equiv> on_part ms_this ms_this_update"

abbreviation on_other :: "(cilkred_map, 'a) prog \<Rightarrow> ('v merge_state, 'a) prog" where
  "on_other \<equiv> on_part ms_other ms_other_update"

text \<open>The elements of a map, in the order in which the two loops over it visit them.\<close>

definition live_ptrs :: "cilkred_map \<Rightarrow> elem_ptr list" where
  "live_ptrs h = concat (map (\<lambda>i. map (Pair i) [0 ..< length (bucket_elems (rm_buckets h ! i))]) [0 ..< rm_nbuckets h])"

definition is_leftmost :: "elem \<Rightarrow> bool" where "is_leftmost e \<longleftrightarrow> el_key e = el_view e"

definition run_reduce :: "(ptr \<Rightarrow> 'v \<Rightarrow> 'v \<Rightarrow> 'v) \<Rightarrow> ptr \<Rightarrow> ptr \<Rightarrow> ptr \<Rightarrow> ('v merge_state, unit) prog" where
  "run_reduce reduce hb left right =
     bindP (load ms_view id left) (\<lambda>a. bindP (load ms_view id right) (\<lambda>b.
       store ms_view ms_view_update left (\<lambda>_. reduce hb a b)))"

definition reduce_elems ::
  "(ptr \<Rightarrow> 'v \<Rightarrow> 'v \<Rightarrow> 'v) \<Rightarrow> merge_kind \<Rightarrow> elem_ptr \<Rightarrow> elem_ptr \<Rightarrow> ('v merge_state, unit) prog"
where
  "reduce_elems reduce kind q p =
     bindP (on_this (get_elem q)) (\<lambda>this_el. bindP (on_other (get_elem p)) (\<lambda>other_el.
     case kind of
       MERGE_UNORDERED \<Rightarrow> cilkrts_bug ''TLS Reducer race''
     | MERGE_INTO_RIGHT \<Rightarrow> block [
         on_other (put_elem p (other_el\<lparr>el_view := el_view this_el\<rparr>)),
         on_this (put_elem q (this_el\<lparr>el_view := el_view other_el\<rparr>)),
         run_reduce reduce (el_hb other_el) (el_view other_el) (el_view this_el)]
     | MERGE_INTO_LEFT \<Rightarrow> run_reduce reduce (el_hb other_el) (el_view this_el) (el_view other_el)))"

definition merge_elem ::
  "(ptr \<Rightarrow> 'v \<Rightarrow> 'v \<Rightarrow> 'v) \<Rightarrow> merge_kind \<Rightarrow> bool \<Rightarrow> elem_ptr \<Rightarrow> ('v merge_state, unit) prog"
where
  "merge_elem reduce kind merge_to_leftmost p =
     bindP (on_other (get_elem p)) (\<lambda>other_el. result [
       CILK_ASSERT ''other_view'' (el_view other_el \<noteq> NULL)]
     (bindP (on_this (rm_lookup (el_key other_el))) (\<lambda>this_el.
      bindP (if this_el = None \<and> merge_to_leftmost \<and> el_key other_el \<noteq> el_view other_el
             then bindP (on_this (rehash_and_insert (el_key other_el) (el_hb other_el) (el_key other_el))) (\<lambda>q. ret (Some q))
             else ret this_el) (\<lambda>this_el.
      case this_el of
        None \<Rightarrow> block [
          bindP (on_this (rehash_and_insert (el_key other_el) (el_hb other_el) (el_view other_el))) (\<lambda>_. ret ()),
          on_other (put_elem p (other_el\<lparr>el_view := NULL\<rparr>))]
      | Some q \<Rightarrow> reduce_elems reduce kind q p))))"

text \<open>Destroying a view ends its life, unless it is the leftmost one, which the reducer owns.\<close>

definition elem_destroy :: "elem_ptr \<Rightarrow> ('v merge_state, unit) prog" where
  "elem_destroy p = bindP (on_other (get_elem p)) (\<lambda>el. block [
     whenP (\<not> is_leftmost el) (bindP (load ms_view id (el_view el)) (\<lambda>_.
       modify (\<lambda>s. s\<lparr>ms_view := (ms_view s)(el_view el := None)\<rparr>))),
     on_other (put_elem p (el\<lparr>el_view := NULL\<rparr>))])"

definition cilkrts_destroy_reducer_map :: "('v merge_state, unit) prog" where
  "cilkrts_destroy_reducer_map = bindP (gets (\<lambda>s. live_ptrs (ms_other s))) (\<lambda>ps. block (map (\<lambda>p.
     bindP (on_other (get_elem p)) (\<lambda>el. whenP (el_view el \<noteq> NULL) (elem_destroy p))) ps))"

definition cilkrts_set_leftmost_reducer_map :: "bool \<Rightarrow> (cilkred_map, unit) prog" where
  "cilkrts_set_leftmost_reducer_map leftmost = modify (rm_is_leftmost_update (\<lambda>_. leftmost))"

definition set_merging :: "bool \<Rightarrow> ('v merge_state, unit) prog" where
  "set_merging b = block [
     on_this (modify (rm_merging_update (\<lambda>_. b))),
     on_other (modify (rm_merging_update (\<lambda>_. b)))]"

definition merge_map :: "(ptr \<Rightarrow> 'v \<Rightarrow> 'v \<Rightarrow> 'v) \<Rightarrow> merge_kind \<Rightarrow> ('v merge_state, unit) prog" where
  "merge_map reduce kind = block [
     set_merging True,
     bindP (gets (\<lambda>s. rm_is_leftmost (ms_other s))) (\<lambda>l. CILK_ASSERT ''!other_map->is_leftmost'' (\<not> l)),
     bindP (gets (\<lambda>s. rm_is_leftmost (ms_this s))) (\<lambda>merge_to_leftmost.
     bindP (gets (\<lambda>s. live_ptrs (ms_other s))) (\<lambda>ps. block (map (merge_elem reduce kind merge_to_leftmost) ps))),
     bindP (gets (\<lambda>s. rm_is_leftmost (ms_other s))) (\<lambda>l. on_this (modify (rm_is_leftmost_update (\<lambda>k. k \<or> l)))),
     set_merging False,
     cilkrts_destroy_reducer_map]"

text \<open>
  \<open>merge_reducer_maps\<close> on the maps themselves: the left and the right map and the heap of views, and the
  map and the heap that are left. The map with more elements is kept, unless the left one is leftmost.
\<close>

definition merge_left_right ::
  "(ptr \<Rightarrow> 'v \<Rightarrow> 'v \<Rightarrow> 'v) \<Rightarrow> cilkred_map \<Rightarrow> cilkred_map \<Rightarrow> (ptr \<rightharpoonup> 'v) \<Rightarrow> failure + cilkred_map \<times> (ptr \<rightharpoonup> 'v)"
where
  "merge_left_right reduce left right V =
     map_sum id (\<lambda>(_, s). (ms_this s, ms_view s))
      (if rm_is_leftmost left \<or> rm_nelem left > rm_nelem right
       then merge_map reduce MERGE_INTO_LEFT \<lparr>ms_this = left, ms_other = right, ms_view = V\<rparr>
       else merge_map reduce MERGE_INTO_RIGHT \<lparr>ms_this = right, ms_other = left, ms_view = V\<rparr>)"

section \<open>Elements in place\<close>

definition elem_at :: "cilkred_map \<Rightarrow> elem_ptr \<Rightarrow> elem" where
  "elem_at h p = bucket_elems (rm_buckets h ! fst p) ! snd p"

definition shaped :: "cilkred_map \<Rightarrow> bool" where
  "shaped h \<longleftrightarrow> length (rm_buckets h) = rm_nbuckets h
     \<and> (\<forall>i < rm_nbuckets h. bshape (rm_buckets h ! i) (bucket_elems (rm_buckets h ! i)))"

lemma rm_ok_shaped: "rm_ok h \<Longrightarrow> shaped h"
  by (simp add: rm_ok_def shaped_def)

lemma mem_live_ptrs:
  "p \<in> set (live_ptrs h) \<longleftrightarrow> fst p < rm_nbuckets h \<and> snd p < length (bucket_elems (rm_buckets h ! fst p))"
  by (cases p) (auto simp: live_ptrs_def image_iff Bex_def)

lemma distinct_live_ptrs: "distinct (live_ptrs h)"
  unfolding live_ptrs_def
  by (rule distinct_concat_index [where h = fst and k = 0]) (auto simp: distinct_map inj_on_def)

lemma map_elem_at: "shaped h \<Longrightarrow> map (elem_at h) (live_ptrs h) = all_elems h"
proof -
  assume "shaped h"
  then have "rm_buckets h = map (\<lambda>i. rm_buckets h ! i) [0 ..< rm_nbuckets h]" by (metis map_nth shaped_def)
  then have "all_elems h = concat (map (\<lambda>i. bucket_elems (rm_buckets h ! i)) [0 ..< rm_nbuckets h])"
    unfolding all_elems_def by (metis (no_types, lifting) map_map comp_def map_eq_conv)
  moreover have "map (elem_at h) (live_ptrs h)
      = concat (map (\<lambda>i. map (\<lambda>j. bucket_elems (rm_buckets h ! i) ! j) [0 ..< length (bucket_elems (rm_buckets h ! i))])
          [0 ..< rm_nbuckets h])"
    by (simp add: live_ptrs_def map_concat comp_def elem_at_def)
  ultimately show ?thesis by (simp add: map_nth)
qed

lemma mem_all_elems_at: "shaped h \<Longrightarrow> e \<in> set (all_elems h) \<longleftrightarrow> (\<exists>p \<in> set (live_ptrs h). elem_at h p = e)"
  unfolding map_elem_at [symmetric] by auto

lemma shaped_bucket:
  assumes "shaped h" "p \<in> set (live_ptrs h)"
  obtains b R where "rm_buckets h ! fst p = Some b" "bk_el b = bucket_elems (Some b) @ R" "shape b (bucket_elems (Some b))"
    "fst p < length (rm_buckets h)" "snd p < length (bucket_elems (Some b))"
proof -
  have i: "fst p < rm_nbuckets h" "snd p < length (bucket_elems (rm_buckets h ! fst p))"
    using assms(2) by (simp_all add: mem_live_ptrs)
  have sh: "bshape (rm_buckets h ! fst p) (bucket_elems (rm_buckets h ! fst p))" "length (rm_buckets h) = rm_nbuckets h"
    using assms(1) i(1) by (simp_all add: shaped_def)
  show ?thesis
  proof (cases "rm_buckets h ! fst p")
    case None
    with i(2) show ?thesis by (simp add: bucket_elems_def)
  next
    case (Some b)
    with sh i that show ?thesis by (auto simp: shape_def)
  qed
qed

lemma get_elem_live: "shaped h \<Longrightarrow> p \<in> set (live_ptrs h) \<Longrightarrow> get_elem p h = Inr (elem_at h p, h)"
  by (erule (1) shaped_bucket) (simp add: get_elem_def bucket_at_def run elem_at_def nth_append)

text \<open>Writing an element over one with the same key.\<close>

definition rewritten :: "elem_ptr \<Rightarrow> elem \<Rightarrow> cilkred_map \<Rightarrow> cilkred_map \<Rightarrow> bool" where
  "rewritten p e h h' \<longleftrightarrow> shaped h' \<and> live_ptrs h' = live_ptrs h
     \<and> (\<forall>q \<in> set (live_ptrs h). elem_at h' q = (if q = p then e else elem_at h q))
     \<and> rm_nelem h' = rm_nelem h \<and> rm_nbuckets h' = rm_nbuckets h
     \<and> rm_is_leftmost h' = rm_is_leftmost h \<and> rm_merging h' = rm_merging h"

lemma put_elem_live:
  assumes h: "shaped h" and p: "p \<in> set (live_ptrs h)" and e: "el_key e = el_key (elem_at h p)"
  shows "\<exists>h'. put_elem p e h = Inr ((), h') \<and> rewritten p e h h'"
proof -
  obtain b R where b: "rm_buckets h ! fst p = Some b" "bk_el b = bucket_elems (Some b) @ R" "shape b (bucket_elems (Some b))"
      "fst p < length (rm_buckets h)" "snd p < length (bucket_elems (Some b))"
    using shaped_bucket [OF h p] by blast
  let ?L = "bucket_elems (Some b)" let ?b = "b\<lparr>bk_el := (bk_el b)[snd p := e]\<rparr>"
  let ?h = "h\<lparr>rm_buckets := (rm_buckets h)[fst p := Some ?b]\<rparr>"
  have "put_elem p e h = Inr ((), ?h)"
    using b by (simp add: put_elem_def bucket_at_def run shape_def)
  moreover have el: "elem_at h p = ?L ! snd p" by (simp add: elem_at_def b(1))
  have "shape ?b (?L[snd p := e])"
  proof -
    have "\<forall>x \<in> set ?L. el_key x \<noteq> NULL" using b(2,3) by (auto simp: shape_def bucket_elems_def live_elems_def dest: set_takeWhileD)
    moreover from this have "el_key e \<noteq> NULL" using e el b(5) by simp
    moreover from b(3) have "R \<noteq> [] \<and> (\<forall>x \<in> set R. el_key x = NULL)"
      unfolding shape_def by (metis b(2) same_append_eq)
    ultimately show ?thesis
      using b(2,3,5) unfolding shape_def
      by (intro conjI exI [of _ R]) (auto simp: list_update_append dest: set_update_subset_insert [THEN subsetD])
  qed
  then have be: "bucket_elems (Some ?b) = ?L[snd p := e]" by (intro bucket_elems_shape) simp
  with \<open>shape ?b (?L[snd p := e])\<close> have "bshape (Some ?b) (bucket_elems (Some ?b))" by simp
  then have sh: "shaped ?h"
    using h b(4) by (auto simp: shaped_def nth_list_update_if)
  have blen: "length (bucket_elems ((rm_buckets h)[fst p := Some ?b] ! i)) = length (bucket_elems (rm_buckets h ! i))" for i
    using be b(1,4) by (cases "i = fst p") auto
  then have lp: "live_ptrs ?h = live_ptrs h" by (simp add: live_ptrs_def)
  have "elem_at ?h q = (if q = p then e else elem_at h q)" if "q \<in> set (live_ptrs h)" for q
    using that be b(1,4,5) by (cases "fst q = fst p") (auto simp: elem_at_def prod_eq_iff)
  with sh lp have "rewritten p e h ?h" by (simp add: rewritten_def)
  ultimately show ?thesis by blast
qed

lemma hashfun_nbuckets: "rm_nbuckets h' = rm_nbuckets h \<Longrightarrow> hashfun h' = hashfun h"
  by (simp add: hashfun_def fun_eq_iff)

lemma bucket_elems_at: "i < rm_nbuckets h \<Longrightarrow> bucket_elems (rm_buckets h ! i)
    = map (\<lambda>j. elem_at h (i, j)) [0 ..< length (bucket_elems (rm_buckets h ! i))]"
  by (simp add: elem_at_def map_nth)

lemma live_ptrs_length:
  assumes "live_ptrs h' = live_ptrs h" "rm_nbuckets h' = rm_nbuckets h" "i < rm_nbuckets h"
  shows "length (bucket_elems (rm_buckets h' ! i)) = length (bucket_elems (rm_buckets h ! i))"
proof -
  have "j < length (bucket_elems (rm_buckets h' ! i)) \<longleftrightarrow> j < length (bucket_elems (rm_buckets h ! i))" for j
    using mem_live_ptrs [of "(i, j)" h'] mem_live_ptrs [of "(i, j)" h] assms by simp
  then show ?thesis by (metis linorder_neqE_nat less_irrefl)
qed

text \<open>Writing a view, not NULL, into an element of a table keeps the table a table.\<close>

lemma rewritten_ok:
  assumes h: "rm_ok h" and p: "p \<in> set (live_ptrs h)" and w: "rewritten p e h h'"
    and e: "el_key e = el_key (elem_at h p)" "el_view e \<noteq> NULL"
  shows "rm_ok h'" "rm_map h' = (rm_map h)(el_key e \<mapsto> (el_hb e, el_view e))"
proof -
  have at: "elem_at h' q = (if q = p then e else elem_at h q)" if "q \<in> set (live_ptrs h)" for q
    using w that by (simp add: rewritten_def)
  have same: "live_ptrs h' = live_ptrs h" "rm_nbuckets h' = rm_nbuckets h" "shaped h'" using w by (simp_all add: rewritten_def)
  have keys: "map el_key (bucket_elems (rm_buckets h' ! i)) = map el_key (bucket_elems (rm_buckets h ! i))"
    if "i < rm_nbuckets h" for i
  proof (rule nth_equalityI)
    note len = live_ptrs_length [OF same(1,2) that]
    then show "length (map el_key (bucket_elems (rm_buckets h' ! i))) = length (map el_key (bucket_elems (rm_buckets h ! i)))"
      by simp
    fix j assume "j < length (map el_key (bucket_elems (rm_buckets h' ! i)))"
    then have "(i, j) \<in> set (live_ptrs h)" "j < length (bucket_elems (rm_buckets h' ! i))"
      using that len by (simp_all add: mem_live_ptrs)
    then show "map el_key (bucket_elems (rm_buckets h' ! i)) ! j = map el_key (bucket_elems (rm_buckets h ! i)) ! j"
      using at [of "(i, j)"] e(1) len by (auto simp: elem_at_def split: if_splits)
  qed
  have mem: "x \<in> set (bucket_elems (rm_buckets h' ! i)) \<Longrightarrow> i < rm_nbuckets h \<Longrightarrow>
      x = e \<and> fst p = i \<or> x \<in> set (bucket_elems (rm_buckets h ! i))" for x i
  proof -
    assume x: "x \<in> set (bucket_elems (rm_buckets h' ! i))" and i: "i < rm_nbuckets h"
    then obtain j where j: "j < length (bucket_elems (rm_buckets h' ! i))" "x = elem_at h' (i, j)"
      by (auto simp: in_set_conv_nth elem_at_def)
    then have "(i, j) \<in> set (live_ptrs h)" using live_ptrs_length [OF same(1,2) i] i by (simp add: mem_live_ptrs)
    with at [of "(i, j)"] j live_ptrs_length [OF same(1,2) i] show ?thesis by (auto simp: elem_at_def split: if_splits)
  qed
  have pe: "hashfun h (el_key e) = fst p" "el_key e \<noteq> NULL"
    using rm_okD(7) [OF h, of "fst p" "elem_at h p"] p e(1) by (auto simp: mem_live_ptrs elem_at_def)
  show ok: "rm_ok h'"
    unfolding rm_ok_def
  proof (intro conjI allI impI)
    show "rm_nelem h' = length (all_elems h')"
      using w rm_okD(3) [OF h] map_elem_at [OF same(3)] map_elem_at [OF rm_ok_shaped [OF h]] same(1)
      by (metis length_map rewritten_def)
    fix i assume "i < rm_nbuckets h'"
    then have i: "i < rm_nbuckets h" by (simp add: same)
    show "distinct (map el_key (bucket_elems (rm_buckets h' ! i)))" using rm_okD(6) [OF h i] keys [OF i] by simp
    show "\<forall>x \<in> set (bucket_elems (rm_buckets h' ! i)). hashfun h' (el_key x) = i \<and> el_key x \<noteq> NULL \<and> el_view x \<noteq> NULL"
      using mem i rm_okD(7) [OF h i] pe e(2) by (fastforce simp: hashfun_nbuckets [OF same(2)])
  qed (use h same(2,3) in \<open>auto simp: rm_ok_def shaped_def\<close>)
  show "rm_map h' = (rm_map h)(el_key e \<mapsto> (el_hb e, el_view e))"
  proof (rule ext)
    fix k
    have inj: "el_key (elem_at h q) = el_key e \<longleftrightarrow> q = p" if "q \<in> set (live_ptrs h)" for q
      using distinct_keys [OF h] that p e(1) unfolding map_elem_at [OF rm_ok_shaped [OF h], symmetric]
      by (auto simp: distinct_map inj_on_def)
    have in': "e \<in> set (all_elems h')" using at [OF p] p same by (auto simp: mem_all_elems_at)
    show "rm_map h' k = ((rm_map h)(el_key e \<mapsto> (el_hb e, el_view e))) k"
    proof (cases "k = el_key e")
      case True
      then show ?thesis using rm_map_mem [OF ok in'] by simp
    next
      case False
      have "x \<in> set (all_elems h') \<and> el_key x = k \<longleftrightarrow> x \<in> set (all_elems h) \<and> el_key x = k" for x
        using False at inj same by (auto simp: mem_all_elems_at rm_ok_shaped [OF h])
      then have "rm_map h' k = Some (hb, v) \<longleftrightarrow> rm_map h k = Some (hb, v)" for hb v
        unfolding rm_map_Some [OF ok] rm_map_Some [OF h] by blast
      then have "rm_map h' k = rm_map h k" by (intro option_eqI) (metis surj_pair)
      with False show ?thesis by simp
    qed
  qed
qed

section \<open>One element\<close>

text \<open>
  What the loop of the merge works on: the map that is kept, the elements of the other one, and the
  views; and what it does to them for one element of the other map.
\<close>

type_synonym 'v abstract_merge = "(ptr \<rightharpoonup> ptr \<times> ptr) \<times> (elem_ptr \<Rightarrow> elem) \<times> (ptr \<rightharpoonup> 'v)"

fun amerge ::
  "(ptr \<Rightarrow> 'v \<Rightarrow> 'v \<Rightarrow> 'v) \<Rightarrow> merge_kind \<Rightarrow> bool \<Rightarrow> elem_ptr \<Rightarrow> 'v abstract_merge \<Rightarrow> 'v abstract_merge"
where
  "amerge reduce kind lm p (M, X, V) =
     (let e = X p; k = el_key e in
      case (if M k = None \<and> lm \<and> k \<noteq> el_view e then Some (el_hb e, k) else M k) of
        None \<Rightarrow> (M(k \<mapsto> (el_hb e, el_view e)), X(p := e\<lparr>el_view := NULL\<rparr>), V)
      | Some (hb, v) \<Rightarrow>
          if kind = MERGE_INTO_RIGHT
          then (M(k \<mapsto> (hb, el_view e)), X(p := e\<lparr>el_view := v\<rparr>),
                V(el_view e \<mapsto> reduce (el_hb e) (the (V (el_view e))) (the (V v))))
          else (M(k \<mapsto> (hb, v)), X, V(v \<mapsto> reduce (el_hb e) (the (V v)) (the (V (el_view e))))))"

fun abstracts :: "elem_ptr list \<Rightarrow> 'v merge_state \<Rightarrow> 'v abstract_merge \<Rightarrow> bool" where
  "abstracts ps s (M, X, V) \<longleftrightarrow> rm_ok (ms_this s) \<and> rm_map (ms_this s) = M
     \<and> shaped (ms_other s) \<and> live_ptrs (ms_other s) = ps \<and> (\<forall>p \<in> set ps. elem_at (ms_other s) p = X p)
     \<and> ms_view s = V \<and> \<not> rm_is_leftmost (ms_other s)"

lemma rm_find_live:
  assumes h: "rm_ok h" "key \<noteq> NULL" and "rm_map h key = Some (hb, v)"
  shows "\<exists>q. rm_lookup key h = Inr (Some q, h) \<and> q \<in> set (live_ptrs h)
    \<and> elem_at h q = \<lparr>el_key = key, el_hb = hb, el_view = v\<rparr>"
proof -
  obtain q e where q: "rm_lookup key h = Inr (Some q, h)" "get_elem q h = Inr (e, h)" "el_key e = key"
      "e \<in> set (all_elems h)" "in_place q h"
    using rm_lookup_ok [OF h] assms(3) by auto
  have "e = \<lparr>el_key = key, el_hb = hb, el_view = v\<rparr>"
    using rm_map_mem [OF h(1) q(4)] q(3) assms(3) by (cases e) simp
  with q get_elem_live [OF rm_ok_shaped [OF h(1)], of q] show ?thesis
    by (auto simp: in_place_def mem_live_ptrs)
qed

lemma rm_insert_live:
  assumes h: "rm_ok h" "key \<noteq> NULL" "view \<noteq> NULL" "rm_map h key = None" "rm_nelem h < 2 ^ 60"
  shows "\<exists>q h'. rehash_and_insert key hb view h = Inr (q, h') \<and> q \<in> set (live_ptrs h')
    \<and> elem_at h' q = \<lparr>el_key = key, el_hb = hb, el_view = view\<rparr> \<and> rm_ok h' \<and> rm_map h' = (rm_map h)(key \<mapsto> (hb, view))
    \<and> rm_nelem h' = rm_nelem h + 1 \<and> rm_is_leftmost h' = rm_is_leftmost h"
proof -
  let ?e = "\<lparr>el_key = key, el_hb = hb, el_view = view\<rparr>"
  obtain q h' where q: "rehash_and_insert key hb view h = Inr (q, h')" "adds ?e h h'" "get_elem q h' = Inr (?e, h')" "in_place q h'"
    using rehash_and_insert_ok [OF h, of hb] by blast
  then have ok: "rm_ok h'" by (simp add: adds_def)
  have "rm_map h' = (rm_map h)(key \<mapsto> (hb, view))" using adds_map [OF h(1) q(2)] h(4) by simp
  with q ok get_elem_live [OF rm_ok_shaped [OF ok], of q] show ?thesis
    by (auto simp: in_place_def mem_live_ptrs adds_def)
qed

lemma run_reduce_ok:
  "ms_view s v = Some a \<Longrightarrow> ms_view s v' = Some b \<Longrightarrow> v \<noteq> NULL \<Longrightarrow> v' \<noteq> NULL \<Longrightarrow>
   run_reduce reduce hb v v' s = Inr ((), s\<lparr>ms_view := (ms_view s)(v \<mapsto> reduce hb a b)\<rparr>)"
  by (simp add: run_reduce_def run deref_def)

text \<open>Reducing an element of the other map with the one that is there.\<close>

lemma reduce_elems_ok:
  assumes s: "rm_ok (ms_this s)" "shaped (ms_other s)" and q: "q \<in> set (live_ptrs (ms_this s))" and p: "p \<in> set (live_ptrs (ms_other s))"
    and e: "elem_at (ms_this s) q = \<lparr>el_key = k, el_hb = hb, el_view = v\<rparr>" "elem_at (ms_other s) p = e" "el_key e = k"
    and views: "v \<noteq> NULL" "el_view e \<noteq> NULL" "ms_view s v = Some a" "ms_view s (el_view e) = Some b" and kind: "kind \<noteq> MERGE_UNORDERED"
  shows "\<exists>t. reduce_elems reduce kind q p s = Inr ((), t) \<and> rm_ok (ms_this t) \<and> rm_nelem (ms_this t) = rm_nelem (ms_this s)
    \<and> rm_is_leftmost (ms_this t) = rm_is_leftmost (ms_this s)
    \<and> (if kind = MERGE_INTO_RIGHT
       then rm_map (ms_this t) = (rm_map (ms_this s))(k \<mapsto> (hb, el_view e)) \<and> rewritten p (e\<lparr>el_view := v\<rparr>) (ms_other s) (ms_other t)
         \<and> ms_view t = (ms_view s)(el_view e \<mapsto> reduce (el_hb e) b a)
       else rm_map (ms_this t) = rm_map (ms_this s) \<and> ms_other t = ms_other s
         \<and> ms_view t = (ms_view s)(v \<mapsto> reduce (el_hb e) a b))"
proof -
  have get: "get_elem q (ms_this s) = Inr (\<lparr>el_key = k, el_hb = hb, el_view = v\<rparr>, ms_this s)"
    "get_elem p (ms_other s) = Inr (e, ms_other s)"
    using get_elem_live [OF rm_ok_shaped [OF s(1)] q] get_elem_live [OF s(2) p] e by simp_all
  show ?thesis
  proof (cases kind)
    case MERGE_INTO_LEFT
    then show ?thesis using get views s by (simp add: reduce_elems_def run run_reduce_ok)
  next
    case MERGE_INTO_RIGHT
    obtain o' where o': "put_elem p (e\<lparr>el_view := v\<rparr>) (ms_other s) = Inr ((), o')" "rewritten p (e\<lparr>el_view := v\<rparr>) (ms_other s) o'"
      using put_elem_live [OF s(2) p, of "e\<lparr>el_view := v\<rparr>"] e by auto
    obtain t' where t': "put_elem q \<lparr>el_key = k, el_hb = hb, el_view = el_view e\<rparr> (ms_this s) = Inr ((), t')"
        "rewritten q \<lparr>el_key = k, el_hb = hb, el_view = el_view e\<rparr> (ms_this s) t'"
      using put_elem_live [OF rm_ok_shaped [OF s(1)] q, of "\<lparr>el_key = k, el_hb = hb, el_view = el_view e\<rparr>"] e by auto
    have "rm_ok t'" "rm_map t' = (rm_map (ms_this s))(k \<mapsto> (hb, el_view e))"
      using rewritten_ok [OF s(1) q t'(2)] e views by simp_all
    with MERGE_INTO_RIGHT get views o' t' show ?thesis
      by (simp add: reduce_elems_def run run_reduce_ok rewritten_def)
  qed (use kind in simp)
qed

text \<open>The views that are in play never meet: every view is owned by one element of one map.\<close>

fun sep :: "elem_ptr list \<Rightarrow> elem_ptr list \<Rightarrow> bool \<Rightarrow> 'v abstract_merge \<Rightarrow> bool" where
  "sep ds qs lm (M, X, V) \<longleftrightarrow> inj_on (\<lambda>p. el_key (X p)) (set qs)
     \<and> (\<forall>k k' hb hb' v. M k = Some (hb, v) \<and> M k' = Some (hb', v) \<longrightarrow> k = k')
     \<and> (\<forall>k hb v. M k = Some (hb, v) \<longrightarrow> v \<noteq> NULL \<and> v \<in> dom V)
     \<and> (\<forall>p \<in> set ds \<union> set qs. el_view (X p) \<noteq> NULL \<longrightarrow> el_view (X p) \<in> dom V \<and> (\<forall>k hb. M k \<noteq> Some (hb, el_view (X p))))
     \<and> (\<forall>p \<in> set ds \<union> set qs. \<forall>q \<in> set ds \<union> set qs. el_view (X p) = el_view (X q) \<and> el_view (X p) \<noteq> NULL \<longrightarrow> p = q)
     \<and> (\<forall>q \<in> set qs. el_view (X q) \<noteq> NULL \<and> el_key (X q) \<noteq> NULL)
     \<and> (lm \<longrightarrow> (\<forall>q \<in> set qs. M (el_key (X q)) = None \<and> el_key (X q) \<noteq> el_view (X q) \<longrightarrow>
          el_key (X q) \<in> dom V \<and> (\<forall>k hb. M k \<noteq> Some (hb, el_key (X q))) \<and> (\<forall>p \<in> set ds \<union> set qs. el_view (X p) \<noteq> el_key (X q))))"

lemma merge_elem_ok:
  assumes a: "abstracts ps s (M, X, V)" and p: "p \<in> set ps" "p \<in> set qs" and sep: "sep ds qs lm (M, X, V)"
    and small: "rm_nelem (ms_this s) < 2 ^ 60" and kind: "kind \<noteq> MERGE_UNORDERED"
  shows "\<exists>t. merge_elem reduce kind lm p s = Inr ((), t) \<and> abstracts ps t (amerge reduce kind lm p (M, X, V))
    \<and> rm_nelem (ms_this t) \<le> rm_nelem (ms_this s) + 1 \<and> rm_is_leftmost (ms_this t) = rm_is_leftmost (ms_this s)"
proof -
  let ?e = "X p" let ?k = "el_key ?e" let ?v = "el_view ?e"
  have ok: "rm_ok (ms_this s)" "rm_map (ms_this s) = M" "shaped (ms_other s)" "live_ptrs (ms_other s) = ps"
    "\<forall>p \<in> set ps. elem_at (ms_other s) p = X p" "ms_view s = V" "\<not> rm_is_leftmost (ms_other s)" using a by simp_all
  have get: "get_elem p (ms_other s) = Inr (?e, ms_other s)" using get_elem_live [OF ok(3)] ok(4,5) p by simp
  have e: "?k \<noteq> NULL" "?v \<noteq> NULL" using sep p(2) by simp_all
  obtain b where b: "V ?v = Some b" using sep p(2) e(2) by (fastforce simp: dom_def)
  let ?ins = "M ?k = None \<and> lm \<and> ?k \<noteq> ?v"
  show ?thesis
  proof (cases "M ?k = None \<and> \<not> ?ins")
    case True
    obtain q h' where q: "rehash_and_insert ?k (el_hb ?e) ?v (ms_this s) = Inr (q, h')" "rm_ok h'"
        "rm_map h' = M(?k \<mapsto> (el_hb ?e, ?v))" "rm_nelem h' = rm_nelem (ms_this s) + 1" "rm_is_leftmost h' = rm_is_leftmost (ms_this s)"
      using rm_insert_live [OF ok(1) e, of "el_hb ?e"] True ok(2) small by auto
    obtain o' where o': "put_elem p (?e\<lparr>el_view := NULL\<rparr>) (ms_other s) = Inr ((), o')"
        "rewritten p (?e\<lparr>el_view := NULL\<rparr>) (ms_other s) o'"
      using put_elem_live [OF ok(3), of p "?e\<lparr>el_view := NULL\<rparr>"] ok(4,5) p by auto
    have "rm_lookup ?k (ms_this s) = Inr (None, ms_this s)"
      using rm_lookup_ok [OF ok(1) e(1)] True ok(2) by (auto simp: rm_map_None)
    with True get e q(1) o'(1) have "merge_elem reduce kind lm p s = Inr ((), s\<lparr>ms_this := h', ms_other := o'\<rparr>)"
      by (auto simp: merge_elem_def run)
    moreover have "amerge reduce kind lm p (M, X, V)
        = (M(?k \<mapsto> (el_hb ?e, ?v)), X(p := ?e\<lparr>el_view := NULL\<rparr>), V)"
      using True by (auto simp: Let_def)
    moreover have "abstracts ps (s\<lparr>ms_this := h', ms_other := o'\<rparr>)
        (M(?k \<mapsto> (el_hb ?e, ?v)), X(p := ?e\<lparr>el_view := NULL\<rparr>), V)"
      using q(2,3) o'(2) ok(4-7) by (simp add: rewritten_def)
    ultimately show ?thesis using q(4,5) by simp
  next
    case False
    obtain s1 q hb v where s1: "abstracts ps s1 (M(?k \<mapsto> (hb, v)), X, V)" "q \<in> set (live_ptrs (ms_this s1))"
        "elem_at (ms_this s1) q = \<lparr>el_key = ?k, el_hb = hb, el_view = v\<rparr>"
        "merge_elem reduce kind lm p s = reduce_elems reduce kind q p s1"
        "rm_nelem (ms_this s1) \<le> rm_nelem (ms_this s) + 1" "rm_is_leftmost (ms_this s1) = rm_is_leftmost (ms_this s)"
        "(if ?ins then Some (el_hb ?e, ?k) else M ?k) = Some (hb, v)"
    proof (cases "?ins")
      case True
      obtain q h' where q: "rehash_and_insert ?k (el_hb ?e) ?k (ms_this s) = Inr (q, h')" "rm_ok h'" "q \<in> set (live_ptrs h')"
          "elem_at h' q = \<lparr>el_key = ?k, el_hb = el_hb ?e, el_view = ?k\<rparr>"
          "rm_map h' = M(?k \<mapsto> (el_hb ?e, ?k))" "rm_nelem h' = rm_nelem (ms_this s) + 1" "rm_is_leftmost h' = rm_is_leftmost (ms_this s)"
        using rm_insert_live [OF ok(1) e(1) e(1), of "el_hb ?e"] True ok(2) small by auto
      have "rm_lookup ?k (ms_this s) = Inr (None, ms_this s)"
        using rm_lookup_ok [OF ok(1) e(1)] True ok(2) by (auto simp: rm_map_None)
      with True get e q ok that [of "s\<lparr>ms_this := h'\<rparr>" "el_hb ?e" ?k q] show ?thesis
        by (simp add: merge_elem_def run)
    next
      case no: False
      then obtain hb v where m: "M ?k = Some (hb, v)" using False by (cases "M ?k") auto
      then obtain q where q: "rm_lookup ?k (ms_this s) = Inr (Some q, ms_this s)" "q \<in> set (live_ptrs (ms_this s))"
          "elem_at (ms_this s) q = \<lparr>el_key = ?k, el_hb = hb, el_view = v\<rparr>"
        using rm_find_live [OF ok(1) e(1)] ok(2) by blast
      have "M(?k \<mapsto> (hb, v)) = M" using m by (simp add: fun_upd_idem)
      with m get e q ok that [of s hb v q] show ?thesis by (simp add: merge_elem_def run)
    qed
    have v: "v \<noteq> NULL" "v \<in> dom V"
    proof (atomize (full), cases "?ins")
      case True
      with s1(7) e(1) sep p(2) show "v \<noteq> NULL \<and> v \<in> dom V" by fastforce
    next
      case no: False
      then have "M ?k = Some (hb, v)" using s1(7) by (simp split: if_splits)
      with sep show "v \<noteq> NULL \<and> v \<in> dom V" by auto
    qed
    then obtain a where "V v = Some a" by blast
    with reduce_elems_ok [of s1 q p ?k hb v ?e a b kind reduce] s1(1-3) e v b p kind obtain t where t:
      "reduce_elems reduce kind q p s1 = Inr ((), t)" "rm_ok (ms_this t)" "rm_nelem (ms_this t) = rm_nelem (ms_this s1)"
      "rm_is_leftmost (ms_this t) = rm_is_leftmost (ms_this s1)"
      "if kind = MERGE_INTO_RIGHT
       then rm_map (ms_this t) = M(?k \<mapsto> (hb, ?v)) \<and> rewritten p (?e\<lparr>el_view := v\<rparr>) (ms_other s1) (ms_other t)
         \<and> ms_view t = V(?v \<mapsto> reduce (el_hb ?e) b a)
       else rm_map (ms_this t) = M(?k \<mapsto> (hb, v)) \<and> ms_other t = ms_other s1 \<and> ms_view t = V(v \<mapsto> reduce (el_hb ?e) a b)"
      by auto
    have "amerge reduce kind lm p (M, X, V) = (if kind = MERGE_INTO_RIGHT
       then (M(?k \<mapsto> (hb, ?v)), X(p := ?e\<lparr>el_view := v\<rparr>), V(?v \<mapsto> reduce (el_hb ?e) b a))
       else (M(?k \<mapsto> (hb, v)), X, V(v \<mapsto> reduce (el_hb ?e) a b)))"
      using s1(7) b \<open>V v = Some a\<close> by (simp add: Let_def)
    with s1 t show ?thesis by (auto simp: rewritten_def)
  qed
qed

declare sep.simps [simp del]

section \<open>Values\<close>

definition vals :: "(ptr \<rightharpoonup> ptr \<times> ptr) \<Rightarrow> (ptr \<rightharpoonup> 'v) \<Rightarrow> ptr \<rightharpoonup> ptr \<times> 'v" where
  "vals M V k = (case M k of None \<Rightarrow> None | Some (hb, v) \<Rightarrow> map_option (Pair hb) (V v))"

text \<open>
  The operand of an element of the other map: what this map has for the key, and in the leftmost map,
  where nothing is there yet, the leftmost view of the reducer.
\<close>

definition operand :: "bool \<Rightarrow> (ptr \<rightharpoonup> ptr \<times> ptr) \<Rightarrow> (ptr \<rightharpoonup> 'v) \<Rightarrow> elem \<Rightarrow> (ptr \<times> 'v) option" where
  "operand lm M V e =
     (if M (el_key e) = None \<and> lm \<and> el_key e \<noteq> el_view e then Some (el_hb e, the (V (el_key e)))
      else vals M V (el_key e))"

fun joined ::
  "(ptr \<Rightarrow> 'v \<Rightarrow> 'v \<Rightarrow> 'v) \<Rightarrow> merge_kind \<Rightarrow> (ptr \<times> 'v) option \<Rightarrow> ptr \<times> 'v \<Rightarrow> (ptr \<times> 'v) option"
where
  "joined reduce kind None y = Some y"
| "joined reduce kind (Some (hb, a)) (hb', b) =
     Some (hb, if kind = MERGE_INTO_RIGHT then reduce hb' b a else reduce hb' a b)"

text \<open>The element reduced with the view \<open>v\<close> of its key, and all other elements left as they were.\<close>

definition others_kept :: "elem_ptr list \<Rightarrow> bool \<Rightarrow> 'v abstract_merge \<Rightarrow> 'v abstract_merge \<Rightarrow> bool" where
  "others_kept qs lm st st' \<longleftrightarrow> (case st of (M, X, V) \<Rightarrow> case st' of (M', X', V') \<Rightarrow>
     \<forall>q \<in> set qs. X' q = X q \<and> V' (el_view (X q)) = V (el_view (X q)) \<and> operand lm M' V' (X q) = operand lm M V (X q))"

lemma sepI:
  assumes "\<And>q q'. q \<in> set qs \<Longrightarrow> q' \<in> set qs \<Longrightarrow> el_key (X q) = el_key (X q') \<Longrightarrow> q = q'"
    "\<And>k k' hb hb' v. M k = Some (hb, v) \<Longrightarrow> M k' = Some (hb', v) \<Longrightarrow> k = k'"
    "\<And>k hb v. M k = Some (hb, v) \<Longrightarrow> v \<noteq> NULL \<and> v \<in> dom V"
    "\<And>p. p \<in> set ds \<union> set qs \<Longrightarrow> el_view (X p) \<noteq> NULL \<Longrightarrow> el_view (X p) \<in> dom V"
    "\<And>p k hb. p \<in> set ds \<union> set qs \<Longrightarrow> el_view (X p) \<noteq> NULL \<Longrightarrow> M k = Some (hb, el_view (X p)) \<Longrightarrow> False"
    "\<And>p q. p \<in> set ds \<union> set qs \<Longrightarrow> q \<in> set ds \<union> set qs \<Longrightarrow> el_view (X p) = el_view (X q) \<Longrightarrow> el_view (X p) \<noteq> NULL \<Longrightarrow> p = q"
    "\<And>q. q \<in> set qs \<Longrightarrow> el_view (X q) \<noteq> NULL \<and> el_key (X q) \<noteq> NULL"
    "\<And>q. lm \<Longrightarrow> q \<in> set qs \<Longrightarrow> M (el_key (X q)) = None \<Longrightarrow> el_key (X q) \<noteq> el_view (X q) \<Longrightarrow>
       el_key (X q) \<in> dom V \<and> (\<forall>k hb. M k \<noteq> Some (hb, el_key (X q))) \<and> (\<forall>p \<in> set ds \<union> set qs. el_view (X p) \<noteq> el_key (X q))"
  shows "sep ds qs lm (M, X, V)"
  unfolding sep.simps
proof (intro conjI)
  show "inj_on (\<lambda>p. el_key (X p)) (set qs)" using assms(1) by (intro inj_onI)
  show "\<forall>k k' hb hb' v. M k = Some (hb, v) \<and> M k' = Some (hb', v) \<longrightarrow> k = k'" using assms(2) by blast
  show "\<forall>k hb v. M k = Some (hb, v) \<longrightarrow> v \<noteq> NULL \<and> v \<in> dom V" using assms(3) by blast
  show "\<forall>p \<in> set ds \<union> set qs. el_view (X p) \<noteq> NULL \<longrightarrow> el_view (X p) \<in> dom V \<and> (\<forall>k hb. M k \<noteq> Some (hb, el_view (X p)))"
    using assms(4,5) by blast
  show "\<forall>p \<in> set ds \<union> set qs. \<forall>q \<in> set ds \<union> set qs. el_view (X p) = el_view (X q) \<and> el_view (X p) \<noteq> NULL \<longrightarrow> p = q"
    using assms(6) by blast
  show "\<forall>q \<in> set qs. el_view (X q) \<noteq> NULL \<and> el_key (X q) \<noteq> NULL" using assms(7) by blast
  show "lm \<longrightarrow> (\<forall>q \<in> set qs. M (el_key (X q)) = None \<and> el_key (X q) \<noteq> el_view (X q) \<longrightarrow>
      el_key (X q) \<in> dom V \<and> (\<forall>k hb. M k \<noteq> Some (hb, el_key (X q))) \<and> (\<forall>p \<in> set ds \<union> set qs. el_view (X p) \<noteq> el_key (X q)))"
    using assms(8) by blast
qed

lemma sepD:
  assumes "sep ds qs lm (M, X, V)"
  shows "q \<in> set qs \<Longrightarrow> q' \<in> set qs \<Longrightarrow> el_key (X q) = el_key (X q') \<Longrightarrow> q = q'"
    "M k = Some (hb, v) \<Longrightarrow> M k' = Some (hb', v) \<Longrightarrow> k = k'"
    "M k = Some (hb, v) \<Longrightarrow> v \<noteq> NULL \<and> v \<in> dom V"
    "p \<in> set ds \<union> set qs \<Longrightarrow> el_view (X p) \<noteq> NULL \<Longrightarrow> el_view (X p) \<in> dom V"
    "p \<in> set ds \<union> set qs \<Longrightarrow> el_view (X p) \<noteq> NULL \<Longrightarrow> M k = Some (hb, el_view (X p)) \<Longrightarrow> False"
    "p \<in> set ds \<union> set qs \<Longrightarrow> q \<in> set ds \<union> set qs \<Longrightarrow> el_view (X p) = el_view (X q) \<Longrightarrow> el_view (X p) \<noteq> NULL \<Longrightarrow> p = q"
    "q \<in> set qs \<Longrightarrow> el_view (X q) \<noteq> NULL \<and> el_key (X q) \<noteq> NULL"
    "lm \<Longrightarrow> q \<in> set qs \<Longrightarrow> M (el_key (X q)) = None \<Longrightarrow> el_key (X q) \<noteq> el_view (X q) \<Longrightarrow>
       el_key (X q) \<in> dom V \<and> (\<forall>k hb. M k \<noteq> Some (hb, el_key (X q))) \<and> (\<forall>p \<in> set ds \<union> set qs. el_view (X p) \<noteq> el_key (X q))"
  using assms unfolding sep.simps inj_on_def by blast+

lemma amerge_new:
  assumes sep: "sep ds (p # qs) lm (M, X, V)" and p: "p \<notin> set qs" and M: "M (el_key (X p)) = None" "\<not> lm \<or> el_key (X p) = el_view (X p)"
  defines "M' \<equiv> M(el_key (X p) \<mapsto> (el_hb (X p), el_view (X p)))" and "X' \<equiv> X(p := (X p)\<lparr>el_view := NULL\<rparr>)"
  shows "sep (p # ds) qs lm (M', X', V)" "others_kept qs lm (M, X, V) (M', X', V)"
    "vals M' V k = (if k = el_key (X p) then Some (el_hb (X p), the (V (el_view (X p)))) else vals M V k)"
proof -
  have keys: "el_key (X q) \<noteq> el_key (X p)" if "q \<in> set qs" for q
    using sepD(1) [OF sep, of q p] that p by auto
  show "sep (p # ds) qs lm (M', X', V)"
  proof (rule sepI)
    fix k1 k2 hb hb' v assume "M' k1 = Some (hb, v)" "M' k2 = Some (hb', v)"
    then show "k1 = k2" using sepD(2) [OF sep, of k1 hb v k2 hb'] sepD(5) [OF sep, of p k1 hb] sepD(5) [OF sep, of p k2 hb'] sepD(7) [OF sep, of p]
      by (auto simp: M'_def split: if_splits)
  next
    fix k hb v assume "M' k = Some (hb, v)"
    then show "v \<noteq> NULL \<and> v \<in> dom V" using sepD(3) [OF sep, of k hb v] sepD(7) [OF sep, of p] sepD(4) [OF sep, of p]
      by (auto simp: M'_def split: if_splits)
  next
    fix q k hb assume "q \<in> set (p # ds) \<union> set qs" "el_view (X' q) \<noteq> NULL" "M' k = Some (hb, el_view (X' q))"
    then show False using sepD(5) [OF sep, of q k hb] sepD(6) [OF sep, of p q] p
      by (auto simp: M'_def X'_def split: if_splits)
  next
    fix q r assume "q \<in> set (p # ds) \<union> set qs" "r \<in> set (p # ds) \<union> set qs" "el_view (X' q) = el_view (X' r)" "el_view (X' q) \<noteq> NULL"
    then show "q = r" using sepD(6) [OF sep, of q r] by (auto simp: X'_def split: if_splits)
  next
    fix q assume q: "lm" "q \<in> set qs" "M' (el_key (X' q)) = None" "el_key (X' q) \<noteq> el_view (X' q)"
    then have "q \<noteq> p" using p by blast
    then have x: "X' q = X q" by (simp add: X'_def)
    with q have m: "M (el_key (X q)) = None" using keys [OF q(2)] by (simp add: M'_def)
    with q x sepD(8) [OF sep, of q] sepD(7) [OF sep, of q] show "el_key (X' q) \<in> dom V \<and> (\<forall>k hb. M' k \<noteq> Some (hb, el_key (X' q)))
        \<and> (\<forall>r \<in> set (p # ds) \<union> set qs. el_view (X' r) \<noteq> el_key (X' q))"
      by (auto simp: M'_def X'_def)
  qed (use p sepD(1,4,7) [OF sep] in \<open>auto simp: X'_def split: if_splits\<close>)
  show "others_kept qs lm (M, X, V) (M', X', V)"
    using p keys by (auto simp: others_kept_def M'_def X'_def operand_def vals_def)
  show "vals M' V k = (if k = el_key (X p) then Some (el_hb (X p), the (V (el_view (X p)))) else vals M V k)"
    using sepD(4) [OF sep, of p] sepD(7) [OF sep, of p] by (auto simp: M'_def vals_def)
qed

lemma amerge_left:
  fixes r :: 'v and V :: "ptr \<rightharpoonup> 'v"
  assumes sep: "sep ds (p # qs) lm (M, X, V)" and p: "p \<notin> set qs"
    and M: "(if M (el_key (X p)) = None \<and> lm \<and> el_key (X p) \<noteq> el_view (X p) then Some (el_hb (X p), el_key (X p)) else M (el_key (X p)))
      = Some (hb, v)"
  defines "M' \<equiv> M(el_key (X p) \<mapsto> (hb, v))" and "V' \<equiv> V(v \<mapsto> r)"
  shows "sep (p # ds) qs lm (M', X, V')" "others_kept qs lm (M, X, V) (M', X, V')"
    "vals M' V' k = (if k = el_key (X p) then Some (hb, r) else vals M V k)"
    "operand lm M V (X p) = Some (hb, the (V v))"
proof -
  have keys: "el_key (X q) \<noteq> el_key (X p)" if "q \<in> set qs" for q
    using sepD(1) [OF sep, of q p] that p by auto
  have "v \<noteq> NULL \<and> v \<in> dom V \<and> (\<forall>q \<in> set ds \<union> set (p # qs). el_view (X q) \<noteq> v)
      \<and> (\<forall>k hb'. M k = Some (hb', v) \<longrightarrow> k = el_key (X p))
      \<and> (\<forall>q. lm \<longrightarrow> q \<in> set qs \<longrightarrow> M (el_key (X q)) = None \<longrightarrow> el_key (X q) \<noteq> el_view (X q) \<longrightarrow> el_key (X q) \<noteq> v)"
  proof (cases "M (el_key (X p)) = None \<and> lm \<and> el_key (X p) \<noteq> el_view (X p)")
    case True
    with M have "v = el_key (X p)" by simp
    with True sepD(7) [OF sep, of p] sepD(8) [OF sep _ _ _ , of p] keys show "v \<noteq> NULL \<and> v \<in> dom V \<and> (\<forall>q \<in> set ds \<union> set (p # qs). el_view (X q) \<noteq> v)
      \<and> (\<forall>k hb'. M k = Some (hb', v) \<longrightarrow> k = el_key (X p))
      \<and> (\<forall>q. lm \<longrightarrow> q \<in> set qs \<longrightarrow> M (el_key (X q)) = None \<longrightarrow> el_key (X q) \<noteq> el_view (X q) \<longrightarrow> el_key (X q) \<noteq> v)"
      by auto
  next
    case False
    then have m: "M (el_key (X p)) = Some (hb, v)" using M by (simp split: if_splits)
    have "v \<noteq> NULL \<and> v \<in> dom V" "\<forall>k hb'. M k = Some (hb', v) \<longrightarrow> k = el_key (X p)"
      using sepD(3) [OF sep m] sepD(2) [OF sep _ m] by blast+
    moreover from this have "el_view (X q) \<noteq> v" if "q \<in> set ds \<union> set (p # qs)" for q
      using sepD(5) [OF sep that] m by metis
    moreover have "el_key (X q) \<noteq> v"
      if "lm" "q \<in> set qs" "M (el_key (X q)) = None" "el_key (X q) \<noteq> el_view (X q)" for q
      using sepD(8) [OF sep that(1) _ that(3,4)] that(2) m by auto
    ultimately show "v \<noteq> NULL \<and> v \<in> dom V \<and> (\<forall>q \<in> set ds \<union> set (p # qs). el_view (X q) \<noteq> v)
      \<and> (\<forall>k hb'. M k = Some (hb', v) \<longrightarrow> k = el_key (X p))
      \<and> (\<forall>q. lm \<longrightarrow> q \<in> set qs \<longrightarrow> M (el_key (X q)) = None \<longrightarrow> el_key (X q) \<noteq> el_view (X q) \<longrightarrow> el_key (X q) \<noteq> v)"
      by blast
  qed
  then have v: "v \<noteq> NULL" "v \<in> dom V" "\<forall>q \<in> set ds \<union> set (p # qs). el_view (X q) \<noteq> v"
    "\<And>k hb'. M k = Some (hb', v) \<Longrightarrow> k = el_key (X p)"
    "\<And>q. lm \<Longrightarrow> q \<in> set qs \<Longrightarrow> M (el_key (X q)) = None \<Longrightarrow> el_key (X q) \<noteq> el_view (X q) \<Longrightarrow> el_key (X q) \<noteq> v"
    by blast+
  show "sep (p # ds) qs lm (M', X, V')"
  proof (rule sepI)
    fix k1 k2 hb1 hb2 u assume "M' k1 = Some (hb1, u)" "M' k2 = Some (hb2, u)"
    then show "k1 = k2" using sepD(2) [OF sep, of k1 hb1 u k2 hb2] v(4) [of k1 hb1] v(4) [of k2 hb2]
      by (auto simp: M'_def split: if_splits)
  next
    fix k hb1 u assume "M' k = Some (hb1, u)"
    then show "u \<noteq> NULL \<and> u \<in> dom V'" using sepD(3) [OF sep, of k hb1 u] v(1)
      by (auto simp: M'_def V'_def split: if_splits)
  next
    fix q k hb1 assume "q \<in> set (p # ds) \<union> set qs" "el_view (X q) \<noteq> NULL" "M' k = Some (hb1, el_view (X q))"
    then show False using sepD(5) [OF sep, of q k hb1] v(3) by (auto simp: M'_def split: if_splits)
  next
    fix q assume q: "lm" "q \<in> set qs" "M' (el_key (X q)) = None" "el_key (X q) \<noteq> el_view (X q)"
    then have m: "M (el_key (X q)) = None" using keys by (auto simp: M'_def)
    with q sepD(8) [OF sep, of q] v(5) [of q] show "el_key (X q) \<in> dom V' \<and> (\<forall>k hb. M' k \<noteq> Some (hb, el_key (X q)))
        \<and> (\<forall>r \<in> set (p # ds) \<union> set qs. el_view (X r) \<noteq> el_key (X q))"
      by (auto simp: M'_def V'_def)
  next
    fix q r assume "q \<in> set (p # ds) \<union> set qs" "r \<in> set (p # ds) \<union> set qs" "el_view (X q) = el_view (X r)" "el_view (X q) \<noteq> NULL"
    then show "q = r" using sepD(6) [OF sep, of q r] by simp
  next
    fix q assume "q \<in> set (p # ds) \<union> set qs" "el_view (X q) \<noteq> NULL"
    then show "el_view (X q) \<in> dom V'" using sepD(4) [OF sep, of q] by (simp add: V'_def)
  next
    fix q assume "q \<in> set qs"
    then show "el_view (X q) \<noteq> NULL \<and> el_key (X q) \<noteq> NULL" using sepD(7) [OF sep, of q] by simp
  next
    fix q r assume "q \<in> set qs" "r \<in> set qs" "el_key (X q) = el_key (X r)"
    then show "q = r" using sepD(1) [OF sep, of q r] by simp
  qed
  show "others_kept qs lm (M, X, V) (M', X, V')"
    using keys v by (auto simp: others_kept_def M'_def V'_def operand_def vals_def split: option.splits)
  show "vals M' V' k = (if k = el_key (X p) then Some (hb, r) else vals M V k)"
    using v(4) by (auto simp: M'_def V'_def vals_def split: option.splits)
  show "operand lm M V (X p) = Some (hb, the (V v))"
    using M v(2) by (auto simp: operand_def vals_def split: if_splits)
qed

lemma amerge_right:
  fixes r :: 'v and V :: "ptr \<rightharpoonup> 'v"
  assumes sep: "sep ds (p # qs) lm (M, X, V)" and p: "p \<notin> set qs" and lm: "\<not> lm" and M: "M (el_key (X p)) = Some (hb, v)"
  defines "M' \<equiv> M(el_key (X p) \<mapsto> (hb, el_view (X p)))" and "X' \<equiv> X(p := (X p)\<lparr>el_view := v\<rparr>)"
    and "V' \<equiv> V(el_view (X p) \<mapsto> r)"
  shows "sep (p # ds) qs lm (M', X', V')" "others_kept qs lm (M, X, V) (M', X', V')"
    "vals M' V' k = (if k = el_key (X p) then Some (hb, r) else vals M V k)"
    "operand lm M V (X p) = Some (hb, the (V v))"
proof -
  have keys: "el_key (X q) \<noteq> el_key (X p)" if "q \<in> set qs" for q
    using sepD(1) [OF sep, of q p] that p by auto
  have e: "el_view (X p) \<noteq> NULL" using sepD(7) [OF sep, of p] by simp
  have in_p: "p \<in> set ds \<union> set (p # qs)" by simp
  have v: "v \<noteq> NULL" "v \<in> dom V" "v \<noteq> el_view (X p)"
    using sepD(3) [OF sep M] sepD(5) [OF sep in_p e, of "el_key (X p)"] M by auto
  have own: "M k1 = Some (hb1, v) \<Longrightarrow> k1 = el_key (X p)" for k1 hb1
    using sepD(2) [OF sep _ M] by blast
  have apart: "q \<in> set ds \<union> set (p # qs) \<Longrightarrow> el_view (X q) \<noteq> v" for q
    using sepD(5) [OF sep, of q "el_key (X p)" hb] M v(1) by metis
  have other: "M k1 = Some (hb1, el_view (X p)) \<Longrightarrow> False" for k1 hb1
    using sepD(5) [OF sep in_p e] by blast
  have qv: "q \<in> set ds \<union> set qs \<Longrightarrow> q \<noteq> p \<Longrightarrow> el_view (X q) \<noteq> el_view (X p)" for q
    using sepD(6) [OF sep, of q p] e by auto
  show "sep (p # ds) qs lm (M', X', V')"
  proof (rule sepI)
    fix k1 k2 hb1 hb2 u assume "M' k1 = Some (hb1, u)" "M' k2 = Some (hb2, u)"
    then show "k1 = k2" using sepD(2) [OF sep, of k1 hb1 u k2 hb2] other [of k1 hb1] other [of k2 hb2]
      by (auto simp: M'_def split: if_splits)
  next
    fix k hb1 u assume "M' k = Some (hb1, u)"
    then show "u \<noteq> NULL \<and> u \<in> dom V'" using sepD(3) [OF sep, of k hb1 u] e
      by (auto simp: M'_def V'_def split: if_splits)
  next
    fix q assume q: "q \<in> set (p # ds) \<union> set qs" "el_view (X' q) \<noteq> NULL"
    then show "el_view (X' q) \<in> dom V'" using sepD(4) [OF sep, of q] v by (auto simp: X'_def V'_def)
    fix k hb1 assume m: "M' k = Some (hb1, el_view (X' q))"
    show False
    proof (cases "q = p")
      case True
      with m own v(3) show ?thesis by (auto simp: M'_def X'_def split: if_splits)
    next
      case False
      with m q sepD(5) [OF sep, of q k hb1] qv [of q] show ?thesis by (auto simp: M'_def X'_def split: if_splits)
    qed
  next
    fix q r assume "q \<in> set (p # ds) \<union> set qs" "r \<in> set (p # ds) \<union> set qs" "el_view (X' q) = el_view (X' r)" "el_view (X' q) \<noteq> NULL"
    then show "q = r" using sepD(6) [OF sep, of q r] apart [of q] apart [of r] by (auto simp: X'_def split: if_splits)
  next
    fix q assume "q \<in> set qs"
    then show "el_view (X' q) \<noteq> NULL \<and> el_key (X' q) \<noteq> NULL" using sepD(7) [OF sep, of q] p by (auto simp: X'_def)
  next
    fix q r assume "q \<in> set qs" "r \<in> set qs" "el_key (X' q) = el_key (X' r)"
    then show "q = r" using sepD(1) [OF sep, of q r] p by (auto simp: X'_def split: if_splits)
  qed (use lm in simp)
  have qx: "q \<in> set qs \<Longrightarrow> X' q = X q \<and> V' (el_view (X q)) = V (el_view (X q)) \<and> M' (el_key (X q)) = M (el_key (X q))" for q
    using p keys [of q] qv [of q] by (auto simp: X'_def V'_def M'_def)
  have vv: "M k1 = Some (hb1, u) \<Longrightarrow> V' u = V u" for k1 hb1 u
    using other [of k1 hb1] by (auto simp: V'_def)
  show "others_kept qs lm (M, X, V) (M', X', V')"
    using qx vv lm by (auto simp: others_kept_def operand_def vals_def split: option.splits)
  show "vals M' V' k = (if k = el_key (X p) then Some (hb, r) else vals M V k)"
    using vv by (auto simp: M'_def vals_def V'_def split: option.splits)
  show "operand lm M V (X p) = Some (hb, the (V v))"
    using M v lm by (auto simp: operand_def vals_def)
qed

lemma amerge_step:
  assumes sep: "sep ds (p # qs) lm (M, X, V)" and p: "p \<notin> set qs"
    and kind: "kind \<noteq> MERGE_UNORDERED" "kind = MERGE_INTO_RIGHT \<longrightarrow> \<not> lm"
    and st': "amerge reduce kind lm p (M, X, V) = (M', X', V')"
  shows "sep (p # ds) qs lm (M', X', V') \<and> others_kept qs lm (M, X, V) (M', X', V')
    \<and> (\<forall>k. vals M' V' k = (if k = el_key (X p)
         then joined reduce kind (operand lm M V (X p)) (el_hb (X p), the (V (el_view (X p)))) else vals M V k))"
proof -
  let ?s = "if M (el_key (X p)) = None \<and> lm \<and> el_key (X p) \<noteq> el_view (X p) then Some (el_hb (X p), el_key (X p)) else M (el_key (X p))"
  show ?thesis
  proof (cases ?s)
    case None
    then have M: "M (el_key (X p)) = None" "\<not> lm \<or> el_key (X p) = el_view (X p)" by (auto split: if_splits)
    have "M' = M(el_key (X p) \<mapsto> (el_hb (X p), el_view (X p))) \<and> X' = X(p := (X p)\<lparr>el_view := NULL\<rparr>) \<and> V' = V"
      using st' None by (simp add: Let_def)
    moreover have "operand lm M V (X p) = None" using M by (auto simp: operand_def vals_def)
    ultimately show ?thesis using amerge_new [OF sep p M] by simp
  next
    case (Some hv)
    then obtain hb v where s: "?s = Some (hb, v)" by (cases hv) auto
    show ?thesis
    proof (cases "kind = MERGE_INTO_RIGHT")
      case True
      then have "\<not> lm" using kind(2) by simp
      moreover from this have "M (el_key (X p)) = Some (hb, v)" using s by simp
      moreover have "M' = M(el_key (X p) \<mapsto> (hb, el_view (X p))) \<and> X' = X(p := (X p)\<lparr>el_view := v\<rparr>)
          \<and> V' = V(el_view (X p) \<mapsto> reduce (el_hb (X p)) (the (V (el_view (X p)))) (the (V v)))"
        using st' s True by (simp add: Let_def)
      ultimately show ?thesis using amerge_right [OF sep p] True by simp
    next
      case False
      then have "M' = M(el_key (X p) \<mapsto> (hb, v)) \<and> X' = X
          \<and> V' = V(v \<mapsto> reduce (el_hb (X p)) (the (V v)) (the (V (el_view (X p)))))"
        using st' s by (auto simp: Let_def)
      with False show ?thesis using amerge_left [OF sep p s] by simp
    qed
  qed
qed

section \<open>All elements\<close>

text \<open>What the loop leaves, when the elements in \<open>qs\<close> are still to be merged.\<close>

lemma merge_elems_ok:
  assumes "abstracts ps s (M, X, V)" "sep ds qs lm (M, X, V)" "distinct qs" "set qs \<subseteq> set ps"
    and "rm_nelem (ms_this s) + length qs \<le> 2 ^ 60"
    and kind: "kind \<noteq> MERGE_UNORDERED" "kind = MERGE_INTO_RIGHT \<longrightarrow> \<not> lm"
  shows "\<exists>t M' X' V' ds'. block (map (merge_elem reduce kind lm) qs) s = Inr ((), t) \<and> abstracts ps t (M', X', V')
    \<and> sep ds' [] lm (M', X', V') \<and> set ds' = set ds \<union> set qs \<and> rm_is_leftmost (ms_this t) = rm_is_leftmost (ms_this s)
    \<and> (\<forall>q \<in> set qs. vals M' V' (el_key (X q)) = joined reduce kind (operand lm M V (X q)) (el_hb (X q), the (V (el_view (X q)))))
    \<and> (\<forall>k. (\<forall>q \<in> set qs. el_key (X q) \<noteq> k) \<longrightarrow> vals M' V' k = vals M V k)"
  using assms(1-5)
proof (induction qs arbitrary: s M X V ds)
  case Nil
  then show ?case by (auto simp: run)
next
  case (Cons p qs)
  have p: "p \<in> set ps" "p \<notin> set qs" using Cons.prems(3,4) by simp_all
  obtain t1 where t1: "merge_elem reduce kind lm p s = Inr ((), t1)" "abstracts ps t1 (amerge reduce kind lm p (M, X, V))"
      "rm_nelem (ms_this t1) \<le> rm_nelem (ms_this s) + 1" "rm_is_leftmost (ms_this t1) = rm_is_leftmost (ms_this s)"
    using merge_elem_ok [OF Cons.prems(1) p(1) _ Cons.prems(2) _ kind(1), of reduce] Cons.prems(5) by auto
  obtain M1 X1 V1 where st1: "amerge reduce kind lm p (M, X, V) = (M1, X1, V1)" by (metis prod_cases3)
  note step = amerge_step [OF Cons.prems(2) p(2) kind st1]
  have "abstracts ps t1 (M1, X1, V1)" "sep (p # ds) qs lm (M1, X1, V1)" using t1(2) st1 step by simp_all
  with Cons.IH [of t1 M1 X1 V1 "p # ds"] Cons.prems(3-5) t1(3) obtain t M' X' V' ds' where
    t: "block (map (merge_elem reduce kind lm) qs) t1 = Inr ((), t)" "abstracts ps t (M', X', V')"
      "sep ds' [] lm (M', X', V')" "set ds' = insert p (set ds) \<union> set qs" "rm_is_leftmost (ms_this t) = rm_is_leftmost (ms_this t1)"
      "\<forall>q \<in> set qs. vals M' V' (el_key (X1 q)) = joined reduce kind (operand lm M1 V1 (X1 q)) (el_hb (X1 q), the (V1 (el_view (X1 q))))"
      "\<forall>k. (\<forall>q \<in> set qs. el_key (X1 q) \<noteq> k) \<longrightarrow> vals M' V' k = vals M1 V1 k"
    by auto
  have X1: "\<forall>q \<in> set qs. X1 q = X q \<and> V1 (el_view (X q)) = V (el_view (X q)) \<and> operand lm M1 V1 (X q) = operand lm M V (X q)"
    using step by (simp add: others_kept_def)
  have keys: "\<forall>q \<in> set qs. el_key (X q) \<noteq> el_key (X p)"
    using sepD(1) [OF Cons.prems(2), of _ p] p(2) by fastforce
  have "vals M' V' (el_key (X q)) = joined reduce kind (operand lm M V (X q)) (el_hb (X q), the (V (el_view (X q))))"
    if "q \<in> set (p # qs)" for q
  proof (cases "q = p")
    case True
    have "vals M' V' (el_key (X p)) = vals M1 V1 (el_key (X p))" using t(7) keys X1 by simp
    with True step show ?thesis by simp
  next
    case False
    with that t(6) X1 show ?thesis by simp
  qed
  moreover have "vals M' V' k = vals M V k" if "\<forall>q \<in> set (p # qs). el_key (X q) \<noteq> k" for k
    using that t(7) X1 step by simp
  moreover have "set ds' = set ds \<union> set (p # qs)" using t(4) by auto
  ultimately show ?case using t(1,2,3,5) t1(1,4) by (auto simp: run)
qed

text \<open>Destroying the other map takes none of the views this map has.\<close>

lemma destroy_elems_ok:
  assumes "abstracts ps s (M, X, V)" "distinct qs" "set qs \<subseteq> set ps"
    and "\<forall>q \<in> set qs. el_view (X q) \<noteq> NULL \<longrightarrow> el_view (X q) \<in> dom V \<and> (\<forall>k hb. M k \<noteq> Some (hb, el_view (X q)))"
    and "\<forall>p \<in> set qs. \<forall>q \<in> set qs. el_view (X p) = el_view (X q) \<and> el_view (X p) \<noteq> NULL \<longrightarrow> p = q"
  shows "\<exists>t X' V'. block (map (\<lambda>p. bindP (on_other (get_elem p)) (\<lambda>el. whenP (el_view el \<noteq> NULL) (elem_destroy p))) qs) s = Inr ((), t)
    \<and> abstracts ps t (M, X', V') \<and> ms_this t = ms_this s
    \<and> (\<forall>v. V' v = (if \<exists>q \<in> set qs. v = el_view (X q) \<and> v \<noteq> NULL \<and> \<not> is_leftmost (X q) then None else V v))"
  using assms
proof (induction qs arbitrary: s X V)
  case Nil
  then show ?case by (auto simp: run)
next
  case (Cons p qs)
  let ?v = "el_view (X p)"
  have p: "p \<in> set ps" "p \<notin> set qs" using Cons.prems(2,3) by simp_all
  have o: "shaped (ms_other s)" "live_ptrs (ms_other s) = ps" "elem_at (ms_other s) p = X p" using Cons.prems(1) p(1) by simp_all
  then have get: "get_elem p (ms_other s) = Inr (X p, ms_other s)" using get_elem_live [of "ms_other s" p] p(1) by simp
  obtain o' where o': "put_elem p ((X p)\<lparr>el_view := NULL\<rparr>) (ms_other s) = Inr ((), o')"
      "rewritten p ((X p)\<lparr>el_view := NULL\<rparr>) (ms_other s) o'"
    using put_elem_live [OF o(1), of p "(X p)\<lparr>el_view := NULL\<rparr>"] o p(1) by auto
  define V1 where "V1 = (if ?v \<noteq> NULL \<and> \<not> is_leftmost (X p) then V(?v := None) else V)"
  define X1 where "X1 = (if ?v \<noteq> NULL then X(p := (X p)\<lparr>el_view := NULL\<rparr>) else X)"
  define s1 where "s1 = (if ?v \<noteq> NULL then s\<lparr>ms_other := o', ms_view := V1\<rparr> else s)"
  have "?v \<noteq> NULL \<Longrightarrow> deref V ?v \<noteq> None" using Cons.prems(4) by (auto simp: deref_def)
  moreover have "ms_view s = V" using Cons.prems(1) by simp
  ultimately have run1: "bindP (on_other (get_elem p)) (\<lambda>el. whenP (el_view el \<noteq> NULL) (elem_destroy p)) s = Inr ((), s1)"
    using get o'(1) by (auto simp: run elem_destroy_def s1_def V1_def)
  have "abstracts ps s1 (M, X1, V1)"
    using Cons.prems(1) o' by (auto simp: s1_def X1_def V1_def rewritten_def)
  moreover have X1: "\<forall>q \<in> set qs. X1 q = X q" using p(2) by (auto simp: X1_def)
  moreover have "\<forall>q \<in> set qs. el_view (X q) \<noteq> NULL \<longrightarrow> el_view (X q) \<in> dom V1"
  proof (intro ballI impI)
    fix q assume q: "q \<in> set qs" "el_view (X q) \<noteq> NULL"
    then have "el_view (X q) \<noteq> ?v" using Cons.prems(5) p(2) by auto
    then show "el_view (X q) \<in> dom V1" using Cons.prems(4) q by (simp add: V1_def)
  qed
  ultimately obtain t X' V' where t: "block (map (\<lambda>p. bindP (on_other (get_elem p)) (\<lambda>el. whenP (el_view el \<noteq> NULL) (elem_destroy p))) qs) s1 = Inr ((), t)"
      "abstracts ps t (M, X', V')" "ms_this t = ms_this s1"
      "\<forall>v. V' v = (if \<exists>q \<in> set qs. v = el_view (X q) \<and> v \<noteq> NULL \<and> \<not> is_leftmost (X q) then None else V1 v)"
    using Cons.IH [of s1 X1 V1] Cons.prems(2-5) by auto
  moreover have "ms_this s1 = ms_this s" by (simp add: s1_def)
  moreover have "\<forall>v. V' v = (if \<exists>q \<in> set (p # qs). v = el_view (X q) \<and> v \<noteq> NULL \<and> \<not> is_leftmost (X q) then None else V v)"
    using t(4) by (auto simp: V1_def)
  ultimately show ?case using run1 by (auto simp: run_block_Cons)
qed

section \<open>Left and right\<close>

text \<open>
  What the runtime relies on for two maps it merges: every view is alive and is the view of one
  element only, a key belongs to one hyperobject, the map on the right is not the leftmost one, and
  where the left one is, a reducer it has no view of yet has its leftmost view alive and out of play.
\<close>

definition mergeable_maps :: "cilkred_map \<Rightarrow> cilkred_map \<Rightarrow> (ptr \<rightharpoonup> 'v) \<Rightarrow> bool" where
  "mergeable_maps left right V \<longleftrightarrow> rm_ok left \<and> rm_ok right \<and> \<not> rm_is_leftmost right
     \<and> rm_nelem left + rm_nelem right \<le> 2 ^ 60
     \<and> (\<forall>h \<in> {left, right}. \<forall>k hb v. rm_map h k = Some (hb, v) \<longrightarrow> v \<in> dom V
          \<and> (\<forall>k' hb'. rm_map h k' = Some (hb', v) \<longrightarrow> k' = k))
     \<and> (\<forall>k k' hb hb' v. rm_map left k = Some (hb, v) \<longrightarrow> rm_map right k' \<noteq> Some (hb', v))
     \<and> (\<forall>k hb hb' v v'. rm_map left k = Some (hb, v) \<and> rm_map right k = Some (hb', v') \<longrightarrow> hb = hb')
     \<and> (rm_is_leftmost left \<longrightarrow> (\<forall>k hb v. rm_map left k = None \<and> rm_map right k = Some (hb, v) \<and> v \<noteq> k \<longrightarrow>
          k \<in> dom V \<and> (\<forall>k' hb'. rm_map left k' \<noteq> Some (hb', k) \<and> rm_map right k' \<noteq> Some (hb', k))))"

lemma mergeable_mapsD:
  assumes "mergeable_maps left right V"
  shows "rm_ok left" "rm_ok right" "\<not> rm_is_leftmost right" "rm_nelem left + rm_nelem right \<le> 2 ^ 60"
    "\<forall>h \<in> {left, right}. \<forall>k hb v. rm_map h k = Some (hb, v) \<longrightarrow> v \<in> dom V \<and> (\<forall>k' hb'. rm_map h k' = Some (hb', v) \<longrightarrow> k' = k)"
    "\<forall>k k' hb hb' v. rm_map left k = Some (hb, v) \<longrightarrow> rm_map right k' \<noteq> Some (hb', v)"
    "\<forall>k hb hb' v v'. rm_map left k = Some (hb, v) \<and> rm_map right k = Some (hb', v') \<longrightarrow> hb = hb'"
    "rm_is_leftmost left \<longrightarrow> (\<forall>k hb v. rm_map left k = None \<and> rm_map right k = Some (hb, v) \<and> v \<noteq> k \<longrightarrow>
          k \<in> dom V \<and> (\<forall>k' hb'. rm_map left k' \<noteq> Some (hb', k) \<and> rm_map right k' \<noteq> Some (hb', k)))"
  using assms unfolding mergeable_maps_def by - (elim conjE, assumption)+

text \<open>The value of each reducer after two strands: that of the left one, reduced with that of the right one.\<close>

definition serial_value ::
  "(ptr \<Rightarrow> 'v \<Rightarrow> 'v \<Rightarrow> 'v) \<Rightarrow> (ptr \<times> 'v) option \<Rightarrow> (ptr \<times> 'v) option \<Rightarrow> (ptr \<times> 'v) option"
where
  "serial_value reduce l r = (case l of None \<Rightarrow> r | Some (hb, a) \<Rightarrow>
     (case r of None \<Rightarrow> l | Some (_, b) \<Rightarrow> Some (hb, reduce hb a b)))"

definition left_operand :: "cilkred_map \<Rightarrow> cilkred_map \<Rightarrow> (ptr \<rightharpoonup> 'v) \<Rightarrow> ptr \<Rightarrow> (ptr \<times> 'v) option" where
  "left_operand left right V k =
     (case (rm_map left k, rm_map right k) of
        (None, Some (hb, v)) \<Rightarrow> if rm_is_leftmost left \<and> k \<noteq> v then Some (hb, the (V k)) else None
      | _ \<Rightarrow> vals (rm_map left) V k)"

lemma elem_of_map:
  assumes "rm_ok h"
  shows "(\<exists>p \<in> set (live_ptrs h). elem_at h p = \<lparr>el_key = k, el_hb = hb, el_view = v\<rparr>) \<longleftrightarrow> rm_map h k = Some (hb, v)"
  unfolding rm_map_Some [OF assms] mem_all_elems_at [OF rm_ok_shaped [OF assms], symmetric]
  by (metis elem.surjective old.unit.exhaust elem.select_convs(1,2,3))

lemma map_of_elem: "rm_ok h \<Longrightarrow> p \<in> set (live_ptrs h) \<Longrightarrow>
    rm_map h (el_key (elem_at h p)) = Some (el_hb (elem_at h p), el_view (elem_at h p))
    \<and> el_key (elem_at h p) \<noteq> NULL \<and> el_view (elem_at h p) \<noteq> NULL"
proof -
  assume h: "rm_ok h" and p: "p \<in> set (live_ptrs h)"
  then have "elem_at h p \<in> set (all_elems h)" using mem_all_elems_at [OF rm_ok_shaped [OF h]] by blast
  then show ?thesis
    using rm_map_mem [OF h] rm_okD(7) [OF h] mem_all_elems_hash [OF h] hashfun_lt [OF h] by blast
qed

lemma elem_inj: "rm_ok h \<Longrightarrow> p \<in> set (live_ptrs h) \<Longrightarrow> q \<in> set (live_ptrs h) \<Longrightarrow>
    el_key (elem_at h p) = el_key (elem_at h q) \<Longrightarrow> p = q"
  using distinct_keys [of h] map_elem_at [of h, symmetric] rm_ok_shaped [of h]
  by (auto simp: distinct_map inj_on_def)

text \<open>The two directions of a merge, on an arbitrary pair of maps.\<close>

lemma merge_map_ok:
  assumes th: "rm_ok this" and other: "rm_ok other" "\<not> rm_is_leftmost other" and size: "rm_nelem this + rm_nelem other \<le> 2 ^ 60"
    and sep: "sep [] (live_ptrs other) (rm_is_leftmost this) (rm_map this, elem_at other, V)"
    and kind: "kind \<noteq> MERGE_UNORDERED" "kind = MERGE_INTO_RIGHT \<longrightarrow> \<not> rm_is_leftmost this"
  shows "\<exists>t. merge_map reduce kind \<lparr>ms_this = this, ms_other = other, ms_view = V\<rparr> = Inr ((), t) \<and> rm_ok (ms_this t)
    \<and> rm_is_leftmost (ms_this t) = rm_is_leftmost this
    \<and> (\<forall>k. vals (rm_map (ms_this t)) (ms_view t) k = (case rm_map other k of None \<Rightarrow> vals (rm_map this) V k
         | Some (hb, v) \<Rightarrow> joined reduce kind (operand (rm_is_leftmost this) (rm_map this) V \<lparr>el_key = k, el_hb = hb, el_view = v\<rparr>) (hb, the (V v))))"
proof -
  let ?lm = "rm_is_leftmost this" let ?ps = "live_ptrs other" let ?X = "elem_at other"
  let ?m = "rm_merging_update (\<lambda>_. True)"
  define s where "s = \<lparr>ms_this = ?m this, ms_other = ?m other, ms_view = V\<rparr>"
  have um [simp]: "all_elems (rm_merging_update f h) = all_elems h" "live_ptrs (rm_merging_update f h) = live_ptrs h"
    "hashfun (rm_merging_update f h) = hashfun h" "elem_at (rm_merging_update f h) = elem_at h" for f h
    by (simp_all add: all_elems_def live_ptrs_def hashfun_def elem_at_def fun_eq_iff)
  have ok_m [simp]: "rm_ok (rm_merging_update f h) = rm_ok h" "rm_map (rm_merging_update f h) = rm_map h"
    "shaped (rm_merging_update f h) = shaped h" for f h
    by (simp_all add: rm_ok_def rm_map_def shaped_def)
  have ol [simp]: "all_elems (rm_is_leftmost_update f h) = all_elems h" "hashfun (rm_is_leftmost_update f h) = hashfun h" for f h
    by (simp_all add: all_elems_def hashfun_def fun_eq_iff)
  have ok_l [simp]: "rm_ok (rm_is_leftmost_update f h) = rm_ok h" "rm_map (rm_is_leftmost_update f h) = rm_map h" for f h
    by (simp_all add: rm_ok_def rm_map_def)
  have sf: "rm_is_leftmost (ms_this s) = ?lm" "rm_is_leftmost (ms_other s) = rm_is_leftmost other" "live_ptrs (ms_other s) = ?ps"
    by (simp_all add: s_def)
  have "abstracts ?ps s (rm_map this, ?X, V)"
    using th other rm_ok_shaped [OF other(1)] by (simp add: s_def)
  moreover have "rm_nelem other = length ?ps"
    using rm_okD(3) [OF other(1)] map_elem_at [OF rm_ok_shaped [OF other(1)]] by (metis length_map)
  ultimately obtain t M' X' V' ds' where t: "block (map (merge_elem reduce kind ?lm) ?ps) s = Inr ((), t)"
      "abstracts ?ps t (M', X', V')" "sep ds' [] ?lm (M', X', V')" "set ds' = set ?ps" "rm_is_leftmost (ms_this t) = ?lm"
      "\<forall>q \<in> set ?ps. vals M' V' (el_key (?X q)) = joined reduce kind (operand ?lm (rm_map this) V (?X q)) (el_hb (?X q), the (V (el_view (?X q))))"
      "\<forall>k. (\<forall>q \<in> set ?ps. el_key (?X q) \<noteq> k) \<longrightarrow> vals M' V' k = vals (rm_map this) V k"
    using merge_elems_ok [of ?ps s "rm_map this" ?X V "[]" ?ps ?lm kind reduce] sep distinct_live_ptrs [of other] size kind
    by (auto simp: s_def)
  define t1 where "t1 = t\<lparr>ms_this := rm_merging_update (\<lambda>_. False) (ms_this t), ms_other := rm_merging_update (\<lambda>_. False) (ms_other t)\<rparr>"
  have lm_same: "rm_is_leftmost_update (\<lambda>k. k \<or> rm_is_leftmost (ms_other t)) (ms_this t) = ms_this t"
    using t(2) by (intro cilkred_map.equality) simp_all
  have t1: "abstracts ?ps t1 (M', X', V')" using t(2) by (simp add: t1_def)
  have "\<exists>u X'' V''. cilkrts_destroy_reducer_map t1 = Inr ((), u) \<and> abstracts ?ps u (M', X'', V'') \<and> ms_this u = ms_this t1
      \<and> (\<forall>v. V'' v = (if \<exists>q \<in> set ?ps. v = el_view (X' q) \<and> v \<noteq> NULL \<and> \<not> is_leftmost (X' q) then None else V' v))"
  proof -
    have "\<forall>q \<in> set ?ps. el_view (X' q) \<noteq> NULL \<longrightarrow> el_view (X' q) \<in> dom V' \<and> (\<forall>k hb. M' k \<noteq> Some (hb, el_view (X' q)))"
      using sepD(4,5) [OF t(3)] t(4) by fastforce
    moreover have "\<forall>p \<in> set ?ps. \<forall>q \<in> set ?ps. el_view (X' p) = el_view (X' q) \<and> el_view (X' p) \<noteq> NULL \<longrightarrow> p = q"
      using sepD(6) [OF t(3)] t(4) by blast
    moreover have "live_ptrs (ms_other t1) = ?ps" using t1 by simp
    ultimately show ?thesis
      using destroy_elems_ok [OF t1 distinct_live_ptrs [of other] subset_refl]
      by (simp add: cilkrts_destroy_reducer_map_def run_bindP run_gets del: abstracts.simps)
  qed
  then obtain u X'' V'' where u: "cilkrts_destroy_reducer_map t1 = Inr ((), u)" "abstracts ?ps u (M', X'', V'')" "ms_this u = ms_this t1"
      "\<forall>v. V'' v = (if \<exists>q \<in> set ?ps. v = el_view (X' q) \<and> v \<noteq> NULL \<and> \<not> is_leftmost (X' q) then None else V' v)"
    by blast
  have run_all: "merge_map reduce kind \<lparr>ms_this = this, ms_other = other, ms_view = V\<rparr> = Inr ((), u)"
    using t(1) u(1) other(2) lm_same sf by (simp add: merge_map_def set_merging_def run s_def [symmetric] t1_def)
  have "V'' v = V' v" if "M' k = Some (hb, v)" for k hb v
    using that u(4) sepD(5) [OF t(3)] t(4) by (metis UnI1)
  then have same: "vals M' V'' k = vals M' V' k" for k by (auto simp: vals_def split: option.splits)
  have "vals M' V' k = (case rm_map other k of None \<Rightarrow> vals (rm_map this) V k
      | Some (hb, v) \<Rightarrow> joined reduce kind (operand ?lm (rm_map this) V \<lparr>el_key = k, el_hb = hb, el_view = v\<rparr>) (hb, the (V v)))" for k
  proof (cases "rm_map other k")
    case None
    then have "\<forall>q \<in> set ?ps. el_key (?X q) \<noteq> k" using map_of_elem [OF other(1)] by fastforce
    with None t(7) show ?thesis by simp
  next
    case (Some hv)
    then obtain hb v where s: "rm_map other k = Some (hb, v)" by (cases hv) auto
    then obtain q where "q \<in> set ?ps" "?X q = \<lparr>el_key = k, el_hb = hb, el_view = v\<rparr>"
      using elem_of_map [OF other(1)] by blast
    with t(6) s show ?thesis by fastforce
  qed
  with run_all u(2,3) t(5) same show ?thesis by (auto simp: t1_def)
qed

lemma sep_of_maps:
  assumes oks: "rm_ok this" "rm_ok other"
    and alive: "\<And>h k hb v. h = this \<or> h = other \<Longrightarrow> rm_map h k = Some (hb, v) \<Longrightarrow>
        v \<in> dom V \<and> (\<forall>k' hb'. rm_map h k' = Some (hb', v) \<longrightarrow> k' = k)"
    and apart: "\<And>k k' hb hb' v. rm_map this k = Some (hb, v) \<Longrightarrow> rm_map other k' \<noteq> Some (hb', v)"
    and leftmost: "\<And>k hb v. lm \<Longrightarrow> rm_map this k = None \<Longrightarrow> rm_map other k = Some (hb, v) \<Longrightarrow> v \<noteq> k \<Longrightarrow>
        k \<in> dom V \<and> (\<forall>k' hb'. rm_map this k' \<noteq> Some (hb', k) \<and> rm_map other k' \<noteq> Some (hb', k))"
  shows "sep [] (live_ptrs other) lm (rm_map this, elem_at other, V)"
proof (rule sepI)
  fix q q' assume "q \<in> set (live_ptrs other)" "q' \<in> set (live_ptrs other)" "el_key (elem_at other q) = el_key (elem_at other q')"
  then show "q = q'" by (rule elem_inj [OF oks(2)])
next
  fix p q assume pq: "p \<in> set [] \<union> set (live_ptrs other)" "q \<in> set [] \<union> set (live_ptrs other)" "el_view (elem_at other p) = el_view (elem_at other q)"
  then have "rm_map other (el_key (elem_at other p)) = Some (el_hb (elem_at other p), el_view (elem_at other q))"
    "rm_map other (el_key (elem_at other q)) = Some (el_hb (elem_at other q), el_view (elem_at other q))"
    using map_of_elem [OF oks(2), of p] map_of_elem [OF oks(2), of q] by simp_all
  then have "el_key (elem_at other p) = el_key (elem_at other q)" using alive [of other] by blast
  with pq elem_inj [OF oks(2)] show "p = q" by simp
next
  fix k hb v assume m: "rm_map this k = Some (hb, v)"
  then obtain p where "p \<in> set (live_ptrs this)" "elem_at this p = \<lparr>el_key = k, el_hb = hb, el_view = v\<rparr>"
    using elem_of_map [OF oks(1)] by blast
  with map_of_elem [OF oks(1)] m alive [of this] show "v \<noteq> NULL \<and> v \<in> dom V" by fastforce
next
  fix q assume q: "lm" "q \<in> set (live_ptrs other)" "rm_map this (el_key (elem_at other q)) = None"
    "el_key (elem_at other q) \<noteq> el_view (elem_at other q)"
  then have l: "el_key (elem_at other q) \<in> dom V \<and> (\<forall>k' hb'. rm_map this k' \<noteq> Some (hb', el_key (elem_at other q))
      \<and> rm_map other k' \<noteq> Some (hb', el_key (elem_at other q)))"
    using leftmost [of "el_key (elem_at other q)"] map_of_elem [OF oks(2), of q] by metis
  moreover have "el_view (elem_at other p) \<noteq> el_key (elem_at other q)" if "p \<in> set [] \<union> set (live_ptrs other)" for p
    using that l map_of_elem [OF oks(2), of p] by auto
  ultimately show "el_key (elem_at other q) \<in> dom V \<and> (\<forall>k hb. rm_map this k \<noteq> Some (hb, el_key (elem_at other q)))
      \<and> (\<forall>p \<in> set [] \<union> set (live_ptrs other). el_view (elem_at other p) \<noteq> el_key (elem_at other q))" by blast
next
  fix k k' hb hb' v assume "rm_map this k = Some (hb, v)" "rm_map this k' = Some (hb', v)"
  then show "k = k'" using alive [of this] by blast
next
  fix p assume "p \<in> set [] \<union> set (live_ptrs other)"
  then have m: "rm_map other (el_key (elem_at other p)) = Some (el_hb (elem_at other p), el_view (elem_at other p))"
    using map_of_elem [OF oks(2), of p] by simp
  then show "el_view (elem_at other p) \<in> dom V" using alive [of other] by blast
  fix k hb assume "rm_map this k = Some (hb, el_view (elem_at other p))"
  with m show False using apart by blast
next
  fix q assume "q \<in> set (live_ptrs other)"
  then show "el_view (elem_at other q) \<noteq> NULL \<and> el_key (elem_at other q) \<noteq> NULL" using map_of_elem [OF oks(2)] by blast
qed

lemma joined_is_serial:
  assumes "\<forall>hb v. rm_map left k = Some (hb, v) \<longrightarrow> (\<exists>a. V v = Some a)" "\<forall>hb v. rm_map right k = Some (hb, v) \<longrightarrow> (\<exists>b. V v = Some b)"
    and hb: "\<forall>hb v hb' v'. rm_map left k = Some (hb, v) \<longrightarrow> rm_map right k = Some (hb', v') \<longrightarrow> hb' = hb"
  shows "(case rm_map right k of None \<Rightarrow> vals (rm_map left) V k
       | Some (hb, v) \<Rightarrow> joined reduce MERGE_INTO_LEFT (operand (rm_is_leftmost left) (rm_map left) V \<lparr>el_key = k, el_hb = hb, el_view = v\<rparr>) (hb, the (V v)))
      = serial_value reduce (left_operand left right V k) (vals (rm_map right) V k)
    \<and> (\<not> rm_is_leftmost left \<longrightarrow> (case rm_map left k of None \<Rightarrow> vals (rm_map right) V k
       | Some (hb, v) \<Rightarrow> joined reduce MERGE_INTO_RIGHT (operand False (rm_map right) V \<lparr>el_key = k, el_hb = hb, el_view = v\<rparr>) (hb, the (V v)))
      = serial_value reduce (left_operand left right V k) (vals (rm_map right) V k))"
proof -
  note defs = serial_value_def left_operand_def operand_def vals_def
  show ?thesis
  proof (cases "rm_map left k")
    case l: None
    show ?thesis
    proof (cases "rm_map right k")
      case None
      with l show ?thesis by (simp add: defs)
    next
      case (Some r)
      then obtain hb' v' b where "rm_map right k = Some (hb', v')" "V v' = Some b" using assms(2) by (cases r) blast
      with l show ?thesis by (simp add: defs)
    qed
  next
    case (Some l)
    then obtain hb v a where l: "rm_map left k = Some (hb, v)" "V v = Some a" using assms(1) by (cases l) blast
    show ?thesis
    proof (cases "rm_map right k")
      case None
      with l show ?thesis by (simp add: defs)
    next
      case (Some r)
      then obtain hb' v' b where "rm_map right k = Some (hb', v')" "V v' = Some b" using assms(2) by (cases r) blast
      moreover from this l hb have "hb' = hb" by blast
      ultimately show ?thesis using l by (simp add: defs)
    qed
  qed
qed

text \<open>
  C17. Merging the reducer maps of two strands gives every reducer the value of the left strand reduced
  with that of the right strand, in this order, although the code keeps whichever map is larger and
  swaps the views when that is the right one. A reducer only one strand has used keeps its value, unless
  the left map is the leftmost one and has not seen it: then its leftmost view comes first.
\<close>

theorem merged_values_are_serial:
  assumes "mergeable_maps left right V"
  shows "\<exists>h V'. merge_left_right reduce left right V = Inr (h, V') \<and> rm_ok h \<and> rm_is_leftmost h = rm_is_leftmost left
    \<and> (\<forall>k. vals (rm_map h) V' k = serial_value reduce (left_operand left right V k) (vals (rm_map right) V k))"
proof -
  note m = mergeable_mapsD [OF assms]
  have alive: "h = left \<or> h = right \<Longrightarrow> rm_map h k = Some (hb, v) \<Longrightarrow> v \<in> dom V \<and> (\<forall>k' hb'. rm_map h k' = Some (hb', v) \<longrightarrow> k' = k)"
    for h k hb v using m(5) by blast
  have right_alive: "\<forall>hb v. rm_map right k = Some (hb, v) \<longrightarrow> (\<exists>b. V v = Some b)" for k using alive by blast
  have left_alive: "\<forall>hb v. rm_map left k = Some (hb, v) \<longrightarrow> (\<exists>b. V v = Some b)" for k using alive by blast
  have oks: "rm_ok left" "rm_ok right" and not_lm: "\<not> rm_is_leftmost right"
    and size: "rm_nelem left + rm_nelem right \<le> 2 ^ 60" by (fact m)+
  have apart: "rm_map left k = Some (hb, v) \<Longrightarrow> rm_map right k' \<noteq> Some (hb', v)" for k hb v k' hb' using m(6) by blast
  then have apart': "rm_map right k = Some (hb, v) \<Longrightarrow> rm_map left k' \<noteq> Some (hb', v)" for k hb v k' hb' by blast
  have lm: "rm_is_leftmost left \<Longrightarrow> rm_map left k = None \<Longrightarrow> rm_map right k = Some (hb, v) \<Longrightarrow> v \<noteq> k \<Longrightarrow>
      k \<in> dom V \<and> (\<forall>k' hb'. rm_map left k' \<noteq> Some (hb', k) \<and> rm_map right k' \<noteq> Some (hb', k))" for k hb v
    using m(8) by blast
  have hb: "\<forall>hb v hb' v'. rm_map left k = Some (hb, v) \<longrightarrow> rm_map right k = Some (hb', v') \<longrightarrow> hb' = hb" for k using m(7) by blast
  show ?thesis
  proof (cases "rm_is_leftmost left \<or> rm_nelem left > rm_nelem right")
    case True
    have "sep [] (live_ptrs right) (rm_is_leftmost left) (rm_map left, elem_at right, V)"
      by (rule sep_of_maps [OF oks alive apart lm])
    with oks not_lm size obtain t where t: "merge_map reduce MERGE_INTO_LEFT \<lparr>ms_this = left, ms_other = right, ms_view = V\<rparr> = Inr ((), t)"
        "rm_ok (ms_this t)" "rm_is_leftmost (ms_this t) = rm_is_leftmost left"
        "\<forall>k. vals (rm_map (ms_this t)) (ms_view t) k = (case rm_map right k of None \<Rightarrow> vals (rm_map left) V k
         | Some (hb, v) \<Rightarrow> joined reduce MERGE_INTO_LEFT (operand (rm_is_leftmost left) (rm_map left) V \<lparr>el_key = k, el_hb = hb, el_view = v\<rparr>) (hb, the (V v)))"
      using merge_map_ok [of left right V MERGE_INTO_LEFT reduce] by auto
    have "vals (rm_map (ms_this t)) (ms_view t) k = serial_value reduce (left_operand left right V k) (vals (rm_map right) V k)" for k
      using t(4) joined_is_serial [of left k V right reduce, OF left_alive right_alive hb] by simp
    with t True show ?thesis by (auto simp: merge_left_right_def)
  next
    case False
    have "sep [] (live_ptrs left) (rm_is_leftmost right) (rm_map right, elem_at left, V)"
      by (rule sep_of_maps [OF oks(2,1) alive [OF disj_commute [THEN iffD1]] apart']) (use not_lm in auto)
    have nlm: "rm_is_leftmost right = False" using not_lm by simp
    have size': "rm_nelem right + rm_nelem left \<le> 2 ^ 60" using size by (simp add: add.commute)
    have kind: "MERGE_INTO_RIGHT \<noteq> MERGE_UNORDERED" by simp
    have nl: "\<not> rm_is_leftmost left" using False by simp
    obtain t where t: "merge_map reduce MERGE_INTO_RIGHT \<lparr>ms_this = right, ms_other = left, ms_view = V\<rparr> = Inr ((), t)"
        "rm_ok (ms_this t)" "rm_is_leftmost (ms_this t) = rm_is_leftmost right"
        "\<forall>k. vals (rm_map (ms_this t)) (ms_view t) k = (case rm_map left k of None \<Rightarrow> vals (rm_map right) V k
         | Some (hb, v) \<Rightarrow> joined reduce MERGE_INTO_RIGHT (operand (rm_is_leftmost right) (rm_map right) V \<lparr>el_key = k, el_hb = hb, el_view = v\<rparr>) (hb, the (V v)))"
      using merge_map_ok [of right left V MERGE_INTO_RIGHT reduce] oks nl not_lm size' kind
        \<open>sep [] (live_ptrs left) (rm_is_leftmost right) (rm_map right, elem_at left, V)\<close> by blast
    have "vals (rm_map (ms_this t)) (ms_view t) k = serial_value reduce (left_operand left right V k) (vals (rm_map right) V k)" for k
      unfolding t(4) [rule_format] nlm
      by (rule joined_is_serial [of left k V right reduce, OF left_alive right_alive hb, THEN conjunct2, rule_format, OF nl])
    with t False nlm nl show ?thesis by (simp add: merge_left_right_def)
  qed
qed

text \<open>A table of one bucket with one element.\<close>

definition singleton_map :: "elem \<Rightarrow> cilkred_map" where
  "singleton_map e = \<lparr>rm_nelem = 1, rm_nbuckets = 1, rm_buckets = [Some \<lparr>bk_nmax = 1, bk_el = [e, zero_elem]\<rparr>],
     rm_merging = False, rm_is_leftmost = False\<rparr>"

lemma singleton_map_ok:
  assumes "el_key e \<noteq> NULL" "el_view e \<noteq> NULL"
  shows "rm_ok (singleton_map e) \<and> rm_map (singleton_map e) = [el_key e \<mapsto> (el_hb e, el_view e)]
    \<and> rm_nelem (singleton_map e) = 1 \<and> \<not> rm_is_leftmost (singleton_map e)"
proof -
  have "shape \<lparr>bk_nmax = 1, bk_el = [e, zero_elem]\<rparr> [e]"
    using assms by (auto simp: shape_def zero_elem_def)
  then have b: "bucket_elems (Some \<lparr>bk_nmax = 1, bk_el = [e, zero_elem]\<rparr>) = [e]" "bshape (Some \<lparr>bk_nmax = 1, bk_el = [e, zero_elem]\<rparr>) [e]"
    by (simp_all add: bucket_elems_shape)
  then show ?thesis
    using assms by (auto simp: rm_ok_def singleton_map_def all_elems_def rm_map_def hashfun_def intro: exI [of _ 0])
qed

theorem merged_values_are_serial_witness:
  "\<exists>h V'. merge_left_right (\<lambda>_. (@)) (singleton_map \<lparr>el_key = 8, el_hb = 4, el_view = 100\<rparr>)
       (singleton_map \<lparr>el_key = 8, el_hb = 4, el_view = 200\<rparr>) [100 \<mapsto> ''ab'', 200 \<mapsto> ''c''] = Inr (h, V')
     \<and> vals (rm_map h) V' 8 = Some (4, ''abc'')"
proof -
  let ?l = "singleton_map \<lparr>el_key = 8, el_hb = 4, el_view = 100\<rparr>" let ?r = "singleton_map \<lparr>el_key = 8, el_hb = 4, el_view = 200\<rparr>"
  let ?V = "[100 \<mapsto> ''ab'', 200 \<mapsto> ''c''] :: ptr \<rightharpoonup> string"
  have l: "rm_ok ?l" "rm_map ?l = [8 \<mapsto> (4, 100)]" "rm_nelem ?l = 1" "\<not> rm_is_leftmost ?l"
    and r: "rm_ok ?r" "rm_map ?r = [8 \<mapsto> (4, 200)]" "rm_nelem ?r = 1" "\<not> rm_is_leftmost ?r"
    using singleton_map_ok [of "\<lparr>el_key = 8, el_hb = 4, el_view = 100\<rparr>"] singleton_map_ok [of "\<lparr>el_key = 8, el_hb = 4, el_view = 200\<rparr>"] by simp_all
  have "mergeable_maps ?l ?r ?V" unfolding mergeable_maps_def using l r by simp
  from merged_values_are_serial [OF this, of "\<lambda>_. (@)"] l r show ?thesis
    by (auto simp: left_operand_def serial_value_def vals_def)
qed

end
