(* ===== verification/Deque_Pool.thy ===== *)
theory Deque_Pool
  imports Worker_Lock "HOL-Library.Multiset"
begin

text \<open>
  The vectors of suspended and of resumable deques that each worker has (\<open>deque_pool.c\<close>):
  growing, adding, removing by swapping with the last cell, and the index that each deque
  keeps of its own place. The second half shows that a pool is a bag of deques in which every
  deque knows its place.
\<close>

section \<open>Pools in memory\<close>

text \<open>A \<open>deque_pool *\<close> is one of the two pools of some worker.\<close>

datatype pool_kind = SUSPENDED | RESUMABLE

type_synonym pool_ptr = "ptr \<times> pool_kind"

fun pool_of :: "pool_kind \<Rightarrow> worker \<Rightarrow> deque_pool" where
  "pool_of SUSPENDED x = wk_suspended_deques x"
| "pool_of RESUMABLE x = wk_resumable_deques x"

fun set_pool :: "pool_kind \<Rightarrow> deque_pool \<Rightarrow> worker \<Rightarrow> worker" where
  "set_pool SUSPENDED p x = x\<lparr>wk_suspended_deques := p\<rparr>"
| "set_pool RESUMABLE p x = x\<lparr>wk_resumable_deques := p\<rparr>"

definition ld_pool :: "(deque_pool \<Rightarrow> 'a) \<Rightarrow> pool_ptr \<Rightarrow> (rts, 'a) prog" where
  "ld_pool f p = ld_wk (\<lambda>x. f (pool_of (snd p) x)) (fst p)"

definition st_pool :: "pool_ptr \<Rightarrow> (deque_pool \<Rightarrow> deque_pool) \<Rightarrow> (rts, unit) prog" where
  "st_pool p f = st_wk (fst p) (\<lambda>x. set_pool (snd p) (f (pool_of (snd p) x)) x)"

text \<open>\<open>p->array[i]\<close> read and written; an index outside of the array is an access to no object.\<close>

definition read_cell :: "pool_ptr \<Rightarrow> nat \<Rightarrow> (rts, ptr) prog" where
  "read_cell p i = bindP (ld_pool dp_array p) (\<lambda>a. case a of
     Some xs \<Rightarrow> if i < length xs then ret (xs ! i) else failP Segfault
   | None \<Rightarrow> failP Segfault)"

definition write_cell :: "pool_ptr \<Rightarrow> nat \<Rightarrow> ptr \<Rightarrow> (rts, unit) prog" where
  "write_cell p i v = bindP (ld_pool dp_array p) (\<lambda>a. case a of
     Some xs \<Rightarrow> if i < length xs then st_pool p (dp_array_update (\<lambda>_. Some (xs[i := v]))) else failP Segfault
   | None \<Rightarrow> failP Segfault)"

section \<open>Operations\<close>

text \<open>The cells of the new array behind the copied ones are not initialised; here they are NULL.\<close>

definition pool_resize :: "pool_ptr \<Rightarrow> nat \<Rightarrow> (rts, unit) prog" where
  "pool_resize p cap = block [
     st_pool p (dp_capacity_update (\<lambda>_. cap)),
     bindP cilkrts_malloc (\<lambda>new_array.
       if new_array = NULL then cilkrts_bug ''W%d could not resize deque pool to capacity %zu''
       else bindP (ld_pool dp_array p) (\<lambda>old.
            bindP (ld_pool dp_size p) (\<lambda>n.
              if n < cap
              then st_pool p (dp_array_update (\<lambda>_.
                Some (take n (case old of Some xs \<Rightarrow> xs | None \<Rightarrow> []) @ replicate (cap - n) NULL)))
              else failP Segfault)))]"

definition deque_pool_init :: "pool_ptr \<Rightarrow> nat \<Rightarrow> (rts, unit) prog" where
  "deque_pool_init p ltqsize = block [
     st_pool p (dp_array_update (\<lambda>_. None)),
     st_pool p (dp_size_update (\<lambda>_. 0)),
     pool_resize p ltqsize]"

definition deque_pool_free :: "pool_ptr \<Rightarrow> (rts, unit) prog" where
  "deque_pool_free p = block [
     bindP (ld_pool dp_size p) (\<lambda>n. CILK_ASSERT ''p->size == 0'' (n = 0)),
     st_pool p (dp_array_update (\<lambda>_. None))]"

definition deque_pool_validate :: "pool_ptr \<Rightarrow> ptr \<Rightarrow> (rts, unit) prog" where
  "deque_pool_validate p w = block [
     bindP (ld_wk wk_lock w) (\<lambda>m. CILK_ASSERT ''w->l->lock.owner != NULL'' (mx_owner m \<noteq> NULL)),
     bindP (ld_pool dp_size p) (\<lambda>n. block (map (\<lambda>i.
       bindP (read_cell p i) (\<lambda>d. CILK_ASSERT ''0'' (d \<noteq> NULL))) [0..<n]))]"

definition deque_pool_add :: "ptr \<Rightarrow> pool_ptr \<Rightarrow> ptr \<Rightarrow> (rts, unit) prog" where
  "deque_pool_add victim p d =
     bindP (gets r_tls) (\<lambda>w. block [
       bindP (ld_wk wk_lock victim) (\<lambda>m. CILK_ASSERT ''victim->l->lock.owner == w'' (mx_owner m = w)),
       bindP (ld_dq dq_resumable d) (\<lambda>r.
         if r \<noteq> 0 then CILK_ASSERT ''&victim->l->resumable_deques == p'' (p = (victim, RESUMABLE))
         else CILK_ASSERT ''&victim->l->suspended_deques == p'' (p = (victim, SUSPENDED))),
       bindP (ld_pool dp_size p) (\<lambda>n. bindP (ld_pool dp_capacity p) (\<lambda>cap.
         whenP (n = cap) (pool_resize p (2 * cap)))),
       bindP (ld_pool dp_size p) (\<lambda>n. st_dq d (dq_self_update (\<lambda>_. int n))),
       st_dq d (dq_worker_update (\<lambda>_. victim)),
       bindP (ld_pool dp_size p) (\<lambda>n. block [write_cell p n d, st_pool p (dp_size_update (\<lambda>_. n + 1))]),
       bindP (ld_pool dp_size p) (\<lambda>n. bindP (ld_pool dp_capacity p) (\<lambda>cap.
         CILK_ASSERT ''p->size <= p->capacity'' (n \<le> cap))),
       deque_pool_validate p victim])"

definition deque_pool_remove :: "pool_ptr \<Rightarrow> ptr \<Rightarrow> (rts, unit) prog" where
  "deque_pool_remove p d =
     bindP (ld_pool dp_size p) (\<lambda>n.
     bindP (ld_dq dq_self d) (\<lambda>self. block [
       CILK_ASSERT ''d->self >= 0 && d->self < p->size'' (self \<ge> 0 \<and> nat self < n),
       bindP (read_cell p (nat self)) (\<lambda>x. CILK_ASSERT ''p->array[d->self] == d'' (x = d)),
       bindP (read_cell p (n - 1)) (\<lambda>x. write_cell p (nat self) x),
       bindP (read_cell p (n - 1)) (\<lambda>x. st_dq x (dq_self_update (\<lambda>_. self))),
       write_cell p (n - 1) NULL,
       st_pool p (dp_size_update (\<lambda>_. n - 1)),
       st_dq d (dq_self_update (\<lambda>_. INVALID_DEQUE_INDEX)),
       bindP (ld_dq dq_worker d) (deque_pool_validate p),
       st_dq d (dq_worker_update (\<lambda>_. NULL))]))"

section \<open>A pool is a bag\<close>

lemma run_ld_pool [run]:
  "ld_pool f p s = (case worker_at s (fst p) of None \<Rightarrow> Inl Segfault
     | Some x \<Rightarrow> Inr (f (pool_of (snd p) x), s))"
  by (simp add: ld_pool_def run)

lemma run_st_pool [run]:
  "st_pool p f s = (case worker_at s (fst p) of None \<Rightarrow> Inl Segfault
     | Some x \<Rightarrow> Inr ((), s\<lparr>r_workers := (r_workers s)(fst p \<mapsto> set_pool (snd p) (f (pool_of (snd p) x)) x)\<rparr>))"
  by (simp add: st_pool_def run)

lemma pool_set [simp]:
  "pool_of k (set_pool k p x) = p" "set_pool k q (set_pool k p x) = set_pool k q x"
  "wk_lock (set_pool k p x) = wk_lock x"
  by (cases k; simp)+

text \<open>
  The state of a pool and of its deques: the first \<open>size\<close> cells hold \<open>ds\<close>, and each of these
  deques knows its cell, its pool and the owner of the pool.
\<close>

definition in_pool :: "pool_ptr \<Rightarrow> nat \<Rightarrow> deque \<Rightarrow> bool" where
  "in_pool p i d \<longleftrightarrow> dq_self d = int i \<and> dq_worker d = fst p \<and> (dq_resumable d \<noteq> 0 \<longleftrightarrow> snd p = RESUMABLE)"

definition pool_holds :: "rts \<Rightarrow> pool_ptr \<Rightarrow> ptr list \<Rightarrow> bool" where
  "pool_holds s p ds \<longleftrightarrow> (\<exists>x xs. worker_at s (fst p) = Some x \<and> dp_array (pool_of (snd p) x) = Some xs
     \<and> dp_size (pool_of (snd p) x) = length ds \<and> take (length ds) xs = ds
     \<and> length xs = dp_capacity (pool_of (snd p) x) \<and> length ds \<le> length xs \<and> xs \<noteq> []
     \<and> mx_owner (wk_lock x) = r_tls s \<and> r_tls s \<noteq> NULL)
   \<and> distinct ds \<and> (\<forall>i < length ds. \<exists>d. deque_at s (ds ! i) = Some d \<and> in_pool p i d)"

lemma validate_ok:
  assumes "worker_at s (fst p) = Some x" "dp_array (pool_of (snd p) x) = Some xs"
    and "dp_size (pool_of (snd p) x) \<le> length xs" "NULL \<notin> set (take (dp_size (pool_of (snd p) x)) xs)"
    and "worker_at s w = Some y" "mx_owner (wk_lock y) \<noteq> NULL"
  shows "deque_pool_validate p w s = Inr ((), s)"
proof -
  have "read_cell p i s = Inr (xs ! i, s) \<and> xs ! i \<noteq> NULL" if "i < dp_size (pool_of (snd p) x)" for i
  proof -
    have "xs ! i \<in> set (take (dp_size (pool_of (snd p) x)) xs)"
      using that assms(3) by (auto simp: in_set_conv_nth intro!: exI [of _ i])
    then have "xs ! i \<noteq> NULL" using assms(4) by (intro notI) simp
    then show ?thesis using assms that by (simp add: read_cell_def run)
  qed
  then have "block (map (\<lambda>i. bindP (read_cell p i) (\<lambda>d. CILK_ASSERT ''0'' (d \<noteq> NULL)))
      [0..<dp_size (pool_of (snd p) x)]) s = Inr ((), s)"
    by (intro run_checks) (auto simp: run)
  with assms show ?thesis by (simp add: deque_pool_validate_def run)
qed

lemma pool_no_NULL: "pool_holds s p ds \<Longrightarrow> NULL \<notin> set ds"
  by (force simp: pool_holds_def in_set_conv_nth)

text \<open>What the operations on a pool leave alone: everything but the places of deques, the pool, and the heap top.\<close>

definition place_free :: "deque \<Rightarrow> deque" where
  "place_free d = d\<lparr>dq_self := 0, dq_worker := NULL\<rparr>"

definition pool_change :: "pool_ptr \<Rightarrow> rts \<Rightarrow> rts \<Rightarrow> bool" where
  "pool_change p s t \<longleftrightarrow> (\<forall>q. map_option place_free (r_deques t q) = map_option place_free (r_deques s q))
     \<and> (\<forall>q. q \<noteq> fst p \<longrightarrow> r_workers t q = r_workers s q)
     \<and> map_option (set_pool (snd p) sample_pool) (r_workers t (fst p))
       = map_option (set_pool (snd p) sample_pool) (r_workers s (fst p))
     \<and> r_frames t = r_frames s \<and> r_sfs t = r_sfs s \<and> r_fibers t = r_fibers s \<and> r_fm t = r_fm s
     \<and> r_g t = r_g s \<and> r_tls t = r_tls s \<and> r_cur_fiber t = r_cur_fiber s \<and> r_excs t = r_excs s
     \<and> r_rmaps t = r_rmaps s \<and> r_fiber_supply t = r_fiber_supply s"

lemma pool_change_refl: "pool_change p s s"
  by (simp add: pool_change_def)

lemma pool_change_trans: "pool_change p s t \<Longrightarrow> pool_change p t u \<Longrightarrow> pool_change p s u"
  by (simp add: pool_change_def)

lemma resize_ok:
  assumes "worker_at s (fst p) = Some x" "dp_array (pool_of (snd p) x) = Some xs"
    and "dp_size (pool_of (snd p) x) < cap" "0 < r_mem_left s"
  shows "pool_resize p cap s = Inr ((), s\<lparr>r_workers := (r_workers s)(fst p \<mapsto> set_pool (snd p)
      \<lparr>dp_array = Some (take (dp_size (pool_of (snd p) x)) xs
          @ replicate (cap - dp_size (pool_of (snd p) x)) NULL),
        dp_size = dp_size (pool_of (snd p) x), dp_capacity = cap\<rparr> x),
      r_brk := r_brk s + 1, r_mem_left := r_mem_left s - 1\<rparr>)"
  using assms by (cases "pool_of (snd p) x") (auto simp: pool_resize_def run dest: deref_SomeD)

text \<open>Adding where there is room.\<close>

definition with_pool :: "pool_kind \<Rightarrow> worker \<Rightarrow> ptr list \<Rightarrow> nat \<Rightarrow> worker" where
  "with_pool k x xs n = set_pool k \<lparr>dp_array = Some xs, dp_size = n, dp_capacity = length xs\<rparr> x"

lemma with_pool_simps [simp]:
  "pool_of k (with_pool k x xs n) = \<lparr>dp_array = Some xs, dp_size = n, dp_capacity = length xs\<rparr>"
  "wk_lock (with_pool k x xs n) = wk_lock x"
  "set_pool k q (with_pool k x xs n) = set_pool k q x"
  by (simp_all add: with_pool_def)

lemma pool_holdsE:
  assumes "pool_holds s p ds"
  obtains x xs where "worker_at s (fst p) = Some x"
    "pool_of (snd p) x = \<lparr>dp_array = Some xs, dp_size = length ds, dp_capacity = length xs\<rparr>"
    "take (length ds) xs = ds" "length ds \<le> length xs" "xs \<noteq> []" "mx_owner (wk_lock x) = r_tls s" "r_tls s \<noteq> NULL"
proof -
  obtain x xs where x: "worker_at s (fst p) = Some x" "dp_array (pool_of (snd p) x) = Some xs"
      "dp_size (pool_of (snd p) x) = length ds" "take (length ds) xs = ds"
      "length xs = dp_capacity (pool_of (snd p) x)" "length ds \<le> length xs" "xs \<noteq> []"
      "mx_owner (wk_lock x) = r_tls s" "r_tls s \<noteq> NULL"
    using assms by (auto simp: pool_holds_def)
  then have "pool_of (snd p) x = \<lparr>dp_array = Some xs, dp_size = length ds, dp_capacity = length xs\<rparr>"
    by (cases "pool_of (snd p) x") simp
  with x that show thesis by blast
qed

lemma add_with_room:
  assumes x: "worker_at s v = Some x" "pool_of k x = \<lparr>dp_array = Some xs, dp_size = n, dp_capacity = length xs\<rparr>"
    and n: "n < length xs" "NULL \<notin> set (take n xs)"
    and own: "mx_owner (wk_lock x) = r_tls s" "r_tls s \<noteq> NULL"
    and d: "deque_at s d = Some y" "dq_resumable y \<noteq> 0 \<longleftrightarrow> k = RESUMABLE"
  shows "deque_pool_add v (v, k) d s = Inr ((), s\<lparr>r_deques := (r_deques s)(d \<mapsto> y\<lparr>dq_self := int n, dq_worker := v\<rparr>),
     r_workers := (r_workers s)(v \<mapsto> with_pool k x (xs[n := d]) (n + 1))\<rparr>)"
proof -
  have z: "v \<noteq> NULL" "d \<noteq> NULL" using x(1) d(1) by (auto dest: deref_SomeD)
  let ?x = "with_pool k x (xs[n := d]) (n + 1)"
  let ?t = "s\<lparr>r_deques := (r_deques s)(d \<mapsto> y\<lparr>dq_self := int n, dq_worker := v\<rparr>),
     r_workers := (r_workers s)(v \<mapsto> ?x)\<rparr>"
  have "NULL \<notin> set (take (n + 1) (xs[n := d]))"
    using n z by (auto simp: take_update_swap [symmetric] take_Suc_conv_app_nth)
  then have "deque_pool_validate (v, k) v ?t = Inr ((), ?t)"
    using z n own
    by (intro validate_ok [where x = ?x and xs = "xs[n := d]" and y = ?x]) simp_all
  with x n own d z show ?thesis
    by (cases k) (simp_all add: deque_pool_add_def run read_cell_def write_cell_def with_pool_def)
qed

lemma place_free_simps [simp]:
  "place_free (d\<lparr>dq_self := i\<rparr>) = place_free d" "place_free (d\<lparr>dq_worker := v\<rparr>) = place_free d"
  by (simp_all add: place_free_def)

text \<open>Growing the array keeps what the pool holds.\<close>

lemma grow_pool:
  assumes h: "pool_holds s (v, k) ds" and cap: "length ds < cap" and left: "0 < r_mem_left s"
  shows "\<exists>u. pool_resize (v, k) cap s = Inr ((), u) \<and> pool_holds u (v, k) ds \<and> pool_change (v, k) s u
     \<and> r_deques u = r_deques s \<and> r_mem_left u + 1 = r_mem_left s
     \<and> (\<exists>x. worker_at u v = Some x \<and> dp_capacity (pool_of k x) = cap)"
proof -
  obtain x xs where x: "worker_at s (fst (v, k)) = Some x"
    "pool_of (snd (v, k)) x = \<lparr>dp_array = Some xs, dp_size = length ds, dp_capacity = length xs\<rparr>"
    "take (length ds) xs = ds" "length ds \<le> length xs" "xs \<noteq> []" "mx_owner (wk_lock x) = r_tls s" "r_tls s \<noteq> NULL"
    by (rule pool_holdsE [OF h])
  have v: "v \<noteq> NULL" using x(1) by (auto dest: deref_SomeD)
  let ?x = "with_pool k x (ds @ replicate (cap - length ds) NULL) (length ds)"
  let ?u = "s\<lparr>r_workers := (r_workers s)(v \<mapsto> ?x), r_brk := r_brk s + 1, r_mem_left := r_mem_left s - 1\<rparr>"
  have "pool_resize (v, k) cap s = Inr ((), ?u)"
    using resize_ok [of s "(v, k)" x xs cap] x cap left by (simp add: with_pool_def)
  moreover have "pool_holds ?u (v, k) ds" using h x v cap by (simp add: pool_holds_def)
  moreover have "pool_change (v, k) s ?u" using x(1) by (auto simp: pool_change_def dest: deref_SomeD)
  ultimately show ?thesis using v left cap by (intro exI [of _ ?u]) simp
qed

lemma add_ok:
  assumes h: "pool_holds s (v, k) ds" and left: "0 < r_mem_left s"
    and d: "deque_at s d = Some y" "dq_resumable y \<noteq> 0 \<longleftrightarrow> k = RESUMABLE" "d \<notin> set ds"
  shows "\<exists>t. deque_pool_add v (v, k) d s = Inr ((), t) \<and> pool_holds t (v, k) (ds @ [d])
     \<and> pool_change (v, k) s t \<and> r_mem_left s \<le> r_mem_left t + 1"
proof -
  have room: ?thesis if hh: "pool_holds u (v, k) ds" "deque_at u d = Some y" "pool_change (v, k) s u"
      "r_mem_left s \<le> r_mem_left u + 1" "deque_pool_add v (v, k) d s = deque_pool_add v (v, k) d u"
      "worker_at u v = Some x'" "length ds < dp_capacity (pool_of k x')" for u x'
  proof -
    obtain x xs where x: "worker_at u (fst (v, k)) = Some x"
      "pool_of (snd (v, k)) x = \<lparr>dp_array = Some xs, dp_size = length ds, dp_capacity = length xs\<rparr>"
      "take (length ds) xs = ds" "length ds \<le> length xs" "xs \<noteq> []" "mx_owner (wk_lock x) = r_tls u" "r_tls u \<noteq> NULL"
      by (rule pool_holdsE [OF hh(1)])
    have z: "v \<noteq> NULL" "d \<noteq> NULL" using x(1) d(1) by (auto dest: deref_SomeD)
    have n: "length ds < length xs" using hh(6,7) x(1,2) by simp
    let ?t = "u\<lparr>r_deques := (r_deques u)(d \<mapsto> y\<lparr>dq_self := int (length ds), dq_worker := v\<rparr>),
       r_workers := (r_workers u)(v \<mapsto> with_pool k x (xs[length ds := d]) (length ds + 1))\<rparr>"
    have "NULL \<notin> set (take (length ds) xs)" using pool_no_NULL [OF hh(1)] x(3) by simp
    from add_with_room [OF x(1,2) [unfolded fst_conv snd_conv] n this x(6,7) hh(2) d(2)]
    have "deque_pool_add v (v, k) d s = Inr ((), ?t)" using hh(5) by simp
    moreover have "take (length (ds @ [d])) (xs[length ds := d]) = ds @ [d]"
      using n x(3) by (simp add: take_Suc_conv_app_nth)
    then have "pool_holds ?t (v, k) (ds @ [d])"
      using hh(1) x z n d(2,3) by (auto simp: pool_holds_def in_pool_def nth_append less_Suc_eq set_conv_nth)
    moreover have "pool_change (v, k) u ?t"
      using x(1) hh(2) by (auto simp: pool_change_def dest!: deref_SomeD)
    ultimately show ?thesis using pool_change_trans [OF hh(3)] hh(4) by (intro exI [of _ ?t]) simp
  qed
  obtain x xs where x: "worker_at s (fst (v, k)) = Some x"
    "pool_of (snd (v, k)) x = \<lparr>dp_array = Some xs, dp_size = length ds, dp_capacity = length xs\<rparr>"
    "take (length ds) xs = ds" "length ds \<le> length xs" "xs \<noteq> []" "mx_owner (wk_lock x) = r_tls s" "r_tls s \<noteq> NULL"
    by (rule pool_holdsE [OF h])
  show ?thesis
  proof (cases "length ds < length xs")
    case True
    show ?thesis by (rule room [OF h d(1) pool_change_refl]) (use x True in auto)
  next
    case False
    then have "length ds < 2 * length xs" using x(4,5) by (cases xs) auto
    from grow_pool [OF h this left] obtain u x' where u: "pool_resize (v, k) (2 * length xs) s = Inr ((), u)"
        "pool_holds u (v, k) ds" "pool_change (v, k) s u" "r_deques u = r_deques s" "r_mem_left u + 1 = r_mem_left s"
        "worker_at u v = Some x'" "dp_capacity (pool_of k x') = 2 * length xs" by blast
    obtain x2 xs2 where x2: "worker_at u (fst (v, k)) = Some x2"
      "pool_of (snd (v, k)) x2 = \<lparr>dp_array = Some xs2, dp_size = length ds, dp_capacity = length xs2\<rparr>"
      "mx_owner (wk_lock x2) = r_tls u"
      using u(2) by (rule pool_holdsE)
    have tls: "r_tls u = r_tls s" using u(3) by (simp add: pool_change_def)
    have "deque_pool_add v (v, k) d s = deque_pool_add v (v, k) d u"
      using x x2 u False d tls by (cases k) (simp_all add: deque_pool_add_def run)
    from room [OF u(2) _ u(3) _ this u(6)] show ?thesis
      using d(1) u(4,5,7) \<open>length ds < 2 * length xs\<close> by simp
  qed
qed

text \<open>Removing puts the last deque into the cell that becomes free.\<close>

definition swap_out :: "nat \<Rightarrow> ptr list \<Rightarrow> ptr list" where
  "swap_out i ds = butlast (ds[i := last ds])"

lemma swap_out_simps:
  assumes "i < length ds"
  shows "length (swap_out i ds) = length ds - 1"
    and "j < length ds - 1 \<Longrightarrow> swap_out i ds ! j = (if j = i then ds ! (length ds - 1) else ds ! j)"
    and "mset (swap_out i ds) = mset ds - {#ds ! i#}"
proof -
  show "length (swap_out i ds) = length ds - 1" by (simp add: swap_out_def)
  show "swap_out i ds ! j = (if j = i then ds ! (length ds - 1) else ds ! j)" if "j < length ds - 1"
    using that assms by (cases "ds = []") (auto simp: swap_out_def nth_butlast last_conv_nth)
  obtain cs z where ds: "ds = cs @ [z]" using assms by (cases ds rule: rev_cases) auto
  show "mset (swap_out i ds) = mset ds - {#ds ! i#}"
    using assms by (cases "i = length cs") (auto simp: ds swap_out_def list_update_append nth_append mset_update)
qed

lemma remove_ok:
  assumes h: "pool_holds s (v, k) ds" and d: "d \<in> set ds"
  shows "\<exists>t es. deque_pool_remove (v, k) d s = Inr ((), t) \<and> pool_holds t (v, k) es
     \<and> mset es = mset ds - {#d#} \<and> pool_change (v, k) s t \<and> r_mem_left t = r_mem_left s
     \<and> (\<exists>y. deque_at t d = Some y \<and> dq_self y = INVALID_DEQUE_INDEX \<and> dq_worker y = NULL)"
proof -
  obtain i where i: "i < length ds" "ds ! i = d" using d by (auto simp: in_set_conv_nth)
  obtain x xs where x: "worker_at s (fst (v, k)) = Some x"
    "pool_of (snd (v, k)) x = \<lparr>dp_array = Some xs, dp_size = length ds, dp_capacity = length xs\<rparr>"
    "take (length ds) xs = ds" "length ds \<le> length xs" "xs \<noteq> []" "mx_owner (wk_lock x) = r_tls s" "r_tls s \<noteq> NULL"
    by (rule pool_holdsE [OF h])
  have dist: "distinct ds" and all: "\<forall>j < length ds. \<exists>y. deque_at s (ds ! j) = Some y \<and> in_pool (v, k) j y"
    using h by (auto simp: pool_holds_def)
  have xs: "xs ! j = ds ! j" if "j < length ds" for j using that x(3,4) by (metis nth_take)
  let ?n = "length ds - 1" let ?l = "ds ! ?n"
  have n: "?n < length ds" "i \<le> ?n" using i by auto
  obtain y where y: "deque_at s d = Some y" "dq_self y = int i" "dq_worker y = v"
    using all i by (auto simp: in_pool_def)
  obtain z where z: "deque_at s ?l = Some z" "in_pool (v, k) ?n z" using all n by blast
  have nz: "v \<noteq> NULL" "d \<noteq> NULL" "?l \<noteq> NULL" using x(1) y(1) z(1) by (auto dest: deref_SomeD)
  let ?xs = "xs[i := ?l, ?n := NULL]"
  let ?x = "with_pool k x ?xs ?n"
  let ?d1 = "(r_deques s)(?l \<mapsto> z\<lparr>dq_self := int i\<rparr>)"
  let ?y = "if d = ?l then z\<lparr>dq_self := int i\<rparr> else y"
  let ?u = "s\<lparr>r_workers := (r_workers s)(v \<mapsto> ?x), r_deques := ?d1(d \<mapsto> ?y\<lparr>dq_self := INVALID_DEQUE_INDEX\<rparr>)\<rparr>"
  let ?t = "s\<lparr>r_workers := (r_workers s)(v \<mapsto> ?x),
     r_deques := ?d1(d \<mapsto> ?y\<lparr>dq_self := INVALID_DEQUE_INDEX, dq_worker := NULL\<rparr>)\<rparr>"
  have take: "take ?n ?xs = swap_out i ds"
  proof (rule nth_equalityI)
    show "length (take ?n ?xs) = length (swap_out i ds)" using x(4) i by (simp add: swap_out_simps)
    show "take ?n ?xs ! j = swap_out i ds ! j" if "j < length (take ?n ?xs)" for j
      using that x(4) i by (auto simp: swap_out_simps xs nth_list_update)
  qed
  have bag: "mset (swap_out i ds) = mset ds - {#d#}" using swap_out_simps(3) [OF i(1)] i(2) by simp
  then have "mset (swap_out i ds) = mset (remove1 d ds)" by simp
  then have sub: "set (swap_out i ds) = set ds - {d}" "distinct (swap_out i ds)"
    using dist by (metis set_mset_mset set_remove1_eq, metis distinct_remove1 mset_eq_imp_distinct_iff)
  have no: "NULL \<notin> set (take ?n ?xs)" unfolding take sub using pool_no_NULL [OF h] by blast
  have "deque_pool_validate (v, k) v ?u = Inr ((), ?u)"
    using nz x no n by (intro validate_ok [where x = ?x and xs = ?xs and y = ?x]) simp_all
  then have "deque_pool_remove (v, k) d s = Inr ((), ?t)"
    using x y z nz n i xs xs [of i] xs [of ?n]
    by (auto simp: deque_pool_remove_def run read_cell_def write_cell_def with_pool_def nth_list_update)
  moreover have "pool_holds ?t (v, k) (swap_out i ds)"
  proof -
    have "\<exists>w. deque_at ?t (swap_out i ds ! j) = Some w \<and> in_pool (v, k) j w" if j: "j < ?n" for j
    proof -
      have "swap_out i ds ! j \<noteq> d" using sub(1) j i by (metis DiffE nth_mem singletonI swap_out_simps(1))
      then show ?thesis
        using swap_out_simps(2) [OF i(1) j] all n z(2) nz j dist
        by (cases "j = i") (auto simp: in_pool_def nth_eq_iff_index_eq z)
    qed
    then show ?thesis
      using x(4-7) nz i n take sub(2) swap_out_simps(1) [OF i(1)] by (simp add: pool_holds_def)
  qed
  moreover have "pool_change (v, k) s ?t"
    using x(1) y(1) z(1) by (auto simp: pool_change_def dest!: deref_SomeD)
  moreover have "\<exists>y. deque_at ?t d = Some y \<and> dq_self y = INVALID_DEQUE_INDEX \<and> dq_worker y = NULL"
    using nz by simp
  ultimately show ?thesis using bag by (intro exI [of _ ?t] exI [of _ "swap_out i ds"]) simp
qed

lemma pool_change_deque:
  "pool_change p s t \<Longrightarrow> map_option place_free (deque_at t q) = map_option place_free (deque_at s q)"
  by (simp add: pool_change_def deref_def)

lemma resumable_place_free: "dq_resumable (place_free d) = dq_resumable d"
  by (simp add: place_free_def)

definition fits_pool :: "pool_kind \<Rightarrow> rts \<Rightarrow> ptr \<Rightarrow> bool" where
  "fits_pool k s d \<longleftrightarrow> (\<exists>y. deque_at s d = Some y \<and> (dq_resumable y \<noteq> 0 \<longleftrightarrow> k = RESUMABLE))"

lemma pool_change_fits:
  assumes "pool_change p s t"
  shows "fits_pool k t d = fits_pool k s d"
proof -
  have "map_option dq_resumable (map_option place_free (deque_at t d))
      = map_option dq_resumable (map_option place_free (deque_at s d))"
    by (simp only: pool_change_deque [OF assms])
  then have "map_option dq_resumable (deque_at t d) = map_option dq_resumable (deque_at s d)"
    by (simp add: option.map_comp o_def resumable_place_free)
  then show ?thesis
    by (cases "deque_at t d"; cases "deque_at s d") (simp_all add: fits_pool_def)
qed

interpretation pool_bag: container "\<lambda>s M. \<exists>ds. pool_holds s (v, k) ds \<and> mset ds = M" "\<lambda>d M. d \<in># M"
  add_mset "\<lambda>d M. M - {#d#}" "fits_pool k" r_mem_left "pool_change (v, k)"
  "deque_pool_add v (v, k)" "deque_pool_remove (v, k)" for v k
proof (unfold_locales, goal_cases)
  case (1 s)
  then show ?case by (rule pool_change_refl)
next
  case (2 s t u)
  then show ?case by (rule pool_change_trans)
next
  case (3 s t)
  then show ?case by (simp add: pool_change_fits fun_eq_iff)
next
  case (4 s M d)
  then obtain ds where ds: "pool_holds s (v, k) ds" "mset ds = M" by blast
  with 4 obtain y where "deque_at s d = Some y" "dq_resumable y \<noteq> 0 \<longleftrightarrow> k = RESUMABLE" "d \<notin> set ds"
    by (auto simp: fits_pool_def)
  from add_ok [OF ds(1) 4(4) this] ds(2) show ?case by force
next
  case (5 s M d)
  then show ?case using remove_ok [of s v k _ d] by (metis order_refl set_mset_mset)
qed

text \<open>
  C15. A pool of deques is a bag in which every deque knows its place. Under its lock, any
  sequence of additions of deques that are not in the pool and removals of deques that are
  succeeds, growing the array when it is full; afterwards the pool holds exactly the deques
  added and not removed, each has the index of its cell and the owner of the pool, and of
  the deques nothing but their place has changed.
\<close>

theorem pool_is_a_bag:
  assumes "pool_holds s (v, k) ds" and "length ops \<le> r_mem_left s"
    and "ops_fit (\<lambda>d M. d \<in># M) add_mset (\<lambda>d M. M - {#d#}) (fits_pool k s) ops (mset ds)"
  shows "\<exists>t es. block (map (case_container_op (deque_pool_add v (v, k)) (deque_pool_remove (v, k))) ops) s = Inr ((), t)
     \<and> pool_holds t (v, k) es \<and> mset es = fold (apply_op add_mset (\<lambda>d M. M - {#d#})) ops (mset ds)
     \<and> pool_change (v, k) s t"
proof -
  have "\<exists>cs. pool_holds s (v, k) cs \<and> mset cs = mset ds" using assms(1) by blast
  from pool_bag.ops_on_contents [OF this assms(3,2)] show ?thesis by blast
qed

definition two_deques :: rts where
  "two_deques = sample_rts\<lparr>r_workers := [10 \<mapsto> sample_worker\<lparr>wk_lock := held_by 10\<rparr>],
     r_deques := [20 \<mapsto> sample_deque, 21 \<mapsto> sample_deque, 22 \<mapsto> sample_deque]\<rparr>"

lemma two_deques_holds: "pool_holds two_deques (10, SUSPENDED) []"
  by (simp add: pool_holds_def two_deques_def sample_worker_def sample_pool_def deref_def sample_rts_def)

lemma two_deques_fit: "fits_pool SUSPENDED two_deques 20" "fits_pool SUSPENDED two_deques 21"
  "fits_pool SUSPENDED two_deques 22" "r_mem_left two_deques = 10"
  by (simp_all add: two_deques_def sample_rts_def fits_pool_def deref_def sample_deque_def)

theorem pool_is_a_bag_witness:
  "\<exists>t. block [deque_pool_add 10 (10, SUSPENDED) 20, deque_pool_add 10 (10, SUSPENDED) 21,
       deque_pool_add 10 (10, SUSPENDED) 22, deque_pool_remove (10, SUSPENDED) 20] two_deques = Inr ((), t)
     \<and> (\<exists>es. pool_holds t (10, SUSPENDED) es \<and> mset es = {#22, 21#})"
  using pool_is_a_bag [OF two_deques_holds, of "[Add 20, Add 21, Add 22, Remove 20]"]
  by (auto simp: two_deques_fit)

end
