(* ===== verification/Fiber.thy ===== *)
theory Fiber
  imports Worker_Lock
begin

text \<open>
  What the scheduler uses of fibers (\<open>cilk_fiber.cpp\<close>, \<open>cilk_fiber-unix.cpp\<close>): taking one from
  the pool and giving it back, and the switch from one fiber to another, which passes the
  owner on and leaves it to the fiber that wakes up to mark the other as resumable. The pools
  are one supply here; \<open>Fiber_Pool\<close> has the pools themselves and shows that they keep the same contract
  (\<open>fiber_supply\<close>). The memory of stacks and the jump buffers are not modelled. The deque of the
  fibers of futures (\<open>cilk_future_fiber_deque.cpp\<close>) follows.
\<close>

section \<open>Fibers\<close>

definition fresh_fiber :: fiber where
  "fresh_fiber = \<lparr>fb_owner = NULL, fb_resume_sf = NULL, fb_resumable = False, fb_from = NULL,
     fb_pending_remove = NULL, fb_post_switch = No_proc, fb_from_thread = False\<rparr>"

definition cilk_fiber_allocate :: "ptr \<Rightarrow> (rts, ptr) prog" where
  "cilk_fiber_allocate w = bindP (gets r_fiber_supply) (\<lambda>fs. case fs of
     [] \<Rightarrow> ret NULL
   | f # fs \<Rightarrow> result [modify (\<lambda>s. s\<lparr>r_fiber_supply := fs, r_fibers := (r_fibers s)(f \<mapsto> fresh_fiber)\<rparr>)] (ret f))"

text \<open>Without \<open>NEED_FIBER_REF_COUNTS\<close>, which only Windows has, every reference is the last one.\<close>

definition cilk_fiber_remove_reference :: "ptr \<Rightarrow> ptr \<Rightarrow> (rts, int) prog" where
  "cilk_fiber_remove_reference fiber w = result [
     ld_fb (\<lambda>_. ()) fiber,
     modify (\<lambda>s. s\<lparr>r_fibers := (r_fibers s)(fiber := None), r_fiber_supply := fiber # r_fiber_supply s\<rparr>)]
   (ret 0)"

text \<open>Taking a fiber moves the pages of its stack to the memory of this processor.\<close>

definition cilk_fiber_take :: "ptr \<Rightarrow> (rts, unit) prog" where
  "cilk_fiber_take fiber = ld_fb (\<lambda>_. ()) fiber"

definition cilk_fiber_is_resumable :: "ptr \<Rightarrow> (rts, bool) prog" where
  "cilk_fiber_is_resumable fiber = ld_fb fb_resumable fiber"

definition cilk_fiber_get_current_fiber :: "(rts, ptr) prog" where
  "cilk_fiber_get_current_fiber = gets r_cur_fiber"

definition cilk_fiber_reset_state :: "ptr \<Rightarrow> (rts, unit) prog" where
  "cilk_fiber_reset_state fiber = block [
     bindP (ld_fb fb_resumable fiber) (\<lambda>r. CILK_ASSERT ''!this->is_resumable()'' (\<not> r)),
     bindP (ld_fb fb_pending_remove fiber) (\<lambda>p. CILK_ASSERT ''NULL == this->m_pending_remove_ref'' (p = NULL))]"

text \<open>Control passes to \<open>other\<close>; its owner is the owner of the fiber that is left.\<close>

definition pass_owner :: "ptr \<Rightarrow> ptr \<Rightarrow> (rts, unit) prog" where
  "pass_owner self other = block [
     bindP (ld_fb fb_owner self) (\<lambda>w. st_fb other (fb_owner_update (\<lambda>_. w))),
     st_fb self (fb_owner_update (\<lambda>_. NULL))]"

definition cilk_fiber_suspend_self_and_resume_other :: "ptr \<Rightarrow> ptr \<Rightarrow> (rts, unit) prog" where
  "cilk_fiber_suspend_self_and_resume_other self other = block [
     pass_owner self other,
     st_fb other (fb_from_update (\<lambda>_. self)),
     modify (\<lambda>s. s\<lparr>r_cur_fiber := other\<rparr>),
     bindP (ld_fb fb_resumable self) (\<lambda>r. CILK_ASSERT ''!this->is_resumable()'' (\<not> r)),
     bindP (ld_fb fb_resumable other) (\<lambda>r. whenP r (st_fb other (fb_resumable_update (\<lambda>_. False))))]"

definition cilk_fiber_remove_reference_from_self_and_resume_other :: "ptr \<Rightarrow> ptr \<Rightarrow> (rts, unit) prog" where
  "cilk_fiber_remove_reference_from_self_and_resume_other self other = block [
     st_fb other (fb_pending_remove_update (\<lambda>_. self)),
     pass_owner self other,
     bindP (ld_fb fb_resumable self) (\<lambda>r. CILK_ASSERT ''!this->is_resumable()'' (\<not> r)),
     modify (\<lambda>s. s\<lparr>r_cur_fiber := other\<rparr>),
     bindP (ld_fb fb_resumable other) (\<lambda>r. whenP r (st_fb other (fb_resumable_update (\<lambda>_. False))))]"

definition cilk_fiber_set_post_switch_proc :: "ptr \<Rightarrow> post_switch_proc \<Rightarrow> (rts, unit) prog" where
  "cilk_fiber_set_post_switch_proc fiber p = st_fb fiber (fb_post_switch_update (\<lambda>_. p))"

text \<open>
  The first thing a fiber does when it runs again. \<open>proc\<close> is the only post-switch procedure the
  runtime ever sets, \<open>enter_runtime_transition_proc\<close>, which calls back into the scheduler.
\<close>

definition do_post_switch_actions :: "(ptr \<Rightarrow> (rts, unit) prog) \<Rightarrow> ptr \<Rightarrow> (rts, unit) prog" where
  "do_post_switch_actions proc fiber = block [
     bindP (ld_fb fb_from fiber) (\<lambda>from. whenP (from \<noteq> NULL) (block [
       st_fb from (fb_resumable_update (\<lambda>_. True)),
       st_fb fiber (fb_from_update (\<lambda>_. NULL))])),
     bindP (ld_fb fb_post_switch fiber) (\<lambda>p. whenP (p \<noteq> No_proc) (block [
       st_fb fiber (fb_post_switch_update (\<lambda>_. No_proc)),
       proc fiber])),
     bindP (ld_fb fb_pending_remove fiber) (\<lambda>p. whenP (p \<noteq> NULL) (block [
       bindP (ld_fb fb_owner fiber) (\<lambda>w. bindP (cilk_fiber_remove_reference p w) (\<lambda>_. ret ())),
       st_fb fiber (fb_pending_remove_update (\<lambda>_. NULL))]))]"

section \<open>The fibers of futures\<close>

definition read_fiber_ltq :: "ptr \<Rightarrow> int \<Rightarrow> (rts, ptr) prog" where
  "read_fiber_ltq d i = bindP (ld_dq dq_fiber_ltq d) (\<lambda>xs.
     if 0 \<le> i \<and> nat i < length xs then ret (xs ! nat i) else failP Segfault)"

definition cilkrts_reset_future_fiber_deque :: "(rts, unit) prog" where
  "cilkrts_reset_future_fiber_deque =
     bindP (gets r_tls) (\<lambda>w. bindP (ld_wk wk_active_deque w) (\<lambda>d. block [
       st_dq d (dq_fiber_head_update (\<lambda>_. 0)),
       st_dq d (dq_fiber_tail_update (\<lambda>_. 0))]))"

definition cilkrts_enqueue_future_fiber :: "ptr \<Rightarrow> (rts, unit) prog" where
  "cilkrts_enqueue_future_fiber fiber =
     bindP (gets r_tls) (\<lambda>w. bindP (ld_wk wk_active_deque w) (\<lambda>d.
     bindP (ld_dq dq_fiber_tail d) (\<lambda>tail. bindP (ld_dq dq_fiber_ltq d) (\<lambda>xs. block [
       if 0 \<le> tail \<and> nat tail < length xs
         then st_dq d (dq_fiber_ltq_update (\<lambda>_. xs[nat tail := fiber])) else failP Segfault,
       CILK_ASSERT ''tail < curr_worker->l->active_deque->fiber_ltq_limit'' (tail + 1 < int (length xs)),
       st_dq d (dq_fiber_tail_update (\<lambda>_. tail + 1))]))))"

definition cilkrts_pop_tail_future_fiber :: "(rts, ptr) prog" where
  "cilkrts_pop_tail_future_fiber =
     bindP (gets r_tls) (\<lambda>w. bindP (ld_wk wk_active_deque w) (\<lambda>d.
     bindP (ld_dq dq_fiber_tail d) (\<lambda>tail. bindP (ld_dq dq_fiber_head d) (\<lambda>head. result [
       CILK_ASSERT ''t >= curr_worker->l->active_deque->fiber_head'' (tail - 1 \<ge> head),
       st_dq d (dq_fiber_tail_update (\<lambda>_. tail - 1))]
     (read_fiber_ltq d (tail - 1))))))"

definition cilkrts_pop_head_future_fiber :: "ptr \<Rightarrow> ptr \<Rightarrow> (rts, ptr) prog" where
  "cilkrts_pop_head_future_fiber victim d =
     bindP (ld_dq dq_fiber_head d) (\<lambda>h. result [
       st_dq d (dq_fiber_head_update (\<lambda>_. h + 1)),
       bindP (ld_dq dq_fiber_tail d) (\<lambda>tail. CILK_ASSERT ''d->fiber_head <= d->fiber_tail'' (h + 1 \<le> tail))]
     (read_fiber_ltq d h))"

end
