(* ===== verification/Deque.thy ===== *)
theory Deque
  imports Deque_Pool Fiber Full_Frame RNG
begin

text \<open>
  Deques (\<open>deque.c\<close>): the pointers of the THE protocol, the detaching of a stolen frame,
  making, switching, suspending and mugging whole deques, and the operations of
  \<open>deque_pool.c\<close> that suspend and resume deques for the client.
\<close>

section \<open>The pointers of a deque\<close>

definition read_ltq :: "ptr \<Rightarrow> int \<Rightarrow> (rts, ptr) prog" where
  "read_ltq d i = bindP (ld_dq dq_ltq d) (\<lambda>xs.
     if 0 \<le> i \<and> nat i < length xs then ret (xs ! nat i) else failP Segfault)"

definition can_take_fiber_from :: "ptr \<Rightarrow> (rts, bool) prog" where
  "can_take_fiber_from d =
     ld_dq (\<lambda>x. dq_fiber_head x < dq_fiber_tail x \<and> dq_fiber_head x < dq_fiber_protected_tail x) d"

definition fiber_dekker_protocol :: "ptr \<Rightarrow> (rts, bool) prog" where
  "fiber_dekker_protocol d = can_take_fiber_from d"

fun exc_add :: "int \<Rightarrow> exc_ptr \<Rightarrow> exc_ptr" where
  "exc_add k (Exc e) = Exc (e + k)"
| "exc_add k EXC_INFINITY = EXC_INFINITY"

definition increment_E :: "ptr \<Rightarrow> (rts, unit) prog" where
  "increment_E d = bindP (ld_dq dq_exc d) (\<lambda>tmp.
     whenP (tmp \<noteq> EXC_INFINITY) (st_dq d (dq_exc_update (\<lambda>_. exc_add 1 tmp))))"

definition decrement_E :: "ptr \<Rightarrow> (rts, unit) prog" where
  "decrement_E d = bindP (ld_dq dq_exc d) (\<lambda>tmp.
     whenP (tmp \<noteq> EXC_INFINITY) (st_dq d (dq_exc_update (\<lambda>_. exc_add (- 1) tmp))))"

definition reset_THE_exception :: "ptr \<Rightarrow> (rts, unit) prog" where
  "reset_THE_exception w = bindP (ld_wk wk_active_deque w) (\<lambda>d.
     bindP (ld_dq dq_head d) (\<lambda>h. st_dq d (dq_exc_update (\<lambda>_. Exc h))))"

definition can_steal_from :: "ptr \<Rightarrow> (rts, bool) prog" where
  "can_steal_from d = ld_dq (\<lambda>x. dq_head x < dq_tail x \<and> dq_head x < dq_protected_tail x) d"

definition dekker_protocol :: "ptr \<Rightarrow> (rts, bool) prog" where
  "dekker_protocol d =
     result [increment_E d] (bindP (can_steal_from d) (\<lambda>ok.
       if ok then ret True else result [decrement_E d] (ret False)))"

section \<open>Detaching a stolen frame\<close>

text \<open>\<open>*w->l->frame_ff\<close>.\<close>

definition current_ff :: "ptr \<Rightarrow> (rts, ptr) prog" where
  "current_ff w = bindP (ld_wk wk_the w) (\<lambda>d. ld_dq dq_frame_ff d)"

definition set_current_ff :: "ptr \<Rightarrow> ptr \<Rightarrow> (rts, unit) prog" where
  "set_current_ff w ff = bindP (ld_wk wk_the w) (\<lambda>d. st_dq d (dq_frame_ff_update (\<lambda>_. ff)))"

definition detach_for_steal :: "ptr \<Rightarrow> ptr \<Rightarrow> ptr \<Rightarrow> ptr \<Rightarrow> (rts, unit) prog" where
  "detach_for_steal w victim d fiber = block [
     bindP (ld_dq dq_team d) (\<lambda>team. bindP (ld_wk wk_active_deque w) (\<lambda>a.
       st_dq a (dq_team_update (\<lambda>_. team)))),
     bindP (current_ff w) (\<lambda>ff. CILK_ASSERT ''*w->l->frame_ff == 0 || w == victim'' (ff = NULL \<or> w = victim)),
     bindP (ld_dq dq_head d) (\<lambda>h. block [
       bindP (read_ltq d h) (\<lambda>sf. CILK_ASSERT ''*h'' (sf \<noteq> NULL)),
       st_dq d (dq_head_update (\<lambda>_. h + 1)),
       bindP (ld_dq dq_frame_ff d) (\<lambda>parent_ff. with_frame_lock w parent_ff [
         bindP (decjoin parent_ff) (\<lambda>_. ret ()),
         bindP (read_ltq d h) (\<lambda>sf. block [
           st_sf sf (sf_worker_update (\<lambda>_. victim)),
           bindP (unroll_call_stack w parent_ff sf) (\<lambda>loot_ff. block [
             bindP (if w = victim then ld_wk (\<lambda>x. d = wk_active_deque x) w else ret False) (\<lambda>own.
               if own then block [
                 bindP (ld_ff ff_call_stack loot_ff) (\<lambda>cs. bindP (ld_sf sf_flags cs) (\<lambda>f.
                   st_sf cs (sf_flags_update (\<lambda>_. set_flag CILK_FRAME_UNSYNCHED f)))),
                 st_ff loot_ff (ff_simulated_stolen_update (\<lambda>_. True))]
               else cilkrts_push_next_frame w loot_ff),
             bindP (make_child w loot_ff NULL fiber) (\<lambda>child_ff. with_frame_lock w child_ff [
               incjoin child_ff,
               bindP (ld_sf sf_flags sf) (\<lambda>f. whenP (has_flag f CILK_FRAME_FUTURE_PARENT)
                 (bindP (cilkrts_pop_head_future_fiber victim d) (\<lambda>fb. block [
                   st_ff child_ff (ff_fiber_self_update (\<lambda>_. fb)),
                   CILK_ASSERT ''child_ff->fiber_self'' (fb \<noteq> NULL)]))),
               make_runnable victim child_ff d])])])])])]"

definition cilkrts_promote_own_deque :: "ptr \<Rightarrow> (rts, unit) prog" where
  "cilkrts_promote_own_deque w =
     bindP (current_ff w) (\<lambda>ff. block [
       CILK_ASSERT ''*w->l->frame_ff'' (ff \<noteq> NULL),
       bindP (ld_ff ff_fiber_self ff) (\<lambda>starting_fiber.
       bindP (ld_wk wk_the w) (\<lambda>d. block [
         with_worker_lock w [
           bindP (ld_dq (\<lambda>x. length (dq_ltq x)) d) (\<lambda>n. loopP (Suc n) (\<lambda>_.
             bindP (dekker_protocol d) (\<lambda>ok.
               if ok then result [detach_for_steal w w d PLACEHOLDER_FIBER] (ret (Inl ()))
               else ret (Inr ()))) ())],
         bindP (current_ff w) (\<lambda>ff. block [
           CILK_ASSERT ''*w->l->frame_ff'' (ff \<noteq> NULL),
           bindP (ld_ff ff_fiber_self ff) (\<lambda>f.
             CILK_ASSERT ''(*w->l->frame_ff)->fiber_self == starting_fiber'' (f = starting_fiber))])]))])"

section \<open>Making, destroying and switching deques\<close>

definition zero_deque :: deque where
  "zero_deque = \<lparr>dq_tail = 0, dq_head = 0, dq_exc = Exc 0, dq_protected_tail = 0, dq_ltq = [],
     dq_fiber_tail = 0, dq_fiber_head = 0, dq_fiber_protected_tail = 0, dq_fiber_ltq = [],
     dq_frame_ff = NULL, dq_resumable = 0, dq_team = NULL, dq_fiber = NULL,
     dq_saved_ped = \<lparr>ped_rank = 0, ped_parent = PNULL\<rparr>, dq_call_stack = NULL, dq_link_next = NULL,
     dq_worker = NULL, dq_self = 0\<rparr>"

definition deque_init :: "ptr \<Rightarrow> nat \<Rightarrow> (rts, int) prog" where
  "deque_init d ltqsize =
     (if d = NULL then failP Segfault else
      result [modify (\<lambda>s. s\<lparr>r_deques := (r_deques s)(d \<mapsto> zero_deque)\<rparr>)]
       (bindP cilkrts_malloc (\<lambda>ltq. if ltq = NULL then ret (- 1) else
         result [st_dq d (dq_ltq_update (\<lambda>_. replicate ltqsize NULL))]
          (bindP cilkrts_malloc (\<lambda>fiber_ltq. if fiber_ltq = NULL
            then result [st_dq d (dq_ltq_update (\<lambda>_. []))] (ret (- 1))
            else result [
              st_dq d (dq_fiber_ltq_update (\<lambda>_. replicate ltqsize NULL)),
              st_dq d (\<lambda>x. x\<lparr>dq_exc := Exc 0, dq_tail := 0, dq_head := 0\<rparr>),
              st_dq d (dq_protected_tail_update (\<lambda>_. int ltqsize)),
              st_dq d (\<lambda>x. x\<lparr>dq_fiber_tail := 0, dq_fiber_head := 0\<rparr>),
              st_dq d (dq_fiber_protected_tail_update (\<lambda>_. int ltqsize))]
            (ret 0))))))"

definition deque_destroy :: "ptr \<Rightarrow> (rts, unit) prog" where
  "deque_destroy d = block [
     bindP (ld_dq (\<lambda>x. dq_head x = dq_tail x) d) (CILK_ASSERT ''d->head == d->tail''),
     modify (\<lambda>s. s\<lparr>r_deques := (r_deques s)(d := None)\<rparr>)]"

definition deque_switch :: "ptr \<Rightarrow> ptr \<Rightarrow> (rts, unit) prog" where
  "deque_switch w d = block [
     bindP (ld_wk wk_active_deque w) (\<lambda>a. CILK_ASSERT ''d == w->l->active_deque'' (d = a)),
     bindP (if d = NULL then ret True else ld_dq (\<lambda>x. ped_rank (dq_saved_ped x) = 0) d) (\<lambda>fresh.
       whenP fresh (block [
         st_wk w (wk_pedigree_update (ped_parent_update (\<lambda>_. PNULL))),
         st_wk w (wk_pedigree_update (ped_rank_update (\<lambda>_. 1)))])),
     if d = NULL then block [
       st_wk w (wk_the_update (\<lambda>_. NULL)),
       st_wk w (wk_current_stack_frame_update (\<lambda>_. NULL))]
     else block [
       bindP (ld_dq dq_resumable d) (\<lambda>r. whenP (r \<noteq> 0) (block [
         bindP (ld_dq dq_fiber d) (\<lambda>f. CILK_ASSERT ''d->fiber'' (f \<noteq> NULL)),
         bindP (ld_dq dq_call_stack d) (\<lambda>cs. block [
           CILK_ASSERT ''d->call_stack'' (cs \<noteq> NULL),
           st_sf cs (sf_worker_update (\<lambda>_. w))])])),
       bindP (ld_dq dq_worker d) (\<lambda>v. CILK_ASSERT ''d->worker == NULL'' (v = NULL)),
       st_dq d (dq_worker_update (\<lambda>_. w)),
       st_dq d (dq_self_update (\<lambda>_. ACTIVE_DEQUE_INDEX)),
       st_wk w (wk_the_update (\<lambda>_. d)),
       bindP (ld_dq dq_saved_ped d) (\<lambda>ped. st_wk w (wk_pedigree_update (\<lambda>_. ped))),
       bindP (ld_dq dq_call_stack d) (\<lambda>cs. st_wk w (wk_current_stack_frame_update (\<lambda>_. cs))),
       st_dq d (dq_saved_ped_update (\<lambda>_. \<lparr>ped_rank = 0, ped_parent = PNULL\<rparr>))]]"

definition deque_mug :: "ptr \<Rightarrow> ptr \<Rightarrow> (rts, unit) prog" where
  "deque_mug w d =
     bindP (ld_dq dq_worker d) (\<lambda>v. block [
       CILK_ASSERT ''d->worker'' (v \<noteq> NULL),
       bindP (ld_wk wk_lock v) (\<lambda>m. CILK_ASSERT ''d->worker->l->lock.owner == w'' (mx_owner m = w)),
       bindP (ld_dq dq_fiber d) (\<lambda>f. CILK_ASSERT ''d->fiber'' (f \<noteq> NULL)),
       bindP (ld_dq dq_resumable d) (\<lambda>r.
       bindP (ret (v, if r \<noteq> 0 then RESUMABLE else SUSPENDED)) (\<lambda>p. block [
         deque_pool_validate p v,
         deque_pool_remove p d])),
       bindP (ld_dq dq_call_stack d) (\<lambda>cs. st_sf cs (sf_worker_update (\<lambda>_. w)))])"

section \<open>Suspending deques\<close>

definition worker_no :: "int \<Rightarrow> (rts, ptr) prog" where
  "worker_no i = bindP (ld_g g_workers) (\<lambda>ws.
     if 0 \<le> i \<and> nat i < length ws then ret (ws ! nat i) else failP Segfault)"

text \<open>
  The worker that gets a deque: of two that are drawn the one whose pools are shorter, as
  \<open>longer\<close> compares them, or worker 0 when there is only one.
\<close>

definition pool_sizes :: "ptr \<Rightarrow> (rts, nat \<times> nat) prog" where
  "pool_sizes v = ld_wk (\<lambda>x. (dp_size (wk_resumable_deques x), dp_size (wk_suspended_deques x))) v"

definition choose_of_two :: "ptr \<Rightarrow> (nat \<times> nat \<Rightarrow> nat \<times> nat \<Rightarrow> bool) \<Rightarrow> (rts, ptr) prog" where
  "choose_of_two w longer =
     bindP (ld_g g_total_workers) (\<lambda>n.
       if n > 1 then
         bindP (myrand w) (\<lambda>r. bindP (myrand w) (\<lambda>r2.
         bindP (ret (any_worker n r)) (\<lambda>victim_idx.
         bindP (worker_no victim_idx) (\<lambda>victim.
         bindP (worker_no (skip_self n victim_idx r2)) (\<lambda>potential_victim.
         bindP (pool_sizes victim) (\<lambda>a. bindP (pool_sizes potential_victim) (\<lambda>b.
           ret (if longer a b then potential_victim else victim))))))))
       else worker_no 0)"

text \<open>A loop that waits for other threads is blocked while its condition holds.\<close>

definition wait_while :: "(rts, bool) prog \<Rightarrow> (rts, unit) prog" where
  "wait_while c = bindP c (\<lambda>b. if b then failP Blocked else ret ())"

definition cilkg_increment_active_workers :: "(rts, int) prog" where
  "cilkg_increment_active_workers = bindP (ld_g g_active_workers) (\<lambda>n.
     result [st_g (g_active_workers_update (\<lambda>_. n + 1))] (ret (n + 1)))"

definition cilkg_decrement_active_workers :: "(rts, int) prog" where
  "cilkg_decrement_active_workers = bindP (ld_g g_active_workers) (\<lambda>n.
     result [st_g (g_active_workers_update (\<lambda>_. n - 1))] (ret (n - 1)))"

text \<open>The last resumable deque of the worker, mugged, or NULL.\<close>

definition mug_own_resumable :: "ptr \<Rightarrow> (rts, ptr) prog" where
  "mug_own_resumable w = 
     result [on_worker_lock w (cilkrts_mutex_lock w)]
      (bindP (ld_pool dp_size (w, RESUMABLE)) (\<lambda>n.
       bindP (if n > 0 then bindP (read_cell (w, RESUMABLE) (n - 1)) (\<lambda>d.
           result [deque_mug w d] (ret d)) else ret NULL) (\<lambda>new_deque.
       result [on_worker_lock w (cilkrts_mutex_unlock w)] (ret new_deque))))"

text \<open>The deque to switch to, and whether it is a fresh one.\<close>

definition deque_to_switch_to :: "ptr \<Rightarrow> ptr \<Rightarrow> ptr \<Rightarrow> (rts, ptr \<times> bool) prog" where
  "deque_to_switch_to w d new_deque =
     bindP (if new_deque = NULL then mug_own_resumable w else ret new_deque) (\<lambda>new_deque.
       if new_deque = NULL then
         bindP cilkrts_malloc (\<lambda>new_deque.
         bindP (ld_g g_ltqsize) (\<lambda>ltqsize.
         bindP (if new_deque = NULL then ret (- 1) else deque_init new_deque ltqsize) (\<lambda>ok.
           if ok \<noteq> - 1 then result [
               bindP (ld_dq dq_team d) (\<lambda>team. st_dq new_deque (dq_team_update (\<lambda>_. team))),
               bindP (ld_wk wk_scheduling_fiber w) (\<lambda>f. st_dq new_deque (dq_fiber_update (\<lambda>_. f)))]
             (ret (new_deque, True))
           else cilkrts_bug ''Cilk: out of memory for new deques!'')))
       else result [
           bindP (ld_dq dq_fiber new_deque) (\<lambda>f. CILK_ASSERT ''new_deque->fiber'' (f \<noteq> NULL)),
           bindP (ld_dq dq_resumable new_deque) (\<lambda>r. CILK_ASSERT ''new_deque->resumable == 1'' (r = 1)),
           bindP (ld_dq dq_self new_deque) (\<lambda>i.
             CILK_ASSERT ''new_deque->self == INVALID_DEQUE_INDEX'' (i = INVALID_DEQUE_INDEX)),
           bindP (ld_dq dq_worker new_deque) (\<lambda>v. CILK_ASSERT ''new_deque->worker == NULL'' (v = NULL)),
           st_dq new_deque (dq_resumable_update (\<lambda>_. 0))]
         (ret (new_deque, False)))"

text \<open>The steal of a worker from the deque that it is suspending.\<close>

definition steal_on_suspend :: "ptr \<Rightarrow> ptr \<Rightarrow> (rts, unit) prog" where
  "steal_on_suspend w d =
     bindP (ld_dq dq_head d) (\<lambda>h. bindP (read_ltq d h) (\<lambda>sf. bindP (ld_sf sf_flags sf) (\<lambda>f.
     bindP (if \<not> has_flag f CILK_FRAME_FUTURE_PARENT
       then bindP (cilk_fiber_allocate w) (\<lambda>fb. ret (fb, fb \<noteq> NULL))
       else ret (NULL, True)) (\<lambda>(steal_fiber, proceed_with_steal).
     whenP proceed_with_steal (block [
       bindP (dekker_protocol d) (\<lambda>_. ret ()),
       bindP cilkg_increment_active_workers (\<lambda>_. ret ()),
       detach_for_steal w w d steal_fiber,
       st_wk w (wk_work_stolen_update (\<lambda>_. True)),
       bindP (ld_wk wk_next_frame_ff w) (\<lambda>ff. block [
         bindP (ld_ff ff_call_stack ff) (\<lambda>cs. bindP (ld_sf sf_flags cs) (\<lambda>f.
           if has_flag f CILK_FRAME_FUTURE_PARENT then block [
             CILK_ASSERT ''!steal_fiber'' (steal_fiber = NULL),
             bindP (ld_ff ff_fiber_self ff) cilk_fiber_take]
           else block [cilk_fiber_take steal_fiber, cilk_fiber_reset_state steal_fiber])),
         bindP (ld_ff ff_simulated_stolen ff) (\<lambda>b.
           CILK_ASSERT ''!w->l->next_frame_ff->simulated_stolen'' (\<not> b))])])))))"

definition deque_suspend :: "ptr \<Rightarrow> ptr \<Rightarrow> (rts, ptr) prog" where
  "deque_suspend w new_deque =
     bindP (ld_wk wk_active_deque w) (\<lambda>d. result [
       bindP (ld_dq dq_self d) (\<lambda>i. CILK_ASSERT ''d->self == ACTIVE_DEQUE_INDEX'' (i = ACTIVE_DEQUE_INDEX)),
       bindP (ld_dq dq_fiber d) (\<lambda>f. CILK_ASSERT ''d->fiber == NULL'' (f = NULL)),
       bindP (ld_dq dq_worker d) (\<lambda>v. CILK_ASSERT ''d->worker == w'' (v = w)),
       bindP (ld_dq dq_team d) (\<lambda>t. CILK_ASSERT ''d->team'' (t \<noteq> NULL)),
       bindP (ld_wk wk_pedigree w) (\<lambda>ped. st_dq d (dq_saved_ped_update (\<lambda>_. ped))),
       bindP (ld_wk wk_current_stack_frame w) (\<lambda>sf. st_dq d (dq_call_stack_update (\<lambda>_. sf)))]
     (bindP (deque_to_switch_to w d new_deque) (\<lambda>(new_deque, attempt_steal).
      result [bindP (ld_wk wk_type w) (\<lambda>ty. whenP (ty = WORKER_USER)
         (bindP (ld_dq dq_team new_deque) (\<lambda>t. CILK_ASSERT ''new_deque->team == w'' (t = w))))]
      (bindP cilk_fiber_get_current_fiber (\<lambda>fiber.
       result [
         with_worker_lock w [
           st_wk w (wk_active_deque_update (\<lambda>_. new_deque)),
           st_dq d (dq_fiber_update (\<lambda>_. fiber)),
           bindP (ld_fb fb_resume_sf fiber) (\<lambda>sf. CILK_ASSERT ''!cilk_fiber_get_data(fiber)->resume_sf'' (sf = NULL)),
           bindP (ld_wk wk_active_deque w) (deque_switch w),
           st_wk w (wk_work_stolen_update (\<lambda>_. False)),
           bindP (if attempt_steal then can_steal_from d else ret False) (\<lambda>b. whenP b (steal_on_suspend w d))],
         bindP (ld_dq dq_resumable d) (\<lambda>r.
         bindP (ld_dq (\<lambda>x. dq_head x \<noteq> dq_tail x) d) (\<lambda>nonempty.
           if r \<noteq> 0 \<or> nonempty then
             bindP (choose_of_two w (\<lambda>a b. r \<noteq> 0 \<and> fst a > fst b \<or> snd a > snd b)) (\<lambda>victim. block [
               on_worker_lock victim (cilkrts_mutex_lock w),
               if r \<noteq> 0 then deque_pool_add victim (victim, RESUMABLE) d
               else whenP nonempty (deque_pool_add victim (victim, SUSPENDED) d),
               on_worker_lock victim (cilkrts_mutex_unlock w)])
           else block [
             st_dq d (dq_self_update (\<lambda>_. INVALID_DEQUE_INDEX)),
             st_dq d (dq_worker_update (\<lambda>_. NULL))]))]
       (ret fiber))))))"

section \<open>Deques and the client\<close>

definition cilkrts_get_deque :: "(rts, ptr) prog" where
  "cilkrts_get_deque = bindP (gets r_tls) (ld_wk wk_active_deque)"

text \<open>Whether the fiber of a deque is not there yet or not resumable yet.\<close>

definition not_suspended_yet :: "ptr \<Rightarrow> (rts, bool) prog" where
  "not_suspended_yet d = bindP (ld_dq dq_fiber d) (\<lambda>f.
     if f = NULL then ret True else bindP (cilk_fiber_is_resumable f) (\<lambda>r. ret (\<not> r)))"

definition cilkrts_suspend_deque :: "(rts, unit) prog" where
  "cilkrts_suspend_deque =
     bindP (gets r_tls) (\<lambda>w.
     bindP (deque_suspend w NULL) (\<lambda>current_fiber. block [
       CILK_ASSERT ''current_fiber'' (current_fiber \<noteq> NULL),
       bindP (ld_wk wk_active_deque w) (\<lambda>d.
       bindP (ld_wk wk_scheduling_fiber w) (\<lambda>sched.
       bindP (if d \<noteq> NULL then
           bindP (ld_dq dq_fiber d) (\<lambda>f. result [
             whenP (f \<noteq> sched) (wait_while (not_suspended_yet d))]
             (bindP (ld_dq dq_fiber d) (\<lambda>f. result [st_dq d (dq_fiber_update (\<lambda>_. NULL))] (ret f))))
         else ret sched) (\<lambda>fiber_to_resume.
         cilk_fiber_suspend_self_and_resume_other current_fiber fiber_to_resume)))]))"

definition cilkrts_make_resumable :: "ptr \<Rightarrow> (rts, unit) prog" where
  "cilkrts_make_resumable d =
     bindP (gets r_tls) (\<lambda>w. block [
       bindP (ld_dq dq_resumable d) (\<lambda>r. CILK_ASSERT ''deque_to_resume->resumable == 0'' (r = 0)),
       wait_while (not_suspended_yet d),
       bindP (ld_dq dq_worker d) (\<lambda>victim.
       bindP (if victim \<noteq> NULL then
           result [on_worker_lock victim (cilkrts_mutex_lock w)]
            (bindP (ld_dq dq_worker d) (\<lambda>v.
             bindP (if v \<noteq> NULL then result [
                 deque_pool_remove (victim, SUSPENDED) d,
                 bindP (ld_dq dq_self d) (\<lambda>i.
                   CILK_ASSERT ''deque_to_resume->self == INVALID_DEQUE_INDEX'' (i = INVALID_DEQUE_INDEX)),
                 st_dq d (dq_resumable_update (\<lambda>_. 1)),
                 deque_pool_add victim (victim, RESUMABLE) d]
               (ret True) else ret False) (\<lambda>owned.
             result [on_worker_lock victim (cilkrts_mutex_unlock w)] (ret owned))))
         else ret False) (\<lambda>previously_owned.
       whenP (\<not> previously_owned)
         (bindP (choose_of_two w (\<lambda>a b. fst a > fst b)) (\<lambda>victim. block [
           bindP (ld_dq dq_self d) (\<lambda>i.
             CILK_ASSERT ''deque_to_resume->self == INVALID_DEQUE_INDEX'' (i = INVALID_DEQUE_INDEX)),
           st_dq d (dq_resumable_update (\<lambda>_. 1)),
           st_dq d (dq_worker_update (\<lambda>_. victim)),
           on_worker_lock victim (cilkrts_mutex_lock w),
           deque_pool_add victim (victim, RESUMABLE) d,
           on_worker_lock victim (cilkrts_mutex_unlock w)]))))])"

definition MAX_FUTURE_FIBERS_IN_POOL :: int where "MAX_FUTURE_FIBERS_IN_POOL = 128"

text \<open>The end of a future (\<open>enable_resume = 2\<close>) destroys the old deque; otherwise it is suspended.\<close>

definition resume_and_destroy :: "ptr \<Rightarrow> ptr \<Rightarrow> ptr \<Rightarrow> (rts, unit) prog" where
  "resume_and_destroy w d fiber_to_resume =
     bindP cilk_fiber_get_current_fiber (\<lambda>current_fiber. block [
       st_dq d (dq_resumable_update (\<lambda>_. 0)),
       bindP (ld_wk wk_active_deque w) (\<lambda>to_destroy. block [
         with_worker_lock w [st_wk w (wk_active_deque_update (\<lambda>_. d)), deque_switch w d],
         deque_destroy to_destroy]),
       st_dq d (dq_fiber_update (\<lambda>_. NULL)),
       bindP cilkg_decrement_active_workers (\<lambda>_. ret ()),
       bindP (ld_dq dq_call_stack d) (\<lambda>cs. bindP (ld_wk wk_current_stack_frame w) (\<lambda>sf. block [
         CILK_ASSERT ''deque_to_resume->call_stack == w->current_stack_frame'' (cs = sf),
         CILK_ASSERT ''deque_to_resume->call_stack != NULL'' (cs \<noteq> NULL)])),
       cilk_fiber_take fiber_to_resume,
       bindP (ld_wk wk_future_fiber_pool_idx w) (\<lambda>idx.
         if idx < MAX_FUTURE_FIBERS_IN_POOL - 1 then block [
           st_wk w (wk_future_fiber_pool_idx_update (\<lambda>_. idx + 1)),
           st_wk w (\<lambda>x. x\<lparr>wk_future_fiber_pool := (wk_future_fiber_pool x)[nat (idx + 1) := current_fiber]\<rparr>),
           cilk_fiber_suspend_self_and_resume_other current_fiber fiber_to_resume]
         else block [
           bindP (cilk_fiber_is_resumable current_fiber) (\<lambda>r.
             CILK_ASSERT ''!cilk_fiber_is_resumable(current_fiber)'' (\<not> r)),
           cilk_fiber_remove_reference_from_self_and_resume_other current_fiber fiber_to_resume])])"

definition suspend_and_resume :: "ptr \<Rightarrow> ptr \<Rightarrow> ptr \<Rightarrow> bool \<Rightarrow> (rts, unit) prog" where
  "suspend_and_resume w d fiber_to_resume enable_resume = block [
     bindP (ld_wk wk_active_deque w) (\<lambda>a.
       st_dq a (dq_resumable_update (\<lambda>_. if enable_resume then 1 else 0))),
     bindP (deque_suspend w d) (\<lambda>current_fiber. block [
       bindP (ld_wk wk_active_deque w) (\<lambda>a. block [
         CILK_ASSERT ''w->l->active_deque'' (a \<noteq> NULL),
         bindP (ld_dq dq_fiber a) (\<lambda>f.
           CILK_ASSERT ''fiber_to_resume == w->l->active_deque->fiber'' (fiber_to_resume = f)),
         CILK_ASSERT ''fiber_to_resume'' (fiber_to_resume \<noteq> NULL),
         bindP (ld_dq dq_call_stack d) (\<lambda>cs. bindP (ld_wk wk_current_stack_frame w) (\<lambda>sf.
           CILK_ASSERT ''deque_to_resume->call_stack == w->current_stack_frame'' (cs = sf))),
         st_dq a (dq_fiber_update (\<lambda>_. NULL))]),
       st_dq d (dq_fiber_update (\<lambda>_. NULL)),
       cilk_fiber_suspend_self_and_resume_other current_fiber fiber_to_resume])]"

definition cilkrts_resume_suspended :: "ptr \<Rightarrow> int \<Rightarrow> (rts, unit) prog" where
  "cilkrts_resume_suspended d enable_resume =
     bindP (gets r_tls) (\<lambda>w. block [
       bindP (ld_wk wk_type w) (\<lambda>ty. 
       bindP (if ty = WORKER_SYSTEM then ret True else
           bindP (ld_wk wk_active_deque w) (\<lambda>a. bindP (ld_dq dq_team a) (\<lambda>t.
             ld_dq (\<lambda>x. t = dq_team x) d))) (\<lambda>ok.
         CILK_ASSERT ''w->l->type == WORKER_SYSTEM || w->l->active_deque->team == deque_to_resume->team'' ok)),
       bindP (ld_dq dq_resumable d) (\<lambda>r. CILK_ASSERT ''deque_to_resume->resumable == 0'' (r = 0)),
       wait_while (not_suspended_yet d),
       bindP (ld_dq dq_worker d) (\<lambda>victim. whenP (victim \<noteq> NULL) (block [
         on_worker_lock victim (cilkrts_mutex_lock w),
         bindP (ld_dq dq_worker d) (\<lambda>v. whenP (v \<noteq> NULL) (deque_mug w d)),
         on_worker_lock victim (cilkrts_mutex_unlock w)])),
       bindP (ld_dq dq_self d) (\<lambda>i.
         CILK_ASSERT ''deque_to_resume->self == INVALID_DEQUE_INDEX'' (i = INVALID_DEQUE_INDEX)),
       st_dq d (dq_resumable_update (\<lambda>_. 1)),
       bindP (ld_dq dq_fiber d) (\<lambda>fiber_to_resume. block [
         bindP (ld_fb fb_resume_sf fiber_to_resume) (\<lambda>sf. CILK_ASSERT ''!data->resume_sf'' (sf = NULL)),
         st_fb fiber_to_resume (fb_owner_update (\<lambda>_. w)),
         bindP (ld_dq dq_call_stack d) (\<lambda>cs. st_sf cs (sf_worker_update (\<lambda>_. w))),
         if enable_resume = 2 then resume_and_destroy w d fiber_to_resume
         else suspend_and_resume w d fiber_to_resume (enable_resume \<noteq> 0)])])"

end
