(* ===== verification/Exceptions.thy ===== *)
theory Exceptions
  imports Full_Frame
begin

text \<open>
  Exceptions that cross a steal (\<open>except-gcc.cpp\<close>): the record that holds the exception state of
  a frame that left its stack, saving that state, merging the records of two siblings, and
  putting the state back when the frame is resumed. The globals of the C++ runtime,
  \<open>__cxa_get_globals\<close>, are two fields of the state; the exception objects themselves are
  pointers that the C++ runtime owns.
\<close>

section \<open>Operations\<close>

definition SIZEOF_PENDING :: nat where "SIZEOF_PENDING = 32"

definition pe_empty :: "pending_exception \<Rightarrow> bool" where
  "pe_empty x \<longleftrightarrow> pe_active x = NULL \<and> \<not> pe_rethrow x \<and> pe_caught x = NULL \<and> pe_uncaught x = 0"

text \<open>\<open>make\<close> reads and clears the state of the C++ runtime.\<close>

definition pe_make :: "ptr \<Rightarrow> ptr \<Rightarrow> bool \<Rightarrow> (rts, unit) prog" where
  "pe_make info exc rethrow =
     bindP (gets (\<lambda>s. (r_eh_caught s, r_eh_uncaught s))) (\<lambda>(caught, uncaught). block [
       if info = NULL then failP Segfault else
       modify (\<lambda>s. s\<lparr>r_excs := (r_excs s)(info \<mapsto> \<lparr>pe_active = exc, pe_rethrow = rethrow,
         pe_caught = caught, pe_uncaught = uncaught\<rparr>)\<rparr>),
       modify (\<lambda>s. s\<lparr>r_eh_caught := NULL, r_eh_uncaught := 0\<rparr>)])"

text \<open>The C++ runtime deletes the exceptions; what is left of the record names none.\<close>

definition pe_destruct :: "ptr \<Rightarrow> (rts, unit) prog" where
  "pe_destruct info = st_ex info (\<lambda>x. x\<lparr>pe_active := NULL, pe_caught := NULL\<rparr>)"

definition pe_free :: "ptr \<Rightarrow> ptr \<Rightarrow> (rts, unit) prog" where
  "pe_free w info = block [
     pe_destruct info,
     modify (\<lambda>s. s\<lparr>r_excs := (r_excs s)(info := None)\<rparr>),
     on_part r_fm r_fm_update (cilkrts_frame_free w info SIZEOF_PENDING)]"

definition save_exception_info :: "ptr \<Rightarrow> ptr \<Rightarrow> bool \<Rightarrow> (rts, unit) prog" where
  "save_exception_info w exc rethrow =
     bindP (on_part r_fm r_fm_update (cilkrts_frame_malloc w SIZEOF_PENDING)) (\<lambda>info. block [
       CILK_ASSERT ''info'' (info \<noteq> NULL),
       pe_make info exc rethrow,
       bindP (ld_wk wk_pending_exception w) (\<lambda>e. CILK_ASSERT ''w->l->pending_exception == 0'' (e = NULL)),
       st_wk w (wk_pending_exception_update (\<lambda>_. info))])"

text \<open>Moving the record of the worker into its frame.\<close>

definition move_pending_exception :: "ptr \<Rightarrow> ptr \<Rightarrow> (rts, unit) prog" where
  "move_pending_exception w ff = block [
     bindP (ld_ff ff_pending_exception ff) (\<lambda>e. CILK_ASSERT ''NULL == ff->pending_exception'' (e = NULL)),
     bindP (ld_wk wk_pending_exception w) (\<lambda>e. st_ff ff (ff_pending_exception_update (\<lambda>_. e))),
     st_wk w (wk_pending_exception_update (\<lambda>_. NULL))]"

definition cilkrts_save_exception_state :: "ptr \<Rightarrow> ptr \<Rightarrow> (rts, unit) prog" where
  "cilkrts_save_exception_state w ff = block [
     save_exception_info w NULL False,
     move_pending_exception w ff]"

text \<open>The two halves of a merge of records that both exist.\<close>

definition merge_caught :: "ptr \<Rightarrow> ptr \<Rightarrow> (rts, unit) prog" where
  "merge_caught left right =
     bindP (ld_ex pe_caught left) (\<lambda>caught.
       if caught \<noteq> NULL then
         bindP (ld_ex pe_caught right) (\<lambda>c.
           CILK_ASSERT ''!right->runtime_state.caughtExceptions'' (c = NULL))
       else block [
         bindP (ld_ex pe_rethrow left) (\<lambda>r. CILK_ASSERT ''!left->rethrow'' (\<not> r)),
         bindP (ld_ex pe_rethrow right) (\<lambda>r. st_ex left (pe_rethrow_update (\<lambda>_. r))),
         bindP (ld_ex pe_caught right) (\<lambda>c. st_ex left (pe_caught_update (\<lambda>_. c))),
         st_ex right (pe_caught_update (\<lambda>_. NULL))])"

definition merge_uncaught :: "ptr \<Rightarrow> ptr \<Rightarrow> (rts, unit) prog" where
  "merge_uncaught left right =
     bindP (ld_ex pe_uncaught right) (\<lambda>right_uncaught.
     bindP (ld_ex pe_active left) (\<lambda>active.
       if active = NULL then block [
         bindP (ld_ex pe_active right) (\<lambda>a. st_ex left (pe_active_update (\<lambda>_. a))),
         st_ex right (pe_active_update (\<lambda>_. NULL)),
         st_ex left (\<lambda>x. x\<lparr>pe_uncaught := pe_uncaught x + right_uncaught\<rparr>)]
       else bindP (ld_ex pe_active right) (\<lambda>a.
         st_ex left (\<lambda>x. x\<lparr>pe_uncaught := pe_uncaught x + (right_uncaught - of_bool (a \<noteq> NULL))\<rparr>))))"

definition cilkrts_merge_pending_exceptions :: "ptr \<Rightarrow> ptr \<Rightarrow> ptr \<Rightarrow> (rts, ptr) prog" where
  "cilkrts_merge_pending_exceptions w left right =
     (if left = NULL then ret right
      else if right = NULL then ret left
      else result [merge_caught left right, merge_uncaught left right, pe_free w right]
       (bindP (ld_ex pe_empty left) (\<lambda>e.
          if e then result [pe_free w left] (ret NULL) else ret left)))"

text \<open>
  Putting the state back. The frame that resumes with \<open>CILK_FRAME_EXCEPTING\<close> throws its exception
  again.
\<close>

definition or_flags :: "ptr \<Rightarrow> 32 word \<Rightarrow> (rts, unit) prog" where
  "or_flags sf bits = bindP (ld_sf sf_flags sf) (\<lambda>f. st_sf sf (sf_flags_update (\<lambda>_. set_flag bits f)))"

definition and_not_flags :: "ptr \<Rightarrow> 32 word \<Rightarrow> (rts, unit) prog" where
  "and_not_flags sf bits = bindP (ld_sf sf_flags sf) (\<lambda>f. st_sf sf (sf_flags_update (\<lambda>_. clear_flag bits f)))"

definition cilkrts_setup_for_execution_sysdep :: "ptr \<Rightarrow> ptr \<Rightarrow> (rts, unit) prog" where
  "cilkrts_setup_for_execution_sysdep w ff =
     bindP (ld_wk wk_pending_exception w) (\<lambda>info. whenP (info \<noteq> NULL) (block [
       st_wk w (wk_pending_exception_update (\<lambda>_. NULL)),
       bindP (gets (\<lambda>s. r_eh_uncaught s \<noteq> 0 \<or> r_eh_caught s \<noteq> NULL)) (\<lambda>bad.
         whenP bad (cilkrts_bug ''W%u: resuming with non-empty prior exception state %u %p'')),
       bindP (ld_ex (\<lambda>x. (pe_caught x, pe_uncaught x)) info) (\<lambda>(caught, uncaught).
         modify (\<lambda>s. s\<lparr>r_eh_caught := caught, r_eh_uncaught := uncaught\<rparr>)),
       st_ex info (\<lambda>x. x\<lparr>pe_caught := NULL, pe_uncaught := 0\<rparr>),
       bindP (ld_ex pe_rethrow info) (\<lambda>r. whenP r (block [
         st_ex info (pe_rethrow_update (\<lambda>_. False)),
         bindP (ld_ff ff_call_stack ff) (\<lambda>cs. or_flags cs CILK_FRAME_EXCEPTING)])),
       bindP (ld_ex pe_active info) (\<lambda>exc. whenP (exc \<noteq> NULL)
         (bindP (ld_ff ff_call_stack ff) (\<lambda>cs. block [
           or_flags cs CILK_FRAME_EXCEPTING,
           st_sf cs (sf_except_data_update (\<lambda>_. exc)),
           st_ex info (pe_active_update (\<lambda>_. NULL))]))),
       bindP (ld_ex pe_empty info) (\<lambda>e. whenP e (block [
         pe_free w info,
         st_wk w (wk_pending_exception_update (\<lambda>_. NULL))]))]))"

section \<open>What a merge leaves\<close>

text \<open>Every record of the runtime's own sits in a frame of its size.\<close>

definition ex_mem :: "ptr set \<Rightarrow> rts \<Rightarrow> bool" where
  "ex_mem ws s \<longleftrightarrow> fm_lock (r_fm s) = free_mutex
     \<and> (\<exists>L. fm_ok L (homes ws) (r_fm s) \<and> (\<forall>p. exc_at s p \<noteq> None \<longrightarrow> L p = bucket_from 0 SIZEOF_PENDING))"

lemma ex_mem_cong: "ex_mem ws s \<Longrightarrow> r_fm t = r_fm s \<Longrightarrow> (\<And>p. exc_at t p \<noteq> None \<Longrightarrow> exc_at s p \<noteq> None) \<Longrightarrow> ex_mem ws t"
  unfolding ex_mem_def by auto

lemma pe_free_ok:
  assumes "ex_mem ws s" "w \<in> ws" "w \<noteq> NULL" "exc_at s p = Some x"
  shows "\<exists>t. pe_free w p s = Inr ((), t) \<and> t = s\<lparr>r_excs := (r_excs s)(p := None), r_fm := r_fm t\<rparr> \<and> ex_mem ws t"
proof -
  obtain L where L: "fm_ok L (homes ws) (r_fm s)" "L p = bucket_from 0 SIZEOF_PENDING"
    "\<forall>q. exc_at s q \<noteq> None \<longrightarrow> L q = bucket_from 0 SIZEOF_PENDING" "fm_lock (r_fm s) = free_mutex"
    using assms(1,4) by (auto simp: ex_mem_def)
  obtain m where m: "cilkrts_frame_free w p SIZEOF_PENDING (r_fm s) = Inr ((), m)"
    "fm_ok (L(p := None)) (homes ws) m" "same_settings (r_fm s) m"
    using frame_free_ok [OF L(1) assms(2,3) _ L(2,4)] by (auto simp: SIZEOF_PENDING_def FRAME_MALLOC_MAX_SIZE_def)
  let ?t = "s\<lparr>r_excs := (r_excs s)(p := None), r_fm := m\<rparr>"
  have "pe_free w p s = Inr ((), ?t)"
    using assms(4) m(1) by (auto simp: pe_free_def pe_destruct_def run dest!: deref_SomeD)
  moreover have "ex_mem ws ?t"
    using m L by (auto simp: ex_mem_def same_settings_def intro!: exI [of _ "L(p := None)"])
  ultimately show ?thesis by (intro exI [of _ ?t]) simp
qed

text \<open>The record two records merge into, and what the code asserts of them.\<close>

definition merged :: "pending_exception \<Rightarrow> pending_exception \<Rightarrow> pending_exception" where
  "merged l r = \<lparr>pe_active = (if pe_active l = NULL then pe_active r else pe_active l),
     pe_rethrow = (if pe_caught l = NULL then pe_rethrow r else pe_rethrow l),
     pe_caught = (if pe_caught l = NULL then pe_caught r else pe_caught l),
     pe_uncaught = pe_uncaught l + pe_uncaught r - of_bool (pe_active l \<noteq> NULL \<and> pe_active r \<noteq> NULL)\<rparr>"

definition mergeable :: "pending_exception \<Rightarrow> pending_exception \<Rightarrow> bool" where
  "mergeable l r \<longleftrightarrow> (if pe_caught l = NULL then \<not> pe_rethrow l else pe_caught r = NULL)"

definition merge_slots :: "pending_exception option \<Rightarrow> pending_exception option \<Rightarrow> pending_exception option" where
  "merge_slots l r = (case l of None \<Rightarrow> r | Some x \<Rightarrow> (case r of None \<Rightarrow> l
     | Some y \<Rightarrow> if pe_empty (merged x y) then None else Some (merged x y)))"

definition slots_fit :: "pending_exception option \<Rightarrow> pending_exception option \<Rightarrow> bool" where
  "slots_fit l r \<longleftrightarrow> (\<forall>x y. l = Some x \<longrightarrow> r = Some y \<longrightarrow> mergeable x y)"

definition slot_ok :: "rts \<Rightarrow> ptr \<Rightarrow> bool" where
  "slot_ok s p \<longleftrightarrow> p = NULL \<or> exc_at s p \<noteq> None"

lemma merge_halves:
  assumes "exc_at s l = Some x" "exc_at s r = Some y" "l \<noteq> r" "mergeable x y"
  shows "\<exists>y'. block [merge_caught l r, merge_uncaught l r] s
    = Inr ((), s\<lparr>r_excs := (r_excs s)(l \<mapsto> merged x y, r \<mapsto> y')\<rparr>)"
proof -
  obtain x' y' where c: "merge_caught l r s = Inr ((), s\<lparr>r_excs := (r_excs s)(l \<mapsto> x', r \<mapsto> y')\<rparr>)"
    "x' = x\<lparr>pe_rethrow := pe_rethrow (merged x y), pe_caught := pe_caught (merged x y)\<rparr>"
    "pe_active y' = pe_active y" "pe_uncaught y' = pe_uncaught y"
  proof (cases "pe_caught x = NULL")
    case True
    with assms show ?thesis
      by (intro that [of "x\<lparr>pe_rethrow := pe_rethrow y, pe_caught := pe_caught y\<rparr>" "y\<lparr>pe_caught := NULL\<rparr>"])
        (auto simp: merge_caught_def merged_def mergeable_def run fun_upd_twist dest!: deref_SomeD)
  next
    case False
    with assms show ?thesis
      by (intro that [of x y])
        (auto simp: merge_caught_def merged_def mergeable_def run fun_upd_idem dest!: deref_SomeD)
  qed
  have m: "merged x y = x'\<lparr>pe_active := pe_active (merged x y), pe_uncaught := pe_uncaught (merged x y)\<rparr>"
    unfolding c(2) by (rule pending_exception.equality) simp_all
  have "\<exists>z. merge_uncaught l r (s\<lparr>r_excs := (r_excs s)(l \<mapsto> x', r \<mapsto> y')\<rparr>)
      = Inr ((), s\<lparr>r_excs := (r_excs s)(l \<mapsto> merged x y, r \<mapsto> z)\<rparr>)"
  proof (cases "pe_active x = NULL")
    case True
    have "x'\<lparr>pe_active := pe_active y, pe_uncaught := pe_uncaught x' + pe_uncaught y\<rparr> = merged x y"
      by (subst m, rule pending_exception.equality) (use True c(2) in \<open>simp_all add: merged_def\<close>)
    then show ?thesis using assms True c(2-4)
      by (intro exI [of _ "y'\<lparr>pe_active := NULL\<rparr>"])
        (auto simp: merge_uncaught_def run fun_upd_twist dest!: deref_SomeD)
  next
    case False
    have "x'\<lparr>pe_uncaught := pe_uncaught x' + (pe_uncaught y - of_bool (pe_active y \<noteq> NULL))\<rparr> = merged x y"
      by (subst m, rule pending_exception.equality) (use False c(2) in \<open>simp_all add: merged_def algebra_simps\<close>)
    then show ?thesis using assms False c(2-4)
      by (intro exI [of _ y'])
        (auto simp: merge_uncaught_def run fun_upd_twist dest!: deref_SomeD)
  qed
  with c(1) show ?thesis by (auto simp: run)
qed

lemma only_exc: "t = s\<lparr>r_excs := A, r_fm := M\<rparr> \<Longrightarrow> t = s\<lparr>r_excs := r_excs t, r_fm := r_fm t\<rparr>"
  by simp

lemma only_exc_trans:
  "t = s\<lparr>r_excs := A, r_fm := M\<rparr> \<Longrightarrow> u = t\<lparr>r_excs := B, r_fm := N\<rparr> \<Longrightarrow>
   u = s\<lparr>r_excs := r_excs u, r_fm := r_fm u\<rparr>"
  by simp

lemma merge_ok:
  assumes "ex_mem ws s" "w \<in> ws" "w \<noteq> NULL" and ok: "slot_ok s a" "slot_ok s b" "a = b \<longrightarrow> a = NULL"
    and fit: "slots_fit (exc_at s a) (exc_at s b)"
  shows "\<exists>p t. cilkrts_merge_pending_exceptions w a b s = Inr (p, t)
    \<and> exc_at t p = merge_slots (exc_at s a) (exc_at s b) \<and> slot_ok t p \<and> p \<in> {a, b, NULL}
    \<and> (\<forall>q. q \<noteq> a \<longrightarrow> q \<noteq> b \<longrightarrow> exc_at t q = exc_at s q)
    \<and> t = s\<lparr>r_excs := r_excs t, r_fm := r_fm t\<rparr> \<and> ex_mem ws t"
proof (cases "a = NULL \<or> b = NULL")
  case True
  with assms show ?thesis
    by (auto simp: cilkrts_merge_pending_exceptions_def run merge_slots_def slot_ok_def)
next
  case False
  then obtain x y where xy: "exc_at s a = Some x" "exc_at s b = Some y" "a \<noteq> b" "mergeable x y"
    using ok fit by (auto simp: slot_ok_def slots_fit_def)
  obtain y' where h: "block [merge_caught a b, merge_uncaught a b] s
      = Inr ((), s\<lparr>r_excs := (r_excs s)(a \<mapsto> merged x y, b \<mapsto> y')\<rparr>)" (is "_ = Inr ((), ?s1)")
    using merge_halves [OF xy] by blast
  have "ex_mem ws ?s1" by (rule ex_mem_cong [OF assms(1)]) (use xy False in \<open>auto split: if_splits\<close>)
  with assms(2,3) False obtain t where t: "pe_free w b ?s1 = Inr ((), t)"
    "t = ?s1\<lparr>r_excs := (r_excs ?s1)(b := None), r_fm := r_fm t\<rparr>" "ex_mem ws t"
    using pe_free_ok [of ws ?s1 w b y'] by auto
  have run2: "block [merge_caught a b, merge_uncaught a b, pe_free w b] s = Inr ((), t)"
    using h t(1) by (auto simp: run split: sum.splits prod.splits)
  have at: "exc_at t a = Some (merged x y)" "\<And>q. q \<noteq> a \<Longrightarrow> q \<noteq> b \<Longrightarrow> exc_at t q = exc_at s q"
    using False xy(3) by (subst t(2); simp)+
  have same: "t = s\<lparr>r_excs := r_excs t, r_fm := r_fm t\<rparr>"
    by (rule only_exc_trans [OF _ t(2), where M = "r_fm s"]) simp
  have eqn: "cilkrts_merge_pending_exceptions w a b =
      result [merge_caught a b, merge_uncaught a b, pe_free w b]
       (bindP (ld_ex pe_empty a) (\<lambda>e. if e then result [pe_free w a] (ret NULL) else ret a))"
    using False by (simp add: cilkrts_merge_pending_exceptions_def)
  show ?thesis
  proof (cases "pe_empty (merged x y)")
    case empty: True
    obtain u where u: "pe_free w a t = Inr ((), u)" "u = t\<lparr>r_excs := (r_excs t)(a := None), r_fm := r_fm u\<rparr>" "ex_mem ws u"
      using pe_free_ok [OF t(3) assms(2,3) at(1)] by blast
    have "cilkrts_merge_pending_exceptions w a b s = Inr (NULL, u)"
      using at(1) empty u(1) by (simp add: eqn run_result run2 run_bindP run_load run_ret block.simps(1)
        run_block_Cons [of "pe_free w a" "[]"])
    moreover have "\<forall>q. q \<noteq> a \<longrightarrow> q \<noteq> b \<longrightarrow> exc_at u q = exc_at s q"
      using at(2) by (subst u(2)) simp
    moreover have "u = s\<lparr>r_excs := r_excs u, r_fm := r_fm u\<rparr>"
      by (rule only_exc_trans [OF same u(2)])
    ultimately show ?thesis using u(3) xy empty
      by (intro exI [of _ NULL] exI [of _ u]) (auto simp: merge_slots_def slot_ok_def)
  next
    case nonempty: False
    have "cilkrts_merge_pending_exceptions w a b s = Inr (a, t)"
      using at(1) nonempty by (simp add: eqn run_result run2 run_bindP run_load run_ret)
    with at same t(3) xy nonempty show ?thesis
      by (intro exI [of _ a] exI [of _ t]) (auto simp: merge_slots_def slot_ok_def)
  qed
qed

section \<open>The order of merging does not matter\<close>

definition exc_wf :: "pending_exception \<Rightarrow> bool" where
  "exc_wf x \<longleftrightarrow> (pe_caught x = NULL \<longrightarrow> \<not> pe_rethrow x)"

text \<open>A record that says nothing is as good as no record.\<close>

definition drop_empty :: "pending_exception option \<Rightarrow> pending_exception option" where
  "drop_empty l = (case l of None \<Rightarrow> None | Some x \<Rightarrow> if pe_empty x then None else Some x)"

definition active_of :: "pending_exception option \<Rightarrow> ptr" where
  "active_of l = (case l of None \<Rightarrow> NULL | Some x \<Rightarrow> pe_active x)"

definition caught_of :: "pending_exception option \<Rightarrow> ptr" where
  "caught_of l = (case l of None \<Rightarrow> NULL | Some x \<Rightarrow> pe_caught x)"

definition slot_wf :: "pending_exception option \<Rightarrow> bool" where
  "slot_wf l \<longleftrightarrow> (\<forall>x. l = Some x \<longrightarrow> exc_wf x)"

lemma merged_assoc: "merged (merged x y) z = merged x (merged y z)"
  by (rule pending_exception.equality) (auto simp: merged_def)

lemma merged_empty_left: "pe_empty e \<Longrightarrow> merged e z = z"
  by (rule pending_exception.equality) (auto simp: merged_def pe_empty_def)

lemma merged_empty_right: "pe_empty e \<Longrightarrow> exc_wf z \<Longrightarrow> merged z e = z"
  by (rule pending_exception.equality) (auto simp: merged_def pe_empty_def exc_wf_def)

lemma slot_wf_merge: "slot_wf l \<Longrightarrow> slot_wf r \<Longrightarrow> slot_wf (merge_slots l r)"
  by (auto simp: slot_wf_def merge_slots_def exc_wf_def merged_def split: option.splits)

lemma drop_empty_merge:
  assumes "slot_wf l"
  shows "drop_empty (merge_slots (drop_empty l) (drop_empty r)) = drop_empty (merge_slots l r)"
  using assms merged_empty_left merged_empty_right
  by (auto simp: drop_empty_def merge_slots_def slot_wf_def split: option.splits)

text \<open>Merging of slots where empty records are left out: this is associative.\<close>

lemma drop_empty_merge_left: "slot_wf l \<Longrightarrow> drop_empty (merge_slots (drop_empty l) r) = drop_empty (merge_slots l r)"
  using merged_empty_left merged_empty_right
  by (auto simp: drop_empty_def merge_slots_def slot_wf_def split: option.splits)

lemma drop_empty_merge_right: "slot_wf l \<Longrightarrow> drop_empty (merge_slots l (drop_empty r)) = drop_empty (merge_slots l r)"
  using merged_empty_left merged_empty_right
  by (auto simp: drop_empty_def merge_slots_def slot_wf_def split: option.splits)

lemma drop_empty_some: "drop_empty (merge_slots (Some x) (Some y)) = drop_empty (Some (merged x y))"
  by (simp add: drop_empty_def merge_slots_def)

lemma drop_empty_eq: "merge_slots (Some x) (Some y) = drop_empty (Some (merged x y))"
  by (simp add: drop_empty_def merge_slots_def)

lemma exc_wf_merged: "exc_wf x \<Longrightarrow> exc_wf y \<Longrightarrow> exc_wf (merged x y)"
  by (auto simp: exc_wf_def merged_def)

lemma merge_slots_assoc:
  assumes "slot_wf l" "slot_wf m" "slot_wf r"
  shows "drop_empty (merge_slots (merge_slots l m) r) = drop_empty (merge_slots l (merge_slots m r))"
proof (cases "l = None \<or> m = None \<or> r = None")
  case True
  then show ?thesis by (auto simp: merge_slots_def split: option.splits)
next
  case False
  then obtain x y z where xyz: "l = Some x" "m = Some y" "r = Some z" by auto
  have wf: "exc_wf x" "exc_wf y" "exc_wf z" using assms xyz by (auto simp: slot_wf_def)
  have "drop_empty (merge_slots (merge_slots l m) r) = drop_empty (merge_slots (Some (merged x y)) (Some z))"
    unfolding xyz drop_empty_eq [of x y] using exc_wf_merged [OF wf(1,2)]
    by (subst drop_empty_merge_left) (simp_all add: slot_wf_def)
  also have "\<dots> = drop_empty (merge_slots (Some x) (Some (merged y z)))"
    by (simp add: drop_empty_some merged_assoc)
  also have "\<dots> = drop_empty (merge_slots l (merge_slots m r))"
    unfolding xyz drop_empty_eq [of y z] using wf(1)
    by (subst drop_empty_merge_right) (simp_all add: slot_wf_def)
  finally show ?thesis .
qed

lemma caught_merge: "caught_of (merge_slots l r) = (if caught_of l = NULL then caught_of r else caught_of l)"
  by (auto simp: caught_of_def merge_slots_def merged_def pe_empty_def split: option.splits)

lemma active_merge: "active_of (merge_slots l r) = (if active_of l = NULL then active_of r else active_of l)"
  by (auto simp: active_of_def merge_slots_def merged_def pe_empty_def split: option.splits)

lemma slots_fitI:
  "slot_wf l \<Longrightarrow> (caught_of l = NULL \<or> caught_of r = NULL) \<Longrightarrow> slots_fit l r"
  by (auto simp: slots_fit_def slot_wf_def mergeable_def exc_wf_def caught_of_def split: option.splits)

text \<open>
  C16. The exceptions of three strands in serial order merge to the same record whichever neighbours
  finish first, both merges return, and the exception that the merged record throws is the
  leftmost one: the exception that the serial execution would have thrown first.
\<close>

theorem exceptions_merge_in_any_order:
  assumes "ex_mem ws s" "w \<in> ws" "w \<noteq> NULL"
    and ok: "slot_ok s a" "slot_ok s b" "slot_ok s c"
    and distinct: "a = b \<longrightarrow> a = NULL" "a = c \<longrightarrow> a = NULL" "b = c \<longrightarrow> b = NULL"
    and wf: "slot_wf (exc_at s a)" "slot_wf (exc_at s b)" "slot_wf (exc_at s c)"
    and one: "caught_of (exc_at s a) = NULL \<or> caught_of (exc_at s b) = NULL"
      "caught_of (exc_at s a) = NULL \<or> caught_of (exc_at s c) = NULL"
      "caught_of (exc_at s b) = NULL \<or> caught_of (exc_at s c) = NULL"
  shows "\<exists>p t q u.
     bindP (cilkrts_merge_pending_exceptions w a b) (\<lambda>p. cilkrts_merge_pending_exceptions w p c) s = Inr (p, t)
   \<and> bindP (cilkrts_merge_pending_exceptions w b c) (cilkrts_merge_pending_exceptions w a) s = Inr (q, u)
   \<and> drop_empty (exc_at t p) = drop_empty (exc_at u q)
   \<and> active_of (exc_at t p) = (if active_of (exc_at s a) \<noteq> NULL then active_of (exc_at s a)
       else if active_of (exc_at s b) \<noteq> NULL then active_of (exc_at s b) else active_of (exc_at s c))"
proof -
  note fits = slots_fitI [OF wf(1) one(1)] slots_fitI [OF wf(2) one(3)]
  obtain p1 t1 where 1: "cilkrts_merge_pending_exceptions w a b s = Inr (p1, t1)"
    "exc_at t1 p1 = merge_slots (exc_at s a) (exc_at s b)" "slot_ok t1 p1" "p1 \<in> {a, b, NULL}"
    "\<forall>q. q \<noteq> a \<longrightarrow> q \<noteq> b \<longrightarrow> exc_at t1 q = exc_at s q" "ex_mem ws t1"
    using merge_ok [OF assms(1-3) ok(1,2) distinct(1) fits(1)] by blast
  have c1: "exc_at t1 c = exc_at s c" "slot_ok t1 c" "p1 = c \<longrightarrow> p1 = NULL"
    using 1(4,5) distinct ok(3) by (cases "c = NULL"; auto simp: slot_ok_def)+
  obtain p t where 2: "cilkrts_merge_pending_exceptions w p1 c t1 = Inr (p, t)"
    "exc_at t p = merge_slots (exc_at t1 p1) (exc_at t1 c)"
    using merge_ok [OF 1(6) assms(2,3) 1(3) c1(2,3)] slots_fitI slot_wf_merge [OF wf(1,2)] one
    unfolding 1(2) c1(1) by (auto simp: caught_merge slots_fitI split: if_splits)
  obtain q1 u1 where 3: "cilkrts_merge_pending_exceptions w b c s = Inr (q1, u1)"
    "exc_at u1 q1 = merge_slots (exc_at s b) (exc_at s c)" "slot_ok u1 q1" "q1 \<in> {b, c, NULL}"
    "\<forall>q. q \<noteq> b \<longrightarrow> q \<noteq> c \<longrightarrow> exc_at u1 q = exc_at s q" "ex_mem ws u1"
    using merge_ok [OF assms(1-3) ok(2,3) distinct(3) fits(2)] by blast
  have a1: "exc_at u1 a = exc_at s a" "slot_ok u1 a" "a = q1 \<longrightarrow> a = NULL"
    using 3(4,5) distinct ok(1) by (cases "a = NULL"; auto simp: slot_ok_def)+
  obtain q u where 4: "cilkrts_merge_pending_exceptions w a q1 u1 = Inr (q, u)"
    "exc_at u q = merge_slots (exc_at u1 a) (exc_at u1 q1)"
    using merge_ok [OF 3(6) assms(2,3) a1(2) 3(3) a1(3)] slots_fitI [OF wf(1)] one
    unfolding 3(2) a1(1) by (auto simp: caught_merge split: if_splits)
  show ?thesis
    using 1(1) 2 3(1) 4 unfolding 1(2) c1(1) 3(2) a1(1)
    by (auto simp: run active_merge intro: merge_slots_assoc [OF wf])
qed

text \<open>Worker 10 holds two records: the child at 20 caught, the child at 21 threw exception 77.\<close>

definition exc_sample :: "frame_cache \<Rightarrow> ptr \<Rightarrow> ptr \<Rightarrow> rts" where
  "exc_sample m a b = sample_rts\<lparr>r_fm := m, r_excs :=
     [a \<mapsto> \<lparr>pe_active = NULL, pe_rethrow = False, pe_caught = 33, pe_uncaught = 0\<rparr>,
      b \<mapsto> \<lparr>pe_active = 77, pe_rethrow = False, pe_caught = NULL, pe_uncaught = 1\<rparr>]\<rparr>"

lemma two_records: "\<exists>m a b. ex_mem {10, 11} (exc_sample m a b) \<and> a \<noteq> b \<and> a \<noteq> NULL \<and> b \<noteq> NULL"
proof -
  note base = session_ok [OF started_session]
  have settings: "fm_batch_size fresh_frame_cache = 8000" "fm_os_left fresh_frame_cache = 1000000"
    by (simp_all add: fresh_frame_cache_def)
  from frame_malloc_ok [of "buckets Map.empty" "set [10, 11]" fresh_frame_cache 10 SIZEOF_PENDING] base settings
  obtain a t where t: "cilkrts_frame_malloc 10 SIZEOF_PENDING fresh_frame_cache = Inr (a, t)"
      "same_settings fresh_frame_cache t" "1000000 \<le> fm_os_left t + 2 * 8000 + 2"
    by (auto simp: FRAME_MALLOC_MAX_SIZE_def SIZEOF_PENDING_def)
  have one: "fm_session [10, 11] [a \<mapsto> SIZEOF_PENDING] t"
    by (rule fm_malloc [OF started_session _ _ _ t(1)])
      (simp_all add: settings FRAME_MALLOC_MAX_SIZE_def SIZEOF_PENDING_def)
  have batch: "fm_batch_size t = 8000" using t(2) settings by (simp add: same_settings_def)
  note ok = session_ok [OF one]
  from frame_malloc_ok [of "buckets [a \<mapsto> SIZEOF_PENDING]" "set [10, 11]" t 11 SIZEOF_PENDING] ok batch t(3)
  obtain b u where u: "cilkrts_frame_malloc 11 SIZEOF_PENDING t = Inr (b, u)" "buckets [a \<mapsto> SIZEOF_PENDING] b = None"
    by (auto simp: FRAME_MALLOC_MAX_SIZE_def SIZEOF_PENDING_def)
  have "buckets [a \<mapsto> SIZEOF_PENDING] a \<noteq> None" using session_block [OF one, of a SIZEOF_PENDING] by auto
  then have ab: "a \<noteq> b" using u(2) by auto
  have two: "fm_session [10, 11] ([a \<mapsto> SIZEOF_PENDING](b \<mapsto> SIZEOF_PENDING)) u"
    by (rule fm_malloc [OF one _ _ _ u(1)]) (use batch t(3) in \<open>simp_all add: FRAME_MALLOC_MAX_SIZE_def SIZEOF_PENDING_def\<close>)
  have nz: "a \<noteq> NULL" "b \<noteq> NULL"
    using frames_pos [OF two] ab by auto
  have "ex_mem {10, 11} (exc_sample u a b)"
    using session_ok [OF two] by (auto simp: ex_mem_def exc_sample_def sample_rts_def buckets_def split: if_splits
      intro!: exI [of _ "buckets ([a \<mapsto> SIZEOF_PENDING](b \<mapsto> SIZEOF_PENDING))"])
  with ab nz show ?thesis by blast
qed

theorem exceptions_merge_in_any_order_witness:
  "\<exists>m a b p t. a \<noteq> b \<and> bindP (cilkrts_merge_pending_exceptions 10 a b)
      (\<lambda>p. cilkrts_merge_pending_exceptions 10 p NULL) (exc_sample m a b) = Inr (p, t)
    \<and> active_of (exc_at t p) = 77"
proof -
  obtain m a b where ab: "ex_mem {10, 11} (exc_sample m a b)" "a \<noteq> b" "a \<noteq> NULL" "b \<noteq> NULL"
    using two_records by blast
  have at: "exc_at (exc_sample m a b) a = Some \<lparr>pe_active = NULL, pe_rethrow = False, pe_caught = 33, pe_uncaught = 0\<rparr>"
    "exc_at (exc_sample m a b) b = Some \<lparr>pe_active = 77, pe_rethrow = False, pe_caught = NULL, pe_uncaught = 1\<rparr>"
    using ab by (auto simp: exc_sample_def deref_def)
  have fit: "slot_wf (exc_at (exc_sample m a b) a)" "slot_wf (exc_at (exc_sample m a b) b)"
    "slot_wf None" "caught_of (exc_at (exc_sample m a b) b) = NULL" "caught_of None = NULL"
    by (simp_all add: at slot_wf_def exc_wf_def caught_of_def)
  obtain p t q u where
    "bindP (cilkrts_merge_pending_exceptions 10 a b) (\<lambda>p. cilkrts_merge_pending_exceptions 10 p NULL)
       (exc_sample m a b) = Inr (p, t)"
    "active_of (exc_at t p) = (if active_of (exc_at (exc_sample m a b) a) \<noteq> NULL then active_of (exc_at (exc_sample m a b) a)
       else if active_of (exc_at (exc_sample m a b) b) \<noteq> NULL then active_of (exc_at (exc_sample m a b) b)
       else active_of (exc_at (exc_sample m a b) NULL))"
    using exceptions_merge_in_any_order [OF ab(1), of 10 a b NULL] ab fit by (auto simp: slot_ok_def at)
  then have "bindP (cilkrts_merge_pending_exceptions 10 a b) (\<lambda>p. cilkrts_merge_pending_exceptions 10 p NULL)
       (exc_sample m a b) = Inr (p, t)" "active_of (exc_at t p) = 77"
    by (simp_all add: at active_of_def)
  with ab(2) show ?thesis by blast
qed

end
