(* ===== verification/Pedigree.thy ===== *)
theory Pedigree
  imports Exceptions
begin

text \<open>
  Pedigrees (\<open>pedigrees.c\<close>, \<open>pedigrees.h\<close>, \<open>os-unix.c\<close>, the pedigree code of \<open>cilk-abi.c\<close> and
  \<open>scheduler.c\<close>): the name of a strand, a chain of ranks from the strand up to the root of the
  user thread. The names do not depend on which frames are stolen.
\<close>

section \<open>The leaf of a user thread\<close>

definition cilkrts_set_tls_pedigree_leaf :: "leaf_ptr \<Rightarrow> (rts, unit) prog" where
  "cilkrts_set_tls_pedigree_leaf leaf = modify (\<lambda>s. s\<lparr>r_tls_leaf := leaf\<rparr>)"

definition cilkrts_get_tls_pedigree_leaf :: "bool \<Rightarrow> (rts, leaf_ptr) prog" where
  "cilkrts_get_tls_pedigree_leaf create_new =
     bindP (gets r_tls_leaf) (\<lambda>leaf.
       if leaf = No_leaf \<and> create_new then
         bindP cilkrts_malloc (\<lambda>p. result [
           cilkrts_set_tls_pedigree_leaf (Leaf p),
           if p = NULL then failP Segfault else ret (),
           modify (\<lambda>s. s\<lparr>r_pedigree_counter := r_pedigree_counter s + 1\<rparr>),
           modify (\<lambda>s. s\<lparr>r_leaves := (r_leaves s)(p \<mapsto>
             (\<lparr>ped_rank = 1, ped_parent = PRoot p\<rparr>,
              \<lparr>ped_rank = r_pedigree_counter s, ped_parent = PNULL\<rparr>))\<rparr>),
           bindP (gets r_pedigree_counter) (\<lambda>n. CILK_ASSERT ''pedigree_tls[1].rank != -1'' (n \<noteq> - 1))]
         (ret (Leaf p)))
       else ret leaf)"

text \<open>The node a leaf pointer points to, and the node a pedigree pointer points to.\<close>

definition read_leaf :: "leaf_ptr \<Rightarrow> (rts, pedigree) prog" where
  "read_leaf leaf = (case leaf of
     No_leaf \<Rightarrow> failP Segfault
   | Leaf p \<Rightarrow> load r_leaves fst p
   | Worker_leaf v \<Rightarrow> ld_wk wk_pedigree v)"

definition set_leaf_rank :: "leaf_ptr \<Rightarrow> 64 word \<Rightarrow> (rts, unit) prog" where
  "set_leaf_rank leaf r = (case leaf of
     No_leaf \<Rightarrow> failP Segfault
   | Leaf p \<Rightarrow> store r_leaves r_leaves_update p (apfst (ped_rank_update (\<lambda>_. r)))
   | Worker_leaf v \<Rightarrow> st_wk v (wk_pedigree_update (ped_rank_update (\<lambda>_. r))))"

definition read_ped :: "ped_ptr \<Rightarrow> (rts, pedigree) prog" where
  "read_ped q = (case q of
     PNULL \<Rightarrow> failP Segfault
   | PFrame sf \<Rightarrow> ld_sf sf_pedigree sf
   | PRoot p \<Rightarrow> load r_leaves snd p)"

definition load_pedigree_leaf_into_user_worker :: "ptr \<Rightarrow> (rts, unit) prog" where
  "load_pedigree_leaf_into_user_worker w = block [
     bindP (ld_wk wk_type w) (\<lambda>ty. CILK_ASSERT ''w->l->type == WORKER_USER'' (ty = WORKER_USER)),
     bindP (cilkrts_get_tls_pedigree_leaf True) (\<lambda>leaf. block [
       bindP (read_leaf leaf) (\<lambda>ped. st_wk w (wk_pedigree_update (\<lambda>_. ped))),
       bindP (ld_wk wk_original_pedigree_leaf w) (\<lambda>old.
         CILK_ASSERT ''w->l->original_pedigree_leaf == NULL'' (old = No_leaf)),
       st_wk w (wk_original_pedigree_leaf_update (\<lambda>_. leaf))]),
     cilkrts_set_tls_pedigree_leaf (Worker_leaf w),
     bindP (ld_wk (\<lambda>x. ped_parent (wk_pedigree x)) w) (\<lambda>q. block [
       CILK_ASSERT ''w->pedigree.parent'' (q \<noteq> PNULL),
       bindP (read_ped q) (\<lambda>n. CILK_ASSERT ''w->pedigree.parent->parent == NULL'' (ped_parent n = PNULL))])]"

definition save_pedigree_leaf_from_user_worker :: "ptr \<Rightarrow> (rts, unit) prog" where
  "save_pedigree_leaf_from_user_worker w = block [
     bindP (ld_wk wk_type w) (\<lambda>ty. CILK_ASSERT ''w->l->type == WORKER_USER'' (ty = WORKER_USER)),
     bindP (ld_wk wk_original_pedigree_leaf w) (\<lambda>leaf. block [
       CILK_ASSERT ''w->l->original_pedigree_leaf'' (leaf \<noteq> No_leaf),
       bindP (ld_wk (\<lambda>x. ped_rank (wk_pedigree x)) w) (set_leaf_rank leaf),
       cilkrts_set_tls_pedigree_leaf leaf]),
     st_wk w (wk_original_pedigree_leaf_update (\<lambda>_. No_leaf))]"

section \<open>Following the strand\<close>

definition has_pedigree :: "ptr \<Rightarrow> (rts, bool) prog" where
  "has_pedigree sf = ld_sf (\<lambda>x. CILK_FRAME_VERSION_VALUE (sf_flags x) \<ge> 1) sf"

definition update_pedigree_on_leave_frame :: "ptr \<Rightarrow> ptr \<Rightarrow> (rts, unit) prog" where
  "update_pedigree_on_leave_frame w sf =
     bindP (has_pedigree sf) (\<lambda>v1. whenP v1 (bindP (ld_sf sf_pedigree sf) (\<lambda>p. block [
       st_wk w (wk_pedigree_update (ped_rank_update (\<lambda>_. ped_rank p + 1))),
       st_wk w (wk_pedigree_update (ped_parent_update (\<lambda>_. ped_parent p)))])))"

definition update_pedigree_after_sync :: "ptr \<Rightarrow> (rts, unit) prog" where
  "update_pedigree_after_sync sf =
     bindP (gets r_tls) (\<lambda>w.
     bindP (has_pedigree sf) (\<lambda>v1.
       whenP v1 (st_wk w (wk_pedigree_update (ped_rank_update (\<lambda>r. r + 1))))))"

text \<open>The part of \<open>__cilkrts_detach\<close> that names the child, and what \<open>do_sync\<close> saves.\<close>

definition detach_pedigree :: "ptr \<Rightarrow> ptr \<Rightarrow> (rts, unit) prog" where
  "detach_pedigree w self = block [
     bindP (ld_wk wk_pedigree w) (\<lambda>p. block [
       st_sf self (sf_pedigree_update (\<lambda>_. p)),
       bindP (ld_sf sf_call_parent self) (\<lambda>parent. st_sf parent (sf_pedigree_update (\<lambda>_. p)))]),
     st_wk w (wk_pedigree_update (ped_rank_update (\<lambda>_. 1))),
     st_wk w (wk_pedigree_update (ped_parent_update (\<lambda>_. PFrame self)))]"

definition save_pedigree_at_sync :: "ptr \<Rightarrow> ptr \<Rightarrow> (rts, unit) prog" where
  "save_pedigree_at_sync w sf =
     bindP (has_pedigree sf) (\<lambda>v1. whenP v1 (block [
       bindP (ld_wk wk_pedigree w) (\<lambda>p. st_sf sf (sf_pedigree_update (\<lambda>_. p))),
       or_flags sf CILK_FRAME_SF_PEDIGREE_UNSYNCHED]))"

definition setup_for_execution_pedigree :: "ptr \<Rightarrow> (rts, unit) prog" where
  "setup_for_execution_pedigree w =
     bindP (ld_wk wk_current_stack_frame w) (\<lambda>sf. block [
       CILK_ASSERT ''NULL != sf'' (sf \<noteq> NULL),
       bindP (ld_sf sf_flags sf) (\<lambda>flags. whenP (CILK_FRAME_VERSION_VALUE flags \<noteq> 0) (block [
         and_not_flags sf CILK_FRAME_SF_PEDIGREE_UNSYNCHED,
         bindP (ld_wk wk_work_stolen w) (\<lambda>stolen. bindP (ld_sf sf_pedigree sf) (\<lambda>p. block [
           whenP (stolen \<or> has_flag flags CILK_FRAME_SF_PEDIGREE_UNSYNCHED)
             (if stolen then st_wk w (wk_pedigree_update (ped_rank_update (\<lambda>_. ped_rank p + 1)))
              else st_wk w (wk_pedigree_update (ped_rank_update (\<lambda>_. ped_rank p)))),
           st_wk w (wk_pedigree_update (ped_parent_update (\<lambda>_. ped_parent p)))])),
         st_wk w (wk_work_stolen_update (\<lambda>_. False))]))])"

definition cilkrts_bump_loop_rank_internal :: "ptr \<Rightarrow> (rts, int) prog" where
  "cilkrts_bump_loop_rank_internal w =
     (if w = NULL then ret (- 1)
      else result [
        bindP (ld_wk (\<lambda>x. ped_parent (wk_pedigree x)) w) (\<lambda>q. case q of
          PNULL \<Rightarrow> failP Segfault
        | PFrame sf \<Rightarrow> st_sf sf (sf_pedigree_update (ped_rank_update (\<lambda>r. r + 1)))
        | PRoot p \<Rightarrow> store r_leaves r_leaves_update p (apsnd (ped_rank_update (\<lambda>r. r + 1)))),
        st_wk w (wk_pedigree_update (ped_rank_update (\<lambda>_. 1)))]
      (ret 0))"

section \<open>The pedigree interface of the client\<close>

definition cilkrts_get_pedigree_internal :: "ptr \<Rightarrow> (rts, pedigree) prog" where
  "cilkrts_get_pedigree_internal w =
     (if w \<noteq> NULL then ld_wk wk_pedigree w
      else bindP (cilkrts_get_tls_pedigree_leaf True) read_leaf)"

definition cilkrts_bump_worker_rank_internal :: "ptr \<Rightarrow> (rts, int) prog" where
  "cilkrts_bump_worker_rank_internal w =
     bindP (if w \<noteq> NULL then ret (Worker_leaf w) else cilkrts_get_tls_pedigree_leaf True) (\<lambda>leaf.
     bindP (read_leaf leaf) (\<lambda>p. result [set_leaf_rank leaf (ped_rank p + 1)] (ret 0)))"

text \<open>
  The context of a walk: its \<open>size\<close> field says whether it fits, and its pointer is the node last
  returned, NULL before the first and -1 after the last.
\<close>

datatype ped_walk = Walk_at ped_ptr | Walk_complete

record ped_context =
  ctx_size_ok :: bool
  ctx_pedigree :: ped_walk

text \<open>The value returned, the context after the call, and the rank where there is one.\<close>

definition cilkrts_get_pedigree_info :: "ped_context \<Rightarrow> (rts, int \<times> ped_context \<times> 64 word option) prog" where
  "cilkrts_get_pedigree_info ctx =
     (if \<not> ctx_size_ok ctx then ret (- 3, ctx, None)
      else case ctx_pedigree ctx of
        Walk_complete \<Rightarrow> ret (1, ctx, None)
      | Walk_at q \<Rightarrow>
          bindP (if q = PNULL then
              bindP (gets r_tls) (\<lambda>w.
              bindP (if w \<noteq> NULL then ret (Worker_leaf w) else cilkrts_get_tls_pedigree_leaf True) (\<lambda>leaf.
              bindP (read_leaf leaf) (\<lambda>n. ret (ped_parent n))))
            else bindP (read_ped q) (\<lambda>n. ret (ped_parent n))) (\<lambda>next.
          if next = PNULL then ret (1, ctx\<lparr>ctx_pedigree := Walk_complete\<rparr>, None)
          else bindP (read_ped next) (\<lambda>n.
            ret (0, ctx\<lparr>ctx_pedigree := Walk_at next\<rparr>, Some (ped_rank n)))))"

definition cilkrts_get_worker_number :: "(rts, int) prog" where
  "cilkrts_get_worker_number =
     bindP (gets r_tls) (\<lambda>w.
       if w = NULL then ret 0
       else bindP (ld_wk wk_type w) (\<lambda>ty.
         if ty = WORKER_USER then ret 0 else ld_wk (\<lambda>x. wk_self x + 1) w))"

definition cilkrts_get_internal_worker_number :: "(rts, int) prog" where
  "cilkrts_get_internal_worker_number =
     bindP (gets r_tls) (\<lambda>w. if w = NULL then ret (- 1) else ld_wk wk_self w)"

section \<open>Names do not depend on the schedule\<close>

lemma run_flag_ops [run]:
  "or_flags sf b s = (case sf_at s sf of None \<Rightarrow> Inl Segfault
     | Some x \<Rightarrow> Inr ((), s\<lparr>r_sfs := (r_sfs s)(sf \<mapsto> x\<lparr>sf_flags := set_flag b (sf_flags x)\<rparr>)\<rparr>))"
  "and_not_flags sf b s = (case sf_at s sf of None \<Rightarrow> Inl Segfault
     | Some x \<Rightarrow> Inr ((), s\<lparr>r_sfs := (r_sfs s)(sf \<mapsto> x\<lparr>sf_flags := clear_flag b (sf_flags x)\<rparr>)\<rparr>))"
  "has_pedigree sf s = (case sf_at s sf of None \<Rightarrow> Inl Segfault
     | Some x \<Rightarrow> Inr (CILK_FRAME_VERSION_VALUE (sf_flags x) \<ge> 1, s))"
  by (auto simp: or_flags_def and_not_flags_def has_pedigree_def run split: option.splits)

text \<open>The pedigree of a worker after a program, when it returns.\<close>

definition pedigree_after :: "ptr \<Rightarrow> (rts, unit) prog \<Rightarrow> rts \<Rightarrow> pedigree option" where
  "pedigree_after w m s = (case m s of Inl e \<Rightarrow> None | Inr (x, t) \<Rightarrow> map_option wk_pedigree (worker_at t w))"

definition abi1 :: "stack_frame \<Rightarrow> bool" where
  "abi1 x \<longleftrightarrow> CILK_FRAME_VERSION_VALUE (sf_flags x) \<ge> 1"

lemma version_ge_1: "(v :: 32 word) \<ge> 1 \<longleftrightarrow> v \<noteq> 0"
  using unat_gt_0 [of v] by (auto simp: word_le_nat_alt)

lemma version_set_flag:
  "b AND CILK_FRAME_VERSION_MASK = 0 \<Longrightarrow>
   CILK_FRAME_VERSION_VALUE (set_flag b f) = CILK_FRAME_VERSION_VALUE f"
  by (simp add: CILK_FRAME_VERSION_VALUE_def set_flag_def bit.conj_disj_distrib2)

lemma version_clear_flag:
  "CILK_FRAME_VERSION_MASK AND b = 0 \<Longrightarrow>
   CILK_FRAME_VERSION_VALUE (clear_flag b f) = CILK_FRAME_VERSION_VALUE f"
  by (simp add: CILK_FRAME_VERSION_VALUE_def clear_flag_def and.assoc AND_NOT_disjoint)

lemma leave_frame_pedigree:
  assumes "worker_at s w = Some x" "sf_at s sf = Some f" "abi1 f"
  shows "pedigree_after w (update_pedigree_on_leave_frame w sf) s
    = Some \<lparr>ped_rank = ped_rank (sf_pedigree f) + 1, ped_parent = ped_parent (sf_pedigree f)\<rparr>"
  using assms by (auto simp: pedigree_after_def update_pedigree_on_leave_frame_def run abi1_def dest: deref_SomeD)

lemma resume_pedigree:
  assumes "worker_at s w = Some x" "wk_current_stack_frame x = sf" "sf_at s sf = Some f" "abi1 f"
  shows "pedigree_after w (setup_for_execution_pedigree w) s = Some
    (if wk_work_stolen x
     then \<lparr>ped_rank = ped_rank (sf_pedigree f) + 1, ped_parent = ped_parent (sf_pedigree f)\<rparr>
     else if has_flag (sf_flags f) CILK_FRAME_SF_PEDIGREE_UNSYNCHED then sf_pedigree f
     else (wk_pedigree x)\<lparr>ped_parent := ped_parent (sf_pedigree f)\<rparr>)"
  using assms
  by (auto simp: pedigree_after_def setup_for_execution_pedigree_def run abi1_def version_ge_1 dest: deref_SomeD)

text \<open>
  C35. A strand has one name whoever runs it. When worker \<open>w\<close> detaches the spawn helper \<open>self\<close>, the
  continuation of the parent has the pedigree that is \<open>w\<close>'s with the rank one higher: both when \<open>w\<close>
  returns from \<open>self\<close> and no thief came, and when any worker resumes the stolen parent, in whatever
  state the two find their workers, as long as the pedigrees saved in the two frames are unchanged.
\<close>

theorem pedigree_schedule_independent:
  assumes x: "worker_at s w = Some x"
    and self: "sf_at s self = Some f" and par: "sf_call_parent f = par" "sf_at s par = Some g" "par \<noteq> self"
    and detach: "detach_pedigree w self s = Inr ((), t)"
    and returns: "worker_at u w' = Some y" "sf_at u self = Some f'" "abi1 f'"
      "map_option sf_pedigree (sf_at t self) = Some (sf_pedigree f')"
    and steals: "worker_at v thief = Some z" "wk_current_stack_frame z = par" "wk_work_stolen z"
      "sf_at v par = Some g'" "abi1 g'" "map_option sf_pedigree (sf_at t par) = Some (sf_pedigree g')"
  shows "pedigree_after w' (update_pedigree_on_leave_frame w' self) u
       = Some \<lparr>ped_rank = ped_rank (wk_pedigree x) + 1, ped_parent = ped_parent (wk_pedigree x)\<rparr>
    \<and> pedigree_after thief (setup_for_execution_pedigree thief) v
       = pedigree_after w' (update_pedigree_on_leave_frame w' self) u
    \<and> map_option wk_pedigree (worker_at t w) = Some \<lparr>ped_rank = 1, ped_parent = PFrame self\<rparr>"
proof (intro conjI)
  have f': "sf_pedigree f' = wk_pedigree x" and g': "sf_pedigree g' = wk_pedigree x"
    using detach x self par returns(4) steals(6)
    by (auto simp: detach_pedigree_def run dest!: deref_SomeD split: if_splits)
  show "pedigree_after w' (update_pedigree_on_leave_frame w' self) u
       = Some \<lparr>ped_rank = ped_rank (wk_pedigree x) + 1, ped_parent = ped_parent (wk_pedigree x)\<rparr>"
    using leave_frame_pedigree [OF returns(1-3)] by (simp add: f')
  then show "pedigree_after thief (setup_for_execution_pedigree thief) v
       = pedigree_after w' (update_pedigree_on_leave_frame w' self) u"
    using resume_pedigree [OF steals(1,2,4,5)] steals(3) by (simp add: g')
  show "map_option wk_pedigree (worker_at t w) = Some \<lparr>ped_rank = 1, ped_parent = PFrame self\<rparr>"
    using detach x self par
    by (auto simp: detach_pedigree_def run dest!: deref_SomeD split: if_splits)
qed

text \<open>
  C36. A sync does not rename the strand after it: the pedigree that the last worker to reach the
  sync saved in the frame is the one the worker that resumes the frame gets, and the increment
  that the client makes after every sync gives the rank one higher, as at a sync that did not wait.
\<close>

theorem pedigree_across_sync:
  assumes x: "worker_at s w = Some x" and f: "sf_at s sf = Some f" "abi1 f"
    and save: "save_pedigree_at_sync w sf s = Inr ((), t)"
    and resume: "worker_at u w' = Some y" "wk_current_stack_frame y = sf" "\<not> wk_work_stolen y" "r_tls u = w'"
      "map_option sf_pedigree (sf_at u sf) = map_option sf_pedigree (sf_at t sf)"
      "map_option sf_flags (sf_at u sf) = map_option sf_flags (sf_at t sf)"
  shows "pedigree_after w' (setup_for_execution_pedigree w') u = Some (wk_pedigree x)
    \<and> pedigree_after w' (block [setup_for_execution_pedigree w', update_pedigree_after_sync sf]) u
      = Some (ped_rank_update (\<lambda>r. r + 1) (wk_pedigree x))"
proof (intro conjI)
  obtain f' where f': "sf_at u sf = Some f'" "sf_pedigree f' = wk_pedigree x"
    "sf_flags f' = set_flag CILK_FRAME_SF_PEDIGREE_UNSYNCHED (sf_flags f)"
    using save x f resume(5,6) by (cases "sf_at u sf")
      (auto simp: save_pedigree_at_sync_def run abi1_def dest!: deref_SomeD split: if_splits)
  have v: "CILK_FRAME_VERSION_VALUE (set_flag CILK_FRAME_SF_PEDIGREE_UNSYNCHED (sf_flags f))
      = CILK_FRAME_VERSION_VALUE (sf_flags f)"
    "CILK_FRAME_VERSION_VALUE (clear_flag CILK_FRAME_SF_PEDIGREE_UNSYNCHED (sf_flags f'))
      = CILK_FRAME_VERSION_VALUE (sf_flags f')" for f'
    by (simp_all add: version_set_flag version_clear_flag frame_flag_defs CILK_FRAME_VERSION_MASK_def)
  have un: "has_flag (sf_flags f') CILK_FRAME_SF_PEDIGREE_UNSYNCHED"
    unfolding f' by (rule has_flag_set_same) (simp add: frame_flag_defs)
  have a: "abi1 f'" using f(2) f'(3) v(1) by (simp add: abi1_def)
  show "pedigree_after w' (setup_for_execution_pedigree w') u = Some (wk_pedigree x)"
    using resume_pedigree [OF resume(1,2) f'(1) a] resume(3) un f'(2) by simp
  show "pedigree_after w' (block [setup_for_execution_pedigree w', update_pedigree_after_sync sf]) u
      = Some (ped_rank_update (\<lambda>r. r + 1) (wk_pedigree x))"
    using resume f'(1,2) a un v(2) [of f']
    by (auto simp: pedigree_after_def setup_for_execution_pedigree_def update_pedigree_after_sync_def
      run abi1_def version_ge_1 dest!: deref_SomeD)
qed

section \<open>Leaves and walks\<close>

definition leaf_ready :: "rts \<Rightarrow> bool" where
  "leaf_ready s \<longleftrightarrow> (case r_tls_leaf s of
     No_leaf \<Rightarrow> 0 < r_mem_left s \<and> r_pedigree_counter s + 1 \<noteq> - 1
   | Leaf p \<Rightarrow> (case deref (r_leaves s) p of None \<Rightarrow> False
       | Some (n, root) \<Rightarrow> ped_parent n = PRoot p \<and> ped_parent root = PNULL)
   | Worker_leaf v \<Rightarrow> False)"

text \<open>
  Binding a user thread and unbinding it is a round trip for its pedigree: after the worker
  has been given the leaf, has changed its rank to \<open>r\<close>, whatever its parent, and has been unbound, the
  thread has its own leaf back with that rank, and the next binding finds it there.
\<close>

theorem pedigree_leaf_roundtrip:
  assumes "worker_at s w = Some x" "wk_type x = WORKER_USER" "wk_original_pedigree_leaf x = No_leaf"
    and "leaf_ready s"
  shows "\<exists>t p. block [load_pedigree_leaf_into_user_worker w,
        st_wk w (wk_pedigree_update (\<lambda>_. \<lparr>ped_rank = r, ped_parent = q\<rparr>)),
        save_pedigree_leaf_from_user_worker w] s = Inr ((), t)
      \<and> leaf_ready t \<and> r_tls_leaf t = Leaf p \<and> (\<forall>p'. r_tls_leaf s = Leaf p' \<longrightarrow> p' = p)
      \<and> pedigree_after w (load_pedigree_leaf_into_user_worker w) t
        = Some \<lparr>ped_rank = r, ped_parent = PRoot p\<rparr>"
proof (cases "r_tls_leaf s")
  case No_leaf
  with assms show ?thesis
    by (auto simp: load_pedigree_leaf_into_user_worker_def save_pedigree_leaf_from_user_worker_def
      cilkrts_get_tls_pedigree_leaf_def cilkrts_set_tls_pedigree_leaf_def read_leaf_def set_leaf_rank_def
      read_ped_def leaf_ready_def pedigree_after_def run dest!: deref_SomeD)
next
  case (Leaf p)
  with assms(4) obtain n root where "deref (r_leaves s) p = Some (n, root)" "ped_parent n = PRoot p"
    "ped_parent root = PNULL"
    by (auto simp: leaf_ready_def split: option.splits)
  with assms Leaf show ?thesis
    by (auto simp: load_pedigree_leaf_into_user_worker_def save_pedigree_leaf_from_user_worker_def
      cilkrts_get_tls_pedigree_leaf_def cilkrts_set_tls_pedigree_leaf_def read_leaf_def set_leaf_rank_def
      read_ped_def leaf_ready_def pedigree_after_def run dest!: deref_SomeD)
next
  case (Worker_leaf v)
  with assms(4) show ?thesis by (simp add: leaf_ready_def)
qed

definition ped_at :: "rts \<Rightarrow> ped_ptr \<Rightarrow> pedigree option" where
  "ped_at s q = (case q of PNULL \<Rightarrow> None | PFrame sf \<Rightarrow> map_option sf_pedigree (sf_at s sf)
     | PRoot p \<Rightarrow> map_option snd (deref (r_leaves s) p))"

lemma run_read_ped [run]:
  "read_ped q s = (case ped_at s q of None \<Rightarrow> Inl Segfault | Some n \<Rightarrow> Inr (n, s))"
  by (cases q) (auto simp: read_ped_def ped_at_def run split: option.splits)

text \<open>The ranks along the chain from a node to the root.\<close>

fun ped_chain :: "rts \<Rightarrow> ped_ptr \<Rightarrow> 64 word list \<Rightarrow> bool" where
  "ped_chain s q [] \<longleftrightarrow> q = PNULL"
| "ped_chain s q (r # rs) \<longleftrightarrow> q \<noteq> PNULL \<and> (case ped_at s q of None \<Rightarrow> False
     | Some n \<Rightarrow> ped_rank n = r \<and> ped_chain s (ped_parent n) rs)"

primrec walk_calls :: "nat \<Rightarrow> ped_context \<Rightarrow> (rts, (int \<times> 64 word option) list) prog" where
  "walk_calls 0 ctx = ret []"
| "walk_calls (Suc k) ctx = bindP (cilkrts_get_pedigree_info ctx) (\<lambda>(code, ctx, rank).
     bindP (walk_calls k ctx) (\<lambda>rest. ret ((code, rank) # rest)))"

lemma walk_completed:
  "ctx_size_ok ctx \<Longrightarrow> ctx_pedigree ctx = Walk_complete \<Longrightarrow>
   walk_calls k ctx s = Inr (replicate k (1, None), s)"
  by (induction k) (simp_all add: cilkrts_get_pedigree_info_def run)

lemma walk_from:
  assumes "ctx_size_ok ctx" "ctx_pedigree ctx = Walk_at q" "q \<noteq> PNULL"
    "ped_at s q = Some n" "ped_chain s (ped_parent n) rs"
  shows "walk_calls k ctx s = Inr (take k (map (\<lambda>r. (0, Some r)) rs @ replicate k (1, None)), s)"
  using assms
proof (induction k arbitrary: ctx q n rs)
  case (Suc k)
  show ?case
  proof (cases rs)
    case Nil
    with Suc.prems show ?thesis
      by (simp add: cilkrts_get_pedigree_info_def run walk_completed)
  next
    case (Cons r rs')
    then obtain m where m: "ped_parent n \<noteq> PNULL" "ped_at s (ped_parent n) = Some m" "ped_rank m = r"
      "ped_chain s (ped_parent m) rs'"
      using Suc.prems(5) by (auto split: option.splits)
    have "walk_calls k (ctx\<lparr>ctx_pedigree := Walk_at (ped_parent n)\<rparr>) s
        = Inr (take k (map (\<lambda>r. (0, Some r)) rs' @ replicate k (1, None)), s)"
      using Suc.IH [of "ctx\<lparr>ctx_pedigree := Walk_at (ped_parent n)\<rparr>"] m Suc.prems(1) by simp
    then show ?thesis
      using Suc.prems m Cons
      by (simp add: cilkrts_get_pedigree_info_def run take_append replicate_append_same [symmetric])
  qed
qed (simp add: run)

text \<open>
  Walking a pedigree from a bound worker gives the ranks of the chain in order from the strand's
  parent to the root of the user thread, answers 1 from then on, and changes nothing.
\<close>

theorem pedigree_walk_enumerates:
  assumes "r_tls s = w" "worker_at s w = Some x" "ped_chain s (ped_parent (wk_pedigree x)) rs"
  shows "walk_calls k \<lparr>ctx_size_ok = True, ctx_pedigree = Walk_at PNULL\<rparr> s
    = Inr (take k (map (\<lambda>r. (0, Some r)) rs @ replicate k (1, None)), s)"
proof (cases k)
  case (Suc k')
  show ?thesis
  proof (cases rs)
    case Nil
    with Suc assms show ?thesis
      by (auto simp: cilkrts_get_pedigree_info_def read_leaf_def run walk_completed dest: deref_SomeD)
  next
    case (Cons r rs')
    with assms obtain m where m: "ped_parent (wk_pedigree x) \<noteq> PNULL"
      "ped_at s (ped_parent (wk_pedigree x)) = Some m" "ped_rank m = r" "ped_chain s (ped_parent m) rs'"
      by (auto split: option.splits)
    have "walk_calls k' \<lparr>ctx_size_ok = True, ctx_pedigree = Walk_at (ped_parent (wk_pedigree x))\<rparr> s
        = Inr (take k' (map (\<lambda>r. (0, Some r)) rs' @ replicate k' (1, None)), s)"
      by (rule walk_from [OF _ _ m(1,2,4)]) simp_all
    with Suc Cons assms m show ?thesis
      by (auto simp: cilkrts_get_pedigree_info_def read_leaf_def run take_append
        replicate_append_same [symmetric] dest: deref_SomeD)
  qed
qed (simp add: run)

section \<open>Samples\<close>

text \<open>Worker 10 runs the spawn helper 50 of frame 40; worker 11 may steal that frame.\<close>

definition sample_spawn :: rts where
  "sample_spawn = sample_rts\<lparr>
     r_workers := [10 \<mapsto> sample_worker\<lparr>wk_current_stack_frame := 50, wk_pedigree := \<lparr>ped_rank = 3, ped_parent = PRoot 7\<rparr>\<rparr>,
                   11 \<mapsto> sample_worker\<lparr>wk_current_stack_frame := 40, wk_work_stolen := True\<rparr>],
     r_sfs := [40 \<mapsto> sample_sf, 50 \<mapsto> sample_sf\<lparr>sf_call_parent := 40\<rparr>],
     r_leaves := [7 \<mapsto> (\<lparr>ped_rank = 3, ped_parent = PRoot 7\<rparr>, \<lparr>ped_rank = 1, ped_parent = PNULL\<rparr>)]\<rparr>"

lemmas sample_spawn_simps = sample_spawn_def sample_rts_def sample_worker_def sample_sf_def deref_def

lemma abi1_sample: "CILK_FRAME_VERSION_VALUE 0x01000000 = 1"
  by (simp add: CILK_FRAME_VERSION_VALUE_def CILK_FRAME_VERSION_MASK_def)

theorem pedigree_schedule_independent_witness:
  "\<exists>t. detach_pedigree 10 50 sample_spawn = Inr ((), t)
     \<and> pedigree_after 11 (setup_for_execution_pedigree 11) t
       = pedigree_after 10 (update_pedigree_on_leave_frame 10 50) t"
proof -
  obtain t where t: "detach_pedigree 10 50 sample_spawn = Inr ((), t)"
    by (auto simp: detach_pedigree_def run sample_spawn_simps)
  have w: "r_workers t = [10 \<mapsto> sample_worker\<lparr>wk_current_stack_frame := 50, wk_pedigree := \<lparr>ped_rank = 1, ped_parent = PFrame 50\<rparr>\<rparr>,
      11 \<mapsto> sample_worker\<lparr>wk_current_stack_frame := 40, wk_work_stolen := True\<rparr>]"
    "r_sfs t = [40 \<mapsto> sample_sf\<lparr>sf_pedigree := \<lparr>ped_rank = 3, ped_parent = PRoot 7\<rparr>\<rparr>,
      50 \<mapsto> sample_sf\<lparr>sf_call_parent := 40, sf_pedigree := \<lparr>ped_rank = 3, ped_parent = PRoot 7\<rparr>\<rparr>]"
    using t by (auto simp: detach_pedigree_def run sample_spawn_simps fun_eq_iff)
  have "pedigree_after 11 (setup_for_execution_pedigree 11) t
      = pedigree_after 10 (update_pedigree_on_leave_frame 10 50) t"
    by (rule pedigree_schedule_independent [OF _ _ _ _ _ t, where f = "sample_sf\<lparr>sf_call_parent := 40\<rparr>"
        and par = 40 and z = "sample_worker\<lparr>wk_current_stack_frame := 40, wk_work_stolen := True\<rparr>", THEN conjunct2, THEN conjunct1])
      (auto simp: w sample_spawn_simps abi1_def abi1_sample)
  with t show ?thesis by blast
qed

theorem pedigree_across_sync_witness:
  "\<exists>t. save_pedigree_at_sync 10 40 sample_spawn = Inr ((), t)
     \<and> pedigree_after 12 (setup_for_execution_pedigree 12) (t\<lparr>r_tls := 12, r_workers := (r_workers t)(12 \<mapsto>
         sample_worker\<lparr>wk_current_stack_frame := 40\<rparr>)\<rparr>)
       = Some \<lparr>ped_rank = 3, ped_parent = PRoot 7\<rparr>"
proof -
  obtain t where t: "save_pedigree_at_sync 10 40 sample_spawn = Inr ((), t)"
    by (auto simp: save_pedigree_at_sync_def run sample_spawn_simps abi1_sample)
  have "pedigree_after 12 (setup_for_execution_pedigree 12) (t\<lparr>r_tls := 12, r_workers := (r_workers t)(12 \<mapsto>
         sample_worker\<lparr>wk_current_stack_frame := 40\<rparr>)\<rparr>)
     = Some (wk_pedigree (sample_worker\<lparr>wk_current_stack_frame := 50, wk_pedigree := \<lparr>ped_rank = 3, ped_parent = PRoot 7\<rparr>\<rparr>))"
    by (rule pedigree_across_sync [OF _ _ _ t, where f = sample_sf
        and y = "sample_worker\<lparr>wk_current_stack_frame := 40\<rparr>", THEN conjunct1])
      (auto simp: sample_spawn_simps abi1_def abi1_sample)
  with t show ?thesis by simp
qed

theorem pedigree_leaf_roundtrip_witness:
  "\<exists>t p. block [load_pedigree_leaf_into_user_worker 10,
        st_wk 10 (wk_pedigree_update (\<lambda>_. \<lparr>ped_rank = 9, ped_parent = PFrame 50\<rparr>)),
        save_pedigree_leaf_from_user_worker 10]
      (sample_rts\<lparr>r_workers := [10 \<mapsto> sample_worker\<lparr>wk_type := WORKER_USER\<rparr>]\<rparr>) = Inr ((), t)
    \<and> pedigree_after 10 (load_pedigree_leaf_into_user_worker 10) t = Some \<lparr>ped_rank = 9, ped_parent = PRoot p\<rparr>"
  using pedigree_leaf_roundtrip [of "sample_rts\<lparr>r_workers := [10 \<mapsto> sample_worker\<lparr>wk_type := WORKER_USER\<rparr>]\<rparr>" 10
    "sample_worker\<lparr>wk_type := WORKER_USER\<rparr>" 9 "PFrame 50"]
  by (auto simp: sample_spawn_simps leaf_ready_def)

theorem pedigree_walk_enumerates_witness:
  "walk_calls 3 \<lparr>ctx_size_ok = True, ctx_pedigree = Walk_at PNULL\<rparr> sample_spawn
    = Inr ([(0, Some 1), (1, None), (1, None)], sample_spawn)"
  using pedigree_walk_enumerates [of sample_spawn 10
    "sample_worker\<lparr>wk_current_stack_frame := 50, wk_pedigree := \<lparr>ped_rank = 3, ped_parent = PRoot 7\<rparr>\<rparr>" "[1]" 3]
  by (simp add: sample_spawn_simps ped_at_def numeral_3_eq_3)

end
