(* ===== verification/Sync.thy ===== *)
theory Sync
  imports Deque Pedigree
begin

text \<open>
  The end of a strand (\<open>scheduler.c\<close>, \<open>local_state.c\<close>): the provably good steal at a sync, the
  death of a called child, setting a worker up to resume a frame, the switch between user code
  and the scheduling fiber, and what the scheduler does first there.
\<close>

section \<open>Provably good steals\<close>

datatype provably_good_steal_t = ABANDON_EXECUTION | CONTINUE_EXECUTION | WAIT_FOR_CONTINUE

definition provably_good_steal_exceptions :: "ptr \<Rightarrow> ptr \<Rightarrow> (rts, unit) prog" where
  "provably_good_steal_exceptions w ff = block [
     bindP (ld_ff ff_child_pending_exception ff) (\<lambda>l. bindP (ld_ff ff_pending_exception ff) (\<lambda>r.
     bindP (cilkrts_merge_pending_exceptions w l r) (\<lambda>e.
       st_ff ff (ff_pending_exception_update (\<lambda>_. e))))),
     st_ff ff (ff_child_pending_exception_update (\<lambda>_. NULL))]"

definition provably_good_steal_stacks :: "ptr \<Rightarrow> ptr \<Rightarrow> (rts, unit) prog" where
  "provably_good_steal_stacks w ff = block [
     bindP (ld_ff ff_fiber_self ff) (\<lambda>f. CILK_ASSERT ''NULL == ff->fiber_self'' (f = NULL)),
     bindP (ld_ff ff_fiber_child ff) (\<lambda>f. block [
       CILK_ASSERT ''ff->fiber_child'' (f \<noteq> NULL),
       st_ff ff (ff_fiber_self_update (\<lambda>_. f))]),
     st_ff ff (ff_fiber_child_update (\<lambda>_. NULL)),
     bindP (ld_ff ff_fiber_self ff) cilk_fiber_take]"

definition cilkrts_mark_synched :: "ptr \<Rightarrow> (rts, unit) prog" where
  "cilkrts_mark_synched ff = block [
     bindP (ld_ff ff_call_stack ff) (\<lambda>cs. and_not_flags cs CILK_FRAME_UNSYNCHED),
     st_ff ff (ff_simulated_stolen_update (\<lambda>_. False))]"

text \<open>Reducers wait for \<open>setup_for_execution_reducers\<close>, and without record and replay there is no waiting.\<close>

definition provably_good_steal :: "ptr \<Rightarrow> ptr \<Rightarrow> (rts, provably_good_steal_t) prog" where
  "provably_good_steal w ff =
     bindP (decjoin ff) (\<lambda>n.
       if n = 0 then
         result [
           provably_good_steal_exceptions w ff,
           provably_good_steal_stacks w ff,
           cilkrts_mark_synched ff,
           cilkrts_push_next_frame w ff]
          (bindP (ld_wk wk_active_deque w) (\<lambda>d. bindP (ld_dq dq_team d) (\<lambda>team.
             ret (if w = team then CONTINUE_EXECUTION else ABANDON_EXECUTION))))
       else ret ABANDON_EXECUTION)"

definition unconditional_steal :: "ptr \<Rightarrow> ptr \<Rightarrow> (rts, unit) prog" where
  "unconditional_steal w ff = block [
     bindP (decjoin ff) (\<lambda>_. ret ()),
     cilkrts_push_next_frame w ff]"

section \<open>The death of a child\<close>

definition splice_exceptions_for_call :: "ptr \<Rightarrow> ptr \<Rightarrow> ptr \<Rightarrow> (rts, unit) prog" where
  "splice_exceptions_for_call w parent_ff child_ff = block [
     bindP (ld_ff ff_is_call_child child_ff) (CILK_ASSERT ''child_ff->is_call_child''),
     bindP (ld_ff ff_right_pending_exception child_ff) (\<lambda>e.
       CILK_ASSERT ''NULL == child_ff->right_pending_exception'' (e = NULL)),
     bindP (ld_ff ff_pending_exception parent_ff) (\<lambda>e.
       CILK_ASSERT ''NULL == parent_ff->pending_exception'' (e = NULL)),
     bindP (ld_ff ff_pending_exception child_ff) (\<lambda>e. st_ff parent_ff (ff_pending_exception_update (\<lambda>_. e))),
     st_ff child_ff (ff_pending_exception_update (\<lambda>_. NULL))]"

text \<open>
  The place to the left of a frame where what it leaves behind goes: the field for the children
  of its parent, or the field for what is right of a sibling.
\<close>

datatype left_slot = Children_of ptr | Right_of ptr

fun load_left_exception :: "left_slot \<Rightarrow> (rts, ptr) prog" where
  "load_left_exception (Children_of p) = ld_ff ff_child_pending_exception p"
| "load_left_exception (Right_of q) = ld_ff ff_right_pending_exception q"

fun store_left_exception :: "left_slot \<Rightarrow> ptr \<Rightarrow> (rts, unit) prog" where
  "store_left_exception (Children_of p) e = st_ff p (ff_child_pending_exception_update (\<lambda>_. e))"
| "store_left_exception (Right_of q) e = st_ff q (ff_right_pending_exception_update (\<lambda>_. e))"

definition splice_exceptions_for_spawn :: "ptr \<Rightarrow> ptr \<Rightarrow> left_slot \<Rightarrow> (rts, unit) prog" where
  "splice_exceptions_for_spawn w ff left = block [
     bindP (load_left_exception left) (\<lambda>l. bindP (ld_ff ff_pending_exception ff) (\<lambda>e.
       bindP (cilkrts_merge_pending_exceptions w l e) (store_left_exception left))),
     st_ff ff (ff_pending_exception_update (\<lambda>_. NULL)),
     bindP (load_left_exception left) (\<lambda>l. bindP (ld_ff ff_right_pending_exception ff) (\<lambda>e.
       bindP (cilkrts_merge_pending_exceptions w l e) (store_left_exception left))),
     st_ff ff (ff_right_pending_exception_update (\<lambda>_. NULL))]"

definition splice_stacks_for_call :: "ptr \<Rightarrow> ptr \<Rightarrow> ptr \<Rightarrow> (rts, unit) prog" where
  "splice_stacks_for_call w parent_ff child_ff = block [
     bindP (ld_ff ff_fiber_child child_ff) (\<lambda>f. CILK_ASSERT ''!child_ff->fiber_child'' (f = NULL)),
     bindP (ld_ff ff_is_call_child child_ff) (CILK_ASSERT ''child_ff->is_call_child''),
     bindP (ld_ff ff_fiber_self parent_ff) (\<lambda>f. CILK_ASSERT ''!parent_ff->fiber_self'' (f = NULL)),
     bindP (ld_ff ff_fiber_self child_ff) (\<lambda>f. st_ff parent_ff (ff_fiber_self_update (\<lambda>_. f))),
     st_ff child_ff (ff_fiber_self_update (\<lambda>_. NULL))]"

definition finalize_child_for_call :: "ptr \<Rightarrow> ptr \<Rightarrow> ptr \<Rightarrow> (rts, unit) prog" where
  "finalize_child_for_call w parent_ff child_ff = block [
     bindP (ld_ff ff_is_call_child child_ff) (CILK_ASSERT ''child_ff->is_call_child''),
     bindP (ld_ff ff_join_counter child_ff) (\<lambda>n. CILK_ASSERT ''child_ff->join_counter == 0'' (n = 0)),
     bindP (ld_ff ff_rightmost_child child_ff) (\<lambda>c. CILK_ASSERT ''!child_ff->rightmost_child'' (c = NULL)),
     bindP (ld_ff ff_rightmost_child parent_ff) (\<lambda>c.
       CILK_ASSERT ''child_ff == parent_ff->rightmost_child'' (c = child_ff)),
     bindP (ld_ff ff_children_reducer_map child_ff) (\<lambda>m.
       CILK_ASSERT ''NULL == child_ff->children_reducer_map'' (m = NULL)),
     bindP (ld_ff ff_right_reducer_map child_ff) (\<lambda>m.
       CILK_ASSERT ''NULL == child_ff->right_reducer_map'' (m = NULL)),
     splice_exceptions_for_call w parent_ff child_ff,
     splice_stacks_for_call w parent_ff child_ff,
     unlink_child parent_ff child_ff,
     unconditional_steal w parent_ff,
     cilkrts_destroy_full_frame w child_ff]"

section \<open>Resuming a frame\<close>

definition setup_for_execution_reducers :: "ptr \<Rightarrow> ptr \<Rightarrow> (rts, unit) prog" where
  "setup_for_execution_reducers w ff =
     bindP (ld_ff ff_call_stack ff) (\<lambda>sf. bindP (ld_sf sf_flags sf) (\<lambda>f.
       whenP (\<not> has_flag f CILK_FRAME_UNSYNCHED) (block [
         bindP (ld_ff ff_rightmost_child ff) (\<lambda>c. CILK_ASSERT ''!ff->rightmost_child'' (c = NULL)),
         bindP (ld_ff ff_children_reducer_map ff) (\<lambda>m. whenP (m \<noteq> NULL) (block [
           bindP (ld_wk wk_reducer_map w) (\<lambda>m'. CILK_ASSERT ''!w->reducer_map'' (m' = NULL)),
           st_wk w (wk_reducer_map_update (\<lambda>_. m)),
           st_ff ff (ff_children_reducer_map_update (\<lambda>_. NULL))]))])))"

definition setup_for_execution_exceptions :: "ptr \<Rightarrow> ptr \<Rightarrow> (rts, unit) prog" where
  "setup_for_execution_exceptions w ff = block [
     bindP (ld_wk wk_pending_exception w) (\<lambda>e. CILK_ASSERT ''NULL == w->l->pending_exception'' (e = NULL)),
     bindP (ld_ff ff_pending_exception ff) (\<lambda>e. st_wk w (wk_pending_exception_update (\<lambda>_. e))),
     st_ff ff (ff_pending_exception_update (\<lambda>_. NULL))]"

definition setup_for_execution :: "ptr \<Rightarrow> ptr \<Rightarrow> bool \<Rightarrow> (rts, unit) prog" where
  "setup_for_execution w ff is_return_from_call = block [
     setup_for_execution_reducers w ff,
     setup_for_execution_exceptions w ff,
     bindP (ld_ff ff_call_stack ff) (\<lambda>cs. block [
       st_sf cs (sf_worker_update (\<lambda>_. w)),
       st_wk w (wk_current_stack_frame_update (\<lambda>_. cs))]),
     whenP (\<not> is_return_from_call) (setup_for_execution_pedigree w),
     cilkrts_setup_for_execution_sysdep w ff,
     bindP (ld_wk wk_the w) (\<lambda>d. st_dq d (\<lambda>x. x\<lparr>dq_tail := 0, dq_head := 0\<rparr>)),
     reset_THE_exception w,
     bindP (ld_wk wk_active_deque w) (make_runnable w ff)]"

definition scheduling_fiber_prepare_to_resume_user_code :: "ptr \<Rightarrow> ptr \<Rightarrow> ptr \<Rightarrow> (rts, unit) prog" where
  "scheduling_fiber_prepare_to_resume_user_code w ff sf = block [
     st_wk w (wk_current_stack_frame_update (\<lambda>_. sf)),
     st_sf sf (sf_worker_update (\<lambda>_. w))]"

text \<open>The jump itself gives the frame its stack pointer back; \<open>longjmp\<close> then continues client code.\<close>

definition sysdep_longjmp_to_sf :: "64 word \<Rightarrow> ptr \<Rightarrow> (rts, unit) prog" where
  "sysdep_longjmp_to_sf new_sp sf = st_sf sf (sf_sp_update (\<lambda>_. new_sp))"

definition cilkrts_resume :: "ptr \<Rightarrow> ptr \<Rightarrow> (rts, unit) prog" where
  "cilkrts_resume sf ff =
     bindP (ld_ff ff_sync_sp ff) (\<lambda>sync_sp. block [
       cilkrts_take_stack ff sync_sp,
       and_not_flags sf CILK_FRAME_SUSPENDED,
       sysdep_longjmp_to_sf sync_sp sf])"

definition user_code_resume_after_switch_into_runtime :: "ptr \<Rightarrow> (rts, unit) prog" where
  "user_code_resume_after_switch_into_runtime fiber =
     bindP (ld_fb fb_owner fiber) (\<lambda>w.
     bindP (ld_wk wk_current_stack_frame w) (\<lambda>sf.
     bindP (ld_sf sf_worker sf) (\<lambda>v.
     bindP (current_ff v) (\<lambda>ff. block [
       bindP (ld_ff ff_fiber_self ff) (\<lambda>f. CILK_ASSERT ''ff->fiber_self == fiber'' (f = fiber)),
       bindP (ld_fb fb_resume_sf fiber) (\<lambda>r. CILK_ASSERT ''sf == fdata->resume_sf'' (sf = r)),
       st_fb fiber (fb_resume_sf_update (\<lambda>_. NULL)),
       cilkrts_resume sf ff]))))"

section \<open>The switch to the scheduling fiber\<close>

text \<open>
  \<open>longjmp_into_runtime\<close> up to the switch. When the fiber it leaves runs again it continues with
  \<open>user_code_resume_after_switch_into_runtime\<close>.
\<close>

definition longjmp_into_runtime :: "ptr \<Rightarrow> scheduling_stack_fcn \<Rightarrow> ptr \<Rightarrow> (rts, unit) prog" where
  "longjmp_into_runtime w fcn sf = block [
     bindP (ld_wk wk_post_suspend w) (\<lambda>p. CILK_ASSERT ''!w->l->post_suspend'' (p = No_fcn)),
     st_wk w (wk_post_suspend_update (\<lambda>_. fcn)),
     st_wk w (wk_suspended_stack_update (\<lambda>_. sf)),
     bindP (current_ff w) (\<lambda>ff.
     bindP (ld_wk wk_fiber_to_free w) (\<lambda>fiber_to_free.
     bindP (if fiber_to_free \<noteq> NULL then ret fiber_to_free
            else bindP (ld_ff ff_parent ff) (ld_ff ff_fiber_child)) (\<lambda>current_fiber. block [
       bindP (ld_ff ff_fiber_self ff) (\<lambda>f. CILK_ASSERT ''NULL == (*w->l->frame_ff)->fiber_self'' (f = NULL)),
       st_fb current_fiber (fb_resume_sf_update (\<lambda>_. NULL)),
       bindP (ld_fb fb_owner current_fiber) (\<lambda>v. CILK_ASSERT ''fdata->owner == w'' (v = w)),
       bindP (ld_wk wk_scheduling_fiber w) (\<lambda>sched. block [
         cilk_fiber_set_post_switch_proc sched Enter_runtime_transition,
         if fiber_to_free \<noteq> NULL then block [
           st_wk w (wk_fiber_to_free_update (\<lambda>_. NULL)),
           bindP (ld_fb fb_owner sched) (\<lambda>v.
             CILK_ASSERT ''NULL == cilk_fiber_get_data(w->l->scheduling_fiber)->owner'' (v = NULL)),
           cilk_fiber_remove_reference_from_self_and_resume_other current_fiber sched]
         else cilk_fiber_suspend_self_and_resume_other current_fiber sched])])))]"

definition kyles_longjmp_into_runtime :: "ptr \<Rightarrow> scheduling_stack_fcn \<Rightarrow> ptr \<Rightarrow> (rts, unit) prog" where
  "kyles_longjmp_into_runtime w fcn sf = block [
     bindP (ld_wk wk_post_suspend w) (\<lambda>p. CILK_ASSERT ''!w->l->post_suspend'' (p = No_fcn)),
     st_wk w (wk_post_suspend_update (\<lambda>_. fcn)),
     st_wk w (wk_suspended_stack_update (\<lambda>_. sf)),
     bindP (current_ff w) (\<lambda>ff. bindP (ld_ff ff_fiber_self ff) (\<lambda>current_fiber. block [
       st_fb current_fiber (fb_resume_sf_update (\<lambda>_. NULL)),
       bindP (ld_fb fb_owner current_fiber) (\<lambda>v. CILK_ASSERT ''fdata->owner == w'' (v = w)),
       bindP (ld_wk wk_scheduling_fiber w) (\<lambda>sched. block [
         cilk_fiber_set_post_switch_proc sched Enter_runtime_transition,
         cilk_fiber_suspend_self_and_resume_other current_fiber sched])]))]"

section \<open>What runs first on the scheduling fiber\<close>

definition do_sync :: "ptr \<Rightarrow> ptr \<Rightarrow> ptr \<Rightarrow> (rts, unit) prog" where
  "do_sync w ff sf = with_worker_lock w [
     CILK_ASSERT ''ff'' (ff \<noteq> NULL),
     bindP (result [cilkrts_frame_lock w ff,
         bindP (ld_sf sf_call_parent sf) (\<lambda>p. CILK_ASSERT ''sf->call_parent == 0'' (p = NULL)),
         bindP (ld_sf sf_flags sf) (\<lambda>f.
           CILK_ASSERT ''sf->flags & CILK_FRAME_UNSYNCHED'' (has_flag f CILK_FRAME_UNSYNCHED)),
         bindP (ld_ff ff_fiber_self ff) (\<lambda>f. CILK_ASSERT ''NULL == ff->fiber_self'' (f = NULL)),
         save_pedigree_at_sync w sf]
       (bindP (provably_good_steal w ff) (\<lambda>steal_result.
          result [cilkrts_frame_unlock w ff] (ret steal_result)))) (\<lambda>steal_result.
       whenP (steal_result \<noteq> WAIT_FOR_CONTINUE) (set_current_ff w NULL))]"

definition do_return_from_spawn :: "ptr \<Rightarrow> ptr \<Rightarrow> ptr \<Rightarrow> (rts, unit) prog" where
  "do_return_from_spawn w ff sf = block [
     with_worker_lock w [
       CILK_ASSERT ''ff'' (ff \<noteq> NULL),
       bindP (ld_ff ff_is_call_child ff) (\<lambda>c. CILK_ASSERT ''!ff->is_call_child'' (\<not> c)),
       CILK_ASSERT ''sf == NULL'' (sf = NULL),
       bindP (ld_ff ff_parent ff) (\<lambda>parent_ff. block [
         with_frame_lock w ff [bindP (decjoin ff) (\<lambda>_. ret ())],
         whenP (parent_ff \<noteq> NULL) (with_frame_lock w parent_ff [
           bindP (ld_ff ff_simulated_stolen parent_ff) (\<lambda>simulated.
             if simulated then unconditional_steal w parent_ff
             else bindP (provably_good_steal w parent_ff) (\<lambda>_. ret ()))])])],
     cilkrts_destroy_full_frame w ff]"

definition do_suspend_return_from_initial :: "ptr \<Rightarrow> ptr \<Rightarrow> ptr \<Rightarrow> (rts, unit) prog" where
  "do_suspend_return_from_initial w ff sf = block [
     st_g (g_exit_frame_update (\<lambda>_. ff)),
     bindP (worker_no 0) (\<lambda>w0. st_ff ff (ff_sync_master_update (\<lambda>_. w0))),
     bindP cilkg_decrement_active_workers (\<lambda>n. whenP (n = 0)
       (bindP (ld_ff ff_sync_master ff) (\<lambda>m. cilkrts_push_next_frame m ff)))]"

definition call_scheduling_fcn :: "scheduling_stack_fcn \<Rightarrow> ptr \<Rightarrow> ptr \<Rightarrow> ptr \<Rightarrow> (rts, unit) prog" where
  "call_scheduling_fcn fcn w ff sf = (case fcn of
     No_fcn \<Rightarrow> failP Segfault
   | Fcn_do_sync \<Rightarrow> do_sync w ff sf
   | Fcn_do_return_from_spawn \<Rightarrow> do_return_from_spawn w ff sf
   | Fcn_do_suspend_return_from_initial \<Rightarrow> do_suspend_return_from_initial w ff sf)"

definition run_scheduling_stack_fcn :: "ptr \<Rightarrow> (rts, unit) prog" where
  "run_scheduling_stack_fcn w =
     bindP (ld_wk wk_post_suspend w) (\<lambda>fcn.
     bindP (current_ff w) (\<lambda>ff2.
     bindP (ld_wk wk_suspended_stack w) (\<lambda>sf2. block [
       st_wk w (wk_post_suspend_update (\<lambda>_. No_fcn)),
       st_wk w (wk_suspended_stack_update (\<lambda>_. NULL)),
       set_current_ff w NULL,
       CILK_ASSERT ''fcn'' (fcn \<noteq> No_fcn),
       CILK_ASSERT ''ff2'' (ff2 \<noteq> NULL),
       call_scheduling_fcn fcn w ff2 sf2,
       bindP (current_ff w) (\<lambda>ff. CILK_ASSERT ''NULL == *w->l->frame_ff'' (ff = NULL))])))"

definition cilkbug_assert_no_uncaught_exception :: "(rts, unit) prog" where
  "cilkbug_assert_no_uncaught_exception =
     bindP (gets r_eh_uncaught) (\<lambda>n. CILK_ASSERT ''!uncaught'' (n = 0))"

definition enter_runtime_transition_proc :: "ptr \<Rightarrow> (rts, unit) prog" where
  "enter_runtime_transition_proc fiber =
     bindP (ld_fb fb_owner fiber) (\<lambda>w.
     bindP (ld_wk wk_post_suspend w) (\<lambda>p. whenP (p \<noteq> No_fcn) (block [
       run_scheduling_stack_fcn w,
       bindP (ld_wk wk_reducer_map w) (\<lambda>m. CILK_ASSERT ''NULL == w->reducer_map'' (m = NULL)),
       cilkbug_assert_no_uncaught_exception])))"

section \<open>Returns from calls\<close>

definition disown :: "ptr \<Rightarrow> ptr \<Rightarrow> ptr \<Rightarrow> (rts, ptr) prog" where
  "disown w ff sf = result [
     CILK_ASSERT ''ff'' (ff \<noteq> NULL),
     make_unrunnable w ff sf (sf \<noteq> NULL),
     set_current_ff w NULL]
   (ld_ff ff_parent ff)"

definition cilkrts_pop_tail :: "ptr \<Rightarrow> (rts, ptr) prog" where
  "cilkrts_pop_tail w = result [cilkrts_worker_lock w]
     (bindP (ld_wk wk_the w) (\<lambda>d.
      bindP (ld_dq (\<lambda>x. (dq_head x, dq_tail x)) d) (\<lambda>(head, tail).
      bindP (if head < tail then bindP (read_ltq d (tail - 1)) (\<lambda>sf.
            result [st_dq d (dq_tail_update (\<lambda>_. tail - 1))] (ret sf))
          else ret NULL) (\<lambda>sf.
        result [cilkrts_worker_unlock w] (ret sf)))))"

definition cilkrts_return :: "ptr \<Rightarrow> (rts, unit) prog" where
  "cilkrts_return w = with_worker_lock w [
     bindP (current_ff w) (\<lambda>ff. block [
       CILK_ASSERT ''ff'' (ff \<noteq> NULL),
       bindP (ld_ff ff_join_counter ff) (\<lambda>n. CILK_ASSERT ''ff->join_counter == 1'' (n = 1)),
       bindP (ld_ff ff_is_call_child ff) (CILK_ASSERT ''ff->is_call_child''),
       bindP (result [cilkrts_frame_lock w ff] (bindP (disown w ff NULL) (\<lambda>parent_ff. result [
           bindP (decjoin ff) (\<lambda>_. ret ()),
           move_pending_exception w ff,
           cilkrts_frame_unlock w ff] (ret parent_ff)))) (\<lambda>parent_ff. block [
         CILK_ASSERT ''parent_ff'' (parent_ff \<noteq> NULL),
         with_frame_lock w parent_ff [finalize_child_for_call w parent_ff ff]])]),
     bindP (pop_next_frame w) (\<lambda>ff. block [
       bindP (current_ff w) (\<lambda>c. CILK_ASSERT ''!*w->l->frame_ff'' (c = NULL)),
       whenP (ff \<noteq> NULL) (with_frame_lock w ff [
         bindP (ld_ff ff_call_stack ff) (\<lambda>sf. bindP (if sf = NULL then ret False else ld_sf (\<lambda>x. sf_call_parent x = NULL) sf)
           (CILK_ASSERT ''sf && !sf->call_parent'')),
         setup_for_execution w ff True])])]"

definition cilkrts_restore_stealing :: "ptr \<Rightarrow> int \<Rightarrow> (rts, unit) prog" where
  "cilkrts_restore_stealing w saved_protected_tail =
     bindP (ld_wk wk_the w) (\<lambda>d. st_dq d (dq_protected_tail_update (\<lambda>_. saved_protected_tail)))"

text \<open>\<open>None\<close> is the null pointer; the first cell of the deque stands for it.\<close>

definition cilkrts_disallow_stealing :: "ptr \<Rightarrow> int option \<Rightarrow> (rts, int) prog" where
  "cilkrts_disallow_stealing w new_protected_tail =
     bindP (ld_wk wk_the w) (\<lambda>d.
     bindP (ld_dq dq_protected_tail d) (\<lambda>saved_protected_tail.
     bindP (ret (case new_protected_tail of None \<Rightarrow> 0 | Some p \<Rightarrow> p)) (\<lambda>new_protected_tail.
       result [whenP (saved_protected_tail > new_protected_tail)
         (st_dq d (dq_protected_tail_update (\<lambda>_. new_protected_tail)))]
       (ret saved_protected_tail))))"

end
