(* ===== verification/Reductions.thy ===== *)
theory Reductions
  imports Sync
begin

text \<open>
  The reduction protocol (the second half of \<open>scheduler.c\<close>, the end of \<open>reducer_impl.cpp\<close>): when a
  strand ends at a spawn return or at a sync, its reducer map and its exceptions go to the slot on
  its left, and maps that meet there are reduced, without any lock held. The theory holds the
  code; \<open>Reduction_Order\<close> proves what it does under interleaving.

  Reducing two maps runs the \<open>reduce\<close> functions of the client, which may do anything, move to another
  worker, or make a new map; what \<open>cilkred_map::merge\<close> and \<open>__cilkrts_destroy_reducer_map\<close> do to the
  state is therefore a parameter here. On values, without such effects, it is defined in \<open>Reducer_Merge\<close>.
\<close>

section \<open>Merging maps\<close>

text \<open>
  \<open>rc_merge w this other kind\<close> returns on the worker it ends on. \<open>rc_rounds\<close> bounds how often a
  reduction may leave new maps behind; a reduction that makes no reducer map needs one round, and
  each frame to the left or right that delivers a map meanwhile needs one more.
\<close>

record red_client =
  rc_merge :: "ptr \<Rightarrow> ptr \<Rightarrow> ptr \<Rightarrow> merge_kind \<Rightarrow> (rts, ptr) prog"
  rc_destroy :: "ptr \<Rightarrow> ptr \<Rightarrow> (rts, unit) prog"
  rc_rounds :: nat

definition merge_reducer_maps :: "red_client \<Rightarrow> ptr \<Rightarrow> ptr \<Rightarrow> ptr \<Rightarrow> (rts, ptr \<times> ptr) prog" where
  "merge_reducer_maps rc w left_map right_map =
     (if left_map = NULL then ret (w, right_map)
      else if right_map = NULL then ret (w, left_map)
      else bindP (load r_rmaps (\<lambda>m. (rm_is_leftmost m, rm_nelem m)) left_map) (\<lambda>(leftmost, n).
        bindP (load r_rmaps rm_nelem right_map) (\<lambda>n'.
          if leftmost \<or> n > n' then
            bindP (rc_merge rc w left_map right_map MERGE_INTO_LEFT) (\<lambda>w. ret (w, left_map))
          else
            bindP (rc_merge rc w right_map left_map MERGE_INTO_RIGHT) (\<lambda>w. ret (w, right_map)))))"

definition repeated_merge_reducer_maps :: "red_client \<Rightarrow> ptr \<Rightarrow> ptr \<Rightarrow> ptr \<Rightarrow> (rts, ptr \<times> ptr) prog" where
  "repeated_merge_reducer_maps rc w left_map right_map =
     loopP (rc_rounds rc) (\<lambda>(w, left_map, right_map).
       bindP (merge_reducer_maps rc w left_map right_map) (\<lambda>(w, left_map).
       bindP (ld_wk wk_reducer_map w) (\<lambda>right_map.
         result [st_wk w (wk_reducer_map_update (\<lambda>_. NULL))]
           (ret (if right_map \<noteq> NULL then Inl (w, left_map, right_map) else Inr (w, left_map))))))
     (w, left_map, right_map)"

section \<open>The slot to the left\<close>

fun load_left_map :: "left_slot \<Rightarrow> (rts, ptr) prog" where
  "load_left_map (Children_of p) = ld_ff ff_children_reducer_map p"
| "load_left_map (Right_of q) = ld_ff ff_right_reducer_map q"

fun store_left_map :: "left_slot \<Rightarrow> ptr \<Rightarrow> (rts, unit) prog" where
  "store_left_map (Children_of p) m = st_ff p (ff_children_reducer_map_update (\<lambda>_. m))"
| "store_left_map (Right_of q) m = st_ff q (ff_right_reducer_map_update (\<lambda>_. m))"

definition compute_left_ptrs_for_spawn_return :: "ptr \<Rightarrow> ptr \<Rightarrow> (rts, left_slot) prog" where
  "compute_left_ptrs_for_spawn_return w ff =
     bindP (ld_ff ff_left_sibling ff) (\<lambda>l.
       if l \<noteq> NULL then ret (Right_of l)
       else bindP (ld_ff ff_parent ff) (\<lambda>p. ret (Children_of p)))"

definition compute_left_ptrs_for_sync :: "ptr \<Rightarrow> ptr \<Rightarrow> (rts, left_slot) prog" where
  "compute_left_ptrs_for_sync w ff =
     bindP (ld_ff ff_rightmost_child ff) (\<lambda>c.
       if c \<noteq> NULL then result [
         bindP (ld_ff ff_parent c) (\<lambda>p. CILK_ASSERT ''ff->rightmost_child->parent == ff'' (p = ff))]
         (ret (Right_of c))
       else ret (Children_of ff))"

section \<open>Returns from spawns\<close>

definition finish_spawn_return_on_user_stack :: "ptr \<Rightarrow> ptr \<Rightarrow> ptr \<Rightarrow> (rts, unit) prog" where
  "finish_spawn_return_on_user_stack w parent_ff child_ff = block [
     bindP (ld_wk wk_fiber_to_free w) (\<lambda>f. CILK_ASSERT ''w->l->fiber_to_free == NULL'' (f = NULL)),
     bindP (ld_ff ff_fiber_self child_ff) (\<lambda>fiber.
     bindP (if parent_ff = NULL then ret True
            else bindP (ld_ff ff_left_sibling child_ff) (\<lambda>l. if l \<noteq> NULL then ret True
              else ld_ff (\<lambda>x. ff_fiber_child x \<noteq> NULL) parent_ff)) (\<lambda>not_leftmost.
       if not_leftmost then block [
         bindP (if parent_ff = NULL then ret True else ld_ff (\<lambda>x. ff_fiber_child x \<noteq> fiber) parent_ff)
           (CILK_ASSERT ''!parent_ff || parent_ff->fiber_child != child_ff->fiber_self''),
         st_wk w (wk_fiber_to_free_update (\<lambda>_. fiber))]
       else block [
         st_ff parent_ff (ff_fiber_child_update (\<lambda>_. fiber)),
         st_wk w (wk_fiber_to_free_update (\<lambda>_. NULL))])),
     st_ff child_ff (ff_fiber_self_update (\<lambda>_. NULL)),
     whenP (parent_ff \<noteq> NULL) (unlink_child parent_ff child_ff)]"

text \<open>The place of the left map where there is a reduction left to do, as in the table of the comment.\<close>

definition fast_path_reductions_for_spawn_return :: "ptr \<Rightarrow> ptr \<Rightarrow> (rts, left_slot option) prog" where
  "fast_path_reductions_for_spawn_return w ff = result [
     bindP (ld_wk wk_pending_exception w) (\<lambda>e. CILK_ASSERT ''NULL == w->l->pending_exception'' (e = NULL))]
   (bindP (compute_left_ptrs_for_spawn_return w ff) (\<lambda>left.
    result [splice_exceptions_for_spawn w ff left]
     (bindP (load_left_map left) (\<lambda>l.
      bindP (ld_wk wk_reducer_map w) (\<lambda>m.
      bindP (ld_ff ff_right_reducer_map ff) (\<lambda>r.
      bindP (ret (of_bool (l \<noteq> NULL) + 2 * of_bool (m \<noteq> NULL) + 4 * of_bool (r \<noteq> NULL) :: nat)) (\<lambda>case_value.
        if case_value \<ge> 2 then
          if case_value = 2 then result [
              store_left_map left m,
              st_wk w (wk_reducer_map_update (\<lambda>_. NULL))] (ret None)
          else if case_value = 4 then result [
              store_left_map left r,
              st_ff ff (ff_right_reducer_map_update (\<lambda>_. NULL))] (ret None)
          else ret (Some left)
        else ret None)))))))"

text \<open>One round of the slow path: the worker it ends on, or the worker and slot of the next round.\<close>

definition slide_maps_left :: "ptr \<Rightarrow> ptr \<Rightarrow> left_slot \<Rightarrow> (rts, unit) prog" where
  "slide_maps_left w ff left = block [
     bindP (load_left_map left) (\<lambda>l. whenP (l = NULL) (block [
       bindP (ld_wk wk_reducer_map w) (store_left_map left),
       st_wk w (wk_reducer_map_update (\<lambda>_. NULL))])),
     bindP (ld_wk wk_reducer_map w) (\<lambda>m. whenP (m = NULL) (block [
       bindP (ld_ff ff_right_reducer_map ff) (\<lambda>r. st_wk w (wk_reducer_map_update (\<lambda>_. r))),
       st_ff ff (ff_right_reducer_map_update (\<lambda>_. NULL))]))]"

definition slow_round_for_spawn_return ::
  "red_client \<Rightarrow> ptr \<Rightarrow> ptr \<times> left_slot \<Rightarrow> (rts, (ptr \<times> left_slot) + ptr) prog"
where
  "slow_round_for_spawn_return rc ff = (\<lambda>(w, left). result [slide_maps_left w ff left]
     (bindP (ld_wk wk_reducer_map w) (\<lambda>middle_map.
      if middle_map = NULL then ret (Inr w)
      else bindP (load_left_map left) (\<lambda>left_map.
        bindP (ld_ff ff_right_reducer_map ff) (\<lambda>right_map.
        bindP (ld_ff ff_parent ff) (\<lambda>parent_ff.
        result [
          store_left_map left NULL,
          st_wk w (wk_reducer_map_update (\<lambda>_. NULL)),
          st_ff ff (ff_right_reducer_map_update (\<lambda>_. NULL)),
          cilkrts_frame_unlock w parent_ff]
        (bindP (repeated_merge_reducer_maps rc w left_map middle_map) (\<lambda>(w, left_map).
         bindP (repeated_merge_reducer_maps rc w left_map right_map) (\<lambda>(w, left_map).
         result [
           bindP (ld_wk wk_reducer_map w) (\<lambda>m. CILK_ASSERT ''NULL == w->reducer_map'' (m = NULL)),
           st_wk w (wk_reducer_map_update (\<lambda>_. left_map)),
           move_pending_exception w ff,
           bindP (ld_ff ff_parent ff) (cilkrts_frame_lock w)]
         (bindP (compute_left_ptrs_for_spawn_return w ff) (\<lambda>left.
          result [splice_exceptions_for_spawn w ff left] (ret (Inl (w, left))))))))))))))"

definition slow_path_reductions_for_spawn_return ::
  "red_client \<Rightarrow> ptr \<Rightarrow> ptr \<Rightarrow> left_slot \<Rightarrow> (rts, ptr) prog"
where
  "slow_path_reductions_for_spawn_return rc w ff left =
     loopP (rc_rounds rc) (slow_round_for_spawn_return rc ff) (w, left)"

definition restore_frame_for_spawn_return_reduction :: "ptr \<Rightarrow> ptr \<Rightarrow> ptr \<Rightarrow> (rts, unit) prog" where
  "restore_frame_for_spawn_return_reduction w ff returning_sf = block [
     st_wk w (wk_current_stack_frame_update (\<lambda>_. returning_sf)),
     bindP (ld_wk wk_active_deque w) (make_runnable w ff)]"

definition execute_reductions_for_spawn_return :: "red_client \<Rightarrow> ptr \<Rightarrow> ptr \<Rightarrow> ptr \<Rightarrow> (rts, ptr) prog" where
  "execute_reductions_for_spawn_return rc w ff returning_sf = result [
     restore_frame_for_spawn_return_reduction w ff returning_sf]
   (bindP (ld_ff ff_parent ff) (\<lambda>parent_ff.
      if parent_ff \<noteq> NULL then result [cilkrts_frame_lock w parent_ff]
        (bindP (fast_path_reductions_for_spawn_return w ff) (\<lambda>left.
         bindP (case left of None \<Rightarrow> ret w
            | Some left \<Rightarrow> slow_path_reductions_for_spawn_return rc w ff left) (\<lambda>w.
         result [
           bindP (ld_ff ff_parent ff) (\<lambda>p. finish_spawn_return_on_user_stack w p ff),
           cilkrts_frame_unlock w parent_ff] (ret w))))
      else result [
        bindP (ld_ff ff_fiber_self ff) (\<lambda>f. st_wk w (wk_fiber_to_free_update (\<lambda>_. f))),
        st_ff ff (ff_fiber_self_update (\<lambda>_. NULL)),
        st_wk w (wk_pending_exception_update (\<lambda>_. NULL)),
        st_ff ff (ff_pending_exception_update (\<lambda>_. NULL)),
        bindP (ld_wk wk_reducer_map w) (\<lambda>m. whenP (m \<noteq> NULL) (rc_destroy rc w m)),
        st_wk w (wk_reducer_map_update (\<lambda>_. NULL))]
      (ret w)))"

section \<open>Syncs\<close>

definition fast_path_reductions_for_sync :: "ptr \<Rightarrow> ptr \<Rightarrow> (rts, bool) prog" where
  "fast_path_reductions_for_sync w ff =
     bindP (ld_wk wk_reducer_map w) (\<lambda>m. bindP (ld_ff ff_pending_exception ff) (\<lambda>e.
       ret (\<not> (m \<noteq> NULL \<or> e \<noteq> NULL))))"

text \<open>The part of a round under the lock of the frame: the maps left to reduce, if any.\<close>

definition deposit_for_sync :: "ptr \<Rightarrow> ptr \<Rightarrow> ptr \<Rightarrow> (rts, (ptr \<times> ptr) option) prog" where
  "deposit_for_sync w ff middle_map = result [cilkrts_frame_lock w ff]
     (bindP (compute_left_ptrs_for_sync w ff) (\<lambda>left.
      bindP (load_left_map left) (\<lambda>left_map.
      result [store_left_map left NULL]
       (bindP (ret (if left_map = NULL then (middle_map, NULL) else (left_map, middle_map))) (\<lambda>(left_map, middle_map).
        result [
          bindP (load_left_exception left) (\<lambda>l. bindP (ld_ff ff_pending_exception ff) (\<lambda>e.
            bindP (cilkrts_merge_pending_exceptions w l e) (store_left_exception left))),
          st_ff ff (ff_pending_exception_update (\<lambda>_. NULL)),
          whenP (middle_map = NULL) (store_left_map left left_map),
          cilkrts_frame_unlock w ff]
        (ret (if middle_map = NULL then None else Some (left_map, middle_map))))))))"

definition slow_round_for_sync :: "red_client \<Rightarrow> ptr \<Rightarrow> ptr \<times> ptr \<Rightarrow> (rts, (ptr \<times> ptr) + ptr) prog" where
  "slow_round_for_sync rc ff = (\<lambda>(w, middle_map).
     bindP (deposit_for_sync w ff middle_map) (\<lambda>todo. case todo of
       None \<Rightarrow> ret (Inr w)
     | Some (left_map, middle_map) \<Rightarrow>
         bindP (repeated_merge_reducer_maps rc w left_map middle_map) (\<lambda>(w, middle_map).
           result [move_pending_exception w ff] (ret (Inl (w, middle_map))))))"

definition slow_path_reductions_for_sync :: "red_client \<Rightarrow> ptr \<Rightarrow> ptr \<Rightarrow> (rts, ptr) prog" where
  "slow_path_reductions_for_sync rc w ff =
     bindP (ld_wk wk_reducer_map w) (\<lambda>middle_map.
       result [st_wk w (wk_reducer_map_update (\<lambda>_. NULL))]
         (loopP (rc_rounds rc) (slow_round_for_sync rc ff) (w, middle_map)))"

definition execute_reductions_for_sync :: "red_client \<Rightarrow> ptr \<Rightarrow> ptr \<Rightarrow> ptr \<Rightarrow> (rts, ptr) prog" where
  "execute_reductions_for_sync rc w ff sf_at_sync = result [
     st_ff ff (ff_call_stack_update (\<lambda>_. NULL)),
     bindP (ld_sf sf_flags sf_at_sync) (\<lambda>f.
       CILK_ASSERT ''sf_at_sync->flags | CILK_FRAME_STOLEN'' (f OR CILK_FRAME_STOLEN \<noteq> 0)),
     cilkrts_put_stack ff sf_at_sync,
     cilkrts_make_unrunnable_sysdep w ff sf_at_sync True,
     bindP (current_ff w) (\<lambda>c. CILK_ASSERT ''*w->l->frame_ff == ff'' (c = ff))]
   (bindP (fast_path_reductions_for_sync w ff) (\<lambda>finished_reductions.
    bindP (if finished_reductions then ret w else slow_path_reductions_for_sync rc w ff) (\<lambda>w.
    result [
      bindP (current_ff w) (\<lambda>c. CILK_ASSERT ''*w->l->frame_ff == ff'' (c = ff)),
      bindP (ld_ff ff_call_stack ff) (\<lambda>cs. CILK_ASSERT ''ff->call_stack == NULL'' (cs = NULL)),
      st_ff ff (ff_call_stack_update (\<lambda>_. sf_at_sync)),
      or_flags sf_at_sync CILK_FRAME_SUSPENDED,
      bindP (ld_ff ff_fiber_self ff) (\<lambda>f. st_wk w (wk_fiber_to_free_update (\<lambda>_. f))),
      st_ff ff (ff_fiber_self_update (\<lambda>_. NULL))]
    (ret w))))"

end
