(* ===== verification/Reducer_Monoid.thy ===== *)
theory Reducer_Monoid
  imports Prelude
begin

text \<open>
  What a reducer asks of its monoid (\<open>cilk/reducer.h\<close>), and what the client gets for it. The classes
  \<open>monoid_with_view\<close> and \<open>scalar_view\<close> are modelled here; an execution of a Cilk program is a
  computation in which any spawned continuation may have been stolen and then starts from an identity
  view, which \<open>reduce\<close> joins with the view of the strands before it. The laws a monoid owes are a
  locale, and in it an execution gives the value of the serial program, wherever steals happened.
  The numeric reducers (\<open>reducer_opadd.h\<close>, \<open>reducer_opmul.h\<close>, \<open>reducer_opand.h\<close>, \<open>reducer_opor.h\<close>,
  \<open>reducer_opxor.h\<close>) are instances; \<open>Reducer_Min_Max\<close> and \<open>Reducer_Containers\<close> have the others.
\<close>

section \<open>Monoids and executions\<close>

text \<open>
  A monoid: the identity view that \<open>identity\<close> constructs, \<open>reduce\<close> on the left and the right view, and
  the updates a strand can make to its view.
\<close>

record ('u, 'v) monoid_ops =
  mo_identity :: 'v
  mo_reduce :: "('v \<times> 'v, unit) prog"
  mo_update :: "'u \<Rightarrow> ('v, unit) prog"

text \<open>
  A computation: the updates of a strand; one part after the other; and a spawned part whose
  continuation was stolen and is joined with it later.
\<close>

datatype 'u computation =
    Strand "'u list"
  | Series "'u computation" "'u computation"
  | Stolen "'u computation" "'u computation"

fun updates :: "'u computation \<Rightarrow> 'u list" where
  "updates (Strand us) = us"
| "updates (Series a b) = updates a @ updates b"
| "updates (Stolen a b) = updates a @ updates b"

text \<open>\<open>reduce_views M right\<close> joins the view \<open>right\<close> to the current one and destroys it.\<close>

definition reduce_views :: "('u, 'v) monoid_ops \<Rightarrow> 'v \<Rightarrow> ('v, unit) prog" where
  "reduce_views M right = (\<lambda>left. map_sum id (\<lambda>(_, (left', _)). ((), left')) (mo_reduce M (left, right)))"

fun execute :: "('u, 'v) monoid_ops \<Rightarrow> 'u computation \<Rightarrow> ('v, unit) prog" where
  "execute M (Strand us) = block (map (mo_update M) us)"
| "execute M (Series a b) = block [execute M a, execute M b]"
| "execute M (Stolen a b) = bindP (execute M a) (\<lambda>_ left.
     case execute M b (mo_identity M) of Inl e \<Rightarrow> Inl e | Inr (_, right) \<Rightarrow> reduce_views M right left)"

text \<open>
  The laws. \<open>ok\<close> are the views that occur, \<open>val\<close> the value a view stands for, \<open>upd\<close> and \<open>join\<close> what
  updates and \<open>reduce\<close> do to values.
\<close>

locale reducer_monoid =
  fixes M :: "('u, 'v) monoid_ops"
    and ok :: "'v \<Rightarrow> bool"
    and val :: "'v \<Rightarrow> 'x"
    and upd :: "'u \<Rightarrow> 'x \<Rightarrow> 'x"
    and join :: "'x \<Rightarrow> 'x \<Rightarrow> 'x"
  assumes identity_ok: "ok (mo_identity M)"
    and update_ok: "ok v \<Longrightarrow> \<exists>v'. mo_update M u v = Inr ((), v') \<and> ok v' \<and> val v' = upd u (val v)"
    and reduce_ok: "ok v \<Longrightarrow> ok w \<Longrightarrow>
      \<exists>v' w'. mo_reduce M (v, w) = Inr ((), v', w') \<and> ok v' \<and> val v' = join (val v) (val w)"
    and join_identity: "ok v \<Longrightarrow> join (val v) (val (mo_identity M)) = val v"
    and join_upd: "ok v \<Longrightarrow> ok w \<Longrightarrow> join (val v) (upd u (val w)) = upd u (join (val v) (val w))"
begin

lemma updates_ok:
  "ok v \<Longrightarrow> \<exists>v'. block (map (mo_update M) us) v = Inr ((), v') \<and> ok v' \<and> val v' = fold upd us (val v)"
proof (induction us arbitrary: v)
  case (Cons u us)
  obtain w where w: "mo_update M u v = Inr ((), w)" "ok w" "val w = upd u (val v)"
    using update_ok [OF Cons.prems] by blast
  from Cons.IH [OF w(2)] show ?case by (auto simp: run w)
qed (simp add: run)

lemma join_updates: "ok v \<Longrightarrow> join (val v) (fold upd us (val (mo_identity M))) = fold upd us (val v)"
proof (induction us rule: rev_induct)
  case (snoc u us)
  obtain w where "ok w" "val w = fold upd us (val (mo_identity M))"
    using updates_ok [OF identity_ok, of us] by blast
  with snoc join_upd [of v w u] show ?case by simp
qed (simp add: join_identity)

theorem executes_serially:
  "ok v \<Longrightarrow> \<exists>v'. execute M c v = Inr ((), v') \<and> ok v' \<and> val v' = fold upd (updates c) (val v)"
proof (induction c arbitrary: v)
  case (Strand us)
  then show ?case using updates_ok by simp
next
  case (Series a b)
  obtain w where w: "execute M a v = Inr ((), w)" "ok w" "val w = fold upd (updates a) (val v)"
    using Series.IH(1) [OF Series.prems] by blast
  from Series.IH(2) [OF w(2)] show ?case by (auto simp: run w)
next
  case (Stolen a b)
  obtain l where l: "execute M a v = Inr ((), l)" "ok l" "val l = fold upd (updates a) (val v)"
    using Stolen.IH(1) [OF Stolen.prems] by blast
  obtain r where r: "execute M b (mo_identity M) = Inr ((), r)" "ok r" "val r = fold upd (updates b) (val (mo_identity M))"
    using Stolen.IH(2) [OF identity_ok] by blast
  from reduce_ok [OF l(2) r(2)] join_updates [OF l(2), of "updates b"] show ?case
    by (auto simp: run reduce_views_def l r)
qed

text \<open>So it does not matter which continuations were stolen.\<close>

corollary steals_do_not_matter:
  "ok v \<Longrightarrow> updates c = updates d \<Longrightarrow>
   \<exists>v' w'. execute M c v = Inr ((), v') \<and> execute M d v = Inr ((), w') \<and> val v' = val w'"
  using executes_serially [of v c] executes_serially [of v d] by auto

end

section \<open>Scalar views\<close>

record 'a scalar_view =
  sv_value :: 'a

definition view_set_value :: "'a \<Rightarrow> ('a scalar_view, unit) prog" where
  "view_set_value v = modify (\<lambda>s. s\<lparr>sv_value := v\<rparr>)"

definition view_get_value :: "('a scalar_view, 'a) prog" where
  "view_get_value = gets sv_value"

text \<open>
  \<open>rhs_proxy\<close> is the right-hand side of \<open>*reducer = *reducer op value\<close>: the address of the view it was
  made from and the value that is to be combined with it.
\<close>

record 'a rhs_proxy =
  rp_view :: ptr
  rp_value :: 'a

section \<open>Addition\<close>

text \<open>The expressions \<open>view + x\<close>, \<open>view - x\<close>, \<open>proxy + x\<close> and \<open>proxy - x\<close>.\<close>

datatype 'a add_expr =
    View_plus 'a
  | View_minus 'a
  | Plus "'a add_expr" 'a
  | Minus "'a add_expr" 'a

fun add_proxy :: "ptr \<Rightarrow> ('a :: comm_ring_1) add_expr \<Rightarrow> 'a rhs_proxy" where
  "add_proxy this (View_plus x) = \<lparr>rp_view = this, rp_value = x\<rparr>"
| "add_proxy this (View_minus x) = \<lparr>rp_view = this, rp_value = - x\<rparr>"
| "add_proxy this (Plus e x) = (add_proxy this e)\<lparr>rp_value := rp_value (add_proxy this e) + x\<rparr>"
| "add_proxy this (Minus e x) = (add_proxy this e)\<lparr>rp_value := rp_value (add_proxy this e) - x\<rparr>"

definition assign_add :: "ptr \<Rightarrow> ('a :: comm_ring_1) rhs_proxy \<Rightarrow> ('a scalar_view, unit) prog" where
  "assign_add this rhs = block [
     CILK_ASSERT ''this == rhs.m_view'' (this = rp_view rhs),
     modify (\<lambda>s. s\<lparr>sv_value := sv_value s + rp_value rhs\<rparr>)]"

datatype 'a add_update =
    Add_assign 'a
  | Sub_assign 'a
  | Increment
  | Decrement
  | Assign_sum "'a add_expr"

fun op_add_update :: "ptr \<Rightarrow> ('a :: comm_ring_1) add_update \<Rightarrow> ('a scalar_view, unit) prog" where
  "op_add_update this (Add_assign x) = modify (\<lambda>s. s\<lparr>sv_value := sv_value s + x\<rparr>)"
| "op_add_update this (Sub_assign x) = modify (\<lambda>s. s\<lparr>sv_value := sv_value s - x\<rparr>)"
| "op_add_update this Increment = modify (\<lambda>s. s\<lparr>sv_value := sv_value s + 1\<rparr>)"
| "op_add_update this Decrement = modify (\<lambda>s. s\<lparr>sv_value := sv_value s - 1\<rparr>)"
| "op_add_update this (Assign_sum e) = assign_add this (add_proxy this e)"

definition op_add_reduce :: "('a :: comm_ring_1 scalar_view \<times> 'a scalar_view, unit) prog" where
  "op_add_reduce = modify (\<lambda>(l, r). (l\<lparr>sv_value := sv_value l + sv_value r\<rparr>, r))"

definition op_add :: "ptr \<Rightarrow> (('a :: comm_ring_1) add_update, 'a scalar_view) monoid_ops" where
  "op_add this = \<lparr>mo_identity = \<lparr>sv_value = 0\<rparr>, mo_reduce = op_add_reduce, mo_update = op_add_update this\<rparr>"

text \<open>What an expression adds to the view in it, and what an update adds to the value.\<close>

fun signed_sum :: "('a :: comm_ring_1) add_expr \<Rightarrow> 'a" where
  "signed_sum (View_plus x) = x"
| "signed_sum (View_minus x) = - x"
| "signed_sum (Plus e x) = signed_sum e + x"
| "signed_sum (Minus e x) = signed_sum e - x"

fun summand :: "('a :: comm_ring_1) add_update \<Rightarrow> 'a" where
  "summand (Add_assign x) = x"
| "summand (Sub_assign x) = - x"
| "summand Increment = 1"
| "summand Decrement = - 1"
| "summand (Assign_sum e) = signed_sum e"

lemma add_proxy_value: "rp_value (add_proxy this e) = signed_sum e \<and> rp_view (add_proxy this e) = this"
  by (induction e) auto

interpretation op_add: reducer_monoid "op_add this" "\<lambda>_. True" sv_value "\<lambda>u x. x + summand u" "(+)"
proof
  fix v :: "'a scalar_view" and u
  show "\<exists>v'. mo_update (op_add this) u v = Inr ((), v') \<and> True \<and> sv_value v' = sv_value v + summand u"
    by (cases u) (simp_all add: op_add_def run assign_add_def add_proxy_value)
  fix w :: "'a scalar_view"
  show "\<exists>v' w'. mo_reduce (op_add this) (v, w) = Inr ((), v', w') \<and> True \<and> sv_value v' = sv_value v + sv_value w"
    by (simp add: op_add_def op_add_reduce_def run)
  show "sv_value v + (sv_value w + summand u) = sv_value v + sv_value w + summand u"
    by (rule add.assoc [symmetric])
qed (simp_all add: op_add_def)

lemma fold_plus: "fold (\<lambda>u x. x + f u) us x = x + sum_list (map f us)" for x :: "'a :: comm_monoid_add"
  by (induction us arbitrary: x) (simp_all add: add.assoc)

text \<open>
  C32. A sum reducer has after any execution, wherever continuations were stolen, its initial value
  plus the sum of all updates; with \<open>w\<close>-bit integers the sum is that of \<open>w\<close>-bit arithmetic.
\<close>

theorem op_add_sums_all_updates:
  "\<exists>v'. execute (op_add this) c v = Inr ((), v') \<and> sv_value v' = sv_value v + sum_list (map summand (updates c))"
  using op_add.executes_serially [where v = v and this = this and c = c] by (simp add: fold_plus)

section \<open>Multiplication\<close>

datatype 'a mul_update = Mul_assign 'a | Assign_product 'a "'a list"

definition mul_proxy :: "ptr \<Rightarrow> 'a :: comm_ring_1 \<Rightarrow> 'a list \<Rightarrow> 'a rhs_proxy" where
  "mul_proxy this x xs = foldl (\<lambda>p x. p\<lparr>rp_value := rp_value p * x\<rparr>) \<lparr>rp_view = this, rp_value = x\<rparr> xs"

definition assign_mul :: "ptr \<Rightarrow> ('a :: comm_ring_1) rhs_proxy \<Rightarrow> ('a scalar_view, unit) prog" where
  "assign_mul this rhs = block [
     CILK_ASSERT ''this == rhs.m_view'' (this = rp_view rhs),
     modify (\<lambda>s. s\<lparr>sv_value := sv_value s * rp_value rhs\<rparr>)]"

fun op_mul_update :: "ptr \<Rightarrow> ('a :: comm_ring_1) mul_update \<Rightarrow> ('a scalar_view, unit) prog" where
  "op_mul_update this (Mul_assign x) = modify (\<lambda>s. s\<lparr>sv_value := sv_value s * x\<rparr>)"
| "op_mul_update this (Assign_product x xs) = assign_mul this (mul_proxy this x xs)"

definition op_mul_reduce :: "('a :: comm_ring_1 scalar_view \<times> 'a scalar_view, unit) prog" where
  "op_mul_reduce = modify (\<lambda>(l, r). (l\<lparr>sv_value := sv_value l * sv_value r\<rparr>, r))"

definition op_mul :: "ptr \<Rightarrow> (('a :: comm_ring_1) mul_update, 'a scalar_view) monoid_ops" where
  "op_mul this = \<lparr>mo_identity = \<lparr>sv_value = 1\<rparr>, mo_reduce = op_mul_reduce, mo_update = op_mul_update this\<rparr>"

fun factor :: "('a :: comm_ring_1) mul_update \<Rightarrow> 'a" where
  "factor (Mul_assign x) = x"
| "factor (Assign_product x xs) = x * prod_list xs"

lemma mul_proxy_value: "rp_value (mul_proxy this x xs) = x * prod_list xs \<and> rp_view (mul_proxy this x xs) = this"
  unfolding mul_proxy_def by (induction xs rule: rev_induct) (simp_all add: mult.assoc)

interpretation op_mul: reducer_monoid "op_mul this" "\<lambda>_. True" sv_value "\<lambda>u x. x * factor u" "(*)"
proof
  fix v :: "'a scalar_view" and u
  show "\<exists>v'. mo_update (op_mul this) u v = Inr ((), v') \<and> True \<and> sv_value v' = sv_value v * factor u"
    by (cases u) (simp_all add: op_mul_def run assign_mul_def mul_proxy_value)
  fix w :: "'a scalar_view"
  show "\<exists>v' w'. mo_reduce (op_mul this) (v, w) = Inr ((), v', w') \<and> True \<and> sv_value v' = sv_value v * sv_value w"
    by (simp add: op_mul_def op_mul_reduce_def run)
  show "sv_value v * (sv_value w * factor u) = sv_value v * sv_value w * factor u"
    by (rule mult.assoc [symmetric])
qed (simp_all add: op_mul_def)

section \<open>Bitwise operations\<close>

text \<open>
  The reducers for \<open>&\<close>, \<open>|\<close> and \<open>^\<close> are the same code but for the operator \<open>f\<close> and the identity \<open>e\<close>.
\<close>

datatype 'a bit_update = Op_assign 'a | Assign_op 'a "'a list"

definition bit_proxy :: "('a \<Rightarrow> 'a \<Rightarrow> 'a) \<Rightarrow> ptr \<Rightarrow> 'a \<Rightarrow> 'a list \<Rightarrow> 'a rhs_proxy" where
  "bit_proxy f this x xs = foldl (\<lambda>p x. p\<lparr>rp_value := f (rp_value p) x\<rparr>) \<lparr>rp_view = this, rp_value = x\<rparr> xs"

definition assign_bit :: "('a \<Rightarrow> 'a \<Rightarrow> 'a) \<Rightarrow> ptr \<Rightarrow> 'a rhs_proxy \<Rightarrow> ('a scalar_view, unit) prog" where
  "assign_bit f this rhs = block [
     CILK_ASSERT ''this == rhs.m_view'' (this = rp_view rhs),
     modify (\<lambda>s. s\<lparr>sv_value := f (sv_value s) (rp_value rhs)\<rparr>)]"

fun bit_op_update :: "('a \<Rightarrow> 'a \<Rightarrow> 'a) \<Rightarrow> ptr \<Rightarrow> 'a bit_update \<Rightarrow> ('a scalar_view, unit) prog" where
  "bit_op_update f this (Op_assign x) = modify (\<lambda>s. s\<lparr>sv_value := f (sv_value s) x\<rparr>)"
| "bit_op_update f this (Assign_op x xs) = assign_bit f this (bit_proxy f this x xs)"

definition bit_op :: "('a \<Rightarrow> 'a \<Rightarrow> 'a) \<Rightarrow> 'a \<Rightarrow> ptr \<Rightarrow> ('a bit_update, 'a scalar_view) monoid_ops" where
  "bit_op f e this = \<lparr>mo_identity = \<lparr>sv_value = e\<rparr>,
     mo_reduce = modify (\<lambda>(l, r). (l\<lparr>sv_value := f (sv_value l) (sv_value r)\<rparr>, r)),
     mo_update = bit_op_update f this\<rparr>"

definition op_and :: "ptr \<Rightarrow> (('a :: ring_bit_operations) bit_update, 'a scalar_view) monoid_ops" where
  "op_and = bit_op (AND) (NOT 0)"

definition op_or :: "ptr \<Rightarrow> (('a :: ring_bit_operations) bit_update, 'a scalar_view) monoid_ops" where
  "op_or = bit_op (OR) 0"

definition op_xor :: "ptr \<Rightarrow> (('a :: ring_bit_operations) bit_update, 'a scalar_view) monoid_ops" where
  "op_xor = bit_op (XOR) 0"

text \<open>The operands an update combines with the value.\<close>

fun operands :: "'a bit_update \<Rightarrow> 'a list" where
  "operands (Op_assign x) = [x]"
| "operands (Assign_op x xs) = x # xs"

lemma bit_proxy_view: "rp_view (bit_proxy f this x xs) = this" "rp_value (bit_proxy f this x xs) = foldl f x xs"
  unfolding bit_proxy_def by (induction xs rule: rev_induct) simp_all

text \<open>Any associative operator with a right identity makes a reducer of this form.\<close>

lemma bit_op_monoid:
  assumes assoc: "\<And>x y z. f (f x y) z = f x (f y z)" and e: "\<And>x. f x e = x"
  shows "reducer_monoid (bit_op f e this) (\<lambda>_. True) sv_value (\<lambda>u x. foldl f x (operands u)) f"
proof
  have fold: "f x (foldl f y ys) = foldl f (f x y) ys" for x y ys
    by (induction ys arbitrary: x y) (simp_all add: assoc)
  fix v w :: "'a scalar_view" and u
  show "\<exists>v'. mo_update (bit_op f e this) u v = Inr ((), v') \<and> True \<and> sv_value v' = foldl f (sv_value v) (operands u)"
    by (cases u) (simp_all add: bit_op_def run assign_bit_def bit_proxy_view fold)
  show "f (sv_value v) (foldl f (sv_value w) (operands u)) = foldl f (f (sv_value v) (sv_value w)) (operands u)"
    by (simp add: fold)
qed (simp_all add: bit_op_def run e)

interpretation op_and: reducer_monoid "op_and this" "\<lambda>_. True" sv_value "\<lambda>u x. foldl (AND) x (operands u)" "(AND)"
  unfolding op_and_def by (rule bit_op_monoid) (simp_all add: ac_simps)

interpretation op_or: reducer_monoid "op_or this" "\<lambda>_. True" sv_value "\<lambda>u x. foldl (OR) x (operands u)" "(OR)"
  unfolding op_or_def by (rule bit_op_monoid) (simp_all add: ac_simps)

interpretation op_xor: reducer_monoid "op_xor this" "\<lambda>_. True" sv_value "\<lambda>u x. foldl (XOR) x (operands u)" "(XOR)"
  unfolding op_xor_def by (rule bit_op_monoid) (simp_all add: ac_simps)

lemma fold_operands: "fold (\<lambda>u x. foldl f x (operands u)) us x = foldl f x (concat (map operands us))"
  by (induction us arbitrary: x) simp_all

text \<open>
  The reducers for \<open>&\<close>, \<open>|\<close> and \<open>^\<close> give in every execution the operator folded over the initial
  value and all operands in serial order.
\<close>

theorem bitwise_reducers_are_serial:
  fixes v :: "'a :: ring_bit_operations scalar_view"
  shows "(\<exists>v'. execute (op_and this) c v = Inr ((), v') \<and> sv_value v' = foldl (AND) (sv_value v) (concat (map operands (updates c))))
    \<and> (\<exists>v'. execute (op_or this) c v = Inr ((), v') \<and> sv_value v' = foldl (OR) (sv_value v) (concat (map operands (updates c))))
    \<and> (\<exists>v'. execute (op_xor this) c v = Inr ((), v') \<and> sv_value v' = foldl (XOR) (sv_value v) (concat (map operands (updates c))))"
  using op_and.executes_serially [where v = v and this = this and c = c] op_or.executes_serially [where v = v and this = this and c = c]
    op_xor.executes_serially [where v = v and this = this and c = c]
  by (simp add: fold_operands)

end
