(* ===== verification/Reducer_Min_Max.thy ===== *)
theory Reducer_Min_Max
  imports Reducer_Monoid Complex_Main
begin

text \<open>
  The minimum and maximum reducers (\<open>cilk/reducer_min_max.h\<close>), with and without an index, for any
  comparator and for the numeric types, whose views leave out the test of \<open>is_set\<close> and start from the
  extreme value of the type instead; and the C versions of them that the macros of the file define for
  each numeric type. A view without an index is one whose index type is \<open>unit\<close>: the code requires the
  index operations of both and calls them meaningless there. A minimum reducer is a maximum reducer
  with the reversed comparator, as in the code (\<open>reverse_predicate\<close>).
\<close>

section \<open>Views\<close>

record ('i, 'a) view_content =
  m_index :: 'i
  m_value :: 'a
  m_is_set :: bool

text \<open>
  What the template parameters fix for a reducer: the comparator the view uses, the identity value where
  the \<open>is_set\<close> optimization applies, and what \<open>Index()\<close> and \<open>Type()\<close> are.
\<close>

record ('i, 'a) min_max_type =
  mm_compare :: "'a \<Rightarrow> 'a \<Rightarrow> bool"
  mm_identity_value :: "'a option"
  mm_Index :: 'i
  mm_Type :: 'a

definition reverse_predicate :: "('a \<Rightarrow> 'a \<Rightarrow> bool) \<Rightarrow> 'a \<Rightarrow> 'a \<Rightarrow> bool" where
  "reverse_predicate p = (\<lambda>x y. p y x)"

definition identity_content :: "('i, 'a) min_max_type \<Rightarrow> ('i, 'a) view_content" where
  "identity_content T = \<lparr>m_index = mm_Index T,
     m_value = (case mm_identity_value T of None \<Rightarrow> mm_Type T | Some x \<Rightarrow> x), m_is_set = False\<rparr>"

text \<open>Constructed with just an index, as the initial one that does not mark the view as set.\<close>

definition content_with_index :: "('i, 'a) min_max_type \<Rightarrow> 'i \<Rightarrow> ('i, 'a) view_content" where
  "content_with_index T i = (identity_content T)\<lparr>m_index := i\<rparr>"

definition content_with_value :: "'i \<times> 'a \<Rightarrow> ('i, 'a) view_content" where
  "content_with_value p = \<lparr>m_index = fst p, m_value = snd p, m_is_set = True\<rparr>"

definition has_value :: "('i, 'a) min_max_type \<Rightarrow> ('i, 'a) view_content \<Rightarrow> bool" where
  "has_value T v \<longleftrightarrow> (case mm_identity_value T of None \<Rightarrow> m_is_set v | Some _ \<Rightarrow> True)"

definition set_value :: "'i \<times> 'a \<Rightarrow> (('i, 'a) view_content, unit) prog" where
  "set_value p = modify (\<lambda>v. v\<lparr>m_index := fst p, m_value := snd p\<rparr>)"

definition set_is_set :: "(('i, 'a) view_content, unit) prog" where
  "set_is_set = modify (\<lambda>v. v\<lparr>m_is_set := True\<rparr>)"

definition set_default_index :: "'i \<Rightarrow> (('i, 'a) view_content, unit) prog" where
  "set_default_index i = modify (\<lambda>v. v\<lparr>m_index := i\<rparr>)"

definition mm_set_value :: "'i \<times> 'a \<Rightarrow> (('i, 'a) view_content, unit) prog" where
  "mm_set_value p = block [set_value p, set_is_set]"

definition calc :: "('i, 'a) min_max_type \<Rightarrow> 'i \<times> 'a \<Rightarrow> (('i, 'a) view_content, unit) prog" where
  "calc T x = bindP (gets (\<lambda>v. \<not> has_value T v \<or> mm_compare T (m_value v) (snd x))) (\<lambda>b.
     block [whenP b (set_value x), set_is_set])"

definition mm_reduce ::
  "('i, 'a) min_max_type \<Rightarrow> (('i, 'a) view_content \<times> ('i, 'a) view_content, unit) prog"
where
  "mm_reduce T = modify (\<lambda>(this, other).
     (if m_is_set other \<and> (\<not> m_is_set this \<or> mm_compare T (m_value this) (m_value other))
      then this\<lparr>m_index := m_index other, m_value := m_value other, m_is_set := True\<rparr> else this, other))"

text \<open>
  The expressions \<open>max_of(view, x)\<close> and \<open>max_of(proxy, x)\<close>: a proxy has the address of the view and the
  better of the values so far; assigning it checks the address and updates the view with the value.
\<close>

datatype ('i, 'a) of_expr =
    Of_view "'i \<times> 'a"
  | Of_proxy "('i, 'a) of_expr" "'i \<times> 'a"

definition make_proxy :: "ptr \<Rightarrow> 'i \<times> 'a \<Rightarrow> ('i \<times> 'a) rhs_proxy" where
  "make_proxy this x = \<lparr>rp_view = this, rp_value = x\<rparr>"

definition rhs_proxy_calc :: "('i, 'a) min_max_type \<Rightarrow> ('i \<times> 'a) rhs_proxy \<Rightarrow> 'i \<times> 'a \<Rightarrow> ('i \<times> 'a) rhs_proxy" where
  "rhs_proxy_calc T p x = p\<lparr>rp_value := if mm_compare T (snd (rp_value p)) (snd x) then x else rp_value p\<rparr>"

fun of_proxy :: "('i, 'a) min_max_type \<Rightarrow> ptr \<Rightarrow> ('i, 'a) of_expr \<Rightarrow> ('i \<times> 'a) rhs_proxy" where
  "of_proxy T this (Of_view x) = make_proxy this x"
| "of_proxy T this (Of_proxy e x) = rhs_proxy_calc T (of_proxy T this e) x"

definition assign_of :: "('i, 'a) min_max_type \<Rightarrow> ptr \<Rightarrow> ('i \<times> 'a) rhs_proxy \<Rightarrow> (('i, 'a) view_content, unit) prog" where
  "assign_of T this rhs = block [CILK_ASSERT ''view == m_view'' (this = rp_view rhs), calc T (rp_value rhs)]"

datatype ('i, 'a) mm_update = Calc 'i 'a | Assign_of "('i, 'a) of_expr"

fun min_max_update :: "('i, 'a) min_max_type \<Rightarrow> ptr \<Rightarrow> ('i, 'a) mm_update \<Rightarrow> (('i, 'a) view_content, unit) prog" where
  "min_max_update T this (Calc i x) = calc T (i, x)"
| "min_max_update T this (Assign_of e) = assign_of T this (of_proxy T this e)"

definition min_max :: "('i, 'a) min_max_type \<Rightarrow> ptr \<Rightarrow> (('i, 'a) mm_update, ('i, 'a) view_content) monoid_ops" where
  "min_max T this = \<lparr>mo_identity = identity_content T, mo_reduce = mm_reduce T, mo_update = min_max_update T this\<rparr>"

section \<open>The first of the extreme values\<close>

text \<open>What C++ asks of a comparator, and what the identity value of a numeric type has to be.\<close>

definition strict_weak :: "('a \<Rightarrow> 'a \<Rightarrow> bool) \<Rightarrow> bool" where
  "strict_weak c \<longleftrightarrow> (\<forall>x. \<not> c x x) \<and> (\<forall>x y z. c x y \<longrightarrow> c y z \<longrightarrow> c x z)
     \<and> (\<forall>x y z. \<not> c x y \<longrightarrow> \<not> c y z \<longrightarrow> \<not> c x z)"

definition proper_identity :: "('i, 'a) min_max_type \<Rightarrow> bool" where
  "proper_identity T \<longleftrightarrow> (\<forall>m. mm_identity_value T = Some m \<longrightarrow> (\<forall>x. mm_compare T m x \<or> x = m))"

lemma strict_weakD:
  assumes "strict_weak c"
  shows "\<not> c x x" "c x y \<Longrightarrow> c y z \<Longrightarrow> c x z" "\<not> c x y \<Longrightarrow> \<not> c y z \<Longrightarrow> \<not> c x z"
  using assms unfolding strict_weak_def by blast+

text \<open>
  The index of an entry, where the reducer keeps it: an entry with the identity value of the type may
  be there without having been compared.
\<close>

definition mark :: "('i, 'a) min_max_type \<Rightarrow> 'i \<times> 'a \<Rightarrow> 'i option \<times> 'a" where
  "mark T p = (if mm_identity_value T = Some (snd p) then None else Some (fst p), snd p)"

definition pick :: "('a \<Rightarrow> 'a \<Rightarrow> bool) \<Rightarrow> 'b \<times> 'a \<Rightarrow> 'b \<times> 'a \<Rightarrow> 'b \<times> 'a" where
  "pick c p q = (if c (snd p) (snd q) then q else p)"

fun join_mm :: "('a \<Rightarrow> 'a \<Rightarrow> bool) \<Rightarrow> ('b \<times> 'a) option \<Rightarrow> ('b \<times> 'a) option \<Rightarrow> ('b \<times> 'a) option" where
  "join_mm c x None = x"
| "join_mm c None (Some q) = Some q"
| "join_mm c (Some p) (Some q) = Some (pick c p q)"

fun expr_entries :: "('i, 'a) of_expr \<Rightarrow> ('i \<times> 'a) list" where
  "expr_entries (Of_view x) = [x]"
| "expr_entries (Of_proxy e x) = expr_entries e @ [x]"

fun entries :: "('i, 'a) mm_update \<Rightarrow> ('i \<times> 'a) list" where
  "entries (Calc i x) = [(i, x)]"
| "entries (Assign_of e) = expr_entries e"

definition view_entry :: "('i, 'a) min_max_type \<Rightarrow> ('i, 'a) view_content \<Rightarrow> ('i option \<times> 'a) option" where
  "view_entry T v = (if m_is_set v then Some (mark T (m_index v, m_value v)) else None)"

definition ok_view :: "('i, 'a) min_max_type \<Rightarrow> ('i, 'a) view_content \<Rightarrow> bool" where
  "ok_view T v \<longleftrightarrow> (\<forall>m. mm_identity_value T = Some m \<longrightarrow> \<not> m_is_set v \<longrightarrow> m_value v = m)"

abbreviation add_entries :: "('i, 'a) min_max_type \<Rightarrow> ('i \<times> 'a) list \<Rightarrow> ('i option \<times> 'a) option \<Rightarrow> ('i option \<times> 'a) option" where
  "add_entries T \<equiv> fold (\<lambda>p acc. join_mm (mm_compare T) acc (Some (mark T p)))"

lemma pick_assoc: "strict_weak c \<Longrightarrow> pick c p (pick c q r) = pick c (pick c p q) r"
  unfolding pick_def by (auto dest: strict_weakD(2, 3))

lemma join_mm_assoc: "strict_weak c \<Longrightarrow> join_mm c x (join_mm c y z) = join_mm c (join_mm c x y) z"
  by (cases x; cases y; cases z) (simp_all add: pick_assoc)

lemma join_mm_fold:
  "strict_weak c \<Longrightarrow> join_mm c x (fold (\<lambda>p acc. join_mm c acc (Some (f p))) ps y) = fold (\<lambda>p acc. join_mm c acc (Some (f p))) ps (join_mm c x y)"
  by (induction ps arbitrary: y) (simp_all add: join_mm_assoc)

lemma mark_pick:
  "snd (mark T p) = snd p" "mark T (pick (mm_compare T) p q) = pick (mm_compare T) (mark T p) (mark T q)"
  by (simp_all add: mark_def pick_def)

lemma calc_ok:
  assumes T: "strict_weak (mm_compare T)" "proper_identity T" and v: "ok_view T v"
  shows "\<exists>v'. calc T x v = Inr ((), v') \<and> ok_view T v' \<and> view_entry T v' = join_mm (mm_compare T) (view_entry T v) (Some (mark T x))"
proof (cases "m_is_set v")
  case True
  then show ?thesis
    by (cases "mm_compare T (m_value v) (snd x)")
      (auto simp: calc_def run set_value_def set_is_set_def has_value_def ok_view_def view_entry_def mark_def pick_def
        split: option.splits)
next
  case False
  show ?thesis
  proof (cases "mm_identity_value T")
    case None
    with False show ?thesis
      by (simp add: calc_def run set_value_def set_is_set_def has_value_def ok_view_def view_entry_def)
  next
    case (Some m)
    with v False have "m_value v = m" by (simp add: ok_view_def)
    moreover from T(2) Some have "mm_compare T m (snd x) \<or> snd x = m" by (simp add: proper_identity_def)
    ultimately show ?thesis using False Some strict_weakD(1) [OF T(1), of m]
      by (auto simp: calc_def run set_value_def set_is_set_def has_value_def ok_view_def view_entry_def mark_def)
  qed
qed

lemma of_proxy_ok:
  "rp_view (of_proxy T this e) = this \<and>
   join_mm (mm_compare T) acc' (Some (mark T (rp_value (of_proxy T this e)))) = add_entries T (expr_entries e) acc'"
  if "strict_weak (mm_compare T)" for acc' :: "('i option \<times> 'a) option"
proof (induction e arbitrary: acc')
  case (Of_proxy e x)
  have "rp_value (of_proxy T this (Of_proxy e x)) = pick (mm_compare T) (rp_value (of_proxy T this e)) x"
    by (simp add: rhs_proxy_calc_def pick_def)
  then have "Some (mark T (rp_value (of_proxy T this (Of_proxy e x))))
      = join_mm (mm_compare T) (Some (mark T (rp_value (of_proxy T this e)))) (Some (mark T x))"
    by (simp add: mark_pick)
  with Of_proxy.IH [of acc'] that show ?case
    by (simp add: rhs_proxy_calc_def join_mm_assoc del: join_mm.simps(3))
qed (simp add: make_proxy_def)

lemma min_max_monoid:
  assumes T: "strict_weak (mm_compare T)" "proper_identity T"
  shows "reducer_monoid (min_max T this) (ok_view T) (view_entry T) (\<lambda>u. add_entries T (entries u)) (join_mm (mm_compare T))"
proof
  show "ok_view T (mo_identity (min_max T this))"
    by (simp add: ok_view_def min_max_def identity_content_def)
  fix v w assume v: "ok_view T v"
  have e: "view_entry T (mo_identity (min_max T this)) = None"
    by (simp add: view_entry_def min_max_def identity_content_def)
  then show "join_mm (mm_compare T) (view_entry T v) (view_entry T (mo_identity (min_max T this))) = view_entry T v"
    by simp
  show "\<exists>v'. mo_update (min_max T this) u v = Inr ((), v') \<and> ok_view T v' \<and> view_entry T v' = add_entries T (entries u) (view_entry T v)" for u
  proof (cases u)
    case (Calc i x)
    with calc_ok [OF T v] show ?thesis by (simp add: min_max_def)
  next
    case (Assign_of e)
    with calc_ok [OF T v, of "rp_value (of_proxy T this e)"] of_proxy_ok [OF T(1), of this e] show ?thesis
      by (auto simp: min_max_def assign_of_def run)
  qed
  assume w: "ok_view T w"
  show "\<exists>v' w'. mo_reduce (min_max T this) (v, w) = Inr ((), v', w') \<and> ok_view T v'
      \<and> view_entry T v' = join_mm (mm_compare T) (view_entry T v) (view_entry T w)"
    using v by (cases "m_is_set v"; cases "m_is_set w")
      (auto simp: min_max_def mm_reduce_def run ok_view_def view_entry_def mark_def pick_def)
  show "join_mm (mm_compare T) (view_entry T v) (add_entries T (entries u) (view_entry T w))
      = add_entries T (entries u) (join_mm (mm_compare T) (view_entry T v) (view_entry T w))" for u
    by (rule join_mm_fold [OF T(1)])
qed

text \<open>Adding entries picks the first of those that no other one beats.\<close>

lemma add_entries_first:
  assumes c: "strict_weak c"
  shows "\<exists>as q bs. fold (\<lambda>p acc. join_mm c acc (Some (f p))) ps (Some (f p0)) = Some (f q) \<and> p0 # ps = as @ q # bs
    \<and> (\<forall>p \<in> set as. c (snd (f p)) (snd (f q))) \<and> (\<forall>p \<in> set bs. \<not> c (snd (f q)) (snd (f p)))"
proof (induction ps rule: rev_induct)
  case Nil
  then show ?case by (intro exI [of _ "[]"] exI [of _ p0]) simp
next
  case (snoc p ps)
  then obtain as q bs where q: "fold (\<lambda>p acc. join_mm c acc (Some (f p))) ps (Some (f p0)) = Some (f q)" "p0 # ps = as @ q # bs"
      "\<forall>p \<in> set as. c (snd (f p)) (snd (f q))" "\<forall>p \<in> set bs. \<not> c (snd (f q)) (snd (f p))" by blast
  show ?case
  proof (cases "c (snd (f q)) (snd (f p))")
    case True
    then have "c (snd (f r)) (snd (f p))" if "r \<in> set (p0 # ps)" for r
      using that q(2-4) strict_weakD [OF c] by (metis Un_iff insert_iff list.simps(15) set_append)
    with True q show ?thesis by (intro exI [of _ "p0 # ps"] exI [of _ p] exI [of _ "[]"]) (simp add: pick_def)
  next
    case False
    with q show ?thesis by (intro exI [of _ as] exI [of _ q] exI [of _ "bs @ [p]"]) (auto simp: pick_def)
  qed
qed

text \<open>
  C29. A minimum or maximum reducer that was updated at all has after any execution, wherever
  continuations were stolen, the first of the extreme values in serial order, and its index, unless
  that value is the identity value of a numeric type.
\<close>

theorem min_max_finds_first_extremum:
  assumes "strict_weak (mm_compare T)" "proper_identity T" "concat (map entries (updates c)) \<noteq> []"
  shows "\<exists>v' as i x bs. execute (min_max T this) c (identity_content T) = Inr ((), v') \<and> m_is_set v'
    \<and> concat (map entries (updates c)) = as @ (i, x) # bs
    \<and> (\<forall>(j, y) \<in> set as. mm_compare T y x) \<and> (\<forall>(j, y) \<in> set bs. \<not> mm_compare T x y)
    \<and> m_value v' = x \<and> (mm_identity_value T \<noteq> Some x \<longrightarrow> m_index v' = i)"
proof -
  let ?c = "mm_compare T" let ?es = "concat (map entries (updates c))"
  have "ok_view T (identity_content T)" by (simp add: ok_view_def identity_content_def)
  then obtain v' where v': "execute (min_max T this) c (identity_content T) = Inr ((), v')"
      "view_entry T v' = fold (\<lambda>u. add_entries T (entries u)) (updates c) (view_entry T (identity_content T))"
    using reducer_monoid.executes_serially [OF min_max_monoid [OF assms(1,2)]] by blast
  have "view_entry T (identity_content T) = None" by (simp add: view_entry_def identity_content_def)
  moreover have "fold (\<lambda>u. add_entries T (entries u)) us acc = add_entries T (concat (map entries us)) acc" for us acc
    by (induction us arbitrary: acc) simp_all
  ultimately have e: "view_entry T v' = add_entries T ?es None" using v'(2) by simp
  obtain p0 ps where ps: "?es = p0 # ps" using assms(3) by (cases ?es) auto
  obtain as q bs where q: "add_entries T ps (Some (mark T p0)) = Some (mark T q)" "p0 # ps = as @ q # bs"
      "\<forall>p \<in> set as. ?c (snd (mark T p)) (snd (mark T q))" "\<forall>p \<in> set bs. \<not> ?c (snd (mark T q)) (snd (mark T p))"
    using add_entries_first [OF assms(1), of "mark T" ps p0] by blast
  obtain i x where ix: "q = (i, x)" by (cases q)
  have "view_entry T v' = Some (mark T q)" using e ps q(1) by simp
  then have "m_is_set v'" "m_value v' = x" "mm_identity_value T \<noteq> Some x \<longrightarrow> m_index v' = i"
    by (auto simp: view_entry_def mark_def ix split: if_splits)
  moreover have "?es = as @ (i, x) # bs" "\<forall>(j, y) \<in> set as. ?c y x" "\<forall>(j, y) \<in> set bs. \<not> ?c x y"
    using ps q(2-4) ix by (auto simp: mark_pick(1))
  ultimately show ?thesis using v'(1) by blast
qed

section \<open>Numeric types\<close>

text \<open>\<open>std::less\<close> on \<open>w\<close>-bit integers, signed or not, and the limits of the type.\<close>

definition numeric_min :: "bool \<Rightarrow> 'w :: len word" where
  "numeric_min sg = (if sg then push_bit (LENGTH('w) - 1) 1 else 0)"

definition numeric_max :: "bool \<Rightarrow> 'w :: len word" where
  "numeric_max sg = NOT (numeric_min sg)"

definition std_less :: "bool \<Rightarrow> 'w :: len word \<Rightarrow> 'w word \<Rightarrow> bool" where
  "std_less sg x y = (if sg then x <s y else x < y)"

definition op_max_index :: "bool \<Rightarrow> 'i \<Rightarrow> ('i, 'w :: len word) min_max_type" where
  "op_max_index sg i = \<lparr>mm_compare = std_less sg, mm_identity_value = Some (numeric_min sg), mm_Index = i, mm_Type = 0\<rparr>"

definition op_min_index :: "bool \<Rightarrow> 'i \<Rightarrow> ('i, 'w :: len word) min_max_type" where
  "op_min_index sg i = \<lparr>mm_compare = reverse_predicate (std_less sg),
     mm_identity_value = Some (numeric_max sg), mm_Index = i, mm_Type = 0\<rparr>"

lemma numeric_min_True: "(numeric_min True :: 'w :: len word) = word_of_int (- (2 ^ (LENGTH('w) - 1)))"
proof -
  have "(2 :: 'w word) ^ (LENGTH('w) - 1) + 2 ^ (LENGTH('w) - 1) = 2 ^ LENGTH('w)"
    by (metis Suc_pred' len_gt_0 mult_2 power_Suc)
  also have "\<dots> = 0" by simp
  finally show ?thesis by (simp add: numeric_min_def push_bit_eq_mult eq_neg_iff_add_eq_0)
qed

lemma sint_numeric_min: "sint (numeric_min True :: 'w :: len word) = - (2 ^ (LENGTH('w) - 1))"
  unfolding numeric_min_True sint_sbintrunc' by (rule signed_take_bit_int_eq_self) simp_all

lemma sint_numeric_max: "sint (numeric_max True :: 'w :: len word) = 2 ^ (LENGTH('w) - 1) - 1"
proof -
  have "numeric_max True = (word_of_int (2 ^ (LENGTH('w) - 1) - 1) :: 'w word)"
    unfolding numeric_max_def numeric_min_True by (simp add: not_eq_complement)
  then have "sint (numeric_max True :: 'w word) = signed_take_bit (LENGTH('w) - 1) (2 ^ (LENGTH('w) - 1) - 1)"
    by (simp only: sint_sbintrunc')
  also have "\<dots> = 2 ^ (LENGTH('w) - 1) - 1" by (rule signed_take_bit_int_eq_self) simp_all
  finally show ?thesis .
qed

lemma strict_weak_less: "strict_weak (std_less sg)" "strict_weak (reverse_predicate (std_less sg))"
  by (auto simp: strict_weak_def std_less_def reverse_predicate_def word_sless_alt)

lemma numeric_identities: "std_less sg (numeric_min sg) x \<or> x = numeric_min sg" "std_less sg x (numeric_max sg) \<or> x = numeric_max sg"
proof -
  show "std_less sg (numeric_min sg) x \<or> x = numeric_min sg"
  proof (cases sg)
    case True
    have "sint (numeric_min True :: 'a word) < sint x \<or> sint x = sint (numeric_min True :: 'a word)"
      unfolding sint_numeric_min using sint_ge [of x] by linarith
    with True show ?thesis by (auto simp: std_less_def word_sless_alt intro: signed_word_eqI)
  next
    case False
    then show ?thesis by (auto simp: std_less_def numeric_min_def word_gt_0)
  qed
  show "std_less sg x (numeric_max sg) \<or> x = numeric_max sg"
  proof (cases sg)
    case True
    have "sint x < sint (numeric_max True :: 'a word) \<or> sint x = sint (numeric_max True :: 'a word)"
      unfolding sint_numeric_max using sint_lt [of x] by linarith
    with True show ?thesis by (auto simp: std_less_def word_sless_alt intro: signed_word_eqI)
  next
    case False
    then show ?thesis by (simp add: std_less_def numeric_max_def numeric_min_def) (metis word_n1_ge order_le_less)
  qed
qed

lemma numeric_types_proper:
  "strict_weak (mm_compare (op_max_index sg i))" "proper_identity (op_max_index sg i)"
  "strict_weak (mm_compare (op_min_index sg i))" "proper_identity (op_min_index sg i)"
proof -
  show "strict_weak (mm_compare (op_max_index sg i))" "strict_weak (mm_compare (op_min_index sg i))"
    unfolding op_max_index_def op_min_index_def by (simp_all add: strict_weak_less)
  show "proper_identity (op_max_index sg i)" "proper_identity (op_min_index sg i)"
    using numeric_identities by (auto simp: op_max_index_def op_min_index_def proper_identity_def reverse_predicate_def)
qed

theorem min_max_finds_first_extremum_witness:
  "\<exists>v'. execute (min_max (op_max_index True (0 :: int)) 7)
       (Stolen (Strand [Calc 1 (3 :: 8 word)]) (Strand [Calc 2 250, Calc 3 9, Assign_of (Of_proxy (Of_view (4, 9)) (5, 2))]))
       (identity_content (op_max_index True 0)) = Inr ((), v')
     \<and> m_value v' = 9 \<and> m_index v' = 3"
proof -
  let ?T = "op_max_index True (0 :: int) :: (int, 8 word) min_max_type"
  let ?c = "Stolen (Strand [Calc 1 (3 :: 8 word)]) (Strand [Calc 2 250, Calc 3 9, Assign_of (Of_proxy (Of_view (4, 9)) (5, 2))])
    :: (int, 8 word) mm_update computation"
  have "concat (map entries (updates ?c)) \<noteq> []" by simp
  from min_max_finds_first_extremum [OF numeric_types_proper(1, 2) this, where this = 7]
  obtain v' as i x bs where v': "execute (min_max ?T 7) ?c (identity_content ?T) = Inr ((), v')" "m_is_set v'"
      "concat (map entries (updates ?c)) = as @ (i, x) # bs" "\<forall>(j, y) \<in> set as. mm_compare ?T y x"
      "\<forall>(j, y) \<in> set bs. \<not> mm_compare ?T x y" "m_value v' = x" "mm_identity_value ?T \<noteq> Some x \<longrightarrow> m_index v' = i"
    by blast
  have "i = 3 \<and> x = 9" using v'(3-5)
    by (auto simp: op_max_index_def std_less_def word_sless_alt Cons_eq_append_conv)
  moreover have "mm_identity_value ?T \<noteq> Some 9" by (simp add: op_max_index_def numeric_min_def)
  ultimately show ?thesis using v'(1,6,7) by blast
qed

text \<open>
  The documented way to choose the index that an updated reducer of a numeric type has when every
  value was the identity value, \<open>set_default_index\<close>, only works for updates of the leftmost strand: a
  stolen continuation starts with \<open>Index()\<close> again, and the reduction takes that index.
\<close>

theorem default_index_lost_by_steal:
  "mm_identity_value T = Some m \<Longrightarrow> \<not> mm_compare T m m \<Longrightarrow>
   (\<exists>v'. execute (min_max T this) (Strand [Calc i m]) (content_with_index T d) = Inr ((), v') \<and> m_index v' = d)
   \<and> (\<exists>v'. execute (min_max T this) (Stolen (Strand []) (Strand [Calc i m])) (content_with_index T d) = Inr ((), v')
        \<and> m_index v' = mm_Index T)"
  by (simp add: run min_max_def calc_def has_value_def content_with_index_def identity_content_def set_is_set_def
      reduce_views_def mm_reduce_def)

theorem default_index_lost_by_steal_witness:
  "(\<exists>v'. execute (min_max (op_max_index False (0 :: int)) 7) (Stolen (Strand []) (Strand [Calc 5 (0 :: 32 word)]))
      (content_with_index (op_max_index False 0) (- 1)) = Inr ((), v') \<and> m_index v' = 0)"
  using default_index_lost_by_steal [of "op_max_index False (0 :: int) :: (int, 32 word) min_max_type" 0 7 5 "- 1"]
  by (simp add: op_max_index_def numeric_min_def std_less_def del: execute.simps)

section \<open>C reducers\<close>

text \<open>
  The numeric types of the macros, with the range of each on a 64-bit Linux machine, and the identity
  values that the instances of the macros name: for \<open>unsigned char\<close> the one of the minimum reducers is
  \<open>CHAR_MAX\<close>. The integer types come first, the floating-point types after them.
\<close>

datatype c_type =
    C_char | C_uchar | C_schar | C_wchar_t | C_short | C_ushort | C_int | C_uint | C_unsigned
  | C_long | C_ulong | C_longlong | C_ulonglong

fun c_range :: "c_type \<Rightarrow> bool \<times> nat" where
  "c_range C_char = (True, 8)"
| "c_range C_uchar = (False, 8)"
| "c_range C_schar = (True, 8)"
| "c_range C_wchar_t = (True, 32)"
| "c_range C_short = (True, 16)"
| "c_range C_ushort = (False, 16)"
| "c_range C_int = (True, 32)"
| "c_range C_uint = (False, 32)"
| "c_range C_unsigned = (False, 32)"
| "c_range C_long = (True, 64)"
| "c_range C_ulong = (False, 64)"
| "c_range C_longlong = (True, 64)"
| "c_range C_ulonglong = (False, 64)"


definition type_max :: "c_type \<Rightarrow> int" where
  "type_max t = (case c_range t of (sg, w) \<Rightarrow> if sg then 2 ^ (w - 1) - 1 else 2 ^ w - 1)"


fun c_min_identity :: "c_type \<Rightarrow> int" where
  "c_min_identity C_char = type_max C_char"
| "c_min_identity C_uchar = type_max C_char"
| "c_min_identity C_schar = type_max C_schar"
| "c_min_identity C_wchar_t = type_max C_wchar_t"
| "c_min_identity C_short = type_max C_short"
| "c_min_identity C_ushort = type_max C_ushort"
| "c_min_identity C_int = type_max C_int"
| "c_min_identity C_uint = type_max C_uint"
| "c_min_identity C_unsigned = type_max C_uint"
| "c_min_identity C_long = type_max C_long"
| "c_min_identity C_ulong = type_max C_ulong"
| "c_min_identity C_longlong = type_max C_longlong"
| "c_min_identity C_ulonglong = type_max C_ulonglong"








text \<open>
  The view of an index reducer is an index and a value; the code without an index is the same on the
  value alone. \<open>better a b\<close> is \<open>a < b\<close> for a maximum and \<open>a > b\<close> for a minimum reducer.
\<close>

definition c_calc :: "('x \<Rightarrow> 'x \<Rightarrow> bool) \<Rightarrow> int \<times> 'x \<Rightarrow> (int \<times> 'x, unit) prog" where
  "c_calc better iv = modify (\<lambda>view. if better (snd view) (snd iv) then iv else view)"

definition c_reduce :: "('x \<Rightarrow> 'x \<Rightarrow> bool) \<Rightarrow> ((int \<times> 'x) \<times> (int \<times> 'x), unit) prog" where
  "c_reduce better = modify (\<lambda>(l, r). (if better (snd l) (snd r) then r else l, r))"

definition c_reducer :: "('x \<Rightarrow> 'x \<Rightarrow> bool) \<Rightarrow> 'x \<Rightarrow> (int \<times> 'x, int \<times> 'x) monoid_ops" where
  "c_reducer better e = \<lparr>mo_identity = (0, e), mo_reduce = c_reduce better, mo_update = c_calc better\<rparr>"


definition c_reducer_min :: "c_type \<Rightarrow> (int \<times> int, int \<times> int) monoid_ops" where
  "c_reducer_min t = c_reducer (>) (c_min_identity t)"












text \<open>A stolen strand of the minimum reducer of \<open>unsigned char\<close> starts from 127 and never leaves it for a larger value.\<close>

lemma uchar_strand:
  assumes "\<forall>u \<in> set us. 127 < snd u"
  shows "block (map (mo_update (c_reducer_min C_uchar)) us) (0, 127) = Inr ((), (0, 127))"
    and "127 < snd v \<Longrightarrow> \<exists>w. block (map (mo_update (c_reducer_min C_uchar)) us) v = Inr ((), w) \<and> 127 < snd w"
  using assms by (induction us arbitrary: v) (auto simp: c_reducer_min_def c_reducer_def c_calc_def run)

lemma uchar_run:
  assumes "\<forall>u \<in> set (updates c). 127 < snd u"
  shows "execute (c_reducer_min C_uchar) c (0, 127) = Inr ((), (0, 127))
     \<and> (127 < snd v \<longrightarrow> (\<exists>w. execute (c_reducer_min C_uchar) c v = Inr ((), w) \<and> (w = (0, 127) \<or> 127 < snd w)))"
  using assms
proof (induction c arbitrary: v)
  case (Strand us)
  then have "\<forall>u \<in> set us. 127 < snd u" by simp
  then show ?case using uchar_strand(1) uchar_strand(2) [of us v] unfolding execute.simps by blast
next
  case (Series a b)
  then have a: "execute (c_reducer_min C_uchar) a (0, 127) = Inr ((), (0, 127))"
      "127 < snd v \<Longrightarrow> \<exists>w. execute (c_reducer_min C_uchar) a v = Inr ((), w) \<and> (w = (0, 127) \<or> 127 < snd w)"
    and b: "execute (c_reducer_min C_uchar) b (0, 127) = Inr ((), (0, 127))"
      "\<And>v. 127 < snd v \<Longrightarrow> \<exists>w. execute (c_reducer_min C_uchar) b v = Inr ((), w) \<and> (w = (0, 127) \<or> 127 < snd w)"
    by (auto simp del: execute.simps)
  show ?case using a b by (fastforce simp: run)
next
  case (Stolen a b)
  then have a: "execute (c_reducer_min C_uchar) a (0, 127) = Inr ((), (0, 127))"
      "127 < snd v \<Longrightarrow> \<exists>w. execute (c_reducer_min C_uchar) a v = Inr ((), w) \<and> (w = (0, 127) \<or> 127 < snd w)"
    and b: "execute (c_reducer_min C_uchar) b (0, 127) = Inr ((), (0, 127))"
    by (auto simp del: execute.simps)
  have e: "mo_identity (c_reducer_min C_uchar) = (0, 127)" by (simp add: c_reducer_min_def c_reducer_def type_max_def)
  have r: "reduce_views (c_reducer_min C_uchar) (0, 127) w = Inr ((), if 127 < snd w then (0, 127) else w)" for w
    by (simp add: reduce_views_def c_reducer_min_def c_reducer_def c_reduce_def run)
  show ?case using a by (auto simp: run b e r)
qed

lemma min_keeps_bound:
  "\<forall>u \<in> set us. b < snd u \<Longrightarrow> b < snd v \<Longrightarrow> b < snd (fold (\<lambda>u v. if snd v > snd u then u else v) us v)"
  for us :: "('i \<times> int) list"
  by (induction us arbitrary: v) auto

text \<open>
  C34. The C minimum reducer of \<open>unsigned char\<close> is wrong whenever a strand is stolen and all values are above 127: whatever
  runs before the steal and in the stolen strand, the result is 127, a value that nobody put in, with index 0, while the serial
  program gives a value above 127.
\<close>

theorem c_min_uchar_too_small:
  assumes "\<forall>u \<in> set (updates (Stolen c d)). 127 < snd u" and "127 < snd v"
  shows "execute (c_reducer_min C_uchar) (Stolen c d) v = Inr ((), (0, 127))
   \<and> 127 < snd (fold (\<lambda>u v. if snd v > snd u then u else v) (updates (Stolen c d)) v)"
proof
  have "\<forall>u \<in> set (updates c). 127 < snd u" "\<forall>u \<in> set (updates d). 127 < snd u" using assms(1) by auto
  then have c: "\<exists>w. execute (c_reducer_min C_uchar) c v = Inr ((), w) \<and> (w = (0, 127) \<or> 127 < snd w)"
    and d: "execute (c_reducer_min C_uchar) d (0, 127) = Inr ((), (0, 127))"
    using uchar_run [of c v] uchar_run [of d] assms(2) by blast+
  have e: "mo_identity (c_reducer_min C_uchar) = (0, 127)" by (simp add: c_reducer_min_def c_reducer_def type_max_def)
  have r: "reduce_views (c_reducer_min C_uchar) (0, 127) w = Inr ((), if 127 < snd w then (0, 127) else w)" for w
    by (simp add: reduce_views_def c_reducer_min_def c_reducer_def c_reduce_def run)
  show "execute (c_reducer_min C_uchar) (Stolen c d) v = Inr ((), (0, 127))"
    using c by (auto simp: run d e r)
qed (rule min_keeps_bound [OF assms])

theorem c_min_uchar_too_small_witness:
  "execute (c_reducer_min C_uchar) (Stolen (Strand [(1, 210)]) (Series (Strand [(2, 200)]) (Strand [(3, 180)]))) (4, 255)
     = Inr ((), (0, 127))"
  by (rule c_min_uchar_too_small [THEN conjunct1]) simp_all

end
