(* ===== verification/Reducer_Containers.thy ===== *)
theory Reducer_Containers
  imports Reducer_Monoid
begin

text \<open>
  The reducers that collect: list append and prepend (\<open>cilk/reducer_list.h\<close>), string
  (\<open>cilk/reducer_string.h\<close>) and vector (\<open>cilk/reducer_vector.h\<close>). A \<open>std::list\<close> is its elements and its
  allocator, which decides whether nodes can be moved between two lists. String and vector views keep
  the parts that reductions brought together in a list until the value is asked for.
\<close>

section \<open>Lists\<close>

record 'a std_list =
  sl_items :: "'a list"
  sl_alloc :: nat

definition list_identity :: "nat \<Rightarrow> 'a std_list" where
  "list_identity a = \<lparr>sl_items = [], sl_alloc = a\<rparr>"

text \<open>
  Operations on a view and another list, which \<open>splice\<close> moves elements out of; the iterators into the
  other list are positions. Splicing a range whose allocator differs copies it and erases it there.
\<close>

definition insert_back :: "'a list \<Rightarrow> ('a std_list \<times> 'a std_list, unit) prog" where
  "insert_back xs = modify (\<lambda>(v, x). (v\<lparr>sl_items := sl_items v @ xs\<rparr>, x))"

definition insert_front :: "'a list \<Rightarrow> ('a std_list \<times> 'a std_list, unit) prog" where
  "insert_front xs = modify (\<lambda>(v, x). (v\<lparr>sl_items := xs @ sl_items v\<rparr>, x))"

definition between :: "nat \<Rightarrow> nat \<Rightarrow> 'a list \<Rightarrow> 'a list" where
  "between i j xs = take (j - i) (drop i xs)"

definition erase :: "nat \<Rightarrow> nat \<Rightarrow> ('a std_list \<times> 'a std_list, unit) prog" where
  "erase i j = modify (\<lambda>(v, x). (v, x\<lparr>sl_items := take i (sl_items x) @ drop j (sl_items x)\<rparr>))"

definition list_clear :: "('a std_list \<times> 'a std_list, unit) prog" where
  "list_clear = modify (\<lambda>(v, x). (v, x\<lparr>sl_items := []\<rparr>))"

text \<open>\<open>m_value.splice(end(), x, first, last)\<close> and \<open>m_value.splice(begin(), x, first, last)\<close>.\<close>

definition list_splice_end :: "nat \<Rightarrow> nat \<Rightarrow> ('a std_list \<times> 'a std_list, unit) prog" where
  "list_splice_end i j = bindP (gets (\<lambda>(_, x). between i j (sl_items x))) (\<lambda>xs.
     block [erase i j, insert_back xs])"

definition list_splice_begin :: "nat \<Rightarrow> nat \<Rightarrow> ('a std_list \<times> 'a std_list, unit) prog" where
  "list_splice_begin i j = bindP (gets (\<lambda>(_, x). between i j (sl_items x))) (\<lambda>xs.
     block [erase i j, insert_front xs])"

definition same_allocator :: "('a std_list \<times> 'a std_list, bool) prog" where
  "same_allocator = gets (\<lambda>(v, x). sl_alloc x = sl_alloc v)"

definition splice_back :: "('a std_list \<times> 'a std_list, unit) prog" where
  "splice_back = bindP same_allocator (\<lambda>same. bindP (gets (\<lambda>(_, x). sl_items x)) (\<lambda>xs.
     if same then list_splice_end 0 (length xs)
     else block [insert_back (between 0 (length xs) xs), list_clear]))"

definition splice_back_one :: "nat \<Rightarrow> ('a std_list \<times> 'a std_list, unit) prog" where
  "splice_back_one i = bindP same_allocator (\<lambda>same. bindP (gets (\<lambda>(_, x). sl_items x)) (\<lambda>xs.
     if same then list_splice_end i (i + 1)
     else block [insert_back (between i (i + 1) xs), erase i (i + 1)]))"

definition splice_back_range :: "nat \<Rightarrow> nat \<Rightarrow> ('a std_list \<times> 'a std_list, unit) prog" where
  "splice_back_range i j = bindP same_allocator (\<lambda>same. bindP (gets (\<lambda>(_, x). sl_items x)) (\<lambda>xs.
     if same then list_splice_end i j
     else block [insert_back (between i j xs), erase i j]))"

text \<open>Where the allocators differ, \<open>splice_front(x)\<close> inserts the range from \<open>x.begin()\<close> to \<open>x.begin()\<close>.\<close>

definition splice_front :: "('a std_list \<times> 'a std_list, unit) prog" where
  "splice_front = bindP same_allocator (\<lambda>same. bindP (gets (\<lambda>(_, x). sl_items x)) (\<lambda>xs.
     if same then list_splice_begin 0 (length xs)
     else block [insert_front (between 0 0 xs), list_clear]))"

definition splice_front_one :: "nat \<Rightarrow> ('a std_list \<times> 'a std_list, unit) prog" where
  "splice_front_one i = bindP same_allocator (\<lambda>same. bindP (gets (\<lambda>(_, x). sl_items x)) (\<lambda>xs.
     if same then list_splice_begin i (i + 1)
     else block [insert_front (between i (i + 1) xs), erase i (i + 1)]))"

definition splice_front_range :: "nat \<Rightarrow> nat \<Rightarrow> ('a std_list \<times> 'a std_list, unit) prog" where
  "splice_front_range i j = bindP same_allocator (\<lambda>same. bindP (gets (\<lambda>(_, x). sl_items x)) (\<lambda>xs.
     if same then list_splice_begin i j
     else block [insert_front (between i j xs), erase i j]))"

definition list_append_reduce :: "('a std_list \<times> 'a std_list, unit) prog" where
  "list_append_reduce = bindP same_allocator (\<lambda>same. bindP (gets (\<lambda>(_, r). sl_items r)) (\<lambda>xs. block [
     CILK_ASSERT ''get_allocator() == right->get_allocator()'' same,
     list_splice_end 0 (length xs)]))"

definition list_prepend_reduce :: "('a std_list \<times> 'a std_list, unit) prog" where
  "list_prepend_reduce = bindP same_allocator (\<lambda>same. bindP (gets (\<lambda>(_, r). sl_items r)) (\<lambda>xs. block [
     CILK_ASSERT ''get_allocator() == right->get_allocator()'' same,
     list_splice_begin 0 (length xs)]))"

text \<open>The updates of a strand; a list that is spliced in is one of the strand's own.\<close>

datatype 'a list_update =
    Push 'a
  | Insert_n nat 'a
  | Insert "'a list"
  | Splice "'a std_list"
  | Splice_one "'a std_list" nat
  | Splice_range "'a std_list" nat nat

definition with_list :: "'a std_list \<Rightarrow> ('a std_list \<times> 'a std_list, unit) prog \<Rightarrow> ('a std_list, unit) prog" where
  "with_list x m = (\<lambda>v. map_sum id (\<lambda>(_, (v', _)). ((), v')) (m (v, x)))"

fun list_append_update :: "'a list_update \<Rightarrow> ('a std_list, unit) prog" where
  "list_append_update (Push e) = modify (\<lambda>v. v\<lparr>sl_items := sl_items v @ [e]\<rparr>)"
| "list_append_update (Insert_n n e) = modify (\<lambda>v. v\<lparr>sl_items := sl_items v @ replicate n e\<rparr>)"
| "list_append_update (Insert es) = modify (\<lambda>v. v\<lparr>sl_items := sl_items v @ es\<rparr>)"
| "list_append_update (Splice x) = with_list x splice_back"
| "list_append_update (Splice_one x i) = with_list x (splice_back_one i)"
| "list_append_update (Splice_range x i j) = with_list x (splice_back_range i j)"

fun list_prepend_update :: "'a list_update \<Rightarrow> ('a std_list, unit) prog" where
  "list_prepend_update (Push e) = modify (\<lambda>v. v\<lparr>sl_items := e # sl_items v\<rparr>)"
| "list_prepend_update (Insert_n n e) = modify (\<lambda>v. v\<lparr>sl_items := replicate n e @ sl_items v\<rparr>)"
| "list_prepend_update (Insert es) = modify (\<lambda>v. v\<lparr>sl_items := es @ sl_items v\<rparr>)"
| "list_prepend_update (Splice x) = with_list x splice_front"
| "list_prepend_update (Splice_one x i) = with_list x (splice_front_one i)"
| "list_prepend_update (Splice_range x i j) = with_list x (splice_front_range i j)"

definition op_list_append :: "nat \<Rightarrow> ('a list_update, 'a std_list) monoid_ops" where
  "op_list_append a = \<lparr>mo_identity = list_identity a, mo_reduce = list_append_reduce, mo_update = list_append_update\<rparr>"

definition op_list_prepend :: "nat \<Rightarrow> ('a list_update, 'a std_list) monoid_ops" where
  "op_list_prepend a = \<lparr>mo_identity = list_identity a, mo_reduce = list_prepend_reduce, mo_update = list_prepend_update\<rparr>"

text \<open>The elements an update puts into the list, in their order.\<close>

fun put_in :: "'a list_update \<Rightarrow> 'a list" where
  "put_in (Push e) = [e]"
| "put_in (Insert_n n e) = replicate n e"
| "put_in (Insert es) = es"
| "put_in (Splice x) = sl_items x"
| "put_in (Splice_one x i) = between i (i + 1) (sl_items x)"
| "put_in (Splice_range x i j) = between i j (sl_items x)"

lemma between_all [simp]: "between 0 (length xs) xs = xs" "between 0 0 xs = []"
  by (simp_all add: between_def)

lemmas list_ops = run with_list_def same_allocator_def splice_back_def splice_back_one_def splice_back_range_def
  splice_front_def splice_front_one_def splice_front_range_def list_splice_end_def list_splice_begin_def
  insert_back_def insert_front_def erase_def list_clear_def list_append_reduce_def list_prepend_reduce_def

interpretation list_append: reducer_monoid "op_list_append a" "\<lambda>v. sl_alloc v = a" sl_items "\<lambda>u xs. xs @ put_in u" "(@)"
proof
  fix v :: "'a std_list" and u assume "sl_alloc v = a"
  then show "\<exists>v'. mo_update (op_list_append a) u v = Inr ((), v') \<and> sl_alloc v' = a \<and> sl_items v' = sl_items v @ put_in u"
    by (cases u) (simp_all add: op_list_append_def list_ops)
qed (simp_all add: op_list_append_def list_identity_def list_ops)

text \<open>
  C30. A list-append reducer has after any execution its initial elements and then all elements that
  were put in, in serial order, and no assertion about allocators fails.
\<close>

theorem list_append_keeps_serial_order:
  "\<exists>v'. execute (op_list_append (sl_alloc v)) c v = Inr ((), v')
    \<and> sl_items v' = sl_items v @ concat (map put_in (updates c))"
proof -
  have "fold (\<lambda>u xs. xs @ put_in u) us xs = xs @ concat (map put_in us)" for us and xs :: "'a list"
    by (induction us arbitrary: xs) simp_all
  with list_append.executes_serially [where v = v and a = "sl_alloc v" and c = c] show ?thesis by auto
qed

text \<open>
  Prepending, where a whole list with another allocator is lost: what each update really puts in, and
  the law for it.
\<close>

fun put_in_front :: "nat \<Rightarrow> 'a list_update \<Rightarrow> 'a list" where
  "put_in_front a (Splice x) = (if sl_alloc x = a then sl_items x else [])"
| "put_in_front a u = put_in u"

interpretation list_prepend: reducer_monoid "op_list_prepend a" "\<lambda>v. sl_alloc v = a" sl_items
  "\<lambda>u xs. put_in_front a u @ xs" "\<lambda>l r. r @ l"
proof
  fix v :: "'a std_list" and u assume "sl_alloc v = a"
  then show "\<exists>v'. mo_update (op_list_prepend a) u v = Inr ((), v') \<and> sl_alloc v' = a \<and> sl_items v' = put_in_front a u @ sl_items v"
    by (cases u) (auto simp: op_list_prepend_def list_ops)
qed (simp_all add: op_list_prepend_def list_identity_def list_ops)

text \<open>
  A list-prepend reducer has after any execution the elements in the order in which the serial
  program prepends them, where a list spliced in as a whole counts only if it has the allocator of the
  reducer.
\<close>

theorem list_prepend_keeps_serial_order:
  "\<exists>v'. execute (op_list_prepend (sl_alloc v)) c v = Inr ((), v')
    \<and> sl_items v' = concat (rev (map (put_in_front (sl_alloc v)) (updates c))) @ sl_items v"
proof -
  have "fold (\<lambda>u xs. f u @ xs) us xs = concat (rev (map f us)) @ xs" for f us and xs :: "'a list"
    by (induction us arbitrary: xs) simp_all
  with list_prepend.executes_serially [where v = v and a = "sl_alloc v" and c = c] show ?thesis by auto
qed

text \<open>
  Splicing a whole list with another allocator into a list-prepend reducer empties the list and
  puts nothing into the reducer; splicing its range from begin to end moves the elements.
\<close>

theorem splice_front_loses_elements:
  "sl_alloc x \<noteq> sl_alloc v \<Longrightarrow>
   splice_front (v, x) = Inr ((), v, x\<lparr>sl_items := []\<rparr>)
   \<and> splice_front_range 0 (length (sl_items x)) (v, x) = Inr ((), v\<lparr>sl_items := sl_items x @ sl_items v\<rparr>, x\<lparr>sl_items := []\<rparr>)
   \<and> splice_back (v, x) = Inr ((), v\<lparr>sl_items := sl_items v @ sl_items x\<rparr>, x\<lparr>sl_items := []\<rparr>)"
  by (simp add: list_ops)

theorem splice_front_loses_elements_witness:
  "splice_front (\<lparr>sl_items = [1 :: int], sl_alloc = 0\<rparr>, \<lparr>sl_items = [2, 3], sl_alloc = 1\<rparr>)
     = Inr ((), \<lparr>sl_items = [1], sl_alloc = 0\<rparr>, \<lparr>sl_items = [], sl_alloc = 1\<rparr>)"
  using splice_front_loses_elements [of "\<lparr>sl_items = [2, 3 :: int], sl_alloc = 1\<rparr>" "\<lparr>sl_items = [1], sl_alloc = 0\<rparr>"] by simp

section \<open>Strings and vectors\<close>

text \<open>
  \<open>op_basic_string_view\<close> and \<open>op_vector_view\<close>: the value is the parts in the list and then the last part.
\<close>

record 'a parts_view =
  m_last :: "'a list"
  m_list :: "'a list list"

definition flatten :: "('a parts_view, unit) prog" where
  "flatten = bindP (gets m_list) (\<lambda>ps. whenP (ps \<noteq> [])
     (modify (\<lambda>v. v\<lparr>m_list := [], m_last := foldl (@) [] ps @ m_last v\<rparr>)))"

definition parts_reduce :: "('a parts_view \<times> 'a parts_view, unit) prog" where
  "parts_reduce = bindP (gets id) (\<lambda>(this, right). whenP (m_last right \<noteq> [] \<or> m_list right \<noteq> []) (block [
     whenP (m_last this \<noteq> []) (modify (\<lambda>(l, r). (l\<lparr>m_list := m_list l @ [m_last l], m_last := []\<rparr>, r))),
     modify (\<lambda>(l, r). (l\<lparr>m_list := m_list l @ m_list r\<rparr>, r\<lparr>m_list := []\<rparr>)),
     modify (\<lambda>(l, r). (l\<lparr>m_last := m_last r\<rparr>, r\<lparr>m_last := m_last l\<rparr>))]))"

datatype 'a parts_update = Push_back 'a | Append "'a list"

fun parts_view_update :: "'a parts_update \<Rightarrow> ('a parts_view, unit) prog" where
  "parts_view_update (Push_back x) = modify (\<lambda>v. v\<lparr>m_last := m_last v @ [x]\<rparr>)"
| "parts_view_update (Append xs) = modify (\<lambda>v. v\<lparr>m_last := m_last v @ xs\<rparr>)"

definition op_parts :: "('a parts_update, 'a parts_view) monoid_ops" where
  "op_parts = \<lparr>mo_identity = \<lparr>m_last = [], m_list = []\<rparr>, mo_reduce = parts_reduce, mo_update = parts_view_update\<rparr>"

definition parts_set_value :: "'a list \<Rightarrow> ('a parts_view, unit) prog" where
  "parts_set_value s = modify (\<lambda>v. v\<lparr>m_list := [], m_last := s\<rparr>)"

definition parts_get_value :: "('a parts_view, 'a list) prog" where
  "parts_get_value = result [flatten] (gets m_last)"

text \<open>
  Moving a value in and out, on the view and the client's object. Only where the allocators are the same
  the two are swapped; a vector view is then not cleared.
\<close>

definition parts_move_in :: "bool \<Rightarrow> ('a parts_view \<times> 'a list, unit) prog" where
  "parts_move_in same_alloc = block [
     modify (\<lambda>(v, s). (v\<lparr>m_list := []\<rparr>, s)),
     if same_alloc then modify (\<lambda>(v, s). (v\<lparr>m_last := s\<rparr>, m_last v)) else modify (\<lambda>(v, s). (v\<lparr>m_last := s\<rparr>, s)),
     modify (\<lambda>(v, s). (v, []))]"

definition string_move_out :: "bool \<Rightarrow> ('a parts_view \<times> 'a list, unit) prog" where
  "string_move_out same_alloc = block [
     on_part fst (\<lambda>f (v, s). (f v, s)) flatten,
     if same_alloc then modify (\<lambda>(v, s). (v\<lparr>m_last := s\<rparr>, m_last v)) else modify (\<lambda>(v, s). (v, m_last v)),
     modify (\<lambda>(v, s). (v\<lparr>m_last := []\<rparr>, s))]"

definition vector_move_out :: "bool \<Rightarrow> ('a parts_view \<times> 'a list, unit) prog" where
  "vector_move_out same_alloc = block [
     on_part fst (\<lambda>f (v, s). (f v, s)) flatten,
     if same_alloc then modify (\<lambda>(v, s). (v\<lparr>m_last := s\<rparr>, m_last v))
     else block [modify (\<lambda>(v, s). (v, m_last v)), modify (\<lambda>(v, s). (v\<lparr>m_last := []\<rparr>, s))]]"

definition parts_value :: "'a parts_view \<Rightarrow> 'a list" where
  "parts_value v = concat (m_list v) @ m_last v"

fun appended :: "'a parts_update \<Rightarrow> 'a list" where
  "appended (Push_back x) = [x]"
| "appended (Append xs) = xs"

lemma foldl_append: "foldl (@) xs yss = xs @ concat yss"
  by (induction yss arbitrary: xs) simp_all

lemma run_flatten: "flatten v = Inr ((), v\<lparr>m_list := [], m_last := parts_value v\<rparr>)"
  by (cases v) (simp add: flatten_def run parts_value_def foldl_append)

interpretation parts: reducer_monoid op_parts "\<lambda>_. True" parts_value "\<lambda>u xs. xs @ appended u" "(@)"
proof
  fix v w :: "'a parts_view" and u
  show "\<exists>v'. mo_update op_parts u v = Inr ((), v') \<and> True \<and> parts_value v' = parts_value v @ appended u"
    by (cases u) (simp_all add: op_parts_def run parts_value_def)
  show "\<exists>v' w'. mo_reduce op_parts (v, w) = Inr ((), v', w') \<and> True \<and> parts_value v' = parts_value v @ parts_value w"
    by (simp add: op_parts_def parts_reduce_def run parts_value_def)
qed (simp_all add: op_parts_def parts_value_def)

lemma parts_serial:
  "\<exists>v'. execute op_parts c v = Inr ((), v') \<and> parts_value v' = parts_value v @ concat (map appended (updates c))"
proof -
  have "fold (\<lambda>u xs. xs @ appended u) us xs = xs @ concat (map appended us)" for us and xs :: "'a list"
    by (induction us arbitrary: xs) simp_all
  with parts.executes_serially [where v = v and c = c] show ?thesis by auto
qed

text \<open>
  C31. Moving a value into a string or vector reducer, any execution, and moving the value out gives the
  client the value it had put in and then everything appended, in serial order, whether the allocators
  are the same or not.
\<close>

theorem move_in_execute_move_out:
  "\<exists>v1 s1 v2. parts_move_in sa (v, s) = Inr ((), v1, s1) \<and> execute op_parts c v1 = Inr ((), v2)
    \<and> (\<exists>v3. string_move_out sa' (v2, t) = Inr ((), v3, s @ concat (map appended (updates c))))
    \<and> (\<exists>v3. vector_move_out sa' (v2, t) = Inr ((), v3, s @ concat (map appended (updates c))))"
proof -
  obtain v1 s1 where v1: "parts_move_in sa (v, s) = Inr ((), v1, s1)" "parts_value v1 = s"
    by (simp add: parts_move_in_def run parts_value_def)
  obtain v2 where v2: "execute op_parts c v1 = Inr ((), v2)" "parts_value v2 = s @ concat (map appended (updates c))"
    using parts_serial [of c v1] v1(2) by auto
  then show ?thesis using v1(1)
    by (simp add: string_move_out_def vector_move_out_def run on_part_def run_flatten)
qed

end
