(* ===== verification/Settings.thy ===== *)
theory Settings
  imports Prelude "HOL-Library.Signed_Division"
begin

text \<open>
  The settings of the runtime (\<open>global_state.cpp\<close>, with \<open>cilkos_getenv\<close> and
  \<open>cilkos_validate_stack_size\<close> of \<open>os-unix.c\<close>): the defaults, the environment variables, the
  parameters a program can set, and what the start of the runtime makes of them. A value that is read
  from text is a \<open>long\<close> until it has been compared with the bounds of its field; what the code computes from the
  settings is computed in \<open>int\<close> and wraps at 32 bits (\<open>int32\<close>; C leaves the overflow undefined). What the machine, the environment and the tools say is a
  record of its own, since no code of the runtime changes it.
\<close>

section \<open>Data\<close>

definition INT_MAX :: int where "INT_MAX = 2147483647"
definition LONG_MAX :: int where "LONG_MAX = 9223372036854775807"
definition LONG_MIN :: int where "LONG_MIN = - 9223372036854775808"

lemmas limits = INT_MAX_def LONG_MAX_def LONG_MIN_def

definition int32 :: "int \<Rightarrow> int" where
  "int32 v = (v + 2 ^ 31) mod 2 ^ 32 - 2 ^ 31"

lemma int32_id: "- 2147483648 \<le> v \<Longrightarrow> v \<le> INT_MAX \<Longrightarrow> int32 v = v"
  by (simp add: int32_def INT_MAX_def)

datatype set_param_status = PARAM_SUCCESS | PARAM_UNIMP | PARAM_XRANGE | PARAM_INVALID | PARAM_LATE

definition IO_MODE_NORMAL :: int where "IO_MODE_NORMAL = 0"
definition IO_MODE_SHARED_CORE :: int where "IO_MODE_SHARED_CORE = 1"
definition IO_MODE_DEDICATED_CORE :: int where "IO_MODE_DEDICATED_CORE = 2"

lemmas io_modes = IO_MODE_NORMAL_def IO_MODE_SHARED_CORE_def IO_MODE_DEDICATED_CORE_def

record machine =
  mc_getenv :: "string \<Rightarrow> string option"
  mc_cpus :: int                 \<comment> \<open>\<open>__cilkrts_hardware_cpu_count()\<close>\<close>
  mc_ptool :: bool               \<comment> \<open>\<open>__cilkrts_running_under_sequential_ptool()\<close>\<close>
  mc_force_reduce :: bool        \<comment> \<open>what the metacall of \<open>always_force_reduce\<close> answers\<close>
  mc_junk :: string              \<comment> \<open>what the uninitialised buffer \<open>envstr\<close> holds\<close>

record settings =
  st_P :: int
  st_max_user_workers :: int
  st_total_workers :: int
  st_system_workers :: int
  st_stealing_disabled :: bool
  st_under_ptool :: bool
  st_force_reduce :: int
  st_io_mode :: int
  st_fiber_pool_size :: int
  st_global_fiber_pool_size :: int
  st_max_stacks :: int
  st_max_steal_failures :: int
  st_stack_size :: int
  st_ped_seed :: int
  st_ltqsize :: int
  st_Q :: int
  st_work_done :: bool
  st_active_workers :: int
  st_workers_running :: bool
  st_failure_to_allocate_stack :: bool
  st_initialized :: bool         \<comment> \<open>\<open>cilkg_user_settable_values_initialized\<close>\<close>
  st_singleton :: bool           \<comment> \<open>\<open>cilkg_singleton_ptr\<close> is set\<close>

text \<open>The static object before anything ran, and what \<open>memset\<close> makes of its fields.\<close>

definition zero_settings :: settings where
  "zero_settings = \<lparr>st_P = 0, st_max_user_workers = 0, st_total_workers = 0, st_system_workers = 0,
     st_stealing_disabled = False, st_under_ptool = False, st_force_reduce = 0, st_io_mode = 0,
     st_fiber_pool_size = 0, st_global_fiber_pool_size = 0, st_max_stacks = 0,
     st_max_steal_failures = 0, st_stack_size = 0, st_ped_seed = 0, st_ltqsize = 0, st_Q = 0,
     st_work_done = False, st_active_workers = 0, st_workers_running = False,
     st_failure_to_allocate_stack = False, st_initialized = False, st_singleton = False\<rparr>"

section \<open>Reading text\<close>

text \<open>
  \<open>strtol\<close> in base 10: white space, a sign, digits; whatever follows is not looked at. Without a
  digit the result is 0 and \<open>errno\<close> stays as it was; out of range it is the nearest bound, and
  \<open>errno\<close> becomes \<open>ERANGE\<close>, the second component here.
\<close>

definition isspace :: "char \<Rightarrow> bool" where
  "isspace c \<longleftrightarrow> c = CHR '' '' \<or> (9 \<le> (of_char c :: nat) \<and> (of_char c :: nat) \<le> 13)"

definition isdigit :: "char \<Rightarrow> bool" where
  "isdigit c \<longleftrightarrow> 48 \<le> (of_char c :: nat) \<and> (of_char c :: nat) \<le> 57"

definition digit_value :: "char \<Rightarrow> int" where
  "digit_value c = int (of_char c) - 48"

definition digits_value :: "string \<Rightarrow> int" where
  "digits_value ds = foldl (\<lambda>n c. 10 * n + digit_value c) 0 ds"

definition strtol :: "string \<Rightarrow> int \<times> bool" where
  "strtol s = (let s = dropWhile isspace s;
       signed = s \<noteq> [] \<and> (hd s = CHR ''-'' \<or> hd s = CHR ''+'');
       m = digits_value (takeWhile isdigit (if signed then tl s else s));
       v = (if s \<noteq> [] \<and> hd s = CHR ''-'' then - m else m)
     in if v < LONG_MIN then (LONG_MIN, True)
        else if LONG_MAX < v then (LONG_MAX, True) else (v, False))"

text \<open>The integer types the values are stored in decide in which type they are compared.\<close>

datatype int_type = Compared_as_long | Compared_as_size_t

fun compared :: "int_type \<Rightarrow> int \<Rightarrow> int" where
  "compared Compared_as_long v = v"
| "compared Compared_as_size_t v = v mod 2 ^ 64"

definition store_int :: "int_type \<Rightarrow> string \<Rightarrow> int \<Rightarrow> int \<Rightarrow> set_param_status \<times> int option" where
  "store_int ty val lo hi = (case strtol val of (v, errno) \<Rightarrow>
     if v = 0 \<and> errno then (PARAM_INVALID, None)
     else if compared ty v < lo \<or> v = LONG_MIN then (PARAM_XRANGE, None)
     else if hi < compared ty v \<or> v = LONG_MAX then (PARAM_XRANGE, None)
     else (PARAM_SUCCESS, Some v))"

definition store_bool :: "string \<Rightarrow> set_param_status \<times> int option" where
  "store_bool val =
     (if val = ''false'' \<or> val = ''0'' then (PARAM_SUCCESS, Some 0)
      else if val = ''true'' \<or> val = ''1'' then (PARAM_SUCCESS, Some 1)
      else (PARAM_INVALID, None))"

text \<open>Writes the value through the pointer to its field, where there is one.\<close>

definition put :: "((int \<Rightarrow> int) \<Rightarrow> settings \<Rightarrow> settings) \<Rightarrow> set_param_status \<times> int option \<Rightarrow>
  (settings, set_param_status) prog"
where
  "put fld r = result [modify (\<lambda>s. case snd r of None \<Rightarrow> s | Some v \<Rightarrow> fld (\<lambda>_. v) s)] (ret (fst r))"

text \<open>
  The value is copied into the buffer \<open>value\<close> only when it fits with its terminating NUL; the
  result is the length of the value or, when it does not fit, the size it would need.
\<close>

definition cilkos_getenv :: "machine \<Rightarrow> string \<Rightarrow> nat \<Rightarrow> string \<Rightarrow> nat \<times> string" where
  "cilkos_getenv mc value vallen varname = (case mc_getenv mc varname of
     None \<Rightarrow> (0, [])
   | Some envstr \<Rightarrow> (let len = length envstr in
       if vallen - 1 < len then (len + 1, value) else (len, envstr)))"

definition PAGE :: int where "PAGE = 4096"
definition CILK_MIN_STACK_SIZE :: int where "CILK_MIN_STACK_SIZE = 4 * PAGE"
definition CILK_DEFAULT_STACK_SIZE :: int where "CILK_DEFAULT_STACK_SIZE = 0x100000"

lemmas stack_sizes = PAGE_def CILK_MIN_STACK_SIZE_def CILK_DEFAULT_STACK_SIZE_def

definition cilkos_validate_stack_size :: "int \<Rightarrow> ('s, int) prog" where
  "cilkos_validate_stack_size specified =
     (if specified = 0 then result [CILK_ASSERT ''(CILK_DEFAULT_STACK_SIZE % PAGE) == 0''
          (CILK_DEFAULT_STACK_SIZE mod PAGE = 0)] (ret CILK_DEFAULT_STACK_SIZE)
      else if specified \<le> CILK_MIN_STACK_SIZE then ret CILK_MIN_STACK_SIZE
      else if 0 < specified mod PAGE then ret (PAGE * (1 + specified div PAGE))
      else ret specified)"

section \<open>Defaults and environment\<close>

text \<open>What follows the first \<open>return\<close> of \<open>calc_max_user_workers\<close> is never reached.\<close>

definition calc_max_user_workers :: "settings \<Rightarrow> int" where
  "calc_max_user_workers s = 1"

definition total_workers_of :: "settings \<Rightarrow> int" where
  "total_workers_of s = int32 (int32 (st_P s + calc_max_user_workers s) - 1)"

text \<open>
  The environment variables one after the other, through the one buffer \<open>envstr\<close> of 24
  characters. A status is not looked at.
\<close>

definition from_env ::
  "machine \<Rightarrow> string \<Rightarrow> string \<Rightarrow> ((int \<Rightarrow> int) \<Rightarrow> settings \<Rightarrow> settings) \<Rightarrow>
   (string \<Rightarrow> set_param_status \<times> int option) \<Rightarrow> (settings, string) prog"
where
  "from_env mc envstr varname fld parse = (case cilkos_getenv mc envstr 24 varname of (n, envstr) \<Rightarrow>
     result [whenP (n \<noteq> 0) (bindP (put fld (parse envstr)) (\<lambda>_. ret ()))] (ret envstr))"

definition default_settings :: "machine \<Rightarrow> int \<Rightarrow> settings \<Rightarrow> settings" where
  "default_settings mc cpus s = zero_settings
     \<lparr>st_stealing_disabled := st_stealing_disabled s,
      st_under_ptool := mc_ptool mc,
      st_force_reduce := 0,
      st_io_mode := IO_MODE_SHARED_CORE,
      st_P := cpus,
      st_max_user_workers := 0,
      st_fiber_pool_size := 64,
      st_global_fiber_pool_size := int32 (6 * 3 * cpus),
      st_max_stacks := INT_MAX,
      st_max_steal_failures := 128,
      st_stack_size := 0,
      st_singleton := st_singleton s\<rparr>"

definition read_environment :: "machine \<Rightarrow> int \<Rightarrow> (settings, unit) prog" where
  "read_environment mc cpus =
     bindP (if mc_force_reduce mc
            then result [modify (st_force_reduce_update (\<lambda>_. 1))] (ret (mc_junk mc))
            else from_env mc (mc_junk mc) ''CILK_FORCE_REDUCE'' st_force_reduce_update store_bool) (\<lambda>envstr.
     bindP (if mc_ptool mc
            then result [modify (st_P_update (\<lambda>_. 1))] (ret envstr)
            else from_env mc envstr ''CILK_NWORKERS'' st_P_update
              (\<lambda>v. store_int Compared_as_long v 1 (int32 (16 * cpus)))) (\<lambda>envstr.
     bindP (from_env mc envstr ''CILK_MAX_USER_WORKERS'' st_max_user_workers_update
              (\<lambda>v. store_int Compared_as_long v 1 (int32 (16 * cpus)))) (\<lambda>envstr.
     bindP (from_env mc envstr ''CILK_STEAL_FAILURES'' st_max_steal_failures_update
              (\<lambda>v. store_int Compared_as_long v 1 INT_MAX)) (\<lambda>_.
     ret ()))))"

text \<open>With a core of its own for the I/O of two workers there are half as many workers.\<close>

definition halve_for_dedicated_cores :: "settings \<Rightarrow> settings" where
  "halve_for_dedicated_cores s =
     (if st_io_mode s = IO_MODE_DEDICATED_CORE
      then if 1 < st_P s then s\<lparr>st_P := st_P s sdiv 2\<rparr> else s\<lparr>st_io_mode := IO_MODE_NORMAL\<rparr>
      else s)"

definition cilkg_get_user_settable_values :: "machine \<Rightarrow> (settings, unit) prog" where
  "cilkg_get_user_settable_values mc =
     bindP (gets st_initialized) (\<lambda>initialized.
     whenP (\<not> initialized) (block [
       CILK_ASSERT ''hardware_cpu_count > 0'' (mc_cpus mc > 0),
       (let cpus = if mc_ptool mc then 1 else mc_cpus mc in block [
          modify (default_settings mc cpus),
          read_environment mc cpus]),
       modify halve_for_dedicated_cores,
       modify (\<lambda>s. s\<lparr>st_total_workers := total_workers_of s\<rparr>),
       modify (st_initialized_update (\<lambda>_. True))]))"

definition cilkg_calc_total_workers :: "machine \<Rightarrow> (settings, int) prog" where
  "cilkg_calc_total_workers mc =
     bindP (cilkg_get_user_settable_values mc) (\<lambda>_. gets total_workers_of)"

section \<open>Setting parameters\<close>

definition unless_late :: "(settings, set_param_status) prog \<Rightarrow> (settings, set_param_status) prog" where
  "unless_late m = bindP (gets st_singleton) (\<lambda>late. if late then ret PARAM_LATE else m)"

definition set_nworkers :: "machine \<Rightarrow> string \<Rightarrow> (settings, set_param_status) prog" where
  "set_nworkers mc value = unless_late (result [CILK_ASSERT ''hardware_cpu_count > 0'' (mc_cpus mc > 0)]
     (let max_cpu_count = if mc_ptool mc then 1 else int32 (16 * mc_cpus mc);
          cpus = if mc_ptool mc then 1 else mc_cpus mc
      in bindP (put st_P_update (store_int Compared_as_long value 0 max_cpu_count)) (\<lambda>r. result
           [bindP (gets st_P) (\<lambda>P. whenP (P = 0) (modify (st_P_update (\<lambda>_. cpus))))] (ret r))))"

definition set_stack_size :: "string \<Rightarrow> (settings, set_param_status) prog" where
  "set_stack_size value = unless_late
     (bindP (put st_stack_size_update (store_int Compared_as_size_t value 0 INT_MAX)) (\<lambda>r. result
        [bindP (gets st_stack_size) (\<lambda>n. bindP (cilkos_validate_stack_size n) (\<lambda>n.
           modify (st_stack_size_update (\<lambda>_. n))))] (ret r)))"

text \<open>A null pointer for the parameter or the value is \<open>None\<close>.\<close>

definition set_param_imp :: "machine \<Rightarrow> string option \<Rightarrow> string option \<Rightarrow> (settings, set_param_status) prog"
where
  "set_param_imp mc param value = (case (param, value) of
     (None, _) \<Rightarrow> ret PARAM_INVALID
   | (_, None) \<Rightarrow> ret PARAM_INVALID
   | (Some param, Some value) \<Rightarrow>
      if param = ''force reduce'' then
        (if mc_force_reduce mc then ret PARAM_LATE else put st_force_reduce_update (store_bool value))
      else if param = ''nworkers'' then set_nworkers mc value
      else if param = ''max user workers'' then
        result [CILK_ASSERT ''hardware_cpu_count > 0'' (mc_cpus mc > 0)]
          (put st_max_user_workers_update (store_int Compared_as_long value 1 (int32 (16 * mc_cpus mc))))
      else if param = ''local stacks'' then
        put st_fiber_pool_size_update (store_int Compared_as_long value 0 128)
      else if param = ''shared stacks'' then
        put st_global_fiber_pool_size_update (store_int Compared_as_long value 0 128)
      else if param = ''nstacks'' then
        unless_late (put st_max_stacks_update (store_int Compared_as_long value 0 INT_MAX))
      else if param = ''stack size'' then set_stack_size value
      else if param = ''ped seed'' then
        unless_late (put st_ped_seed_update (store_int Compared_as_long value 0 INT_MAX))
      else ret PARAM_UNIMP)"

definition cilkg_set_param :: "machine \<Rightarrow> string option \<Rightarrow> string option \<Rightarrow> (settings, set_param_status) prog"
where
  "cilkg_set_param mc param value =
     result [cilkg_get_user_settable_values mc] (set_param_imp mc param value)"

section \<open>Starting and stopping the runtime\<close>

text \<open>
  \<open>max_stacks\<close> is unsigned: its comparison with the pool size and with \<open>P\<close> casts it to \<open>int\<close>, the division that
  is stored does not.
\<close>

definition bound_stacks :: "settings \<Rightarrow> settings" where
  "bound_stacks s = (if 0 < st_max_stacks s then
     let s = (if int32 (st_max_stacks s) sdiv st_P s < st_fiber_pool_size s
              then s\<lparr>st_fiber_pool_size := int32 (st_max_stacks s div (st_P s mod 2 ^ 32))\<rparr> else s);
         s = (if st_fiber_pool_size s \<le> 0 then s\<lparr>st_fiber_pool_size := 1\<rparr> else s);
         s = (if int32 (st_max_stacks s) < st_P s then s\<lparr>st_max_stacks := st_P s mod 2 ^ 32\<rparr> else s)
     in s\<lparr>st_global_fiber_pool_size := int32 (st_P s * int32 (st_fiber_pool_size s + 1))\<rparr>
   else s)"

definition cilkg_init_global_state :: "machine \<Rightarrow> (settings, unit) prog" where
  "cilkg_init_global_state mc = bindP (gets st_singleton) (\<lambda>singleton.
     whenP (\<not> singleton) (block [
       cilkg_get_user_settable_values mc,
       modify bound_stacks,
       modify (st_Q_update (\<lambda>_. 0)),
       bindP (cilkg_calc_total_workers mc) (\<lambda>n. modify (st_total_workers_update (\<lambda>_. n))),
       modify (\<lambda>s. s\<lparr>st_system_workers := int32 (st_P s - 1)\<rparr>),
       modify (\<lambda>s. s\<lparr>st_work_done := False, st_active_workers := 1, st_workers_running := False, st_ltqsize := 8192\<rparr>),
       bindP (gets st_stack_size) (\<lambda>n. bindP (cilkos_validate_stack_size n) (\<lambda>n.
         modify (st_stack_size_update (\<lambda>_. n)))),
       modify (st_failure_to_allocate_stack_update (\<lambda>_. False))]))"

definition cilkg_publish_global_state :: "(settings, unit) prog" where
  "cilkg_publish_global_state = modify (st_singleton_update (\<lambda>_. True))"

definition cilkg_deinit_global_state :: "(settings, unit) prog" where
  "cilkg_deinit_global_state = modify (st_singleton_update (\<lambda>_. False))"

definition cilkg_is_published :: "(settings, bool) prog" where
  "cilkg_is_published = gets st_singleton"

section \<open>Reading back what was written\<close>

lemma strtol_range: "LONG_MIN \<le> fst (strtol s) \<and> fst (strtol s) \<le> LONG_MAX"
  by (simp add: strtol_def Let_def limits)

lemma store_int_bounds:
  assumes "store_int ty v lo hi = (r, Some x)" and "0 \<le> lo" and "hi \<le> INT_MAX"
  shows "lo \<le> x" and "x \<le> hi" and "r = PARAM_SUCCESS"
proof -
  have r: "LONG_MIN \<le> x" "x \<le> LONG_MAX" and c: "lo \<le> compared ty x" "compared ty x \<le> hi"
      and "r = PARAM_SUCCESS"
    using assms(1) strtol_range [of v]
    by (auto simp: store_int_def split: prod.splits if_splits)
  then show "r = PARAM_SUCCESS" by simp
  have "compared ty x = x"
  proof (cases ty)
    case Compared_as_size_t
    have "0 \<le> x"
    proof (rule ccontr)
      assume "\<not> 0 \<le> x"
      then have "(x + 2 ^ 64) mod 2 ^ 64 = x + 2 ^ 64"
        using r(1) by (intro mod_pos_pos_trivial) (auto simp: limits)
      then have "x mod 2 ^ 64 = x + 2 ^ 64" by simp
      then show False using c(2) r(1) assms(3) Compared_as_size_t by (simp add: limits)
    qed
    then show ?thesis using r(2) Compared_as_size_t by (simp add: limits)
  qed simp
  with c show "lo \<le> x" and "x \<le> hi" by simp_all
qed

lemma store_bool_bounds: "store_bool v = (r, Some x) \<Longrightarrow> x = 0 \<or> x = 1"
  by (auto simp: store_bool_def split: if_splits)

text \<open>The decimal digits of a number.\<close>

fun decimal :: "nat \<Rightarrow> string" where
  "decimal n = (if n < 10 then [char_of (48 + n)] else decimal (n div 10) @ [char_of (48 + n mod 10)])"

declare decimal.simps [simp del]

lemma digit_chars:
  "n < 10 \<Longrightarrow> isdigit (char_of (48 + n))" "n < 10 \<Longrightarrow> digit_value (char_of (48 + n)) = int n"
  by (simp_all add: isdigit_def digit_value_def of_char_of)

lemma decimal_digits: "\<forall>c \<in> set (decimal n). isdigit c"
  by (induction n rule: decimal.induct) (subst decimal.simps, auto simp: digit_chars)

lemma decimal_value: "digits_value (decimal n) = int n"
proof (induction n rule: decimal.induct)
  case (1 n)
  show ?case
  proof (cases "n < 10")
    case True
    then show ?thesis by (simp add: decimal.simps [of n] digits_value_def digit_chars)
  next
    case False
    then have "digits_value (decimal n) = 10 * int (n div 10) + int (n mod 10)"
      using 1 by (simp add: decimal.simps [of n] digits_value_def digit_chars)
    then show ?thesis by (simp add: zdiv_int zmod_int)
  qed
qed

lemma isdigit_not:
  "isdigit c \<Longrightarrow> \<not> isspace c" "isdigit c \<Longrightarrow> c \<noteq> CHR ''-''" "isdigit c \<Longrightarrow> c \<noteq> CHR ''+''"
  by (auto simp: isdigit_def isspace_def)

lemma decimal_not_Nil [simp]: "decimal n \<noteq> []"
  by (simp add: decimal.simps [of n])

lemma strtol_decimal: "int n \<le> LONG_MAX \<Longrightarrow> strtol (decimal n) = (int n, False)"
proof -
  assume n: "int n \<le> LONG_MAX"
  obtain c cs where ccs: "decimal n = c # cs" by (cases "decimal n") auto
  have d: "isdigit c" "takeWhile isdigit (c # cs) = c # cs"
    using decimal_digits [of n] by (auto simp: ccs takeWhile_eq_all_conv)
  have "digits_value (c # cs) = int n" using decimal_value [of n] by (simp add: ccs)
  with d(2) have "digits_value (takeWhile isdigit (c # cs)) = int n" by simp
  then show ?thesis
    unfolding strtol_def ccs using n isdigit_not [OF d(1)] by (simp add: Let_def limits)
qed

lemma store_decimal:
  "lo \<le> int n \<Longrightarrow> int n \<le> hi \<Longrightarrow> hi \<le> INT_MAX \<Longrightarrow>
   store_int Compared_as_long (decimal n) lo hi = (PARAM_SUCCESS, Some (int n))"
  by (simp add: store_int_def strtol_decimal limits)

section \<open>The settings stay in range\<close>

definition stack_size_ok :: "int \<Rightarrow> bool" where
  "stack_size_ok n \<longleftrightarrow> n = 0 \<or> CILK_MIN_STACK_SIZE \<le> n \<and> n mod PAGE = 0 \<and> n \<le> INT_MAX + 1"

definition settings_ok :: "machine \<Rightarrow> settings \<Rightarrow> bool" where
  "settings_ok mc s \<longleftrightarrow>
     1 \<le> st_P s \<and> st_P s \<le> 16 * mc_cpus mc
   \<and> 0 \<le> st_max_user_workers s \<and> st_max_user_workers s \<le> 16 * mc_cpus mc
   \<and> st_force_reduce s \<in> {0, 1}
   \<and> 0 \<le> st_fiber_pool_size s \<and> st_fiber_pool_size s \<le> 128
   \<and> 0 \<le> st_global_fiber_pool_size s \<and> st_global_fiber_pool_size s \<le> INT_MAX
   \<and> 0 \<le> st_max_stacks s \<and> st_max_stacks s \<le> INT_MAX
   \<and> 1 \<le> st_max_steal_failures s \<and> st_max_steal_failures s \<le> INT_MAX
   \<and> stack_size_ok (st_stack_size s)
   \<and> 0 \<le> st_ped_seed s \<and> st_ped_seed s \<le> INT_MAX
   \<and> st_io_mode s = IO_MODE_SHARED_CORE"

text \<open>Nothing is known of the settings before they are made.\<close>

definition settings_inv :: "machine \<Rightarrow> settings \<Rightarrow> bool" where
  "settings_inv mc s \<longleftrightarrow> (st_initialized s \<longrightarrow> settings_ok mc s)"

text \<open>
  A machine has a processor, and no more of them than keep the largest product the code computes, the fibers
  of 129 for each of 16 workers per processor, in an \<open>int\<close>: about a million.
\<close>

definition machine_ok :: "machine \<Rightarrow> bool" where
  "machine_ok mc \<longleftrightarrow> 0 < mc_cpus mc \<and> 16 * mc_cpus mc * 129 \<le> INT_MAX"

lemma machine_okD:
  assumes "machine_ok mc"
  shows "0 < mc_cpus mc" and "16 * mc_cpus mc \<le> INT_MAX" and "int32 (16 * mc_cpus mc) = 16 * mc_cpus mc"
  using assms int32_id [of "16 * mc_cpus mc"] by (auto simp: machine_ok_def INT_MAX_def)

text \<open>None of the products wraps.\<close>

lemma products_fit:
  assumes "machine_ok mc" and "1 \<le> P" and "P \<le> 16 * mc_cpus mc" and "0 \<le> n" and "n \<le> 128"
  shows "int32 (P * int32 (n + 1)) = P * (n + 1)" and "P * (n + 1) \<le> INT_MAX"
    and "int32 (int32 (P + 1) - 1) = P" and "int32 (P - 1) = P - 1" and "P mod 2 ^ 32 = P"
proof -
  have "P * (n + 1) \<le> (16 * mc_cpus mc) * 129"
    using assms by (intro mult_mono) auto
  then show le: "P * (n + 1) \<le> INT_MAX" using assms(1) by (simp add: machine_ok_def)
  moreover have "0 \<le> P * (n + 1)" using assms by simp
  moreover have P: "P < 2147483647" using machine_okD [OF assms(1)] assms(1,3) by (simp add: machine_ok_def INT_MAX_def)
  ultimately show "int32 (P * int32 (n + 1)) = P * (n + 1)"
    using assms(4,5) by (simp add: int32_id INT_MAX_def)
  show "int32 (int32 (P + 1) - 1) = P" "int32 (P - 1) = P - 1" "P mod 2 ^ 32 = P"
    using P assms(2) by (simp_all add: int32_id INT_MAX_def)
qed

lemma returns_weaken: "returns P m Q \<Longrightarrow> (\<And>s. P' s \<Longrightarrow> P s) \<Longrightarrow> (\<And>x s. Q x s \<Longrightarrow> Q' x s) \<Longrightarrow> returns P' m Q'"
  by (fastforce simp: returns_def)

lemma returns_bindP: "returns P m Q \<Longrightarrow> (\<And>x. returns (Q x) (k x) R) \<Longrightarrow> returns P (bindP m k) R"
  by (fastforce simp: returns_def run)

lemma returns_result: "returns P (block ms) (\<lambda>_. Q) \<Longrightarrow> returns Q m R \<Longrightarrow> returns P (result ms m) R"
  unfolding result_def by (rule returns_bindP)

lemma returns_if: "(b \<Longrightarrow> returns P m Q) \<Longrightarrow> (\<not> b \<Longrightarrow> returns P m' Q) \<Longrightarrow> returns P (if b then m else m') Q"
  by simp

lemma put_returns:
  assumes "\<And>r x s. p = (r, Some x) \<Longrightarrow> P s \<Longrightarrow> P (fld (\<lambda>_. x) s)"
  shows "returns P (put fld p) (\<lambda>_. P)"
  using assms by (cases p) (auto simp: returns_def put_def run split: option.splits)

lemma page_round_up:
  fixes n :: int
  assumes "16384 < n" and "n \<le> 2147483648" and "0 < n mod 4096"
  shows "16384 \<le> 4096 * (1 + n div 4096)" and "4096 * (1 + n div 4096) \<le> 2147483648"
proof -
  obtain q r where qr: "q = n div 4096" "n = 4096 * q + r" "0 < r" "r < 4096"
    using assms(3) by (metis mult_div_mod_eq pos_mod_bound zero_less_numeral)
  have "4 \<le> 1 + q" using qr(2-4) assms(1) by linarith
  moreover have "\<not> 524288 \<le> q" using qr(2-4) assms(2) by linarith
  ultimately show "16384 \<le> 4096 * (1 + n div 4096)" and "4096 * (1 + n div 4096) \<le> 2147483648"
    using qr(1) by simp_all
qed

lemma validate_stack_size:
  assumes "0 \<le> n" and "n \<le> INT_MAX + 1"
  shows "\<exists>m. cilkos_validate_stack_size n s = Inr (m, s) \<and> m \<noteq> 0 \<and> stack_size_ok m"
proof -
  consider "n = 0" | "0 < n" "n \<le> 16384" | "16384 < n" "n mod 4096 = 0" | "16384 < n" "0 < n mod 4096"
    using assms(1) pos_mod_sign [of 4096 n] by linarith
  then show ?thesis
  proof cases
    case 4
    with assms page_round_up [of n] show ?thesis
      by (simp add: cilkos_validate_stack_size_def run stack_size_ok_def stack_sizes limits)
  qed (use assms in \<open>simp_all add: cilkos_validate_stack_size_def run stack_size_ok_def stack_sizes limits\<close>)
qed

subsection \<open>Defaults and environment\<close>

lemma from_env_returns:
  assumes "\<And>v x s. snd (parse v) = Some x \<Longrightarrow> P s \<Longrightarrow> P (fld (\<lambda>_. x) s)"
  shows "returns P (from_env mc buf name fld parse) (\<lambda>_. P)"
  unfolding from_env_def
  by (auto split: prod.splits simp: returns_def run put_def split: option.splits intro!: assms)

lemma snd_store_int:
  "snd (store_int ty v lo hi) = Some x \<Longrightarrow> 0 \<le> lo \<Longrightarrow> hi \<le> INT_MAX \<Longrightarrow> lo \<le> x \<and> x \<le> hi"
  using store_int_bounds [of ty v lo hi _ x] by (cases "store_int ty v lo hi") simp

lemma snd_store_bool: "snd (store_bool v) = Some x \<Longrightarrow> x = 0 \<or> x = 1"
  using store_bool_bounds [of v _ x] by (cases "store_bool v") simp

text \<open>What a field may be given for its range to be kept.\<close>

lemma settings_ok_updates:
  "settings_ok mc s \<Longrightarrow> 1 \<le> x \<Longrightarrow> x \<le> 16 * mc_cpus mc \<Longrightarrow> settings_ok mc (s\<lparr>st_P := x\<rparr>)"
  "settings_ok mc s \<Longrightarrow> 0 \<le> x \<Longrightarrow> x \<le> 16 * mc_cpus mc \<Longrightarrow> settings_ok mc (s\<lparr>st_max_user_workers := x\<rparr>)"
  "settings_ok mc s \<Longrightarrow> x = 0 \<or> x = 1 \<Longrightarrow> settings_ok mc (s\<lparr>st_force_reduce := x\<rparr>)"
  "settings_ok mc s \<Longrightarrow> 0 \<le> x \<Longrightarrow> x \<le> 128 \<Longrightarrow> settings_ok mc (s\<lparr>st_fiber_pool_size := x\<rparr>)"
  "settings_ok mc s \<Longrightarrow> 0 \<le> x \<Longrightarrow> x \<le> INT_MAX \<Longrightarrow> settings_ok mc (s\<lparr>st_global_fiber_pool_size := x\<rparr>)"
  "settings_ok mc s \<Longrightarrow> 0 \<le> x \<Longrightarrow> x \<le> INT_MAX \<Longrightarrow> settings_ok mc (s\<lparr>st_max_stacks := x\<rparr>)"
  "settings_ok mc s \<Longrightarrow> 1 \<le> x \<Longrightarrow> x \<le> INT_MAX \<Longrightarrow> settings_ok mc (s\<lparr>st_max_steal_failures := x\<rparr>)"
  "settings_ok mc s \<Longrightarrow> stack_size_ok x \<Longrightarrow> settings_ok mc (s\<lparr>st_stack_size := x\<rparr>)"
  "settings_ok mc s \<Longrightarrow> 0 \<le> x \<Longrightarrow> x \<le> INT_MAX \<Longrightarrow> settings_ok mc (s\<lparr>st_ped_seed := x\<rparr>)"
  by (auto simp: settings_ok_def)

lemma read_environment_returns:
  assumes "1 \<le> cpus" and "cpus \<le> mc_cpus mc" and "16 * mc_cpus mc \<le> INT_MAX" and "int32 (16 * cpus) = 16 * cpus"
  shows "returns (settings_ok mc) (read_environment mc cpus) (\<lambda>_. settings_ok mc)"
proof -
  have force: "returns (settings_ok mc) (from_env mc (mc_junk mc) ''CILK_FORCE_REDUCE'' st_force_reduce_update
      store_bool) (\<lambda>_. settings_ok mc)"
    by (rule from_env_returns) (auto dest: snd_store_bool intro: settings_ok_updates)
  have int: "returns (settings_ok mc) (from_env mc buf name fld (\<lambda>v. store_int Compared_as_long v 1 hi))
      (\<lambda>_. settings_ok mc)"
    if "hi \<le> INT_MAX" "\<And>x s. settings_ok mc s \<Longrightarrow> 1 \<le> x \<Longrightarrow> x \<le> hi \<Longrightarrow> settings_ok mc (fld (\<lambda>_. x) s)"
    for buf name fld hi
    by (rule from_env_returns) (use that in \<open>auto dest!: snd_store_int\<close>)
  have one: "returns (settings_ok mc) (result [modify (fld (\<lambda>_. 1))] (ret buf)) (\<lambda>_. settings_ok mc)"
    if "\<And>s. settings_ok mc s \<Longrightarrow> settings_ok mc (fld (\<lambda>_. 1) s)" for buf :: string and fld
    using that by (simp add: returns_def run)
  show ?thesis
    unfolding read_environment_def assms(4)
    by (rule returns_bindP [where Q = "\<lambda>_. settings_ok mc"] returns_if force int one settings_ok_updates
        | use assms in \<open>simp add: returns_def run\<close>)+
qed

lemma user_settable_values_returns:
  assumes "machine_ok mc"
  shows "returns (settings_inv mc) (cilkg_get_user_settable_values mc) (\<lambda>_ s. st_initialized s \<and> settings_ok mc s)"
proof
  fix s assume inv: "settings_inv mc s"
  show "\<exists>x t. cilkg_get_user_settable_values mc s = Inr (x, t) \<and> st_initialized t \<and> settings_ok mc t"
  proof (cases "st_initialized s")
    case True
    with inv show ?thesis by (simp add: cilkg_get_user_settable_values_def run settings_inv_def)
  next
    case False
    let ?cpus = "if mc_ptool mc then 1 else mc_cpus mc"
    have cpus: "1 \<le> ?cpus" "?cpus \<le> mc_cpus mc" "16 * mc_cpus mc \<le> INT_MAX" "int32 (16 * ?cpus) = 16 * ?cpus"
        "0 < mc_cpus mc" "int32 (6 * 3 * ?cpus) = 18 * ?cpus" "18 * ?cpus \<le> INT_MAX"
      using machine_okD [OF assms] assms by (auto simp: machine_ok_def int32_id INT_MAX_def)
    then have "settings_ok mc (default_settings mc ?cpus s)"
      by (simp add: settings_ok_def default_settings_def zero_settings_def stack_size_ok_def limits)
    then obtain u where u: "read_environment mc ?cpus (default_settings mc ?cpus s) = Inr ((), u)" "settings_ok mc u"
      using returnsD [OF read_environment_returns [OF cpus(1-4)]] by fastforce
    then have "settings_ok mc (halve_for_dedicated_cores u)"
      by (simp add: halve_for_dedicated_cores_def settings_ok_def io_modes)
    then show ?thesis
      using u(1) False cpus(5)
      by (simp add: cilkg_get_user_settable_values_def run Let_def settings_ok_def)
  qed
qed

text \<open>Reading the settings does not start the runtime.\<close>

lemma read_environment_singleton:
  "returns (\<lambda>s. \<not> st_singleton s) (read_environment mc cpus) (\<lambda>_ s. \<not> st_singleton s)"
proof -
  let ?P = "\<lambda>s. \<not> st_singleton s"
  have env: "returns ?P (from_env mc buf name fld parse) (\<lambda>_. ?P)"
    if "\<And>x s. st_singleton (fld (\<lambda>_. x) s) = st_singleton s" for buf name fld parse
    by (rule from_env_returns) (simp add: that)
  have one: "returns ?P (result [modify (fld (\<lambda>_. 1))] (ret buf)) (\<lambda>_. ?P)"
    if "\<And>x s. st_singleton (fld (\<lambda>_. x) s) = st_singleton s" for buf :: string and fld :: "(int \<Rightarrow> int) \<Rightarrow> _"
    by (simp add: returns_def run that)
  show ?thesis
    unfolding read_environment_def
    by (rule returns_bindP [where Q = "\<lambda>_. ?P"] returns_if env one | simp add: returns_def run)+
qed

lemma settable_values_fresh:
  assumes "machine_ok mc"
  obtains u where "cilkg_get_user_settable_values mc zero_settings = Inr ((), u)" "st_initialized u" "\<not> st_singleton u"
proof -
  have zero: "\<not> st_initialized zero_settings" "\<not> st_singleton zero_settings" by (simp_all add: zero_settings_def)
  let ?cpus = "if mc_ptool mc then 1 else mc_cpus mc"
  have "\<not> st_singleton (default_settings mc ?cpus zero_settings)"
    by (simp add: default_settings_def zero_settings_def)
  then obtain v where "read_environment mc ?cpus (default_settings mc ?cpus zero_settings) = Inr ((), v)" "\<not> st_singleton v"
    using returnsD [OF read_environment_singleton] by fastforce
  then show thesis
    using zero assms that
    by (auto simp: cilkg_get_user_settable_values_def run Let_def machine_ok_def halve_for_dedicated_cores_def)
qed

subsection \<open>Setting parameters\<close>

lemma put_int_returns:
  assumes "0 \<le> lo" and "hi \<le> INT_MAX" and "\<And>x s. P s \<Longrightarrow> lo \<le> x \<Longrightarrow> x \<le> hi \<Longrightarrow> P (fld (\<lambda>_. x) s)"
  shows "returns P (put fld (store_int ty v lo hi)) (\<lambda>_. P)"
  using assms by (intro put_returns) (blast dest: store_int_bounds)

lemma put_bool_returns:
  assumes "\<And>x s. P s \<Longrightarrow> x = 0 \<or> x = 1 \<Longrightarrow> P (fld (\<lambda>_. x) s)"
  shows "returns P (put fld (store_bool v)) (\<lambda>_. P)"
  using assms by (intro put_returns) (blast dest: store_bool_bounds)

lemma unless_late_returns:
  "returns P m (\<lambda>_. P) \<Longrightarrow> returns P (unless_late m) (\<lambda>_. P)"
  by (auto simp: unless_late_def returns_def run)

text \<open>Setting the number of workers passes through 0, the request for the default.\<close>

lemma set_nworkers_returns:
  assumes "machine_ok mc"
  shows "returns (settings_ok mc) (set_nworkers mc value) (\<lambda>_. settings_ok mc)"
proof -
  note cpus = machine_okD [OF assms]
  let ?hi = "if mc_ptool mc then 1 else 16 * mc_cpus mc"
  have "\<exists>t. set_nworkers mc value s = Inr (fst (store_int Compared_as_long value 0 ?hi), t) \<and> settings_ok mc t"
    if s: "settings_ok mc s" and "\<not> st_singleton s" for s
  proof (cases "store_int Compared_as_long value 0 ?hi")
    case (Pair r x)
    have y: "0 \<le> y \<and> y \<le> 16 * mc_cpus mc" if "x = Some y" for y
      using store_int_bounds [OF Pair [unfolded that]] cpus by (cases "mc_ptool mc") auto
    have "st_P s \<noteq> 0" using s by (simp add: settings_ok_def)
    have eq: "set_nworkers mc value s = Inr (r, case x of None \<Rightarrow> s
        | Some y \<Rightarrow> s\<lparr>st_P := if y = 0 then if mc_ptool mc then 1 else mc_cpus mc else y\<rparr>)"
      using Pair cpus(1) that(2) \<open>st_P s \<noteq> 0\<close>
      by (cases x) (auto simp: set_nworkers_def unless_late_def put_def run Let_def cpus(3))
    have "settings_ok mc (case x of None \<Rightarrow> s
        | Some y \<Rightarrow> s\<lparr>st_P := if y = 0 then if mc_ptool mc then 1 else mc_cpus mc else y\<rparr>)"
      using s y cpus(1,2) by (cases x) (auto simp: settings_ok_updates(1))
    with eq Pair show ?thesis by simp
  qed
  then show ?thesis
    by (fastforce simp: returns_def set_nworkers_def unless_late_def run)
qed

text \<open>The size is put in range at once, whether a new one was stored or not.\<close>

lemma set_stack_size_returns: "returns (settings_ok mc) (set_stack_size v) (\<lambda>_. settings_ok mc)"
proof
  fix s assume s: "settings_ok mc s"
  have range: "0 \<le> st_stack_size s" "st_stack_size s \<le> INT_MAX + 1"
    using s by (simp_all add: settings_ok_def stack_size_ok_def limits stack_sizes) linarith+
  show "\<exists>x t. set_stack_size v s = Inr (x, t) \<and> settings_ok mc t"
  proof (cases "st_singleton s")
    case True
    with s show ?thesis by (simp add: set_stack_size_def unless_late_def run)
  next
    case False
    obtain r x where rx: "store_int Compared_as_size_t v 0 INT_MAX = (r, x)" by fastforce
    obtain u where u: "u = (case x of None \<Rightarrow> s | Some y \<Rightarrow> s\<lparr>st_stack_size := y\<rparr>)" by simp
    have "0 \<le> st_stack_size u" "st_stack_size u \<le> INT_MAX + 1"
      using u range store_int_bounds [of Compared_as_size_t v 0 INT_MAX r] rx by (cases x; simp)+
    then obtain m where m: "cilkos_validate_stack_size (st_stack_size u) u = Inr (m, u)" "stack_size_ok m"
      using validate_stack_size [of "st_stack_size u" u] by auto
    have "set_stack_size v s = Inr (r, u\<lparr>st_stack_size := m\<rparr>)"
      using u m(1) rx False by (cases x) (simp_all add: set_stack_size_def unless_late_def put_def run)
    moreover have "settings_ok mc (u\<lparr>st_stack_size := m\<rparr>)"
      using u settings_ok_updates(8) [OF s m(2)] by (cases x) simp_all
    ultimately show ?thesis by blast
  qed
qed

lemma set_param_imp_returns:
  assumes "machine_ok mc"
  shows "returns (settings_ok mc) (set_param_imp mc param val) (\<lambda>_. settings_ok mc)"
proof -
  note cpus = machine_okD [OF assms]
  have answer: "returns (settings_ok mc) (ret r) (\<lambda>_. settings_ok mc)" for r :: set_param_status
    by (simp add: returns_def run)
  have user: "returns (settings_ok mc) (result [CILK_ASSERT ''hardware_cpu_count > 0'' (mc_cpus mc > 0)]
      (put st_max_user_workers_update (store_int Compared_as_long v 1 (int32 (16 * mc_cpus mc))))) (\<lambda>_. settings_ok mc)" for v
    using put_int_returns [of 1 "16 * mc_cpus mc" "settings_ok mc" st_max_user_workers_update Compared_as_long v,
        OF _ cpus(2)] cpus(1,3)
    by (simp add: returns_def run settings_ok_updates)
  have "returns (settings_ok mc) (set_param_imp mc (Some p) (Some v)) (\<lambda>_. settings_ok mc)" for p v
    unfolding set_param_imp_def prod.case option.case
    by (intro returns_if answer user set_nworkers_returns [OF assms] set_stack_size_returns
        unless_late_returns put_int_returns put_bool_returns)
      (use cpus in \<open>auto intro: settings_ok_updates simp: limits\<close>)
  then show ?thesis by (cases param; cases val) (simp_all add: set_param_imp_def answer)
qed

subsection \<open>Starting the runtime\<close>

text \<open>
  What a start of the runtime makes of the settings \<open>s\<close>. Where the number of stacks is not limited, which is
  so only where it was set to 0, the sizes of the pools stay as they were set.
\<close>

definition started_ok :: "settings \<Rightarrow> settings \<Rightarrow> bool" where
  "started_ok s t \<longleftrightarrow>
     st_total_workers t = st_P t \<and> st_system_workers t = st_P t - 1
   \<and> CILK_MIN_STACK_SIZE \<le> st_stack_size t
   \<and> (0 < st_max_stacks t \<longrightarrow>
        1 \<le> st_fiber_pool_size t \<and> st_P t \<le> st_max_stacks t
      \<and> st_P t * st_fiber_pool_size t \<le> max (st_P t) (st_max_stacks t)
      \<and> st_global_fiber_pool_size t = st_P t * (st_fiber_pool_size t + 1))
   \<and> (st_max_stacks t = 0 \<longrightarrow> st_initialized s \<and> st_max_stacks s = 0
      \<and> st_fiber_pool_size t = st_fiber_pool_size s \<and> st_global_fiber_pool_size t = st_global_fiber_pool_size s)"

text \<open>The pools share the stacks, each gets at least one.\<close>

definition pool_share :: "settings \<Rightarrow> int" where
  "pool_share s = max 1 (min (st_fiber_pool_size s) (st_max_stacks s div st_P s))"

lemma bound_stacks_is:
  assumes "settings_ok mc s" and "machine_ok mc" and "0 < st_max_stacks s"
  shows "bound_stacks s = s\<lparr>st_fiber_pool_size := pool_share s, st_max_stacks := max (st_P s) (st_max_stacks s),
      st_global_fiber_pool_size := st_P s * (pool_share s + 1)\<rparr>"
    and "1 \<le> pool_share s" and "pool_share s \<le> 128" and "st_P s * (pool_share s + 1) \<le> INT_MAX"
proof -
  have P: "1 \<le> st_P s" "st_P s \<le> 16 * mc_cpus mc" and stacks: "0 < st_max_stacks s" "st_max_stacks s \<le> INT_MAX"
      and pool: "0 \<le> st_fiber_pool_size s" "st_fiber_pool_size s \<le> 128"
    using assms by (auto simp: settings_ok_def)
  show share: "1 \<le> pool_share s" "pool_share s \<le> 128" using pool by (auto simp: pool_share_def)
  note fit = products_fit [OF assms(2) P order_trans [OF zero_le_one share(1)] share(2)]
  show "st_P s * (pool_share s + 1) \<le> INT_MAX" by (rule fit(2))
  have int: "int32 (st_max_stacks s) = st_max_stacks s" using stacks by (simp add: int32_id)
  have quot: "st_max_stacks s sdiv st_P s = st_max_stacks s div st_P s" "0 \<le> st_max_stacks s div st_P s"
    using P stacks by (simp_all add: signed_divide_int_def pos_imp_zdiv_nonneg_iff)
  have q: "int32 (st_max_stacks s div st_P s) = st_max_stacks s div st_P s" if "st_max_stacks s div st_P s < st_fiber_pool_size s"
    using that quot(2) pool by (simp add: int32_id INT_MAX_def)
  consider "st_max_stacks s div st_P s < st_fiber_pool_size s" "st_max_stacks s div st_P s \<le> 0"
    | "st_max_stacks s div st_P s < st_fiber_pool_size s" "0 < st_max_stacks s div st_P s"
    | "st_fiber_pool_size s \<le> st_max_stacks s div st_P s" "st_fiber_pool_size s \<le> 0"
    | "st_fiber_pool_size s \<le> st_max_stacks s div st_P s" "0 < st_fiber_pool_size s" by linarith
  then show "bound_stacks s = s\<lparr>st_fiber_pool_size := pool_share s, st_max_stacks := max (st_P s) (st_max_stacks s),
      st_global_fiber_pool_size := st_P s * (pool_share s + 1)\<rparr>"
  proof cases
    case 1
    then show ?thesis using fit(1,5) stacks
      by (simp add: bound_stacks_def Let_def int quot(1) q pool_share_def max_def)
  next
    case 2
    then have "st_P s \<le> st_max_stacks s" using P(1) by (simp add: pos_imp_zdiv_pos_iff)
    with 2 show ?thesis using fit(1,5) stacks
      by (simp add: bound_stacks_def Let_def int quot(1) q pool_share_def max_def)
  next
    case 3
    then show ?thesis using fit(1,5) stacks
      by (simp add: bound_stacks_def Let_def int quot(1) pool_share_def max_def)
  next
    case 4
    then show ?thesis using fit(1,5) stacks
      by (simp add: bound_stacks_def Let_def int quot(1) pool_share_def max_def)
  qed
qed

lemma bound_stacks_ok:
  assumes "settings_ok mc s" and "machine_ok mc" and "0 < st_max_stacks s"
  shows "settings_ok mc (bound_stacks s)" and "1 \<le> st_fiber_pool_size (bound_stacks s)"
    and "st_P s \<le> st_max_stacks (bound_stacks s)"
    and "st_P s * st_fiber_pool_size (bound_stacks s) \<le> max (st_P s) (st_max_stacks (bound_stacks s))"
    and "st_global_fiber_pool_size (bound_stacks s) = st_P s * (st_fiber_pool_size (bound_stacks s) + 1)"
proof -
  note b = bound_stacks_is [OF assms]
  have P: "1 \<le> st_P s" "st_P s \<le> INT_MAX" "st_max_stacks s \<le> INT_MAX"
    using assms machine_okD [OF assms(2)] by (auto simp: settings_ok_def)
  have "0 \<le> st_P s * (pool_share s + 1)" using P b(2) by simp
  then show "settings_ok mc (bound_stacks s)" and "1 \<le> st_fiber_pool_size (bound_stacks s)"
    and "st_P s \<le> st_max_stacks (bound_stacks s)"
    and "st_global_fiber_pool_size (bound_stacks s) = st_P s * (st_fiber_pool_size (bound_stacks s) + 1)"
    using assms(1,3) P b by (auto simp: settings_ok_def)
  have le: "st_P s * (st_max_stacks s div st_P s) \<le> st_max_stacks s"
    using P by (metis mult_div_mod_eq le_add_same_cancel1 pos_mod_sign less_le_trans zero_less_one)
  have "st_P s * pool_share s \<le> max (st_P s) (st_max_stacks s)"
  proof (cases "pool_share s = 1")
    case False
    then have "pool_share s \<le> st_max_stacks s div st_P s" by (auto simp: pool_share_def)
    then have "st_P s * pool_share s \<le> st_P s * (st_max_stacks s div st_P s)" using P(1) by simp
    with le show ?thesis by linarith
  qed simp
  then show "st_P s * st_fiber_pool_size (bound_stacks s) \<le> max (st_P s) (st_max_stacks (bound_stacks s))"
    by (simp add: b(1))
qed

lemma settable_values_twice: "st_initialized s \<Longrightarrow> cilkg_get_user_settable_values mc s = Inr ((), s)"
  by (simp add: cilkg_get_user_settable_values_def run)

lemma bound_stacks_same [simp]:
  "st_initialized (bound_stacks s) = st_initialized s" "st_P (bound_stacks s) = st_P s"
  "st_stack_size (bound_stacks s) = st_stack_size s" "st_singleton (bound_stacks s) = st_singleton s"
  by (simp_all add: bound_stacks_def Let_def)

lemma bound_stacks_unlimited: "\<not> 0 < st_max_stacks s \<Longrightarrow> bound_stacks s = s"
  by (simp add: bound_stacks_def)

text \<open>The default is not 0: where the number is not limited, the program has said so.\<close>

lemma read_environment_stacks:
  "returns (\<lambda>s. st_max_stacks s = n) (read_environment mc cpus) (\<lambda>_ s. st_max_stacks s = n)"
proof -
  let ?P = "\<lambda>s. st_max_stacks s = n"
  have env: "returns ?P (from_env mc buf name fld parse) (\<lambda>_. ?P)"
    if "\<And>x s. st_max_stacks (fld (\<lambda>_. x) s) = st_max_stacks s" for buf name fld parse
    by (rule from_env_returns) (simp add: that)
  have one: "returns ?P (result [modify (fld (\<lambda>_. 1))] (ret buf)) (\<lambda>_. ?P)"
    if "\<And>x s. st_max_stacks (fld (\<lambda>_. x) s) = st_max_stacks s" for buf :: string and fld :: "(int \<Rightarrow> int) \<Rightarrow> _"
    by (simp add: returns_def run that)
  show ?thesis
    unfolding read_environment_def
    by (rule returns_bindP [where Q = "\<lambda>_. ?P"] returns_if env one | simp add: returns_def run)+
qed

lemma unlimited_was_set:
  assumes "cilkg_get_user_settable_values mc s = Inr ((), u)" and "settings_ok mc u" and "\<not> 0 < st_max_stacks u"
  shows "u = s \<and> st_initialized s"
proof (cases "st_initialized s")
  case True
  with assms(1) show ?thesis by (simp add: settable_values_twice)
next
  case False
  let ?cpus = "if mc_ptool mc then 1 else mc_cpus mc"
  have "st_max_stacks (default_settings mc ?cpus s) = INT_MAX" by (simp add: default_settings_def)
  then obtain v where "read_environment mc ?cpus (default_settings mc ?cpus s) = Inr ((), v)" "st_max_stacks v = INT_MAX"
    using returnsD [OF read_environment_stacks] by fastforce
  then have "st_max_stacks u = INT_MAX"
    using assms(1) False
    by (auto simp: cilkg_get_user_settable_values_def run Let_def halve_for_dedicated_cores_def split: if_splits)
  with assms(3) show ?thesis by (simp add: INT_MAX_def)
qed

lemma init_returns:
  assumes "machine_ok mc" and "settings_inv mc s" and "\<not> st_singleton s"
  shows "\<exists>t. cilkg_init_global_state mc s = Inr ((), t) \<and> st_initialized t \<and> settings_ok mc t \<and> started_ok s t"
proof -
  obtain u where u: "cilkg_get_user_settable_values mc s = Inr ((), u)" "st_initialized u" "settings_ok mc u"
    using returnsD [OF user_settable_values_returns [OF assms(1)] assms(2)] by auto
  have b: "settings_ok mc (bound_stacks u)"
    using bound_stacks_ok(1) [OF u(3) assms(1)] u(3) by (cases "0 < st_max_stacks u") (auto simp: bound_stacks_def)
  have range: "0 \<le> st_stack_size u" "st_stack_size u \<le> INT_MAX + 1"
    using u(3) by (simp_all add: settings_ok_def stack_size_ok_def limits stack_sizes) linarith+
  have P: "int32 (int32 (st_P u + 1) - 1) = st_P u" "int32 (st_P u - 1) = st_P u - 1"
    using products_fit [OF assms(1), of "st_P u" 0] u(3) by (auto simp: settings_ok_def)
  let ?v = "(bound_stacks u)\<lparr>st_Q := 0, st_total_workers := st_P u, st_system_workers := st_P u - 1,
    st_work_done := False, st_active_workers := 1, st_workers_running := False, st_ltqsize := 8192\<rparr>"
  obtain n where n: "cilkos_validate_stack_size (st_stack_size u) ?v = Inr (n, ?v)" "n \<noteq> 0" "stack_size_ok n"
    using validate_stack_size [OF range, of ?v] by auto
  let ?t = "?v\<lparr>st_stack_size := n, st_failure_to_allocate_stack := False\<rparr>"
  have "cilkg_init_global_state mc s = Inr ((), ?t)"
    using assms(3) u(1,2) n(1)
    by (simp add: cilkg_init_global_state_def cilkg_calc_total_workers_def run settable_values_twice
        total_workers_of_def calc_max_user_workers_def P)
  moreover have "settings_ok mc ?t" using b n(3) by (simp add: settings_ok_def)
  moreover have "started_ok s ?t"
  proof (cases "0 < st_max_stacks u")
    case True
    note bs = bound_stacks_ok [OF u(3) assms(1) True] and pos = u(3) [unfolded settings_ok_def]
    have "st_max_stacks (bound_stacks u) \<noteq> 0" using bs(3) pos by auto
    with bs n(2,3) show ?thesis by (simp add: started_ok_def stack_size_ok_def)
  next
    case False
    then have "u = s" "st_initialized s"
      using unlimited_was_set [OF u(1) u(3)] by auto
    with False n(2,3) bound_stacks_unlimited [of u] u(3) show ?thesis
      by (simp add: started_ok_def stack_size_ok_def settings_ok_def)
  qed
  ultimately show ?thesis using u(2) by auto
qed

subsection \<open>Sequences of calls\<close>

datatype settings_call =
  Set_param "string option" "string option" | Total_workers | Start | Publish | Stop

fun run_call :: "machine \<Rightarrow> settings_call \<Rightarrow> (settings, unit) prog" where
  "run_call mc (Set_param p v) = bindP (cilkg_set_param mc p v) (\<lambda>_. ret ())"
| "run_call mc Total_workers = bindP (cilkg_calc_total_workers mc) (\<lambda>_. ret ())"
| "run_call mc Start = cilkg_init_global_state mc"
| "run_call mc Publish = cilkg_publish_global_state"
| "run_call mc Stop = cilkg_deinit_global_state"

lemma stub_call_returns:
  assumes "machine_ok mc"
  shows "returns (settings_inv mc) (run_call mc c) (\<lambda>_. settings_inv mc)"
proof (cases c)
  case (Set_param p v)
  have "returns (\<lambda>s. st_initialized s \<and> settings_ok mc s) (set_param_imp mc p v) (\<lambda>_. settings_inv mc)"
    using set_param_imp_returns [OF assms, of p v] by (fastforce simp: returns_def settings_inv_def)
  then show ?thesis
    using user_settable_values_returns [OF assms]
    by (fastforce simp: Set_param cilkg_set_param_def returns_def run)
next
  case Total_workers
  then show ?thesis
    using user_settable_values_returns [OF assms]
    by (fastforce simp: cilkg_calc_total_workers_def returns_def run settings_inv_def)
next
  case Start
  have "\<exists>t. cilkg_init_global_state mc s = Inr ((), t) \<and> settings_inv mc t" if "settings_inv mc s" for s
    using init_returns [OF assms that] that
    by (cases "st_singleton s") (auto simp: cilkg_init_global_state_def run settings_inv_def)
  then show ?thesis by (auto simp: Start returns_def)
qed (auto simp: returns_def run cilkg_publish_global_state_def cilkg_deinit_global_state_def
      settings_inv_def settings_ok_def)

lemma calls_return:
  "machine_ok mc \<Longrightarrow> settings_inv mc s \<Longrightarrow>
   \<exists>t. block (map (run_call mc) cs) s = Inr ((), t) \<and> settings_inv mc t"
proof (induction cs arbitrary: s)
  case (Cons c cs)
  then obtain u where "run_call mc c s = Inr ((), u)" "settings_inv mc u"
    using returnsD [OF stub_call_returns [OF Cons.prems(1)] Cons.prems(2)] by auto
  with Cons.IH [OF Cons.prems(1)] show ?case by (auto simp: run)
qed (simp add: run)

text \<open>
  C24. Settings stay in range. After any sequence of calls that set parameters, with any text as name and
  value, and that start, publish and stop the runtime, no assertion has failed and every setting is in
  the range that the code checks it against (not always the documented one: \<open>"local stacks"\<close> is accepted from 0 to 128), and
  none of the products computed from them overflows. A start of the runtime then makes as many workers as \<open>P\<close> and
  stacks of at least the minimal size. If the number of stacks is limited, there is room for a fiber in the pool of every worker,
  the pools together hold no more fibers than there may be stacks (or one each), and the global pool has room for all of
  them; if the program has set it to 0, unlimited, the sizes of the pools are what the program set them to.
\<close>

theorem settings_stay_in_range:
  assumes "machine_ok mc"
  shows "\<exists>s. block (map (run_call mc) cs) zero_settings = Inr ((), s) \<and> settings_inv mc s
     \<and> (st_singleton s \<or> (\<exists>t. cilkg_init_global_state mc s = Inr ((), t) \<and> settings_ok mc t \<and> started_ok s t))"
proof -
  have "settings_inv mc zero_settings" by (simp add: settings_inv_def zero_settings_def)
  then obtain s where "block (map (run_call mc) cs) zero_settings = Inr ((), s)" "settings_inv mc s"
    using calls_return [OF assms] by blast
  with init_returns [OF assms this(2)] show ?thesis by blast
qed

definition example_machine :: machine where
  "example_machine = \<lparr>mc_getenv = [''CILK_FORCE_REDUCE'' \<mapsto> ''1'', ''CILK_NWORKERS'' \<mapsto> ''000000000000000000000000008''],
     mc_cpus = 4, mc_ptool = False, mc_force_reduce = False, mc_junk = []\<rparr>"

theorem settings_stay_in_range_witness:
  "\<exists>s. block (map (run_call example_machine) [Set_param (Some ''nworkers'') (Some ''3''), Start]) zero_settings = Inr ((), s)
     \<and> settings_inv example_machine s
     \<and> (st_singleton s \<or> (\<exists>t. cilkg_init_global_state example_machine s = Inr ((), t)
          \<and> settings_ok example_machine t \<and> started_ok s t))"
  by (rule settings_stay_in_range) (simp add: machine_ok_def example_machine_def limits)

section \<open>Settings without effect\<close>

text \<open>
  C99. The size of the global pool cannot be set. Unless the number of stacks was set to 0, the start of the
  runtime computes the size of the global pool and loses what \<open>"shared stacks"\<close> was set to, since the
  default number of stacks is not 0 but the largest \<open>int\<close>.
\<close>

theorem shared_stacks_is_lost:
  assumes "st_initialized s" and "\<not> st_singleton s" and "0 < st_max_stacks s"
  shows "block [run_call mc (Set_param (Some ''shared stacks'') v), run_call mc Start] s = run_call mc Start s"
proof -
  have lost: "bound_stacks (s\<lparr>st_global_fiber_pool_size := x\<rparr>) = bound_stacks s" for x
    using assms(3) by (simp add: bound_stacks_def Let_def)
  show ?thesis
    using assms(1,2)
    by (cases v) (auto simp: run cilkg_set_param_def set_param_imp_def settable_values_twice put_def
        cilkg_init_global_state_def lost split: option.splits sum.splits)
qed

text \<open>
  C25. A value that is too long is read from another variable. When the value of \<open>CILK_NWORKERS\<close> does not fit into
  the buffer, \<open>cilkos_getenv\<close> leaves the buffer alone and answers a length that is not 0, so the
  number of workers is read from what the variable before it left there: the runtime behaves as if
  \<open>CILK_NWORKERS\<close> had the value of \<open>CILK_FORCE_REDUCE\<close>.
\<close>

theorem long_value_is_read_from_the_variable_before:
  assumes "\<not> mc_force_reduce mc" and "mc_getenv mc ''CILK_FORCE_REDUCE'' = Some v" and "v \<noteq> []" and "length v < 24"
    and "mc_getenv mc ''CILK_NWORKERS'' = Some w" and "24 \<le> length w"
  shows "cilkg_get_user_settable_values mc s =
     cilkg_get_user_settable_values (mc\<lparr>mc_getenv := (mc_getenv mc)(''CILK_NWORKERS'' \<mapsto> v)\<rparr>) s"
  using assms
  by (simp add: cilkg_get_user_settable_values_def read_environment_def from_env_def cilkos_getenv_def run
      default_settings_def put_def Let_def cong: if_cong)

theorem long_value_witness:
  "(case cilkg_get_user_settable_values example_machine zero_settings of
      Inl e \<Rightarrow> False | Inr (u, s) \<Rightarrow> st_P s = 1 \<and> mc_cpus example_machine = 4)"
  by (subst long_value_is_read_from_the_variable_before [where v = "''1''" and w = "''000000000000000000000000008''"])
    (simp_all add: example_machine_def cilkg_get_user_settable_values_def read_environment_def from_env_def
      cilkos_getenv_def run default_settings_def put_def store_bool_def store_int_def strtol_def Let_def
      isspace_def isdigit_def digits_value_def digit_value_def limits int32_def halve_for_dedicated_cores_def io_modes
      total_workers_of_def zero_settings_def)

theorem shared_stacks_is_lost_witness:
  "(\<exists>t. block [run_call example_machine (Set_param (Some ''shared stacks'') (Some ''5'')), run_call example_machine Start]
      (zero_settings\<lparr>st_initialized := True, st_max_stacks := INT_MAX, st_P := 2, st_fiber_pool_size := 64\<rparr>) = Inr ((), t)
    \<and> st_global_fiber_pool_size t = 130)"
  by (subst shared_stacks_is_lost)
    (simp_all add: run cilkg_init_global_state_def settable_values_twice bound_stacks_def Let_def int32_def limits
      cilkg_calc_total_workers_def total_workers_of_def calc_max_user_workers_def cilkos_validate_stack_size_def
      stack_sizes zero_settings_def signed_divide_int_def)

text \<open>
  A text without digits is the number 0 and no error, so a program that asks for \<open>"many"\<close> workers
  is told that it has them, and gets one for each processor.
\<close>

lemma words_are_numbers:
  assumes "settings_ok mc s" and "st_initialized s" and "\<not> st_singleton s" and "machine_ok mc" and "\<not> mc_ptool mc"
  shows "cilkg_set_param mc (Some ''nworkers'') (Some ''many'') s = Inr (PARAM_SUCCESS, s\<lparr>st_P := mc_cpus mc\<rparr>)"
  using assms
  by (simp add: cilkg_set_param_def settable_values_twice set_param_imp_def set_nworkers_def unless_late_def run
      put_def store_int_def strtol_def isspace_def isdigit_def digits_value_def limits machine_okD Let_def not_less less_imp_le)

text \<open>Setting 0 workers gives the number of processors, also when \<open>CILK_NWORKERS\<close> says something else.\<close>

lemma zero_overrides_environment:
  assumes "st_initialized s" and "\<not> st_singleton s" and "machine_ok mc" and "\<not> mc_ptool mc"
  shows "cilkg_set_param mc (Some ''nworkers'') (Some ''0'') s = Inr (PARAM_SUCCESS, s\<lparr>st_P := mc_cpus mc\<rparr>)"
  using assms
  by (simp add: cilkg_set_param_def settable_values_twice set_param_imp_def set_nworkers_def unless_late_def run
      put_def store_int_def strtol_def isspace_def isdigit_def digits_value_def digit_value_def limits machine_okD Let_def not_less less_imp_le)

text \<open>A number of workers in range is what the program wrote in decimal digits.\<close>

lemma nworkers_reads_decimals:
  assumes "st_initialized s" and "\<not> st_singleton s" and "machine_ok mc" and "\<not> mc_ptool mc"
    and "1 \<le> n" and "int n \<le> 16 * mc_cpus mc"
  shows "cilkg_set_param mc (Some ''nworkers'') (Some (decimal n)) s = Inr (PARAM_SUCCESS, s\<lparr>st_P := int n\<rparr>)"
  using assms store_decimal [of 0 n "16 * mc_cpus mc"] machine_okD [OF assms(3)]
  by (simp add: cilkg_set_param_def settable_values_twice set_param_imp_def set_nworkers_def unless_late_def run
      put_def Let_def)

end
