(* ===== verification/Signal_Tree.thy ===== *)
theory Signal_Tree
  imports Sync Settings
begin

text \<open>
  Waiting without work (\<open>signal_node.c\<close>, \<open>scheduler.c\<close>): the node on which a system worker sleeps,
  the tree along which the workers pass the messages to run and to wait, and the user threads that
  wake the runtime and let it sleep.
\<close>

section \<open>Signal nodes\<close>

definition signal_node_create :: "(rts, ptr) prog" where
  "signal_node_create = bindP cilkrts_malloc (\<lambda>node. result [
     if node = NULL then failP Segfault
     else modify (\<lambda>s. s\<lparr>r_nodes := (r_nodes s)(node \<mapsto> \<lparr>sn_run = False, sn_sem = 0\<rparr>)\<rparr>)] (ret node))"

definition signal_node_destroy :: "ptr \<Rightarrow> (rts, unit) prog" where
  "signal_node_destroy node = block [
     CILK_ASSERT ''node'' (node \<noteq> NULL),
     ld_sn (\<lambda>_. ()) node,
     modify (\<lambda>s. s\<lparr>r_nodes := (r_nodes s)(node := None)\<rparr>)]"

definition signal_node_should_wait :: "ptr \<Rightarrow> (rts, bool) prog" where
  "signal_node_should_wait node = result [CILK_ASSERT ''node'' (node \<noteq> NULL)]
     (ld_sn (\<lambda>x. \<not> sn_run x) node)"

definition signal_node_msg :: "ptr \<Rightarrow> nat \<Rightarrow> (rts, unit) prog" where
  "signal_node_msg node msg = block [
     CILK_ASSERT ''node'' (node \<noteq> NULL),
     if msg = 0 then st_sn node (sn_run_update (\<lambda>_. False))
     else if msg = 1 then block [
       st_sn node (sn_run_update (\<lambda>_. True)),
       st_sn node (sn_sem_update (\<lambda>n. n + 1))]
     else CILK_ASSERT ''Bad signal_node_t message.'' False]"

text \<open>A worker that has used up all signals and may not run is blocked.\<close>

definition signal_node_wait :: "ptr \<Rightarrow> (rts, unit) prog" where
  "signal_node_wait node = result [CILK_ASSERT ''node'' (node \<noteq> NULL)]
     (bindP (ld_sn sn_sem node) (\<lambda>n. loopP (Suc (Suc n)) (\<lambda>_.
        bindP (signal_node_should_wait node) (\<lambda>b.
          if b then bindP (ld_sn sn_sem node) (\<lambda>k. if k = 0 then failP Blocked
            else result [st_sn node (sn_sem_update (\<lambda>_. k - 1))] (ret (Inl ())))
          else ret (Inr ()))) ()))"

section \<open>The tree of system workers\<close>

text \<open>Worker 0 is the user worker; system worker \<open>n + 1\<close> passes messages to \<open>2n + 2\<close> and \<open>2n + 3\<close>.\<close>

definition message_worker :: "int \<Rightarrow> nat \<Rightarrow> (rts, unit) prog" where
  "message_worker i msg =
     bindP (worker_no i) (\<lambda>child. bindP (ld_wk wk_signal_node child) (\<lambda>node. block [
       CILK_ASSERT ''child->l->signal_node'' (node \<noteq> NULL),
       signal_node_msg node msg]))"

definition notify_children :: "ptr \<Rightarrow> nat \<Rightarrow> (rts, unit) prog" where
  "notify_children w msg =
     bindP (ld_wk (\<lambda>x. wk_self x - 1) w) (\<lambda>parent_num.
     bindP (ld_g (\<lambda>g. g_P g - 1)) (\<lambda>num_sys_workers.
     bindP (ret (2 * parent_num + 1)) (\<lambda>child_num.
       whenP (child_num < num_sys_workers) (block [
         message_worker (child_num + 1) msg,
         whenP (child_num + 1 < num_sys_workers) (message_worker (child_num + 2) msg)]))))"

definition notify_children_wait :: "ptr \<Rightarrow> (rts, unit) prog" where
  "notify_children_wait w = notify_children w 0"

definition notify_children_run :: "ptr \<Rightarrow> (rts, unit) prog" where
  "notify_children_run w = notify_children w 1"

section \<open>User threads come and go\<close>

definition wake_runtime :: "(rts, unit) prog" where
  "wake_runtime = block [
     st_g (g_active_workers_update (\<lambda>_. 1)),
     bindP (ld_g g_P) (\<lambda>p. whenP (p > 1) (message_worker 1 1))]"

definition sleep_runtime :: "(rts, unit) prog" where
  "sleep_runtime = bindP (ld_g g_P) (\<lambda>p. whenP (p > 1) (message_worker 1 0))"

definition cilkrts_enter_cilk :: "(rts, unit) prog" where
  "cilkrts_enter_cilk = bindP (ld_g g_Q) (\<lambda>q. block [
     st_g (g_Q_update (\<lambda>_. q + 1)),
     whenP (q = 0) wake_runtime])"

definition cilkrts_leave_cilk :: "(rts, unit) prog" where
  "cilkrts_leave_cilk = bindP (ld_g g_Q) (\<lambda>q. block [
     st_g (g_Q_update (\<lambda>_. q - 1)),
     whenP (q - 1 = 0) sleep_runtime])"

section \<open>What a worker does next\<close>

datatype schedule_t = SCHEDULE_RUN | SCHEDULE_WAIT | SCHEDULE_EXIT

definition worker_runnable :: "ptr \<Rightarrow> (rts, schedule_t) prog" where
  "worker_runnable w =
     bindP (ld_wk id w) (\<lambda>x. bindP (ld_g id) (\<lambda>g.
       if wk_next_frame_ff x \<noteq> NULL then ret SCHEDULE_RUN
       else if g_work_done g then ret SCHEDULE_EXIT
       else if wk_self x = 1 then
         (if wk_steal_failure_count x > g_max_steal_failures g then
            bindP (signal_node_should_wait (wk_signal_node x)) (\<lambda>wait.
              if wait then ret SCHEDULE_WAIT
              else result [st_wk w (wk_steal_failure_count_update (\<lambda>_. 0))] (ret SCHEDULE_RUN))
          else ret SCHEDULE_RUN)
       else bindP (if wk_type x = WORKER_SYSTEM then signal_node_should_wait (wk_signal_node x) else ret False) (\<lambda>wait.
         if wait then ret SCHEDULE_WAIT
         else result [whenP (g_P g = 1 \<and> wk_steal_failure_count x > g_max_steal_failures g \<and> g_io_mode g = IO_MODE_NORMAL)
           (block [
             CILK_ASSERT ''w->l->suspended_deques.size + w->l->resumable_deques.size > 0''
               (dp_size (wk_suspended_deques x) + dp_size (wk_resumable_deques x) > 0),
             st_wk w (wk_steal_failure_count_update (\<lambda>_. 0))])]
          (ret SCHEDULE_RUN))))"

text \<open>The user interface that lets the workers rest between parallel regions (\<open>cilk-abi.c\<close>).\<close>

definition cilkrts_suspend :: "(rts, unit) prog" where
  "cilkrts_suspend = bindP (ld_g g_P) (\<lambda>p. bindP (gets r_tls) (\<lambda>w.
     whenP (p \<ge> 2 \<and> w \<noteq> NULL) (bindP (ld_wk wk_current_stack_frame w) (\<lambda>sf.
       whenP (sf \<noteq> NULL) (bindP (ld_sf sf_flags sf) (\<lambda>f.
         whenP (has_flag f CILK_FRAME_LAST \<and> \<not> has_flag f CILK_FRAME_UNSYNCHED)
           (bindP (worker_no 1) (\<lambda>root. bindP (ld_g g_max_steal_failures) (\<lambda>k. block [
             st_wk root (wk_steal_failure_count_update (\<lambda>_. k + 1)),
             bindP (ld_wk wk_signal_node root) (\<lambda>node. block [
               CILK_ASSERT ''root->l->signal_node'' (node \<noteq> NULL),
               signal_node_msg node 0])])))))))))"

definition cilkrts_resume_runtime :: "(rts, unit) prog" where
  "cilkrts_resume_runtime = bindP (ld_g g_P) (\<lambda>p. whenP (p \<ge> 2) (message_worker 1 1))"

end
