(* ===== verification/Steal.thy ===== *)
theory Steal
  imports Signal_Tree
begin

text \<open>
  The thief and the scheduling loop (\<open>scheduler.c\<close>): the choice of a victim and of one of its
  deques, the steal from an active or suspended deque, the jump to a resumable one, and the loop
  in which a worker without work looks for a full frame to run.
\<close>

section \<open>Choosing\<close>

text \<open>The deque at a cell of a pool; a pool that has lost its array or the cell is out of bounds.\<close>

definition choose_deque :: "ptr \<Rightarrow> ptr \<Rightarrow> (rts, ptr) prog" where
  "choose_deque w victim = result [
     bindP (ld_wk wk_lock victim) (\<lambda>m. CILK_ASSERT ''victim->l->lock.owner == w'' (mx_owner m = w))]
   (bindP (ld_pool dp_size (victim, RESUMABLE)) (\<lambda>n.
    bindP (if n > 0 then ret (RESUMABLE, n)
      else bindP (ld_pool dp_size (victim, SUSPENDED)) (\<lambda>k.
        if w = victim \<and> k > 0 then bindP (myrand w) (\<lambda>r. ret (SUSPENDED, unat r mod k + 1))
        else bindP (myrand w) (\<lambda>r. ret (SUSPENDED, unat r mod (k + 1))))) (\<lambda>(pool, index).
    result [
      bindP (ld_pool dp_size (victim, pool)) (\<lambda>k. whenP (w = victim \<and> k = 0) (block [
        bindP (ld_g (\<lambda>g. g_io_mode g \<noteq> IO_MODE_NORMAL \<or> g_P g > 1))
          (CILK_ASSERT ''w->g->io_mode != IO_MODE__NORMAL || w->g->P > 1''),
        bindP (read_cell (victim, pool) 0) (\<lambda>d. CILK_ASSERT ''pool->array[0] == NULL'' (d = NULL))]))]
    (if index \<noteq> 0 then read_cell (victim, pool) (index - 1) else ld_wk wk_active_deque victim))))"

definition choose_victim :: "ptr \<Rightarrow> (rts, int) prog" where
  "choose_victim w =
     bindP (ld_wk (\<lambda>x. dp_size (wk_suspended_deques x) + dp_size (wk_resumable_deques x)) w) (\<lambda>mine.
     bindP (ld_g (\<lambda>g. (g_P g, g_total_workers g, g_io_mode g))) (\<lambda>(p, total, mode).
       if p = 1 then result [
         CILK_ASSERT ''w->g->io_mode != IO_MODE__NORMAL || w->l->suspended_deques.size > 0''
           (mode \<noteq> IO_MODE_NORMAL \<or> mine > 0)] (ret 0)
       else if mine = 0 then
         bindP (myrand w) (\<lambda>r. bindP (ld_wk wk_self w) (\<lambda>self. ret (skip_self total self r)))
       else bindP (myrand w) (\<lambda>r. ret (any_worker total r))))"

section \<open>Resuming a suspended deque\<close>

definition jump_to_suspended_fiber :: "ptr \<Rightarrow> ptr \<Rightarrow> ptr \<Rightarrow> (rts, unit) prog" where
  "jump_to_suspended_fiber w victim d = block [
     bindP (ld_dq dq_worker d) (\<lambda>v. CILK_ASSERT ''d->worker == victim'' (v = victim)),
     bindP (ld_dq dq_fiber d) (\<lambda>f. CILK_ASSERT ''d->fiber'' (f \<noteq> NULL)),
     bindP (ld_dq dq_resumable d) (\<lambda>r. CILK_ASSERT ''d->resumable == 1'' (r = 1)),
     bindP (ld_dq dq_call_stack d) (\<lambda>c. CILK_ASSERT ''d->call_stack'' (c \<noteq> NULL)),
     bindP (ld_dq dq_fiber d) (\<lambda>fiber. block [
       deque_mug w d,
       on_worker_lock victim (cilkrts_mutex_unlock w),
       wait_while (bindP (ld_dq dq_fiber d) (\<lambda>f. bindP (cilk_fiber_is_resumable f) (\<lambda>r. ret (\<not> r)))),
       st_dq d (dq_fiber_update (\<lambda>_. NULL)),
       st_dq d (dq_resumable_update (\<lambda>_. 0)),
       bindP (ld_wk wk_active_deque w) (\<lambda>old_deque. block [
         with_worker_lock w [
           st_wk w (wk_active_deque_update (\<lambda>_. d)),
           deque_switch w d],
         deque_destroy old_deque]),
       bindP (current_ff w) (\<lambda>ff. CILK_ASSERT ''*w->l->frame_ff'' (ff \<noteq> NULL)),
       cilk_fiber_take fiber,
       bindP (ld_fb fb_resume_sf fiber) (\<lambda>sf. CILK_ASSERT ''!data->resume_sf'' (sf = NULL)),
       st_fb fiber (fb_owner_update (\<lambda>_. w)),
       st_wk w (wk_steal_failure_count_update (\<lambda>_. 0)),
       bindP (ld_wk wk_scheduling_fiber w) (\<lambda>sched. cilk_fiber_suspend_self_and_resume_other sched fiber)])]"

section \<open>The random steal\<close>

text \<open>Whether the thief has jumped away, or the fiber it holds and whether it has stolen a frame.\<close>

datatype steal_outcome = Jumped | Tried ptr bool

text \<open>The attempt with a fiber at hand, on a deque that looked as if something could be stolen.\<close>

definition steal_with_fiber :: "ptr \<Rightarrow> ptr \<Rightarrow> ptr \<Rightarrow> ptr \<Rightarrow> (rts, bool) prog" where
  "steal_with_fiber w victim d fiber =
     bindP (ld_wk wk_type w) (\<lambda>ty. bindP (ld_dq dq_team d) (\<lambda>team. bindP (ld_dq dq_frame_ff d) (\<lambda>ff.
       if ty = WORKER_USER \<and> team \<noteq> w then ret False
       else if ff \<noteq> NULL then
         bindP (dekker_protocol d) (\<lambda>ok.
           if ok then result [
             bindP cilkg_increment_active_workers (\<lambda>_. ret ()),
             detach_for_steal w victim d fiber] (ret True)
           else ret False)
       else ret False)))"

definition steal_from_deque :: "ptr \<Rightarrow> ptr \<Rightarrow> ptr \<Rightarrow> (rts, steal_outcome) prog" where
  "steal_from_deque w victim d =
     bindP (ld_wk wk_active_deque victim) (\<lambda>active.
     bindP (ld_wk wk_active_deque w) (\<lambda>own.
     bindP (if d \<noteq> active then ld_dq (\<lambda>x. dq_resumable x \<noteq> 0) d else ret False) (\<lambda>resumable.
       if resumable then result [jump_to_suspended_fiber w victim d] (ret Jumped)
       else if own = NULL then ret (Tried NULL False)
       else bindP (can_steal_from d) (\<lambda>ok.
         if \<not> ok then result [whenP (d \<noteq> active) (block [
             deque_mug w d,
             bindP (ld_dq dq_resumable d) (\<lambda>r. CILK_ASSERT ''!d->resumable'' (r = 0))])]
           (ret (Tried NULL False))
         else bindP (cilk_fiber_allocate w) (\<lambda>fiber.
           if fiber = NULL then ret (Tried NULL False)
           else bindP (steal_with_fiber w victim d fiber) (\<lambda>success. ret (Tried fiber success)))))))"

definition release_fiber :: "ptr \<Rightarrow> ptr \<Rightarrow> (rts, unit) prog" where
  "release_fiber w fiber = bindP (cilk_fiber_remove_reference fiber w) (\<lambda>n. CILK_ASSERT ''0 == ref_count'' (n = 0))"

text \<open>The code after the label \<open>done\<close>.\<close>

definition finish_steal :: "ptr \<Rightarrow> ptr \<Rightarrow> ptr \<Rightarrow> bool \<Rightarrow> (rts, unit) prog" where
  "finish_steal w victim fiber success = block [
     bindP (ld_wk wk_lock victim) (\<lambda>m. whenP (mx_owner m = w) (worker_unlock_other w victim)),
     st_wk w (wk_work_stolen_update (\<lambda>_. success)),
     if \<not> success then whenP (fiber \<noteq> NULL) (release_fiber w fiber)
     else bindP (ld_wk wk_next_frame_ff w) (\<lambda>ff. bindP (ld_ff ff_call_stack ff) (\<lambda>cs. bindP (ld_sf sf_flags cs) (\<lambda>f.
       if has_flag f CILK_FRAME_FUTURE_PARENT then block [
         release_fiber w fiber,
         bindP (ld_ff ff_fiber_self ff) (\<lambda>fb. block [
           CILK_ASSERT ''w->l->next_frame_ff->fiber_self'' (fb \<noteq> NULL),
           cilk_fiber_take fb])]
       else block [cilk_fiber_take fiber, cilk_fiber_reset_state fiber])))]"

definition random_steal :: "ptr \<Rightarrow> (rts, unit) prog" where
  "random_steal w = block [
     st_wk w (wk_work_stolen_update (\<lambda>_. False)),
     bindP (ld_g g_stealing_disabled) (\<lambda>disabled. whenP (\<not> disabled) (block [
       bindP (ld_wk id w) (\<lambda>x.
       bindP (if wk_type x = WORKER_SYSTEM \<or> wk_active_deque x = NULL then ret True
              else ld_dq (\<lambda>d. dq_team d = w) (wk_active_deque x)) (\<lambda>b.
         CILK_ASSERT ''w->l->type == WORKER_SYSTEM || w->l->active_deque == NULL || ...''
           (b \<or> dp_size (wk_suspended_deques x) + dp_size (wk_resumable_deques x) > 0))),
       bindP (choose_victim w) (\<lambda>n.
       bindP (worker_no n) (\<lambda>victim.
       bindP (on_worker_lock victim (cilkrts_mutex_trylock w)) (\<lambda>locked.
       bindP (if \<not> locked then ret (Tried NULL False)
         else bindP (choose_deque w victim) (\<lambda>d.
           if d = NULL then ret (Tried NULL False) else steal_from_deque w victim d)) (\<lambda>outcome.
         case outcome of Jumped \<Rightarrow> ret () | Tried fiber success \<Rightarrow> finish_steal w victim fiber success))))]))]"

section \<open>Looking for work\<close>

definition check_for_work :: "ptr \<Rightarrow> (rts, ptr) prog" where
  "check_for_work w =
     bindP (pop_next_frame w) (\<lambda>ff.
       if ff \<noteq> NULL then ret ff
       else result [
         bindP (ld_wk id w) (\<lambda>x.
         bindP (if wk_type x \<noteq> WORKER_USER \<and> wk_active_deque x \<noteq> NULL
             then ld_dq (\<lambda>d. dq_team d \<noteq> NULL) (wk_active_deque x) else ret False) (\<lambda>leave_team.
           whenP leave_team (block [
             cilkrts_worker_lock w,
             bindP (ld_wk wk_active_deque w) (\<lambda>d. st_dq d (dq_team_update (\<lambda>_. NULL))),
             cilkrts_worker_unlock w]))),
         bindP (ld_wk wk_the w) (\<lambda>d. bindP (if d = NULL then ret NULL else ld_dq dq_frame_ff d) (\<lambda>ff.
           CILK_ASSERT ''NULL == w->l->frame_ff || NULL == *w->l->frame_ff'' (ff = NULL))),
         random_steal w]
        (bindP (pop_next_frame w) (\<lambda>ff.
          result [
            if ff = NULL then bindP (ld_wk wk_steal_failure_count w) (\<lambda>n. block [
              whenP (n > 30000) (st_wk w (wk_steal_failure_count_update (\<lambda>k. k - 300))),
              st_wk w (wk_steal_failure_count_update (\<lambda>k. k + 1))])
            else st_wk w (wk_steal_failure_count_update (\<lambda>_. 0))]
          (ret ff))))"

text \<open>The search has no bound of its own; \<open>n\<close> is the number of rounds it is given.\<close>

definition search_round :: "ptr \<Rightarrow> (rts, unit + ptr) prog" where
  "search_round w = bindP (worker_runnable w) (\<lambda>r. case r of
     SCHEDULE_RUN \<Rightarrow> bindP (check_for_work w) (\<lambda>ff. ret (if ff = NULL then Inl () else Inr ff))
   | SCHEDULE_WAIT \<Rightarrow> result [
       bindP (ld_wk wk_type w) (\<lambda>ty. CILK_ASSERT ''WORKER_SYSTEM == w->l->type'' (ty = WORKER_SYSTEM)),
       bindP (ld_wk wk_next_frame_ff w) (\<lambda>ff. CILK_ASSERT ''NULL == w->l->next_frame_ff'' (ff = NULL)),
       notify_children_wait w,
       bindP (ld_wk wk_signal_node w) signal_node_wait,
       notify_children_run w,
       st_wk w (wk_steal_failure_count_update (\<lambda>_. 0))] (ret (Inl ()))
   | SCHEDULE_EXIT \<Rightarrow> result [
       bindP (ld_wk wk_type w) (\<lambda>ty. CILK_ASSERT ''WORKER_USER != w->l->type'' (ty \<noteq> WORKER_USER))]
       (ret (Inr NULL)))"

definition search_until_work_found_or_done :: "nat \<Rightarrow> ptr \<Rightarrow> (rts, ptr) prog" where
  "search_until_work_found_or_done n w = loopP n (\<lambda>_. search_round w) ()"

definition no_full_frame :: "ptr \<Rightarrow> (rts, bool) prog" where
  "no_full_frame w = bindP (ld_wk wk_the w) (\<lambda>d.
     if d = NULL then ret True else ld_dq (\<lambda>x. dq_frame_ff x = NULL) d)"

text \<open>Taking the frame over, under its lock and the worker's.\<close>

definition claim_frame :: "ptr \<Rightarrow> ptr \<Rightarrow> (rts, ptr) prog" where
  "claim_frame w ff = result [
     cilkrts_worker_lock w,
     bindP (current_ff w) (\<lambda>c. CILK_ASSERT ''!*w->l->frame_ff'' (c = NULL)),
     cilkrts_frame_lock w ff]
   (bindP (ld_ff ff_call_stack ff) (\<lambda>sf. result [
     bindP (if sf = NULL then ret False else ld_sf (\<lambda>x. sf_call_parent x = NULL) sf)
       (CILK_ASSERT ''sf && !sf->call_parent''),
     setup_for_execution w ff False,
     cilkrts_frame_unlock w ff,
     cilkrts_worker_unlock w] (ret sf)))"

text \<open>Making the user fiber ready to be switched to.\<close>

definition prepare_switch :: "ptr \<Rightarrow> ptr \<Rightarrow> ptr \<Rightarrow> ptr \<Rightarrow> (rts, ptr) prog" where
  "prepare_switch current_fiber w ff sf = result [
     scheduling_fiber_prepare_to_resume_user_code w ff sf]
   (bindP (current_ff w) (\<lambda>c. result [CILK_ASSERT ''*w->l->frame_ff'' (c \<noteq> NULL)]
     (bindP (ld_ff ff_fiber_self c) (\<lambda>other. result [
       bindP (ld_fb fb_resume_sf other) (\<lambda>r. CILK_ASSERT ''NULL == other_data->resume_sf'' (r = NULL)),
       st_fb current_fiber (fb_resume_sf_update (\<lambda>_. NULL)),
       bindP (ld_fb fb_owner current_fiber) (\<lambda>v. CILK_ASSERT ''current_fiber_data->owner == w'' (v = w)),
       bindP (ld_sf sf_flags sf) (\<lambda>f. whenP (\<not> has_flag f CILK_FRAME_FUTURE_PARENT)
         (st_fb other (fb_resume_sf_update (\<lambda>_. sf))))]
      (ret other)))))"

text \<open>The fiber to switch to, or NULL.\<close>

definition worker_scheduling_loop_body :: "nat \<Rightarrow> ptr \<Rightarrow> ptr \<Rightarrow> (rts, ptr) prog" where
  "worker_scheduling_loop_body n current_fiber w = result [
     bindP (ld_wk wk_scheduling_fiber w) (\<lambda>f.
       CILK_ASSERT ''current_fiber == w->l->scheduling_fiber'' (current_fiber = f)),
     bindP (gets r_tls) (\<lambda>v. CILK_ASSERT ''w == __cilkrts_get_tls_worker()'' (w = v)),
     bindP (no_full_frame w) (CILK_ASSERT ''NULL == w->l->frame_ff || NULL == *w->l->frame_ff'')]
   (bindP (pop_next_frame w) (\<lambda>ff.
    bindP (if ff \<noteq> NULL then ret ff else search_until_work_found_or_done n w) (\<lambda>ff.
    if ff = NULL then result [bindP (ld_g g_work_done) (CILK_ASSERT ''w->g->work_done'')] (ret NULL)
    else result [cilkbug_assert_no_uncaught_exception]
      (bindP (claim_frame w ff) (prepare_switch current_fiber w ff)))))"

definition worker_scheduler_init_function :: "ptr \<Rightarrow> (rts, unit) prog" where
  "worker_scheduler_init_function w = block [
     bindP (ld_wk wk_self w) (\<lambda>self. mysrand w (word_of_int (self + 1))),
     bindP (ld_wk wk_type w) (\<lambda>ty. case ty of
       WORKER_USER \<Rightarrow> ret ()
     | WORKER_SYSTEM \<Rightarrow> block [
         bindP (ld_wk wk_signal_node w) signal_node_wait,
         notify_children_run w,
         st_wk w (wk_steal_failure_count_update (\<lambda>_. 0))]
     | _ \<Rightarrow> cilkrts_bug ''Unknown worker %p of type %d entering scheduling loop'')]"

definition worker_scheduler_terminate_function :: "ptr \<Rightarrow> (rts, unit) prog" where
  "worker_scheduler_terminate_function w =
     bindP (ld_wk wk_type w) (\<lambda>ty. CILK_ASSERT ''WORKER_USER != w->l->type'' (ty \<noteq> WORKER_USER))"

end
