(* ===== verification/Cilk_For.thy ===== *)
theory Cilk_For
  imports Pedigree
begin

text \<open>
  The parallel loop (\<open>cilk-abi-cilk-for.cpp\<close>): the choice of the grain size and the recursion that
  halves the range until a piece is no larger than a grain. The counter is an unsigned word, 32 bits
  for \<open>__cilkrts_cilk_for_32\<close> and 64 bits for \<open>__cilkrts_cilk_for_64\<close>, and wraps as it does in C++. A
  spawn is run where it stands, as in the serial elision, so the pieces appear in the order of the
  serial loop; \<open>Pedigree\<close> shows that stealing does not rename the strands.
\<close>

section \<open>The loop\<close>

definition grainsize :: "int \<Rightarrow> 'a::len word \<Rightarrow> int \<Rightarrow> bool \<Rightarrow> int" where
  "grainsize req count P under_ptool =
     (if req > 0 then req
      else if count < 1 then 1
      else if under_ptool then 1
      else let Px8 = word_of_int (P * 8); n = (count + Px8 - 1) div Px8
           in if n > 2048 then 2048 else uint n)"

text \<open>The calls of the loop body, in order. \<open>None\<close> is a recursion that never ends.\<close>

partial_function (option) cilk_for_recursive ::
  "'a::len word \<Rightarrow> 'a word \<Rightarrow> 'a word \<Rightarrow> ('a word \<times> 'a word) list option"
where
  "cilk_for_recursive low high grain =
     (let count = high - low in
      if count > grain then
        (let mid = low + count div 2 in
         Option.bind (cilk_for_recursive low mid grain) (\<lambda>xs.
         Option.bind (cilk_for_recursive mid high grain) (\<lambda>ys. Some (xs @ ys))))
      else Some [(low, high)])"

text \<open>
  The pedigree. The rank goes up when the function that does nothing comes back from its spawn, and that is the root of
  the loop; the code that would undo it is commented out. After the loop the root is restored and its rank
  bumped, and the sync at the end of the function, which the compiler adds, bumps it again. The pedigree inside of a piece that
  starts at \<open>low\<close> is flat: its own rank, then the rank of the leaf, then the root.
\<close>

definition leaf_rank :: "'a::len word \<Rightarrow> 64 word" where
  "leaf_rank low = ucast low + 1"

definition bump_rank :: "pedigree \<Rightarrow> pedigree" where
  "bump_rank p = p\<lparr>ped_rank := ped_rank p + 1\<rparr>"

definition loop_root_pedigree :: "pedigree \<Rightarrow> pedigree" where
  "loop_root_pedigree p = bump_rank p"

definition implicit_sync :: "pedigree \<Rightarrow> pedigree" where
  "implicit_sync p = bump_rank p"

definition cilk_for_root ::
  "'a::len word \<Rightarrow> int \<Rightarrow> int \<Rightarrow> bool \<Rightarrow> pedigree \<Rightarrow> (('a word \<times> 'a word) list \<times> pedigree) option"
where
  "cilk_for_root count grain P under_ptool p =
     (let root = loop_root_pedigree p; gs = grainsize grain count P under_ptool in
      Option.bind (cilk_for_recursive 0 count (word_of_int gs)) (\<lambda>calls.
        Some (calls, implicit_sync (bump_rank root))))"

definition cilkrts_cilk_for ::
  "'a::len word \<Rightarrow> int \<Rightarrow> int \<Rightarrow> bool \<Rightarrow> pedigree \<Rightarrow> (('a word \<times> 'a word) list \<times> pedigree) option"
where
  "cilkrts_cilk_for count grain P under_ptool p =
     (if count > 0 then cilk_for_root count grain P under_ptool p else Some ([], p))"

definition cilkrts_cilk_for_32 ::
  "32 word \<Rightarrow> int \<Rightarrow> int \<Rightarrow> bool \<Rightarrow> pedigree \<Rightarrow> ((32 word \<times> 32 word) list \<times> pedigree) option"
where
  "cilkrts_cilk_for_32 = cilkrts_cilk_for"

definition cilkrts_cilk_for_64 ::
  "64 word \<Rightarrow> int \<Rightarrow> int \<Rightarrow> bool \<Rightarrow> pedigree \<Rightarrow> ((64 word \<times> 64 word) list \<times> pedigree) option"
where
  "cilkrts_cilk_for_64 = cilkrts_cilk_for"

section \<open>Every iteration once\<close>

definition iterations :: "('a::len word \<times> 'a word) list \<Rightarrow> nat list" where
  "iterations calls = concat (map (\<lambda>(a, b). [unat a ..< unat b]) calls)"

lemma uint_of_small: "0 \<le> x \<Longrightarrow> x < 2 ^ LENGTH('a) \<Longrightarrow> uint (word_of_int x :: 'a::len word) = x"
  by (simp add: uint_word_of_int)

lemma iterations_append: "iterations (xs @ ys) = iterations xs @ iterations ys"
  by (simp add: iterations_def)

lemma halves:
  fixes low high :: "'a::len word"
  assumes "low < high" "high - low > grain" "grain \<noteq> 0"
  defines "mid \<equiv> low + (high - low) div 2"
  shows "low < mid" "mid < high" "unat (mid - low) < unat (high - low)" "unat (high - mid) < unat (high - low)"
proof -
  let ?c = "unat (high - low)"
  have c: "?c = unat high - unat low" using assms(1) by (simp add: unat_sub word_less_nat_alt word_le_nat_alt)
  have "0 < unat grain" using assms(3) by (simp add: unat_gt_0)
  then have c2: "2 \<le> ?c" using assms(2) by (simp add: word_less_nat_alt)
  have half: "unat ((high - low) div 2) = ?c div 2"
  proof (cases "LENGTH('a) = 1")
    case True
    then have "?c < 2" using unsigned_less [of "high - low", where 'a = nat] by simp
    with c2 show ?thesis by simp
  next
    case False
    then have "1 < LENGTH('a)" using len_gt_0 [where 'a = 'a] by linarith
    then have "unat (2 :: 'a word) = 2"
      using power_increasing [of 2 "LENGTH('a)" "2 :: nat"]
      by (simp add: unsigned_numeral take_bit_nat_eq_self_iff)
    then show ?thesis by (simp add: unat_div)
  qed
  have "unat low \<le> unat high" using assms(1) by (simp add: word_less_nat_alt)
  then have "unat low + ?c div 2 \<le> unat high" unfolding c by linarith
  then have "unat low + ?c div 2 < 2 ^ LENGTH('a)"
    using unsigned_less [of high, where 'a = nat] by (rule le_less_trans)
  then have m: "unat mid = unat low + ?c div 2"
    unfolding mid_def using half by (simp add: unat_plus_if_size word_size)
  show "low < mid" using m c2 by (simp add: word_less_nat_alt)
  show h: "mid < high" using m c c2 assms(1) by (simp add: word_less_nat_alt)
  show "unat (mid - low) < ?c"
    using m c2 \<open>low < mid\<close> by (simp add: unat_sub word_less_nat_alt word_le_nat_alt)
  show "unat (high - mid) < ?c"
    using m c c2 h assms(1) by (simp add: unat_sub word_less_nat_alt word_le_nat_alt)
qed

lemma recursive_ok:
  fixes low high :: "'a::len word"
  assumes "low < high" "grain \<noteq> 0"
  shows "\<exists>cs. cilk_for_recursive low high grain = Some cs \<and> iterations cs = [unat low ..< unat high]
    \<and> (\<forall>(a, b) \<in> set cs. a < b \<and> b - a \<le> grain)"
  using assms(1)
proof (induction "unat (high - low)" arbitrary: low high rule: less_induct)
  case less
  show ?case
  proof (cases "high - low > grain")
    case True
    define mid where "mid = low + (high - low) div 2"
    note m = halves [OF less.prems True assms(2), folded mid_def]
    obtain xs ys where xs: "cilk_for_recursive low mid grain = Some xs"
        "iterations xs = [unat low ..< unat mid]" "\<forall>(a, b) \<in> set xs. a < b \<and> b - a \<le> grain"
      and ys: "cilk_for_recursive mid high grain = Some ys"
        "iterations ys = [unat mid ..< unat high]" "\<forall>(a, b) \<in> set ys. a < b \<and> b - a \<le> grain"
      using less.hyps [OF m(3,1)] less.hyps [OF m(4,2)] by blast
    have "cilk_for_recursive low high grain = Some (xs @ ys)"
      using True xs(1) ys(1) by (subst cilk_for_recursive.simps) (simp add: mid_def [symmetric] Let_def)
    moreover have "iterations (xs @ ys) = [unat low ..< unat high]"
      using m(1,2) upt_add_eq_append [of "unat low" "unat mid" "unat high - unat mid"]
      by (simp add: iterations_append xs(2) ys(2) word_less_nat_alt)
    ultimately show ?thesis using xs(3) ys(3) by auto
  next
    case False
    then have "cilk_for_recursive low high grain = Some [(low, high)]"
      by (subst cilk_for_recursive.simps) (simp add: Let_def)
    with False less.prems show ?thesis by (auto simp: iterations_def)
  qed
qed

text \<open>The grain size the runtime computes is at least 1 as long as the sum does not wrap.\<close>

lemma grainsize_pos:
  fixes count :: "'a::len word"
  assumes "32 \<le> LENGTH('a)" "0 < count" "0 < P" "uint count + 8 * P - 1 < 2 ^ LENGTH('a)" "req < 2 ^ 31"
  shows "1 \<le> grainsize req count P t" "grainsize req count P t < 2 ^ 31"
proof -
  let ?px = "word_of_int (P * 8) :: 'a word"
  have c: "1 \<le> uint count" using assms(2) by (simp add: word_less_def)
  have px: "uint ?px = P * 8" using assms(3,4) c
    by (subst unsigned_of_int) (simp add: take_bit_int_eq_self_iff)
  have s: "uint (count + ?px - 1) = uint count + P * 8 - 1"
  proof -
    have "count + ?px - 1 = word_of_int (uint count + P * 8 - 1)" by simp
    then show ?thesis using assms(3,4) c
      by (simp only:) (subst unsigned_of_int, simp add: take_bit_int_eq_self_iff)
  qed
  have d: "uint ((count + ?px - 1) div ?px) = (uint count + P * 8 - 1) div (P * 8)"
    unfolding uint_div s px ..
  have one: "1 \<le> (uint count + P * 8 - 1) div (P * 8)"
    using c assms(3) by (simp add: pos_imp_zdiv_pos_iff int_one_le_iff_zero_less)
  have n1: "count < 1 \<longleftrightarrow> False" using c by (simp add: word_less_def)
  show "1 \<le> grainsize req count P t"
    using one d n1 by (simp add: grainsize_def Let_def)
  have "n \<le> 2048 \<Longrightarrow> uint n \<le> 2048" for n :: "'a word"
  proof -
    assume "n \<le> 2048"
    moreover have "uint (2048 :: 'a word) \<le> 2048"
      by (simp add: unsigned_numeral take_bit_int_less_eq_self_iff)
    ultimately show "uint n \<le> 2048" by (simp add: word_le_def)
  qed
  then show "grainsize req count P t < 2 ^ 31"
    using assms(5) n1 by (force simp: grainsize_def Let_def not_less)
qed

text \<open>
  C37. A \<open>cilk_for\<close> loop of \<open>count\<close> iterations always ends, calls its body on pieces that are not empty
  and, put together in order, are every iteration from 0 to \<open>count - 1\<close> exactly once. The pieces are at most a grain long.
  It adds three to the rank of the pedigree, not the two that the comment in \<open>cilk_for_root\<close> promises. The one thing it
  needs is that the sum in \<open>grainsize\<close> does not wrap: \<open>count + 8 * P - 1\<close> fits into the word.
\<close>

theorem cilk_for_visits_each_once:
  fixes count :: "'a::len word"
  assumes "32 \<le> LENGTH('a)" "0 < P" "uint count + 8 * P - 1 < 2 ^ LENGTH('a)" "req < 2 ^ 31" "0 < count"
  shows "\<exists>calls. cilkrts_cilk_for count req P t p = Some (calls, p\<lparr>ped_rank := ped_rank p + 3\<rparr>)
    \<and> iterations calls = [0 ..< unat count]
    \<and> (\<forall>(a, b) \<in> set calls. a < b \<and> b - a \<le> word_of_int (grainsize req count P t))"
proof -
  let ?g = "word_of_int (grainsize req count P t) :: 'a word"
  note g = grainsize_pos [OF assms(1,5,2,3,4), of t]
  have "(2 :: int) ^ 31 \<le> 2 ^ LENGTH('a)" using assms(1) by (intro power_increasing) simp_all
  then have "uint ?g = grainsize req count P t"
    using g by (simp add: unsigned_of_int take_bit_int_eq_self_iff)
  then have "?g \<noteq> 0" using g(1) by (intro notI) simp
  from recursive_ok [OF assms(5) this] obtain cs where
    "cilk_for_recursive 0 count ?g = Some cs" "iterations cs = [0 ..< unat count]"
    "\<forall>(a, b) \<in> set cs. a < b \<and> b - a \<le> ?g" by auto
  with assms(5) show ?thesis
    by (simp add: cilkrts_cilk_for_def cilk_for_root_def loop_root_pedigree_def implicit_sync_def bump_rank_def Let_def add.assoc)
qed

section \<open>Where the sum wraps\<close>

lemma recursive_zero:
  "cilk_for_recursive low high grain = Some cs \<Longrightarrow> grain = 0 \<longrightarrow> high = low"
proof (rule cilk_for_recursive.raw_induct [where P = "\<lambda>low high grain cs. grain = 0 \<longrightarrow> high = low"])
  fix rec :: "'b::len word \<Rightarrow> 'b word \<Rightarrow> 'b word \<Rightarrow> ('b word \<times> 'b word) list option" and low high grain cs
  assume IH: "\<And>low high grain y. rec low high grain = Some y \<Longrightarrow> grain = 0 \<longrightarrow> high = low"
    and r: "(let count = high - low in
      if count > grain then
        (let mid = low + count div 2 in
         Option.bind (rec low mid grain) (\<lambda>xs. Option.bind (rec mid high grain) (\<lambda>ys. Some (xs @ ys))))
      else Some [(low, high)]) = Some cs"
  show "grain = 0 \<longrightarrow> high = low"
  proof (intro impI, rule ccontr)
    assume g: "grain = 0" and "high \<noteq> low"
    then have "high - low > grain" by (simp add: word_gt_0)
    then obtain xs ys where "rec low (low + (high - low) div 2) grain = Some xs"
      "rec (low + (high - low) div 2) high grain = Some ys"
      using r by (auto simp: Let_def split: Option.bind_splits)
    from IH [OF this(1)] IH [OF this(2)] g \<open>high \<noteq> low\<close> show False by simp
  qed
qed

lemma grainsize_wraps:
  fixes count :: "'a::len word"
  assumes "1 \<le> uint count" "0 < P" "8 * P < 2 ^ LENGTH('a)" "2 ^ LENGTH('a) \<le> uint count + 8 * P - 1" "req \<le> 0"
  shows "grainsize req count P False = 0"
proof -
  let ?px = "word_of_int (P * 8) :: 'a word"
  have px: "uint ?px = P * 8" using assms(2,3)
    by (subst unsigned_of_int) (simp add: take_bit_int_eq_self_iff)
  have lt: "uint count < 2 ^ LENGTH('a)" using unsigned_less [of count, where 'a = int] .
  have "count + ?px - 1 = word_of_int (uint count + P * 8 - 1)" by simp
  also have "\<dots> = word_of_int (uint count + P * 8 - 1 - 2 ^ LENGTH('a))"
    by (simp add: word_of_int_eq_iff take_bit_eq_mod)
  finally have e: "count + ?px - 1 = word_of_int (uint count + P * 8 - 1 - 2 ^ LENGTH('a))" .
  have "uint count + P * 8 - 1 - 2 ^ LENGTH('a) < 2 ^ LENGTH('a)" using assms(3) lt by linarith
  then have "uint (count + ?px - 1) = uint count + P * 8 - 1 - 2 ^ LENGTH('a)"
    using assms(4) unfolding e by (intro uint_of_small) simp_all
  then have "uint ((count + ?px - 1) div ?px) = (uint count + P * 8 - 1 - 2 ^ LENGTH('a)) div (P * 8)"
    unfolding uint_div px by simp
  also have "\<dots> = 0" using assms(4) lt by (intro div_pos_pos_trivial) linarith+
  finally have "(count + ?px - 1) div ?px = 0" by (simp only: unsigned_eq_0_iff)
  then show ?thesis using assms(1,5) by (simp add: grainsize_def Let_def word_less_def)
qed

text \<open>
  C38. A loop whose count is so large that \<open>count + 8 * P - 1\<close> wraps gets a grain size of 0 from the
  runtime, in spite of the comment that a zero grain size is avoided, and the recursion that halves
  the range then never ends.
\<close>

theorem cilk_for_never_ends_when_sum_wraps:
  fixes count :: "32 word"
  assumes "0 < count" "0 < P" "8 * P < 2 ^ 31" "2 ^ 32 \<le> uint count + 8 * P - 1" "req \<le> 0"
  shows "grainsize req count P False = 0 \<and> cilkrts_cilk_for_32 count req P False p = None"
proof (intro conjI)
  show z: "grainsize req count P False = 0"
    using assms by (intro grainsize_wraps) (simp_all add: word_less_def)
  have "cilk_for_recursive 0 count 0 = None"
    using recursive_zero [of 0 count 0] assms(1) by (cases "cilk_for_recursive 0 count 0") auto
  then show "cilkrts_cilk_for_32 count req P False p = None"
    using assms(1) by (simp add: cilkrts_cilk_for_32_def cilkrts_cilk_for_def cilk_for_root_def z)
qed

theorem cilk_for_never_ends_when_sum_wraps_witness:
  "cilkrts_cilk_for_32 (0xFFFFFFFF) 0 2 False \<lparr>ped_rank = 0, ped_parent = PNULL\<rparr> = None"
  by (rule cilk_for_never_ends_when_sum_wraps [THEN conjunct2]) simp_all

theorem cilk_for_visits_each_once_witness:
  "\<exists>calls. cilkrts_cilk_for (100 :: 32 word) 0 2 False \<lparr>ped_rank = 5, ped_parent = PNULL\<rparr>
      = Some (calls, \<lparr>ped_rank = 8, ped_parent = PNULL\<rparr>) \<and> iterations calls = [0 ..< 100]"
  using cilk_for_visits_each_once [where count = "100 :: 32 word" and P = 2 and req = 0 and t = False
      and p = "\<lparr>ped_rank = 5, ped_parent = PNULL\<rparr>"]
  by (simp add: word_less_def) blast

end
