(* ===== verification/THE_Protocol.thy ===== *)
theory THE_Protocol
  imports Prelude
begin

text \<open>
  The THE protocol: a worker that spawns and returns, and any number of thieves, on one deque at the
  same time. Every access of the head, the tail, the exception pointer, the protected tail and the
  slots in \<open>__cilkrts_detach\<close>, \<open>__cilkrts_undo_detach\<close> (\<open>cilk-abi.c\<close>), \<open>__cilkrts_c_THE_exception_check\<close>
  (\<open>scheduler.c\<close>), \<open>dekker_protocol\<close> and \<open>detach_for_steal\<close> (\<open>deque.c\<close>) is one step, and the steps
  interleave freely; the fences of the code make memory sequentially consistent here. The lock of the
  worker is one step to take and one to give back: \<open>Mutex\<close> and \<open>Steal_Lock\<close> have it in detail.
\<close>

section \<open>The machine\<close>

text \<open>
  The worker: \<open>O_written\<close> has stored the parent in its slot, \<open>O_undone\<close> has decremented the tail and
  still has to compare it with the exception pointer, \<open>O_wait\<close> wants the lock, \<open>O_reset\<close> has it,
  \<open>O_decide\<close> has reset the exception pointer, \<open>O_leave\<close> has the lock to give back.
\<close>

datatype worker_pc = O_run | O_written | O_undone | O_wait | O_reset | O_decide | O_leave

text \<open>
  A thief: \<open>T_in\<close> has the lock, \<open>T_raised\<close> has incremented the exception pointer, \<open>T_below\<close> has found
  the head below the tail, \<open>T_sure\<close> below the protected tail too, \<open>T_give_up\<close> has not, \<open>T_took\<close> has
  moved the head, \<open>T_done\<close> has the lock to give back.
\<close>

datatype steal_pc = T_away | T_in | T_raised | T_below | T_sure | T_give_up | T_took | T_done

datatype lock_holder = Nobody | The_worker | Thief nat

text \<open>
  What happens to the deque: a parent is pushed, the worker returns to it, a thief takes it, or the
  worker learns that its parent is gone.
\<close>

datatype event = Pushed ptr | Popped ptr | Stolen ptr | Orphaned

record the_conf =
  th_head :: int
  th_tail :: int
  th_exc :: int
  th_protected :: int
  th_limit :: int
  th_ltq :: "int \<Rightarrow> ptr"
  th_lock :: lock_holder
  th_worker :: worker_pc
  th_thief :: "nat \<Rightarrow> steal_pc"
  th_log :: "event list"

definition happen :: "event \<Rightarrow> the_conf \<Rightarrow> the_conf" where
  "happen e c = c\<lparr>th_log := th_log c @ [e]\<rparr>"

definition thief_at :: "nat \<Rightarrow> steal_pc \<Rightarrow> the_conf \<Rightarrow> the_conf" where
  "thief_at i p c = c\<lparr>th_thief := (th_thief c)(i := p)\<rparr>"

inductive worker_step :: "the_conf \<Rightarrow> the_conf \<Rightarrow> bool" where
  w_write: "th_worker c = O_run \<Longrightarrow> th_tail c < th_limit c \<Longrightarrow>
     worker_step c (c\<lparr>th_ltq := (th_ltq c)(th_tail c := parent), th_worker := O_written\<rparr>)"
| w_push: "th_worker c = O_written \<Longrightarrow>
     worker_step c (happen (Pushed (th_ltq c (th_tail c))) (c\<lparr>th_tail := th_tail c + 1, th_worker := O_run\<rparr>))"
| w_undo: "th_worker c = O_run \<Longrightarrow>
     worker_step c (c\<lparr>th_tail := th_tail c - 1, th_worker := O_undone\<rparr>)"
| w_fast: "th_worker c = O_undone \<Longrightarrow> \<not> th_tail c < th_exc c \<Longrightarrow>
     worker_step c (happen (Popped (th_ltq c (th_tail c))) (c\<lparr>th_worker := O_run\<rparr>))"
| w_slow: "th_worker c = O_undone \<Longrightarrow> th_tail c < th_exc c \<Longrightarrow>
     worker_step c (c\<lparr>th_worker := O_wait\<rparr>)"
| w_protect: "th_worker c = O_run \<Longrightarrow> worker_step c (c\<lparr>th_protected := p\<rparr>)"

text \<open> The check with the lock of the worker held. \<close>

inductive check_step :: "the_conf \<Rightarrow> the_conf \<Rightarrow> bool" where
  w_lock: "th_worker c = O_wait \<Longrightarrow> th_lock c = Nobody \<Longrightarrow>
     check_step c (c\<lparr>th_lock := The_worker, th_worker := O_reset\<rparr>)"
| w_reset: "th_worker c = O_reset \<Longrightarrow>
     check_step c (c\<lparr>th_exc := th_head c, th_worker := O_decide\<rparr>)"
| w_keep: "th_worker c = O_decide \<Longrightarrow> th_head c < th_tail c + 1 \<Longrightarrow>
     check_step c (happen (Popped (th_ltq c (th_tail c))) (c\<lparr>th_worker := O_leave\<rparr>))"
| w_orphan: "th_worker c = O_decide \<Longrightarrow> \<not> th_head c < th_tail c + 1 \<Longrightarrow>
     check_step c (happen Orphaned (c\<lparr>th_tail := th_tail c + 1, th_worker := O_leave\<rparr>))"
| w_unlock: "th_worker c = O_leave \<Longrightarrow>
     check_step c (c\<lparr>th_lock := Nobody, th_worker := O_run\<rparr>)"

inductive steal_step :: "nat \<Rightarrow> the_conf \<Rightarrow> the_conf \<Rightarrow> bool" for i where
  s_lock: "th_thief c i = T_away \<Longrightarrow> th_lock c = Nobody \<Longrightarrow>
     steal_step i c (thief_at i T_in (c\<lparr>th_lock := Thief i\<rparr>))"
| s_raise: "th_thief c i = T_in \<Longrightarrow>
     steal_step i c (thief_at i T_raised (c\<lparr>th_exc := th_exc c + 1\<rparr>))"
| s_below: "th_thief c i = T_raised \<Longrightarrow> th_head c < th_tail c \<Longrightarrow>
     steal_step i c (thief_at i T_below c)"
| s_empty: "th_thief c i = T_raised \<Longrightarrow> \<not> th_head c < th_tail c \<Longrightarrow>
     steal_step i c (thief_at i T_give_up c)"
| s_sure: "th_thief c i = T_below \<Longrightarrow> th_head c < th_protected c \<Longrightarrow>
     steal_step i c (thief_at i T_sure c)"
| s_protected: "th_thief c i = T_below \<Longrightarrow> \<not> th_head c < th_protected c \<Longrightarrow>
     steal_step i c (thief_at i T_give_up c)"
| s_lower: "th_thief c i = T_give_up \<Longrightarrow>
     steal_step i c (thief_at i T_done (c\<lparr>th_exc := th_exc c - 1\<rparr>))"
| s_take: "th_thief c i = T_sure \<Longrightarrow>
     steal_step i c (thief_at i T_took (c\<lparr>th_head := th_head c + 1\<rparr>))"
| s_read: "th_thief c i = T_took \<Longrightarrow>
     steal_step i c (thief_at i T_done (happen (Stolen (th_ltq c (th_head c - 1))) c))"
| s_unlock: "th_thief c i = T_done \<Longrightarrow>
     steal_step i c (thief_at i T_away (c\<lparr>th_lock := Nobody\<rparr>))"

definition the_step :: "the_conf \<Rightarrow> the_conf \<Rightarrow> bool" where
  "the_step c d \<longleftrightarrow> worker_step c d \<or> check_step c d \<or> (\<exists>i. steal_step i c d)"

definition the_start :: "the_conf \<Rightarrow> bool" where
  "the_start c \<longleftrightarrow> th_head c = th_tail c \<and> th_exc c = th_head c \<and> th_lock c = Nobody
     \<and> th_worker c = O_run \<and> th_thief c = (\<lambda>_. T_away) \<and> th_log c = []"

section \<open>What the deque promises\<close>

text \<open>
  A deque that is only used by one party at a time: the parents in the order in which they were pushed.
  Replaying events on it fails where an event could not have happened.
\<close>

fun replay1 :: "event \<Rightarrow> ptr list \<Rightarrow> ptr list option" where
  "replay1 (Pushed f) q = Some (q @ [f])"
| "replay1 (Popped f) q = (if q \<noteq> [] \<and> last q = f then Some (butlast q) else None)"
| "replay1 (Stolen f) q = (if q \<noteq> [] \<and> hd q = f then Some (tl q) else None)"
| "replay1 Orphaned q = (if q = [] then Some [] else None)"

definition replay :: "event list \<Rightarrow> ptr list option" where
  "replay es = fold (\<lambda>e q. Option.bind q (replay1 e)) es (Some [])"

lemma replay_snoc: "replay (es @ [e]) = Option.bind (replay es) (replay1 e)"
  by (simp add: replay_def)

section \<open>The invariant\<close>

text \<open>
  The tail without the speculative decrement, and the head without a steal that has yet to read its
  slot; between them is what the deque holds.
\<close>

definition real_tail :: "the_conf \<Rightarrow> int" where
  "real_tail c = th_tail c + (if th_worker c \<in> {O_undone, O_wait, O_reset, O_decide} then 1 else 0)"

fun holder_in :: "steal_pc set \<Rightarrow> lock_holder \<Rightarrow> (nat \<Rightarrow> steal_pc) \<Rightarrow> int" where
  "holder_in P (Thief i) f = (if f i \<in> P then 1 else 0)"
| "holder_in P _ f = 0"

definition taken :: "the_conf \<Rightarrow> int" where
  "taken c = holder_in {T_took} (th_lock c) (th_thief c)"

definition raised :: "the_conf \<Rightarrow> int" where
  "raised c = holder_in {T_raised, T_below, T_sure, T_give_up} (th_lock c) (th_thief c)"

definition held :: "the_conf \<Rightarrow> ptr list" where
  "held c = map (th_ltq c) [th_head c - taken c .. real_tail c - 1]"

definition the_inv :: "the_conf \<Rightarrow> bool" where
  "the_inv c \<longleftrightarrow> (\<forall>i. th_thief c i \<noteq> T_away \<longleftrightarrow> th_lock c = Thief i)
     \<and> (th_worker c \<in> {O_reset, O_decide, O_leave} \<longleftrightarrow> th_lock c = The_worker)
     \<and> th_exc c = th_head c + raised c
     \<and> th_head c \<le> real_tail c
     \<and> (\<forall>i. th_thief c i \<in> {T_below, T_sure} \<longrightarrow> th_head c < real_tail c)
     \<and> replay (th_log c) = Some (held c)"

lemma the_invD:
  assumes "the_inv c"
  shows "th_thief c i \<noteq> T_away \<longleftrightarrow> th_lock c = Thief i" "th_worker c \<in> {O_reset, O_decide, O_leave} \<longleftrightarrow> th_lock c = The_worker"
    "th_exc c = th_head c + raised c" "th_head c \<le> real_tail c"
    "th_thief c i \<in> {T_below, T_sure} \<Longrightarrow> th_head c < real_tail c" "replay (th_log c) = Some (held c)"
  using assms unfolding the_inv_def by blast+

lemma upto_last: "i \<le> j \<Longrightarrow> map f [i .. j] = map f [i .. j - 1] @ [f j]"
  by (simp add: upto_rec2)

lemma upto_first: "i \<le> j \<Longrightarrow> map f [i .. j] = f i # map f [i + 1 .. j]"
  by (simp add: upto_rec1)

lemma map_upto_upd: "j < k \<Longrightarrow> map (f(k := x)) [i .. j] = map f [i .. j]"
  by simp

lemmas conf_defs = happen_def thief_at_def real_tail_def taken_def raised_def

lemma worker_step_inv:
  assumes "worker_step c d" "the_inv c"
  shows "the_inv d"
proof -
  note inv = the_invD [OF assms(2)]
  have locked: "taken c = 0" "raised c = 0" if "th_lock c = Nobody \<or> th_lock c = The_worker"
    using that by (auto simp: taken_def raised_def)
  have t01: "taken c \<in> {0, 1}" "raised c \<in> {0, 1}" "taken c = 1 \<longrightarrow> raised c = 0"
    by (cases "th_lock c"; auto simp: taken_def raised_def)+
  from assms(1) show ?thesis
  proof cases
    case (w_write parent)
    then have "held d = held c" by (simp add: held_def real_tail_def taken_def map_upto_upd)
    with w_write inv show ?thesis unfolding the_inv_def
      by (auto simp: real_tail_def raised_def)
  next
    case w_push
    have "held d = held c @ [th_ltq c (th_tail c)]"
      using w_push inv(4) t01 by (auto simp: held_def conf_defs upto_last)
    with w_push inv show ?thesis unfolding the_inv_def
      by (auto simp: conf_defs replay_snoc)
  next
    case w_undo
    then have "held d = held c" by (simp add: held_def real_tail_def taken_def)
    with w_undo inv show ?thesis unfolding the_inv_def by (auto simp: real_tail_def raised_def)
  next
    case w_fast
    have ge: "th_head c + raised c \<le> th_tail c" using w_fast inv(3) by simp
    have "held c = held d @ [th_ltq c (th_tail c)]"
      using w_fast ge t01 by (auto simp: held_def conf_defs upto_last)
    moreover have "raised d = raised c" "real_tail d = th_tail c" using w_fast by (simp_all add: conf_defs)
    moreover have "th_head c \<le> th_tail c" using ge t01 by auto
    moreover have "th_head c < th_tail c" if "th_thief c i \<in> {T_below, T_sure}" for i
      using that inv(1) [of i] ge by (auto simp: raised_def)
    ultimately show ?thesis using w_fast inv unfolding the_inv_def
      by (auto simp: happen_def replay_snoc)
  next
    case w_slow
    then have "held d = held c" by (simp add: held_def real_tail_def taken_def)
    with w_slow inv show ?thesis unfolding the_inv_def by (auto simp: real_tail_def raised_def)
  next
    case (w_protect p)
    then have "held d = held c" by (simp add: held_def real_tail_def taken_def)
    with w_protect inv show ?thesis unfolding the_inv_def by (auto simp: real_tail_def raised_def)
  qed
qed

lemma check_step_inv:
  assumes "check_step c d" "the_inv c"
  shows "the_inv d"
proof -
  note inv = the_invD [OF assms(2)]
  have locked: "taken c = 0" "raised c = 0" if "th_lock c = Nobody \<or> th_lock c = The_worker"
    using that by (auto simp: taken_def raised_def)
  have t01: "taken c \<in> {0, 1}" "raised c \<in> {0, 1}" "taken c = 1 \<longrightarrow> raised c = 0"
    by (cases "th_lock c"; auto simp: taken_def raised_def)+
  from assms(1) show ?thesis
  proof cases
    case w_lock
    with locked have "held d = held c" by (simp add: held_def real_tail_def taken_def)
    with w_lock inv locked show ?thesis unfolding the_inv_def by (auto simp: real_tail_def raised_def)
  next
    case w_reset
    then have "held d = held c" by (simp add: held_def real_tail_def taken_def)
    with w_reset inv show ?thesis unfolding the_inv_def by (auto simp: real_tail_def raised_def)
  next
    case w_keep
    with inv(2) locked have "held c = held d @ [th_ltq c (th_tail c)]"
      by (auto simp: held_def conf_defs upto_last)
    with w_keep inv show ?thesis unfolding the_inv_def
      by (auto simp: conf_defs replay_snoc)
  next
    case w_orphan
    with inv(2,4) locked have "held c = []" "held d = []"
      by (auto simp: held_def conf_defs)
    with w_orphan inv show ?thesis unfolding the_inv_def
      by (auto simp: conf_defs replay_snoc)
  next
    case w_unlock
    with inv(2) locked have "held d = held c" by (auto simp: held_def real_tail_def taken_def)
    with w_unlock inv locked show ?thesis unfolding the_inv_def by (auto simp: real_tail_def raised_def)
  qed
qed

lemma thief_keeps_inv:
  assumes c: "the_inv c" "th_lock c = Thief i"
    and d: "th_lock d = Thief i" "th_thief d = (th_thief c)(i := p)" "p \<noteq> T_away" "th_worker d = th_worker c"
    and e: "th_exc d = th_head d + (if p \<in> {T_raised, T_below, T_sure, T_give_up} then 1 else 0)"
      "th_head d \<le> real_tail d" "p \<in> {T_below, T_sure} \<longrightarrow> th_head d < real_tail d" "replay (th_log d) = Some (held d)"
  shows "the_inv d"
proof -
  have "th_thief c j = T_away" if "j \<noteq> i" for j using the_invD(1) [OF c(1), of j] c(2) that by auto
  then have away: "th_thief d j = (if j = i then p else T_away)" for j using d(2) by simp
  have "th_worker d \<notin> {O_reset, O_decide, O_leave}" using the_invD(2) [OF c(1)] c(2) d(4) by auto
  moreover have "raised d = (if p \<in> {T_raised, T_below, T_sure, T_give_up} then 1 else 0)"
    using away d(1) by (simp add: raised_def)
  ultimately show ?thesis using e away d(1,3) unfolding the_inv_def by simp
qed

lemma steal_step_inv:
  assumes "steal_step i c d" "the_inv c"
  shows "the_inv d"
proof -
  note inv = the_invD [OF assms(2)]
  have mine: "th_lock c = Thief i" if "th_thief c i \<noteq> T_away" using inv(1) [of i] that by simp
  have exc: "th_exc c = th_head c + (if th_thief c i \<in> {T_raised, T_below, T_sure, T_give_up} then 1 else 0)"
    if "th_thief c i \<noteq> T_away" using inv(3) mine [OF that] by (simp add: raised_def)
  from assms(1) show ?thesis
  proof cases
    case s_lock
    then have "held d = held c" by (simp add: held_def conf_defs)
    with s_lock inv show ?thesis unfolding the_inv_def by (auto simp: conf_defs)
  next
    case s_raise
    with mine have "held d = held c" by (simp add: held_def conf_defs)
    with s_raise inv(4,6) mine exc show ?thesis
      by (intro thief_keeps_inv [OF assms(2) mine, where p = T_raised]) (simp_all add: conf_defs)
  next
    case s_below
    with mine have "held d = held c" by (simp add: held_def conf_defs)
    with s_below inv(4,6) mine exc show ?thesis
      by (intro thief_keeps_inv [OF assms(2) mine, where p = T_below]) (simp_all add: conf_defs)
  next
    case s_empty
    with mine have "held d = held c" by (simp add: held_def conf_defs)
    with s_empty inv(4,6) mine exc show ?thesis
      by (intro thief_keeps_inv [OF assms(2) mine, where p = T_give_up]) (simp_all add: conf_defs)
  next
    case s_sure
    with mine have "held d = held c" by (simp add: held_def conf_defs)
    with s_sure inv(4,6) inv(5) [of i] mine exc show ?thesis
      by (intro thief_keeps_inv [OF assms(2) mine, where p = T_sure]) (simp_all add: conf_defs)
  next
    case s_protected
    with mine have "held d = held c" by (simp add: held_def conf_defs)
    with s_protected inv(4,6) mine exc show ?thesis
      by (intro thief_keeps_inv [OF assms(2) mine, where p = T_give_up]) (simp_all add: conf_defs)
  next
    case s_lower
    with mine have "held d = held c" by (simp add: held_def conf_defs)
    with s_lower inv(4,6) mine exc show ?thesis
      by (intro thief_keeps_inv [OF assms(2) mine, where p = T_done]) (simp_all add: conf_defs)
  next
    case s_take
    with mine have "held d = held c" by (simp add: held_def conf_defs)
    with s_take inv(4,6) inv(5) [of i] mine exc show ?thesis
      by (intro thief_keeps_inv [OF assms(2) mine, where p = T_took]) (simp_all add: conf_defs)
  next
    case s_read
    with mine inv(4) have "held c = th_ltq c (th_head c - 1) # held d"
      by (simp add: held_def conf_defs upto_first)
    with s_read inv(4,6) mine exc show ?thesis
      by (intro thief_keeps_inv [OF assms(2) mine, where p = T_done]) (simp_all add: conf_defs replay_snoc)
  next
    case s_unlock
    with mine have held: "held d = held c" and lock: "th_lock c = Thief i" by (simp_all add: held_def conf_defs)
    have "th_thief d j = T_away" for j using inv(1) [of j] lock s_unlock by (auto simp: thief_at_def)
    moreover have "th_worker c \<notin> {O_reset, O_decide, O_leave}" using inv(2) lock by auto
    ultimately show ?thesis using s_unlock inv(4,6) exc held unfolding the_inv_def by (simp add: conf_defs)
  qed
qed

interpretation the: stepping the_start the_step the_inv
proof
  fix c d :: the_conf
  assume "the_start c"
  then show "the_inv c"
    by (auto simp: the_start_def the_inv_def held_def conf_defs replay_def)
next
  fix c d :: the_conf
  assume "the_step c d" "the_inv c"
  then show "the_inv d"
    unfolding the_step_def using worker_step_inv check_step_inv steal_step_inv by blast
qed

text \<open>
  C1. Under every interleaving of the worker and its thieves the deque behaves as if each push, return
  and steal happened in one piece: a thief takes the oldest parent that is there, the worker returns to
  the youngest, no parent is taken twice or lost, and the worker is told that its parent is gone only
  when nothing is left.
\<close>

theorem the_deque_is_linearizable:
  assumes "the_start c" "the_step\<^sup>*\<^sup>* c d"
  shows "replay (th_log d) = Some (held d)"
  using the_invD(6) [OF the.inv_reachable [OF assms]] .

text \<open>
  A run: the worker pushes a parent, a thief steals it while the worker returns, the thief leaves and
  the worker learns that the parent is gone.
\<close>

definition the_at :: "int \<Rightarrow> int \<Rightarrow> int \<Rightarrow> lock_holder \<Rightarrow> worker_pc \<Rightarrow> steal_pc \<Rightarrow> event list \<Rightarrow> the_conf" where
  "the_at h t e lk w p es = \<lparr>th_head = h, th_tail = t, th_exc = e, th_protected = 8, th_limit = 8,
     th_ltq = (\<lambda>_. 7), th_lock = lk, th_worker = w, th_thief = (\<lambda>_. T_away)(3 := p), th_log = es\<rparr>"

lemma the_steps: "worker_step d e \<Longrightarrow> the_step\<^sup>*\<^sup>* d e" "check_step d e \<Longrightarrow> the_step\<^sup>*\<^sup>* d e"
    "steal_step i d e \<Longrightarrow> the_step\<^sup>*\<^sup>* d e"
  by (rule r_into_rtranclp, auto simp: the_step_def)+

lemma a_steal_while_returning:
  "the_step\<^sup>*\<^sup>* (the_at 0 0 0 Nobody O_run T_away []) (the_at 1 1 1 Nobody O_run T_away [Pushed 7, Stolen 7, Orphaned])"
proof -
  have t: "(\<lambda>_. T_away)(3 := T_away) = (\<lambda>_::nat. T_away)" and l: "(\<lambda>_. 7)(0 := 7) = (\<lambda>_::int. 7::ptr)"
    by (rule fun_upd_idem, simp)+
  note w = the_steps(1) and k = the_steps(2) and s = the_steps(3) [where i = 3] and d = the_at_def conf_defs t l
  let ?p = "[Pushed 7]" and ?s = "[Pushed 7, Stolen 7]" and ?o = "[Pushed 7, Stolen 7, Orphaned]"
  have "the_step\<^sup>*\<^sup>* (the_at 0 0 0 Nobody O_run T_away []) (the_at 0 0 0 Nobody O_written T_away [])"
    using w_write [of "the_at 0 0 0 Nobody O_run T_away []" 7] by (intro w) (simp add: d)
  also have "the_step\<^sup>*\<^sup>* (the_at 0 0 0 Nobody O_written T_away []) (the_at 0 1 0 Nobody O_run T_away ?p)"
    using w_push [of "the_at 0 0 0 Nobody O_written T_away []"] by (intro w) (simp add: d)
  also have "the_step\<^sup>*\<^sup>* (the_at 0 1 0 Nobody O_run T_away ?p) (the_at 0 1 0 (Thief 3) O_run T_in ?p)"
    using s_lock [of "the_at 0 1 0 Nobody O_run T_away ?p" 3] by (intro s) (simp add: d)
  also have "the_step\<^sup>*\<^sup>* (the_at 0 1 0 (Thief 3) O_run T_in ?p) (the_at 0 1 1 (Thief 3) O_run T_raised ?p)"
    using s_raise [of "the_at 0 1 0 (Thief 3) O_run T_in ?p" 3] by (intro s) (simp add: d)
  also have "the_step\<^sup>*\<^sup>* (the_at 0 1 1 (Thief 3) O_run T_raised ?p) (the_at 0 1 1 (Thief 3) O_run T_below ?p)"
    using s_below [of "the_at 0 1 1 (Thief 3) O_run T_raised ?p" 3] by (intro s) (simp add: d)
  also have "the_step\<^sup>*\<^sup>* (the_at 0 1 1 (Thief 3) O_run T_below ?p) (the_at 0 0 1 (Thief 3) O_undone T_below ?p)"
    using w_undo [of "the_at 0 1 1 (Thief 3) O_run T_below ?p"] by (intro w) (simp add: d)
  also have "the_step\<^sup>*\<^sup>* (the_at 0 0 1 (Thief 3) O_undone T_below ?p) (the_at 0 0 1 (Thief 3) O_wait T_below ?p)"
    using w_slow [of "the_at 0 0 1 (Thief 3) O_undone T_below ?p"] by (intro w) (simp add: d)
  also have "the_step\<^sup>*\<^sup>* (the_at 0 0 1 (Thief 3) O_wait T_below ?p) (the_at 0 0 1 (Thief 3) O_wait T_sure ?p)"
    using s_sure [of "the_at 0 0 1 (Thief 3) O_wait T_below ?p" 3] by (intro s) (simp add: d)
  also have "the_step\<^sup>*\<^sup>* (the_at 0 0 1 (Thief 3) O_wait T_sure ?p) (the_at 1 0 1 (Thief 3) O_wait T_took ?p)"
    using s_take [of "the_at 0 0 1 (Thief 3) O_wait T_sure ?p" 3] by (intro s) (simp add: d)
  also have "the_step\<^sup>*\<^sup>* (the_at 1 0 1 (Thief 3) O_wait T_took ?p) (the_at 1 0 1 (Thief 3) O_wait T_done ?s)"
    using s_read [of "the_at 1 0 1 (Thief 3) O_wait T_took ?p" 3] by (intro s) (simp add: d)
  also have "the_step\<^sup>*\<^sup>* (the_at 1 0 1 (Thief 3) O_wait T_done ?s) (the_at 1 0 1 Nobody O_wait T_away ?s)"
    using s_unlock [of "the_at 1 0 1 (Thief 3) O_wait T_done ?s" 3] by (intro s) (simp add: d)
  also have "the_step\<^sup>*\<^sup>* (the_at 1 0 1 Nobody O_wait T_away ?s) (the_at 1 0 1 The_worker O_reset T_away ?s)"
    using w_lock [of "the_at 1 0 1 Nobody O_wait T_away ?s"] by (intro k) (simp add: d)
  also have "the_step\<^sup>*\<^sup>* (the_at 1 0 1 The_worker O_reset T_away ?s) (the_at 1 0 1 The_worker O_decide T_away ?s)"
    using w_reset [of "the_at 1 0 1 The_worker O_reset T_away ?s"] by (intro k) (simp add: d)
  also have "the_step\<^sup>*\<^sup>* (the_at 1 0 1 The_worker O_decide T_away ?s) (the_at 1 1 1 The_worker O_leave T_away ?o)"
    using w_orphan [of "the_at 1 0 1 The_worker O_decide T_away ?s"] by (intro k) (simp add: d)
  also have "the_step\<^sup>*\<^sup>* (the_at 1 1 1 The_worker O_leave T_away ?o) (the_at 1 1 1 Nobody O_run T_away ?o)"
    using w_unlock [of "the_at 1 1 1 The_worker O_leave T_away ?o"] by (intro k) (simp add: d)
  finally show ?thesis .
qed

theorem the_deque_is_linearizable_witness:
  "replay [Pushed 7, Stolen 7, Orphaned] = Some (held (the_at 1 1 1 Nobody O_run T_away [Pushed 7, Stolen 7, Orphaned]))"
proof -
  have "the_start (the_at 0 0 0 Nobody O_run T_away [])" by (auto simp: the_start_def the_at_def fun_eq_iff)
  from the_deque_is_linearizable [OF this a_steal_while_returning] show ?thesis by (simp add: the_at_def)
qed

text \<open>
  What the comment in \<open>dekker_protocol\<close> states: the exception pointer is never below the head, and one
  above it in the middle of an attempt.
\<close>

lemma exception_pointer_bounds:
  assumes "the_start c" "the_step\<^sup>*\<^sup>* c d"
  shows "th_head d \<le> th_exc d \<and> (th_thief d i \<in> {T_raised, T_below, T_sure} \<longrightarrow> th_exc d = th_head d + 1)"
proof -
  note inv = the_invD [OF the.inv_reachable [OF assms]]
  have "0 \<le> raised d" by (cases "th_lock d") (auto simp: raised_def)
  moreover have "th_thief d i \<in> {T_raised, T_below, T_sure} \<longrightarrow> raised d = 1"
    using inv(1) [of i] by (auto simp: raised_def)
  ultimately show ?thesis using inv(3) by auto
qed

end
