(* ===== verification/Hyperobject.thy ===== *)
theory Hyperobject
  imports Deque Reducer_Merge
begin

text \<open>
  The interface of reducers (the middle of \<open>reducer_impl.cpp\<close>): registering a hyperobject, finding the
  view of the running strand, and taking the hyperobject out again. The views are objects of the client
  in a heap of their own, and \<open>ident hb\<close> is the value that the \<open>identity_fn\<close> of \<open>hb\<close> constructs; the memory
  of a view comes from \<open>__cilkrts_hyperobject_alloc\<close>, the \<open>allocate_fn\<close> that all reducers of the library use.
\<close>

section \<open>The code\<close>

record hyperobject_base =
  hb_view_offset :: nat
  hb_view_size :: nat

record 'v hyper_state =
  hy_rts :: rts
  hy_views :: "ptr \<rightharpoonup> 'v"
  hy_bases :: "ptr \<rightharpoonup> hyperobject_base"

abbreviation in_rts :: "(rts, 'a) prog \<Rightarrow> ('v hyper_state, 'a) prog" where
  "in_rts m \<equiv> on_part hy_rts hy_rts_update m"

abbreviation on_map :: "ptr \<Rightarrow> (cilkred_map, 'a) prog \<Rightarrow> ('v hyper_state, 'a) prog" where
  "on_map h m \<equiv> on_part hy_rts hy_rts_update (on_field r_rmaps r_rmaps_update id id h m)"

definition get_hyperobject_key :: "ptr \<Rightarrow> ('v hyper_state, ptr) prog" where
  "get_hyperobject_key hb = bindP (load hy_bases hb_view_offset hb) (\<lambda>d. ret (hb + d))"

definition get_leftmost_view :: "ptr \<Rightarrow> ptr" where
  "get_leftmost_view key = key"

definition SIZEOF_CILKRED_MAP :: nat where "SIZEOF_CILKRED_MAP = 40"

definition new_reducer_map :: "ptr \<Rightarrow> (rts, ptr) prog" where
  "new_reducer_map w =
     result [CILK_ASSERT ''w'' (w \<noteq> NULL)]
      (bindP (on_part r_fm r_fm_update (cilkrts_frame_malloc w SIZEOF_CILKRED_MAP)) (\<lambda>h.
        if h = NULL then failP Segfault
        else result [
            modify (\<lambda>s. s\<lparr>r_rmaps := (r_rmaps s)(h \<mapsto> zero_map)\<rparr>),
            on_field r_rmaps r_rmaps_update id id h cilkrts_make_reducer_map]
          (ret h)))"

definition install_new_reducer_map :: "ptr \<Rightarrow> (rts, ptr) prog" where
  "install_new_reducer_map w =
     bindP (new_reducer_map w) (\<lambda>h. result [st_wk w (wk_reducer_map_update (\<lambda>_. h))] (ret h))"

text \<open>The map of the worker, made when it has none.\<close>

definition map_of_worker :: "ptr \<Rightarrow> (rts, ptr) prog" where
  "map_of_worker w = bindP (ld_wk wk_reducer_map w) (\<lambda>h.
     if h = NULL then install_new_reducer_map w else ret h)"

definition not_while_merging :: "ptr \<Rightarrow> ('v hyper_state, unit) prog" where
  "not_while_merging h = bindP (on_map h (gets rm_merging)) (\<lambda>m.
     whenP m (cilkrts_bug ''User error: hyperobject used by another hyperobject''))"

definition cilkrts_hyperobject_alloc :: "nat \<Rightarrow> (rts, ptr) prog" where
  "cilkrts_hyperobject_alloc bytes = cilkrts_malloc"

text \<open>A view in fresh memory with the identity in it; the client's function writes through the pointer.\<close>

definition identity_view :: "(ptr \<Rightarrow> 'v) \<Rightarrow> ptr \<Rightarrow> ('v hyper_state, ptr) prog" where
  "identity_view ident hb =
     bindP (load hy_bases hb_view_size hb) (\<lambda>n.
     bindP (in_rts (cilkrts_hyperobject_alloc n)) (\<lambda>rep.
       if rep = NULL then failP Segfault
       else result [modify (\<lambda>s. s\<lparr>hy_views := (hy_views s)(rep \<mapsto> ident hb)\<rparr>)] (ret rep)))"

definition cilkrts_hyper_create :: "ptr \<Rightarrow> ('v hyper_state, unit) prog" where
  "cilkrts_hyper_create hb =
     bindP (in_rts (gets r_tls)) (\<lambda>w. if w = NULL then ret () else
     bindP (get_hyperobject_key hb) (\<lambda>key.
     bindP (ret (get_leftmost_view key)) (\<lambda>view.
     bindP (in_rts (map_of_worker w)) (\<lambda>h. block [
       bindP (on_map h (rm_lookup key)) (\<lambda>el. CILK_ASSERT ''h->lookup(key) == NULL'' (el = None)),
       not_while_merging h,
       bindP (in_rts (ld_wk wk_reducer_map w)) (\<lambda>h'. CILK_ASSERT ''w->reducer_map == h'' (h' = h)),
       bindP (on_map h (rehash_and_insert view hb view)) (\<lambda>_. ret ())]))))"

definition cilkrts_hyper_lookup :: "(ptr \<Rightarrow> 'v) \<Rightarrow> ptr \<Rightarrow> ('v hyper_state, ptr) prog" where
  "cilkrts_hyper_lookup ident hb =
     bindP (in_rts (gets r_tls)) (\<lambda>w.
     bindP (get_hyperobject_key hb) (\<lambda>key. if w = NULL then ret (get_leftmost_view key) else
     result [bindP (in_rts (ld_g g_force_reduce)) (\<lambda>f. whenP f (in_rts (cilkrts_promote_own_deque w)))]
      (bindP (in_rts (map_of_worker w)) (\<lambda>h.
       result [not_while_merging h]
        (bindP (on_map h (rm_lookup key)) (\<lambda>el.
         bindP (case el of
             Some p \<Rightarrow> ret p
           | None \<Rightarrow> bindP (on_map h (gets rm_is_leftmost)) (\<lambda>leftmost.
               bindP (if leftmost then ret (get_leftmost_view key) else identity_view ident hb) (\<lambda>rep.
                 on_map h (rehash_and_insert key hb rep)))) (\<lambda>p.
         bindP (on_map h (get_elem p)) (\<lambda>e. ret (el_view e)))))))))"

text \<open>
  \<open>el->destroy()\<close>, and the loop \<open>do { el[0] = el[1]; ++el; } while (el->key)\<close> on the elements of a bucket
  from the one that goes.
\<close>

definition destroy_view :: "ptr \<Rightarrow> elem_ptr \<Rightarrow> ('v hyper_state, unit) prog" where
  "destroy_view h p = bindP (on_map h (get_elem p)) (\<lambda>el. block [
     whenP (\<not> is_leftmost el) (bindP (load hy_views id (el_view el)) (\<lambda>_.
       modify (\<lambda>s. s\<lparr>hy_views := (hy_views s)(el_view el := None)\<rparr>))),
     on_map h (put_elem p (el\<lparr>el_view := NULL\<rparr>))])"

fun close_gap :: "elem list \<Rightarrow> elem list option" where
  "close_gap (e # e' # es) =
     (if el_key e' \<noteq> NULL then map_option (Cons e') (close_gap (e' # es)) else Some (e' # e' # es))"
| "close_gap _ = None"

definition remove_elem :: "elem_ptr \<Rightarrow> (cilkred_map, unit) prog" where
  "remove_elem p = bindP (Reducer_Map.bucket_at (fst p)) (\<lambda>b. case b of
     None \<Rightarrow> failP Segfault
   | Some b \<Rightarrow> (case close_gap (drop (snd p) (bk_el b)) of
       None \<Rightarrow> failP Segfault
     | Some es \<Rightarrow> modify (\<lambda>s. s\<lparr>rm_buckets :=
         (rm_buckets s)[fst p := Some (b\<lparr>bk_el := take (snd p) (bk_el b) @ es\<rparr>)]\<rparr>)))"

definition cilkrts_hyper_destroy :: "ptr \<Rightarrow> ('v hyper_state, unit) prog" where
  "cilkrts_hyper_destroy hb =
     bindP (in_rts (gets r_tls)) (\<lambda>w. if w = NULL then ret () else
     bindP (in_rts (ld_wk wk_reducer_map w)) (\<lambda>h.
     if h = NULL then failP Abort else
     result [not_while_merging h]
      (bindP (get_hyperobject_key hb) (\<lambda>key.
       bindP (on_map h (rm_lookup key)) (\<lambda>el. case el of
         None \<Rightarrow> failP Abort
       | Some p \<Rightarrow> bindP (on_map h (get_elem p)) (\<lambda>e.
           if \<not> is_leftmost e then failP Abort
           else block [
             destroy_view h p,
             on_map h (remove_elem p),
             on_map h (modify (\<lambda>s. s\<lparr>rm_nelem := rm_nelem s - 1\<rparr>))]))))))"

section \<open>Taking an element out\<close>

lemma close_gap_live:
  "\<forall>x \<in> set L. el_key x \<noteq> NULL \<Longrightarrow> el_key r = NULL \<Longrightarrow> close_gap (e # L @ r # R) = Some (L @ r # r # R)"
  by (induction L arbitrary: e) auto

lemma length_concat_upd:
  "i < length xss \<Longrightarrow> length (concat (xss[i := ys])) + length (xss ! i) = length (concat xss) + length ys"
  by (induction xss arbitrary: i) (auto split: nat.splits)

text \<open>Taking out the element \<open>j\<close> of a list whose keys are distinct.\<close>

definition without :: "nat \<Rightarrow> 'a list \<Rightarrow> 'a list" where
  "without j xs = take j xs @ drop (Suc j) xs"

lemma without_split: "j < length xs \<Longrightarrow> xs = take j xs @ xs ! j # drop (Suc j) xs"
  by (rule id_take_nth_drop)

lemma set_without:
  assumes "distinct (map f xs)" "j < length xs"
  shows "x \<in> set (without j xs) \<longleftrightarrow> x \<in> set xs \<and> f x \<noteq> f (xs ! j)"
proof -
  have "distinct (map f (take j xs @ xs ! j # drop (Suc j) xs))" using assms without_split [OF assms(2)] by simp
  moreover have "x \<in> set xs \<longleftrightarrow> x \<in> set (take j xs @ xs ! j # drop (Suc j) xs)" using without_split [OF assms(2)] by simp
  ultimately show ?thesis unfolding without_def by (auto simp: rev_image_eqI)
qed

lemma distinct_without: "distinct xs \<Longrightarrow> distinct (without j xs)"
  unfolding without_def by (simp add: set_take_disj_set_drop_if_distinct)

lemma map_without: "map f (without j xs) = without j (map f xs)"
  by (simp add: without_def take_map drop_map)

lemma length_without: "j < length xs \<Longrightarrow> length (without j xs) + 1 = length xs"
  by (simp add: without_def)

lemma without_update: "j < length xs \<Longrightarrow> without j (xs[j := x]) = without j xs"
  by (simp add: without_def)

lemma shape_without:
  assumes "shape b L" "j < length L"
  shows "\<exists>es. close_gap (drop j (bk_el b)) = Some es \<and> shape (b\<lparr>bk_el := take j (bk_el b) @ es\<rparr>) (without j L)"
proof -
  obtain r R where b: "bk_el b = L @ r # R" "\<forall>e \<in> set L. el_key e \<noteq> NULL" "\<forall>e \<in> set (r # R). el_key e = NULL"
      "length L + length R = bk_nmax b" "1 \<le> bk_nmax b"
    using assms(1) by (auto simp: shape_def neq_Nil_conv)
  have "drop j (bk_el b) = L ! j # drop (Suc j) L @ r # R"
    using assms(2) b(1) by (simp add: Cons_nth_drop_Suc [symmetric])
  moreover have "\<forall>e \<in> set (drop (Suc j) L). el_key e \<noteq> NULL" using b(2) by (auto dest: in_set_dropD)
  ultimately have "close_gap (drop j (bk_el b)) = Some (drop (Suc j) L @ r # r # R)"
    using close_gap_live b(3) by simp
  moreover have "shape (b\<lparr>bk_el := take j (bk_el b) @ drop (Suc j) L @ r # r # R\<rparr>) (without j L)"
    unfolding shape_def
  proof (intro conjI exI [of _ "r # r # R"])
    show "\<forall>e \<in> set (without j L). el_key e \<noteq> NULL"
      using b(2) by (auto simp: without_def dest: in_set_takeD in_set_dropD)
  qed (use assms(2) b in \<open>auto simp: without_def\<close>)
  ultimately show ?thesis by blast
qed

text \<open>Taking out a live element: the bucket closes, and the table loses the key.\<close>

lemma bucket_elems_rewritten:
  assumes w: "rewritten p e h h1" and h: "rm_ok h" and p: "p \<in> set (live_ptrs h)" and i: "i < rm_nbuckets h"
  shows "bucket_elems (rm_buckets h1 ! i)
     = (if i = fst p then (bucket_elems (rm_buckets h ! i))[snd p := e] else bucket_elems (rm_buckets h ! i))"
proof (rule nth_equalityI)
  have same: "live_ptrs h1 = live_ptrs h" "rm_nbuckets h1 = rm_nbuckets h" using w by (simp_all add: rewritten_def)
  note len = live_ptrs_length [OF same i]
  then show "length (bucket_elems (rm_buckets h1 ! i)) = length (if i = fst p
      then (bucket_elems (rm_buckets h ! i))[snd p := e] else bucket_elems (rm_buckets h ! i))" by simp
  fix j assume j: "j < length (bucket_elems (rm_buckets h1 ! i))"
  then have "(i, j) \<in> set (live_ptrs h)" using i len by (simp add: mem_live_ptrs)
  then have "elem_at h1 (i, j) = (if (i, j) = p then e else elem_at h (i, j))" using w by (simp add: rewritten_def)
  then show "bucket_elems (rm_buckets h1 ! i) ! j = (if i = fst p
      then (bucket_elems (rm_buckets h ! i))[snd p := e] else bucket_elems (rm_buckets h ! i)) ! j"
    using j len by (cases p) (auto simp: elem_at_def nth_list_update)
qed

lemma remove_elem_ok:
  assumes h: "rm_ok h" and p: "p \<in> set (live_ptrs h)"
    and w: "rewritten p e h h1" and e: "el_key e = el_key (elem_at h p)"
  shows "\<exists>h2. remove_elem p h1 = Inr ((), h2) \<and> rm_ok (h2\<lparr>rm_nelem := rm_nelem h2 - 1\<rparr>)
     \<and> rm_map (h2\<lparr>rm_nelem := rm_nelem h2 - 1\<rparr>) = (rm_map h)(el_key e := None)
     \<and> rm_is_leftmost h2 = rm_is_leftmost h \<and> rm_merging h2 = rm_merging h \<and> rm_nelem h2 = rm_nelem h"
proof -
  obtain i j where ij: "p = (i, j)" by (cases p)
  let ?L = "bucket_elems (rm_buckets h ! i)"
  have i: "i < rm_nbuckets h" "j < length ?L" using p by (simp_all add: ij mem_live_ptrs)
  have h1: "shaped h1" "rm_nbuckets h1 = rm_nbuckets h" "live_ptrs h1 = live_ptrs h" using w by (simp_all add: rewritten_def)
  have L1: "bucket_elems (rm_buckets h1 ! i) = ?L[j := e]"
    using bucket_elems_rewritten [OF w h p i(1)] by (simp add: ij)
  have p1: "p \<in> set (live_ptrs h1)" using p h1 by simp
  obtain b R where b: "rm_buckets h1 ! i = Some b" "shape b (bucket_elems (Some b))" "i < length (rm_buckets h1)"
    using shaped_bucket [OF h1(1) p1] by (metis fst_conv ij)
  then have "shape b (?L[j := e])" using L1 by simp
  then obtain es where es: "close_gap (drop j (bk_el b)) = Some es"
      "shape (b\<lparr>bk_el := take j (bk_el b) @ es\<rparr>) (without j ?L)"
    using shape_without [of b "?L[j := e]" j] i(2) by (auto simp: without_update)
  let ?b = "b\<lparr>bk_el := take j (bk_el b) @ es\<rparr>"
  let ?h2 = "h1\<lparr>rm_buckets := (rm_buckets h1)[i := Some ?b]\<rparr>"
  let ?h3 = "?h2\<lparr>rm_nelem := rm_nelem ?h2 - 1\<rparr>"
  have run: "remove_elem p h1 = Inr ((), ?h2)" using b es by (simp add: remove_elem_def Reducer_Map.bucket_at_def run ij)
  have el: "bucket_elems (rm_buckets ?h3 ! k) = (if k = i then without j ?L else bucket_elems (rm_buckets h ! k))"
    if "k < rm_nbuckets h" for k
    using that b(1,3) bucket_elems_shape [of "Some ?b" "without j ?L"] es(2) bucket_elems_rewritten [OF w h p that]
    by (auto simp: ij nth_list_update)
  have key: "el_key (?L ! j) = el_key e" using e by (simp add: ij elem_at_def)
  have mem: "x \<in> set (bucket_elems (rm_buckets ?h3 ! k)) \<longleftrightarrow> x \<in> set (bucket_elems (rm_buckets h ! k)) \<and> el_key x \<noteq> el_key e"
    if "k < rm_nbuckets h" for k x
  proof (cases "k = i")
    case True
    then show ?thesis using el [OF that] set_without [of el_key ?L j x] rm_okD(6) [OF h i(1)] i(2) key by simp
  next
    case False
    have "hashfun h (el_key e) = i" using rm_okD(7) [OF h i(1), of "?L ! j"] i(2) key by auto
    then show ?thesis using el [OF that] rm_okD(7) [OF h that, of x] False by auto
  qed
  have hf: "hashfun ?h3 = hashfun h" by (rule hashfun_nbuckets) (simp add: h1)
  have len: "length (rm_buckets ?h3) = rm_nbuckets h" "length (rm_buckets h1) = rm_nbuckets h"
    using h1 by (simp_all add: shaped_def)
  have ok: "rm_ok ?h3"
    unfolding rm_ok_def
  proof (intro conjI allI impI)
    have all: "map bucket_elems (rm_buckets ?h3) = (map bucket_elems (rm_buckets h))[i := without j ?L]"
      using el len rm_okD(1) [OF h] by (intro nth_equalityI) (auto simp: nth_list_update)
    have "length (all_elems ?h3) + length ?L = length (all_elems h) + length (without j ?L)"
      unfolding all_elems_def all using length_concat_upd [of i "map bucket_elems (rm_buckets h)"] i(1) rm_okD(1) [OF h] by simp
    then show "rm_nelem ?h3 = length (all_elems ?h3)"
      using length_without [OF i(2)] rm_okD(3) [OF h] w by (simp add: rewritten_def)
    fix k assume "k < rm_nbuckets ?h3"
    then have k: "k < rm_nbuckets h" by (simp add: h1)
    show "bshape (rm_buckets ?h3 ! k) (bucket_elems (rm_buckets ?h3 ! k))"
    proof (cases "k = i")
      case True
      then show ?thesis using el [OF k] es(2) b(3) by simp
    next
      case False
      then show ?thesis using h1(1,2) k b(3) by (simp add: shaped_def)
    qed
    show "distinct (map el_key (bucket_elems (rm_buckets ?h3 ! k)))"
      using el [OF k] rm_okD(6) [OF h k] by (auto simp: map_without distinct_without)
    show "\<forall>x \<in> set (bucket_elems (rm_buckets ?h3 ! k)). hashfun ?h3 (el_key x) = k \<and> el_key x \<noteq> NULL \<and> el_view x \<noteq> NULL"
      using mem [OF k] rm_okD(7) [OF h k] unfolding hf by blast
  qed (use h len h1 in \<open>auto simp: rm_ok_def\<close>)
  have memb: "x \<in> set (all_elems ?h3) \<longleftrightarrow> x \<in> set (all_elems h) \<and> el_key x \<noteq> el_key e" for x
    unfolding mem_all_elems len(1) rm_okD(1) [OF h] using mem by blast
  have "rm_map ?h3 k = Some (hb, v) \<longleftrightarrow> k \<noteq> el_key e \<and> rm_map h k = Some (hb, v)" for k hb v
    unfolding rm_map_Some [OF ok] rm_map_Some [OF h] Bex_def memb by blast
  then have "rm_map ?h3 = (rm_map h)(el_key e := None)"
    by (intro ext option_eqI) (metis fun_upd_apply option.distinct(1) surj_pair)
  with run ok w show ?thesis by (auto simp: rewritten_def)
qed

section \<open>The table of the running worker\<close>

definition current_worker :: "'v hyper_state \<Rightarrow> ptr" where
  "current_worker s = r_tls (hy_rts s)"

text \<open>
  The running worker has a map: it is a good table, nobody merges it, it can still grow, and views that
  are to come do not collide with those there are.
\<close>

definition has_map :: "'v hyper_state \<Rightarrow> ptr \<Rightarrow> cilkred_map \<Rightarrow> bool" where
  "has_map s h m \<longleftrightarrow> h \<noteq> NULL \<and> r_tls (hy_rts s) \<noteq> NULL
     \<and> (\<exists>x. worker_at (hy_rts s) (r_tls (hy_rts s)) = Some x \<and> wk_reducer_map x = h)
     \<and> rmap_at (hy_rts s) h = Some m \<and> rm_ok m \<and> \<not> rm_merging m"

definition key_of :: "'v hyper_state \<Rightarrow> ptr \<Rightarrow> ptr \<Rightarrow> bool" where
  "key_of s hb key \<longleftrightarrow> (\<exists>b. deref (hy_bases s) hb = Some b \<and> key = hb + hb_view_offset b)"

abbreviation with_map :: "ptr \<Rightarrow> cilkred_map \<Rightarrow> 'v hyper_state \<Rightarrow> 'v hyper_state" where
  "with_map h m s \<equiv> s\<lparr>hy_rts := (hy_rts s)\<lparr>r_rmaps := (r_rmaps (hy_rts s))(h \<mapsto> m)\<rparr>\<rparr>"

lemma on_map_eq:
  assumes "has_map s h m"
  shows "on_map h f s = (case f m of Inl e \<Rightarrow> Inl e | Inr (a, m') \<Rightarrow> Inr (a, with_map h m' s))"
  using assms by (auto simp: has_map_def run split: sum.splits)

lemma on_map_read:
  assumes "has_map s h m" "f m = Inr (a, m)"
  shows "on_map h f s = Inr (a, s)"
proof -
  have "r_rmaps (hy_rts s) h = Some m" using assms(1) by (auto simp: has_map_def dest: deref_SomeD)
  then have "with_map h m s = s" by (simp add: fun_upd_idem)
  then show ?thesis by (simp only: on_map_eq [OF assms(1)] assms(2) sum.case prod.case)
qed

lemma has_map_with: "has_map s h m \<Longrightarrow> rm_ok m' \<Longrightarrow> \<not> rm_merging m' \<Longrightarrow> has_map (with_map h m' s) h m'"
  by (auto simp: has_map_def)

lemma with_map_with: "with_map h m' (with_map h m s) = with_map h m' s"
  by simp

lemma map_of_worker_eq: "has_map s h m \<Longrightarrow> in_rts (map_of_worker (r_tls (hy_rts s))) s = Inr (h, s)"
  by (auto simp: has_map_def map_of_worker_def run)

lemma not_while_merging_eq: "has_map s h m \<Longrightarrow> not_while_merging h s = Inr ((), s)"
  using on_map_read [of s h m "gets rm_merging" False]
  by (simp only: not_while_merging_def run_bindP run_gets run_whenP has_map_def sum.case prod.case) simp

lemma key_eq: "key_of s hb key \<Longrightarrow> get_hyperobject_key hb s = Inr (key, s)"
  by (auto simp: key_of_def get_hyperobject_key_def run)

lemma key_pos: "key_of s hb key \<Longrightarrow> key \<noteq> NULL"
  by (auto simp: key_of_def dest: deref_SomeD)

lemma key_of_same: "hy_bases t = hy_bases s \<Longrightarrow> key_of t hb key = key_of s hb key"
  by (simp add: key_of_def)

text \<open>Looking for a key that is there, and for one that is not.\<close>

lemma rm_lookup_there:
  assumes "has_map s h m" "rm_map m key = Some (b, v)" "key \<noteq> NULL"
  shows "\<exists>p. on_map h (rm_lookup key) s = Inr (Some p, s) \<and> p \<in> set (live_ptrs m)
     \<and> elem_at m p = \<lparr>el_key = key, el_hb = b, el_view = v\<rparr>
     \<and> on_map h (get_elem p) s = Inr (\<lparr>el_key = key, el_hb = b, el_view = v\<rparr>, s)"
proof -
  have m: "rm_ok m" using assms(1) by (simp add: has_map_def)
  obtain p where p: "rm_lookup key m = Inr (Some p, m)" "p \<in> set (live_ptrs m)"
      "elem_at m p = \<lparr>el_key = key, el_hb = b, el_view = v\<rparr>"
    using rm_find_live [OF m assms(3,2)] by blast
  with get_elem_live [OF rm_ok_shaped [OF m], of p] on_map_read [OF assms(1)] show ?thesis by metis
qed

lemma rm_lookup_not_there:
  assumes "has_map s h m" "rm_map m key = None" "key \<noteq> NULL"
  shows "on_map h (rm_lookup key) s = Inr (None, s)"
proof -
  have m: "rm_ok m" using assms(1) by (simp add: has_map_def)
  have "rm_lookup key m = Inr (None, m)"
    using rm_lookup_ok [OF m assms(3)] assms(2) rm_map_mem [OF m] by auto
  then show ?thesis by (rule on_map_read [OF assms(1)])
qed

lemma insert_eq:
  assumes "has_map s h m" "rm_map m key = None" "key \<noteq> NULL" "view \<noteq> NULL" "rm_nelem m < 2 ^ 60"
  shows "\<exists>p m'. on_map h (rehash_and_insert key b view) s = Inr (p, with_map h m' s)
     \<and> has_map (with_map h m' s) h m' \<and> rm_map m' = (rm_map m)(key \<mapsto> (b, view))
     \<and> rm_is_leftmost m' = rm_is_leftmost m
     \<and> on_map h (get_elem p) (with_map h m' s) = Inr (\<lparr>el_key = key, el_hb = b, el_view = view\<rparr>, with_map h m' s)"
proof -
  have m: "rm_ok m" "\<not> rm_merging m" using assms(1) by (simp_all add: has_map_def)
  obtain p m' where i: "rehash_and_insert key b view m = Inr (p, m')"
      "adds \<lparr>el_key = key, el_hb = b, el_view = view\<rparr> m m'"
      "get_elem p m' = Inr (\<lparr>el_key = key, el_hb = b, el_view = view\<rparr>, m')"
    using rehash_and_insert_ok [OF m(1) assms(3,4,2,5), of b] by auto
  have ok: "has_map (with_map h m' s) h m'" using i(2) m(2) by (intro has_map_with [OF assms(1)]) (auto simp: adds_def)
  moreover have "rm_map m' = (rm_map m)(key \<mapsto> (b, view))" using adds_map [OF m(1) i(2)] assms(2) by simp
  moreover have "rm_is_leftmost m' = rm_is_leftmost m" using i(2) by (simp add: adds_def)
  moreover have "on_map h (rehash_and_insert key b view) s = Inr (p, with_map h m' s)"
    using i(1) by (simp only: on_map_eq [OF assms(1)] sum.case prod.case)
  ultimately show ?thesis using on_map_read [OF ok, where f = "get_elem p", OF i(3)] by metis
qed

definition not_forced :: "'v hyper_state \<Rightarrow> bool" where
  "not_forced s \<longleftrightarrow> \<not> g_force_reduce (r_g (hy_rts s))"


lemma hyper_lookup_rest:
  assumes s: "has_map s h m" "key_of s hb key" "not_forced s"
  shows "cilkrts_hyper_lookup ident hb s = bindP (on_map h (rm_lookup key)) (\<lambda>el.
     bindP (case el of
         Some p \<Rightarrow> ret p
       | None \<Rightarrow> bindP (on_map h (gets rm_is_leftmost)) (\<lambda>leftmost.
           bindP (if leftmost then ret (get_leftmost_view key) else identity_view ident hb) (\<lambda>rep.
             on_map h (rehash_and_insert key hb rep)))) (\<lambda>p.
     bindP (on_map h (get_elem p)) (\<lambda>e. ret (el_view e)))) s"
proof -
  have w: "in_rts (gets r_tls) s = Inr (r_tls (hy_rts s), s)" "r_tls (hy_rts s) \<noteq> NULL"
    "in_rts (ld_g g_force_reduce) s = Inr (False, s)"
    using s(1,3) by (simp_all add: has_map_def not_forced_def run)
  show ?thesis
    unfolding cilkrts_hyper_lookup_def
    by (simp only: run_bindP [where m = "in_rts (gets r_tls)"] w(1) sum.case prod.case
        run_bindP [where m = "get_hyperobject_key hb"] key_eq [OF s(2)] w(2) if_False
        run_result run_block_Cons run_block_Nil run_bindP [where m = "in_rts (ld_g g_force_reduce)"] w(3) run_whenP
        run_bindP [where m = "in_rts (map_of_worker (r_tls (hy_rts s)))"] map_of_worker_eq [OF s(1)]
        not_while_merging_eq [OF s(1)])
qed

lemma hyper_lookup_there:
  assumes s: "has_map s h m" "key_of s hb key" "not_forced s" and v: "rm_map m key = Some (b, v)"
  shows "cilkrts_hyper_lookup ident hb s = Inr (v, s)"
proof -
  obtain p where "on_map h (rm_lookup key) s = Inr (Some p, s)"
      "on_map h (get_elem p) s = Inr (\<lparr>el_key = key, el_hb = b, el_view = v\<rparr>, s)"
    using rm_lookup_there [OF s(1) v key_pos [OF s(2)]] by blast
  then show ?thesis unfolding hyper_lookup_rest [OF s] by (simp add: run_bindP run_ret)
qed

text \<open>A new view: the leftmost one in a leftmost map, otherwise an identity in fresh memory.\<close>

definition new_view :: "cilkred_map \<Rightarrow> ptr \<Rightarrow> 'v hyper_state \<Rightarrow> ptr" where
  "new_view m key s = (if rm_is_leftmost m then key else r_brk (hy_rts s) + 1)"

definition with_new_view :: "(ptr \<Rightarrow> 'v) \<Rightarrow> ptr \<Rightarrow> cilkred_map \<Rightarrow> 'v hyper_state \<Rightarrow> 'v hyper_state" where
  "with_new_view ident hb m s = (if rm_is_leftmost m then s else
     s\<lparr>hy_rts := (hy_rts s)\<lparr>r_brk := r_brk (hy_rts s) + 1, r_mem_left := r_mem_left (hy_rts s) - 1\<rparr>,
       hy_views := (hy_views s)(r_brk (hy_rts s) + 1 \<mapsto> ident hb)\<rparr>)"

definition room_for_view :: "cilkred_map \<Rightarrow> 'v hyper_state \<Rightarrow> bool" where
  "room_for_view m s \<longleftrightarrow> rm_nelem m < 2 ^ 60 \<and> (\<not> rm_is_leftmost m \<longrightarrow> 0 < r_mem_left (hy_rts s))"

lemma identity_view_eq:
  assumes "key_of s hb key" "\<not> rm_is_leftmost m" "room_for_view m s"
  shows "identity_view ident hb s = Inr (new_view m key s, with_new_view ident hb m s)"
  using assms
  by (auto simp: identity_view_def key_of_def run cilkrts_hyperobject_alloc_def new_view_def with_new_view_def room_for_view_def)

lemma has_map_new_view: "has_map s h m \<Longrightarrow> has_map (with_new_view ident hb m s) h m"
  by (auto simp: has_map_def with_new_view_def)

lemma hyper_lookup_new:
  assumes s: "has_map s h m" "key_of s hb key" "not_forced s" and v: "rm_map m key = None" "room_for_view m s"
  shows "\<exists>m'. cilkrts_hyper_lookup ident hb s = Inr (new_view m key s, with_map h m' (with_new_view ident hb m s))
     \<and> has_map (with_map h m' (with_new_view ident hb m s)) h m'
     \<and> rm_map m' = (rm_map m)(key \<mapsto> (hb, new_view m key s))"
proof -
  let ?v = "new_view m key s" and ?s = "with_new_view ident hb m s"
  have l: "on_map h (rm_lookup key) s = Inr (None, s)"
    "on_map h (gets rm_is_leftmost) s = Inr (rm_is_leftmost m, s)"
    using rm_lookup_not_there [OF s(1) v(1) key_pos [OF s(2)]]
      on_map_read [OF s(1), of "gets rm_is_leftmost"] by (simp_all only: run_gets simp_thms)
  have i: "(if rm_is_leftmost m then ret (get_leftmost_view key) else identity_view ident hb) s = Inr (?v, ?s)"
    using identity_view_eq [OF s(2) _ v(2)] by (simp add: run_ret get_leftmost_view_def new_view_def with_new_view_def)
  have "?v \<noteq> NULL" using key_pos [OF s(2)] by (simp add: new_view_def)
  with insert_eq [OF has_map_new_view [OF s(1), where ident = ident and hb = hb] v(1) key_pos [OF s(2)], of ?v hb] v(2)
  obtain p m' where m': "on_map h (rehash_and_insert key hb ?v) ?s = Inr (p, with_map h m' ?s)"
     "has_map (with_map h m' ?s) h m'" "rm_map m' = (rm_map m)(key \<mapsto> (hb, ?v))"
     "on_map h (get_elem p) (with_map h m' ?s) = Inr (\<lparr>el_key = key, el_hb = hb, el_view = ?v\<rparr>, with_map h m' ?s)"
    by (auto simp: room_for_view_def)
  have "cilkrts_hyper_lookup ident hb s = Inr (?v, with_map h m' ?s)"
    unfolding hyper_lookup_rest [OF s]
    by (simp only: run_bindP l i m'(1,4) sum.case prod.case option.case run_ret elem.select_convs)
  with m'(2,3) show ?thesis by blast
qed

lemma hyper_create_new:
  assumes s: "has_map s h m" "key_of s hb key" and v: "rm_map m key = None" "rm_nelem m < 2 ^ 60"
  shows "\<exists>m'. cilkrts_hyper_create hb s = Inr ((), with_map h m' s) \<and> has_map (with_map h m' s) h m'
     \<and> rm_map m' = (rm_map m)(key \<mapsto> (hb, key))"
proof -
  obtain p m' where m': "on_map h (rehash_and_insert key hb key) s = Inr (p, with_map h m' s)"
     "has_map (with_map h m' s) h m'" "rm_map m' = (rm_map m)(key \<mapsto> (hb, key))"
    using insert_eq [OF s(1) v(1) key_pos [OF s(2)] key_pos [OF s(2)] v(2)] by blast
  have w: "in_rts (gets r_tls) s = Inr (r_tls (hy_rts s), s)" "r_tls (hy_rts s) \<noteq> NULL"
    "in_rts (ld_wk wk_reducer_map (r_tls (hy_rts s))) s = Inr (h, s)"
    using s(1) by (auto simp: has_map_def run)
  have "cilkrts_hyper_create hb s = Inr ((), with_map h m' s)"
    unfolding cilkrts_hyper_create_def
    by (simp only: run_bindP w if_False key_eq [OF s(2)] map_of_worker_eq [OF s(1)] get_leftmost_view_def
        rm_lookup_not_there [OF s(1) v(1) key_pos [OF s(2)]] not_while_merging_eq [OF s(1)] m'(1)
        run_block_Cons run_block_Nil run_ret run_CILK_ASSERT sum.case prod.case simp_thms if_True)
  with m' show ?thesis by blast
qed

text \<open>Destroying: the leftmost view goes out of the table, any other state of the table is an error.\<close>

lemma hyper_destroy_rest:
  assumes s: "has_map s h m" "key_of s hb key"
  shows "cilkrts_hyper_destroy hb s = bindP (on_map h (rm_lookup key)) (\<lambda>el. case el of
         None \<Rightarrow> failP Abort
       | Some p \<Rightarrow> bindP (on_map h (get_elem p)) (\<lambda>e.
           if \<not> is_leftmost e then failP Abort
           else block [
             destroy_view h p,
             on_map h (remove_elem p),
             on_map h (modify (\<lambda>s. s\<lparr>rm_nelem := rm_nelem s - 1\<rparr>))])) s"
proof -
  have w: "in_rts (gets r_tls) s = Inr (r_tls (hy_rts s), s)" "r_tls (hy_rts s) \<noteq> NULL"
    "in_rts (ld_wk wk_reducer_map (r_tls (hy_rts s))) s = Inr (h, s)" "h \<noteq> NULL"
    using s(1) by (auto simp: has_map_def run)
  show ?thesis
    unfolding cilkrts_hyper_destroy_def
    by (simp only: run_bindP [where m = "in_rts (gets r_tls)"] w if_False sum.case prod.case
        run_bindP [where m = "in_rts (ld_wk wk_reducer_map (r_tls (hy_rts s)))"]
        run_result run_block_Cons run_block_Nil not_while_merging_eq [OF s(1)]
        run_bindP [where m = "get_hyperobject_key hb"] key_eq [OF s(2)])
qed

lemma hyper_destroy_leftmost:
  assumes s: "has_map s h m" "key_of s hb key" and v: "rm_map m key = Some (b, key)"
  shows "\<exists>m'. cilkrts_hyper_destroy hb s = Inr ((), with_map h m' s) \<and> has_map (with_map h m' s) h m'
     \<and> rm_map m' = (rm_map m)(key := None)"
proof -
  have m: "rm_ok m" "\<not> rm_merging m" using s(1) by (simp_all add: has_map_def)
  let ?e = "\<lparr>el_key = key, el_hb = b, el_view = key\<rparr>" and ?e' = "\<lparr>el_key = key, el_hb = b, el_view = NULL\<rparr>"
  obtain p where p: "on_map h (rm_lookup key) s = Inr (Some p, s)" "p \<in> set (live_ptrs m)" "elem_at m p = ?e"
      "on_map h (get_elem p) s = Inr (?e, s)"
    using rm_lookup_there [OF s(1) v key_pos [OF s(2)]] by blast
  obtain m1 where m1: "put_elem p ?e' m = Inr ((), m1)" "rewritten p ?e' m m1"
    using put_elem_live [OF rm_ok_shaped [OF m(1)] p(2), of ?e'] p(3) by auto
  obtain m2 where m2: "remove_elem p m1 = Inr ((), m2)" "rm_ok (m2\<lparr>rm_nelem := rm_nelem m2 - 1\<rparr>)"
      "rm_map (m2\<lparr>rm_nelem := rm_nelem m2 - 1\<rparr>) = (rm_map m)(key := None)" "rm_merging m2 = rm_merging m"
    using remove_elem_ok [OF m(1) p(2) m1(2)] p(3) by auto
  let ?m = "m2\<lparr>rm_nelem := rm_nelem m2 - 1\<rparr>"
  have put: "on_map h (put_elem p ?e') s = Inr ((), with_map h m1 s)"
    using m1(1) by (simp only: on_map_eq [OF s(1)] sum.case prod.case)
  have "on_map h (remove_elem p) (with_map h m1 s) = Inr ((), with_map h m2 s)"
    using m2(1) s(1) by (auto simp: has_map_def run)
  moreover have "on_map h (modify (\<lambda>s. s\<lparr>rm_nelem := rm_nelem s - 1\<rparr>)) (with_map h m2 s) = Inr ((), with_map h ?m s)"
    using s(1) by (auto simp: has_map_def run)
  moreover have "destroy_view h p s = Inr ((), with_map h m1 s)"
    unfolding destroy_view_def run_bindP p(4) sum.case prod.case
    using put by (simp add: is_leftmost_def run_block_Cons run_block_Nil run_whenP)
  ultimately have "cilkrts_hyper_destroy hb s = Inr ((), with_map h ?m s)"
    unfolding hyper_destroy_rest [OF s] run_bindP p(1) sum.case prod.case option.case p(4)
    by (simp only: is_leftmost_def elem.select_convs simp_thms if_False run_block_Cons run_block_Nil sum.case prod.case)
  moreover have "has_map (with_map h ?m s) h ?m" using m2(2,4) m(2) by (intro has_map_with [OF s(1)]) auto
  ultimately show ?thesis using m2(3) by blast
qed

lemma hyper_destroy_not_leftmost:
  assumes s: "has_map s h m" "key_of s hb key" and v: "\<forall>b. rm_map m key \<noteq> Some (b, key)"
  shows "cilkrts_hyper_destroy hb s = Inl Abort"
proof (cases "rm_map m key")
  case None
  show ?thesis
    unfolding hyper_destroy_rest [OF s] run_bindP rm_lookup_not_there [OF s(1) None key_pos [OF s(2)]]
    by (simp add: run_failP)
next
  case (Some x)
  obtain b w where x: "x = (b, w)" "w \<noteq> key" using v Some by (cases x) auto
  obtain p where p: "on_map h (rm_lookup key) s = Inr (Some p, s)"
      "on_map h (get_elem p) s = Inr (\<lparr>el_key = key, el_hb = b, el_view = w\<rparr>, s)"
    using rm_lookup_there [OF s(1), of key b w] Some key_pos [OF s(2)] by (auto simp: x)
  show ?thesis
    unfolding hyper_destroy_rest [OF s] run_bindP p(1) sum.case prod.case option.case p(2)
    using x(2) by (simp add: is_leftmost_def run_failP)
qed

section \<open>Sequences of operations\<close>

datatype hyper_op = Hyper_create ptr | Hyper_lookup ptr | Hyper_destroy ptr

fun op_on :: "hyper_op \<Rightarrow> ptr" where
  "op_on (Hyper_create hb) = hb"
| "op_on (Hyper_lookup hb) = hb"
| "op_on (Hyper_destroy hb) = hb"

fun run_op :: "(ptr \<Rightarrow> 'v) \<Rightarrow> hyper_op \<Rightarrow> ('v hyper_state, unit) prog" where
  "run_op ident (Hyper_create hb) = cilkrts_hyper_create hb"
| "run_op ident (Hyper_lookup hb) = bindP (cilkrts_hyper_lookup ident hb) (\<lambda>_. ret ())"
| "run_op ident (Hyper_destroy hb) = cilkrts_hyper_destroy hb"

lemma nelem_card: "rm_ok m \<Longrightarrow> rm_nelem m = card (dom (rm_map m))"
proof -
  assume m: "rm_ok m"
  have "dom (rm_map m) = set (map el_key (all_elems m))" by (auto simp: rm_map_def dom_map_of_conv_image_fst image_image)
  then show ?thesis using distinct_card [OF distinct_keys [OF m]] rm_okD(3) [OF m] by simp
qed

lemma nelem_upd:
  assumes "has_map s h m" "has_map t h' m'" "rm_map m' = (rm_map m)(k := x)"
  shows "rm_nelem m' \<le> rm_nelem m + 1"
proof -
  have m: "rm_ok m" "rm_ok m'" using assms by (simp_all add: has_map_def)
  have "dom (rm_map m') \<subseteq> insert k (dom (rm_map m))" using assms(3) by (auto split: if_splits)
  moreover have "finite (dom (rm_map m))" by (simp add: rm_map_def finite_dom_map_of)
  ultimately have "card (dom (rm_map m')) \<le> card (insert k (dom (rm_map m)))" by (intro card_mono) auto
  also have "\<dots> \<le> card (dom (rm_map m)) + 1" by (simp add: card_insert_le_m1 card_insert_if \<open>finite (dom (rm_map m))\<close>)
  finally show ?thesis by (simp add: nelem_card m)
qed

lemma run_op_typed:
  assumes s: "has_map s h m" "key_of s (op_on op) key" "not_forced s" "rm_nelem m < 2 ^ 60"
    and t: "run_op ident op s = Inr ((), t)"
  shows "\<exists>m'. has_map t h m' \<and> rm_nelem m' \<le> rm_nelem m + 1 \<and> hy_bases t = hy_bases s \<and> not_forced t"
proof (cases op)
  case (Hyper_create hb)
  show ?thesis
  proof (cases "rm_map m key")
    case None
    then obtain m' where "run_op ident op s = Inr ((), with_map h m' s)" "has_map (with_map h m' s) h m'"
        "rm_map m' = (rm_map m)(key \<mapsto> (hb, key))"
      using hyper_create_new [OF s(1), of hb key] s(2,4) by (auto simp: Hyper_create)
    with nelem_upd [OF s(1) this(2,3)] t s(3) show ?thesis by (auto simp: not_forced_def)
  next
    case (Some x)
    obtain b v where x: "x = (b, v)" by (cases x)
    obtain p where p: "on_map h (rm_lookup key) s = Inr (Some p, s)"
      using rm_lookup_there [OF s(1), of key b v] Some key_pos [OF s(2)] by (auto simp: x)
    have w: "in_rts (gets r_tls) s = Inr (r_tls (hy_rts s), s)" "r_tls (hy_rts s) \<noteq> NULL"
      "get_hyperobject_key hb s = Inr (key, s)"
      using s(1,2) by (auto simp: has_map_def run Hyper_create key_eq)
    have "run_op ident op s = Inl (Assertion ''h->lookup(key) == NULL'')"
      unfolding Hyper_create run_op.simps cilkrts_hyper_create_def
      by (simp add: run_bindP w(2,3) w(1) map_of_worker_eq [OF s(1)] run_ret get_leftmost_view_def run_block_Cons p
        run_CILK_ASSERT)
    with t show ?thesis by simp
  qed
next
  case (Hyper_lookup hb)
  then have k: "key_of s hb key" using s(2) by simp
  show ?thesis
  proof (cases "rm_map m key")
    case (Some x)
    then have "t = s" using hyper_lookup_there [OF s(1) k s(3), of "fst x" "snd x"] t
      by (simp add: Hyper_lookup run_bindP run_ret)
    with s show ?thesis by auto
  next
    case None
    show ?thesis
    proof (cases "room_for_view m s")
      case True
      then obtain m' where "t = with_map h m' (with_new_view ident hb m s)" "has_map t h m'"
          "rm_map m' = (rm_map m)(key \<mapsto> (hb, new_view m key s))"
        using hyper_lookup_new [OF s(1) k s(3) None, of ident] t by (auto simp: Hyper_lookup run_bindP run_ret)
      with nelem_upd [OF s(1) this(2,3)] s(3) show ?thesis by (auto simp: not_forced_def with_new_view_def)
    next
      case False
      then have "\<not> rm_is_leftmost m" "r_mem_left (hy_rts s) = 0" using s(4) by (auto simp: room_for_view_def)
      moreover from k obtain b where b: "deref (hy_bases s) hb = Some b" by (auto simp: key_of_def)
      ultimately have "identity_view ident hb s = Inl Segfault" "on_map h (gets rm_is_leftmost) s = Inr (False, s)"
        using on_map_read [OF s(1), where f = "gets rm_is_leftmost" and a = False]
        by (simp_all add: identity_view_def run cilkrts_hyperobject_alloc_def)
      then have "cilkrts_hyper_lookup ident hb s = Inl Segfault"
        unfolding hyper_lookup_rest [OF s(1) k s(3)]
        by (simp add: run_bindP rm_lookup_not_there [OF s(1) None key_pos [OF k]])
      with t show ?thesis by (simp add: Hyper_lookup run_bindP)
    qed
  qed
next
  case (Hyper_destroy hb)
  then have k: "key_of s hb key" using s(2) by simp
  show ?thesis
  proof (cases "\<exists>b. rm_map m key = Some (b, key)")
    case True
    then obtain m' where "t = with_map h m' s" "has_map t h m'" "rm_map m' = (rm_map m)(key := None)"
      using hyper_destroy_leftmost [OF s(1) k] t by (auto simp: Hyper_destroy)
    with nelem_upd [OF s(1) this(2,3)] s(3) show ?thesis by (auto simp: not_forced_def)
  next
    case False
    then show ?thesis using hyper_destroy_not_leftmost [OF s(1) k] t by (simp add: Hyper_destroy)
  qed
qed

section \<open>A sample state\<close>

text \<open>Worker 10 has an empty map at 500; the reducer at 64 has its value 16 bytes behind its base.\<close>

definition sample_map :: cilkred_map where
  "sample_map = \<lparr>rm_nelem = 0, rm_nbuckets = 1, rm_buckets = [None], rm_merging = False, rm_is_leftmost = False\<rparr>"

definition sample_hyper :: "nat hyper_state" where
  "sample_hyper = \<lparr>hy_rts = sample_rts\<lparr>r_workers := [10 \<mapsto> sample_worker\<lparr>wk_reducer_map := 500\<rparr>],
       r_rmaps := [500 \<mapsto> sample_map]\<rparr>,
     hy_views = [80 \<mapsto> 7], hy_bases = [64 \<mapsto> \<lparr>hb_view_offset = 16, hb_view_size = 8\<rparr>]\<rparr>"

lemma sample_hyper_ok:
  "has_map sample_hyper 500 sample_map" "key_of sample_hyper 64 80" "not_forced sample_hyper"
  "rm_map sample_map = Map.empty" "rm_nelem sample_map = 0" "room_for_view sample_map sample_hyper"
proof -
  have e: "all_elems sample_map = []" by (simp add: all_elems_def sample_map_def bucket_elems_def)
  have "\<exists>k < 64. Suc 0 = (2::nat) ^ k" by (rule exI [of _ 0]) simp
  then have "rm_ok sample_map" by (simp add: rm_ok_def e) (simp add: sample_map_def bucket_elems_def)
  then show "has_map sample_hyper 500 sample_map"
    by (simp add: has_map_def sample_hyper_def sample_rts_def sample_worker_def) (simp add: sample_map_def)
  show "key_of sample_hyper 64 80" by (simp add: key_of_def sample_hyper_def)
  show "not_forced sample_hyper" by (simp add: not_forced_def sample_hyper_def sample_rts_def sample_global_def)
  show "rm_map sample_map = Map.empty" by (simp add: rm_map_def e)
  show "rm_nelem sample_map = 0" by (simp add: sample_map_def)
  show "room_for_view sample_map sample_hyper" by (simp add: room_for_view_def sample_map_def sample_hyper_def sample_rts_def)
qed

section \<open>What the interface promises\<close>

text \<open>
  C19. A strand sees one view of a reducer. A lookup returns, and a second lookup returns the same view
  and changes nothing; the table then has that view for the hyperobject and everything it had before.
\<close>

theorem one_view_per_strand:
  assumes s: "has_map s h m" "key_of s hb key" "not_forced s" and room: "room_for_view m s"
  shows "\<exists>v t m'. cilkrts_hyper_lookup ident hb s = Inr (v, t) \<and> cilkrts_hyper_lookup ident hb t = Inr (v, t)
     \<and> has_map t h m' \<and> rm_map m \<subseteq>\<^sub>m rm_map m' \<and> (\<exists>b. rm_map m' key = Some (b, v))"
proof (cases "rm_map m key")
  case (Some x)
  then show ?thesis
    using hyper_lookup_there [OF s, of "fst x" "snd x" ident] s(1) by (metis map_le_refl prod.collapse)
next
  case None
  let ?v = "new_view m key s" and ?t = "with_new_view ident hb m s"
  obtain m' where m': "cilkrts_hyper_lookup ident hb s = Inr (?v, with_map h m' ?t)" "has_map (with_map h m' ?t) h m'"
      "rm_map m' = (rm_map m)(key \<mapsto> (hb, ?v))"
    using hyper_lookup_new [OF s None room] by blast
  have "key_of (with_map h m' ?t) hb key" "not_forced (with_map h m' ?t)"
    using s(2,3) by (simp_all add: key_of_def not_forced_def with_new_view_def)
  then have again: "cilkrts_hyper_lookup ident hb (with_map h m' ?t) = Inr (?v, with_map h m' ?t)"
    using hyper_lookup_there [OF m'(2), of hb key hb ?v ident] m'(3) by simp
  moreover have "rm_map m \<subseteq>\<^sub>m rm_map m'" "rm_map m' key = Some (hb, ?v)" using None m'(3) by (auto simp: map_le_def)
  ultimately show ?thesis using m'(1,2) by blast
qed

theorem one_view_per_strand_witness:
  "\<exists>v t. cilkrts_hyper_lookup (\<lambda>_. 0) 64 sample_hyper = Inr (v, t) \<and> cilkrts_hyper_lookup (\<lambda>_. 0) 64 t = Inr (v, t)"
  using one_view_per_strand [OF sample_hyper_ok(1-3,6), of "\<lambda>_. 0"] by blast

text \<open>
  Registering a hyperobject, finding its view and taking it out again: the view is the leftmost one,
  the address of the value in the reducer itself, and the table is again what it was.
\<close>

theorem create_lookup_destroy:
  assumes s: "has_map s h m" "key_of s hb key" "not_forced s" and new: "rm_map m key = None" "rm_nelem m < 2 ^ 60"
  shows "\<exists>t m'. bindP (cilkrts_hyper_create hb) (\<lambda>_. bindP (cilkrts_hyper_lookup ident hb) (\<lambda>v.
       bindP (cilkrts_hyper_destroy hb) (\<lambda>_. ret v))) s = Inr (key, t) \<and> has_map t h m' \<and> rm_map m' = rm_map m"
proof -
  obtain m1 where m1: "cilkrts_hyper_create hb s = Inr ((), with_map h m1 s)" "has_map (with_map h m1 s) h m1"
      "rm_map m1 = (rm_map m)(key \<mapsto> (hb, key))"
    using hyper_create_new [OF s(1,2) new] by blast
  have k: "key_of (with_map h m1 s) hb key" "not_forced (with_map h m1 s)"
    using s(2,3) by (simp_all add: key_of_def not_forced_def)
  have l: "cilkrts_hyper_lookup ident hb (with_map h m1 s) = Inr (key, with_map h m1 s)"
    using hyper_lookup_there [OF m1(2) k, of hb key] m1(3) by simp
  obtain m2 where m2: "cilkrts_hyper_destroy hb (with_map h m1 s) = Inr ((), with_map h m2 (with_map h m1 s))"
      "has_map (with_map h m2 (with_map h m1 s)) h m2" "rm_map m2 = (rm_map m1)(key := None)"
    using hyper_destroy_leftmost [OF m1(2) k(1), of hb] m1(3) by auto
  have "rm_map m2 = rm_map m" using m1(3) m2(3) new(1) by auto
  moreover have "bindP (cilkrts_hyper_create hb) (\<lambda>_. bindP (cilkrts_hyper_lookup ident hb) (\<lambda>v.
      bindP (cilkrts_hyper_destroy hb) (\<lambda>_. ret v))) s = Inr (key, with_map h m2 (with_map h m1 s))"
    by (simp only: run_bindP m1(1) l m2(1) sum.case prod.case run_ret)
  ultimately show ?thesis using m2(2) by blast
qed

theorem create_lookup_destroy_witness:
  "\<exists>t. bindP (cilkrts_hyper_create 64) (\<lambda>_. bindP (cilkrts_hyper_lookup (\<lambda>_. 0) 64) (\<lambda>v.
       bindP (cilkrts_hyper_destroy 64) (\<lambda>_. ret v))) sample_hyper = Inr (80, t)"
  using create_lookup_destroy [OF sample_hyper_ok(1-3), of "\<lambda>_. 0"] sample_hyper_ok(4,5) by auto

text \<open>
  Destroying a reducer anywhere but on its leftmost strand, or one that the table does not know, ends
  the program with the error message about unsynced children.
\<close>

theorem destroy_off_leftmost_aborts:
  assumes "has_map s h m" "key_of s hb key" "\<forall>b. rm_map m key \<noteq> Some (b, key)"
  shows "cilkrts_hyper_destroy hb s = Inl Abort"
  using hyper_destroy_not_leftmost [OF assms] .

theorem destroy_off_leftmost_aborts_witness:
  "cilkrts_hyper_destroy 64 sample_hyper = Inl Abort"
  using destroy_off_leftmost_aborts [OF sample_hyper_ok(1,2)] sample_hyper_ok(4) by simp

text \<open>
  C20. Whatever sequence of registrations, lookups and removals a strand runs, in any order, as long as it
  returns: its map stays a well-formed table.
\<close>

theorem reducer_tables_stay_well_formed:
  assumes "has_map s h m" "not_forced s" "\<forall>op \<in> set ops. \<exists>key. key_of s (op_on op) key"
    and "rm_nelem m + length ops \<le> 2 ^ 60" "block (map (run_op ident) ops) s = Inr ((), t)"
  shows "\<exists>m'. has_map t h m'"
  using assms
proof (induction ops arbitrary: s m)
  case Nil
  then show ?case by (auto simp: run)
next
  case (Cons op ops)
  then obtain u key where u: "run_op ident op s = Inr ((), u)" "block (map (run_op ident) ops) u = Inr ((), t)"
      "key_of s (op_on op) key"
    by (auto simp: run split: sum.splits)
  with run_op_typed [OF Cons.prems(1) u(3) Cons.prems(2) _ u(1)] Cons.prems(4) obtain m' where m':
    "has_map u h m'" "rm_nelem m' \<le> rm_nelem m + 1" "hy_bases u = hy_bases s" "not_forced u" by auto
  have "\<forall>op \<in> set ops. \<exists>key. key_of u (op_on op) key" using Cons.prems(3) by (simp add: key_of_same [OF m'(3)])
  with Cons.IH [OF m'(1,4) this _ u(2)] m'(2) Cons.prems(4) show ?case by simp
qed

theorem reducer_tables_stay_well_formed_witness:
  "\<exists>t m. block (map (run_op (\<lambda>_. 0)) [Hyper_create 64, Hyper_destroy 64]) sample_hyper = Inr ((), t) \<and> has_map t 500 m"
proof -
  obtain m1 where m1: "cilkrts_hyper_create 64 sample_hyper = Inr ((), with_map 500 m1 sample_hyper)"
      "has_map (with_map 500 m1 sample_hyper) 500 m1" "rm_map m1 = [80 \<mapsto> (64, 80)]"
    using hyper_create_new [OF sample_hyper_ok(1,2)] sample_hyper_ok(4,5) by auto
  have k: "key_of (with_map 500 m1 sample_hyper) 64 80" using sample_hyper_ok(2) by (simp add: key_of_def)
  obtain t where "cilkrts_hyper_destroy 64 (with_map 500 m1 sample_hyper) = Inr ((), t)"
    using hyper_destroy_leftmost [OF m1(2) k] m1(3) by auto
  then have t: "block (map (run_op (\<lambda>_. 0)) [Hyper_create 64, Hyper_destroy 64]) sample_hyper = Inr ((), t)"
    by (simp only: list.map run_op.simps run_block_Cons run_block_Nil m1(1) sum.case prod.case)
  have "\<exists>m. has_map t 500 m"
    by (rule reducer_tables_stay_well_formed [OF sample_hyper_ok(1,3) _ _ t])
      (use sample_hyper_ok(2,5) in auto)
  with t show ?thesis by blast
qed

end
