(* ===== verification/Worker_Setup.thy ===== *)
theory Worker_Setup
  imports Signal_Tree
begin

text \<open>
  Making and destroying workers (the part of \<open>scheduler.c\<close> headed ``Initialization and startup'', the end of
  \<open>sysdep-unix.c\<close>): what a new worker looks like, which slots become system workers, how a user thread
  finds a free worker, the start of the runtime and the shutdown. The threads themselves are the operating system's and are
  left out; an I/O queue is the address of one (\<open>IO_Queue\<close> has its contents); the
  memory blocks of \<open>malloc\<close> that hold no object of the model only count.
\<close>

section \<open>Making a worker\<close>

text \<open>The memory of a worker before it is written; no field is read before \<open>make_worker\<close> has set it.\<close>

definition raw_worker :: worker where
  "raw_worker = \<lparr>wk_self = 0, wk_reducer_map = NULL, wk_current_stack_frame = NULL,
     wk_pedigree = \<lparr>ped_rank = 0, ped_parent = PNULL\<rparr>, wk_the = NULL, wk_magic_0 = 0,
     wk_lock = \<lparr>mx_lock = 0, mx_owner = NULL\<rparr>, wk_do_not_steal = 0,
     wk_steal_lock = \<lparr>mx_lock = 0, mx_owner = NULL\<rparr>, wk_next_frame_ff = NULL,
     wk_last_full_frame = NULL, wk_active_deque = NULL,
     wk_suspended_deques = \<lparr>dp_array = None, dp_size = 0, dp_capacity = 0\<rparr>,
     wk_resumable_deques = \<lparr>dp_array = None, dp_size = 0, dp_capacity = 0\<rparr>, wk_type = WORKER_FREE,
     wk_future_fiber_pool_idx = 0, wk_future_fiber_pool = replicate (nat MAX_FUTURE_FIBERS_IN_POOL) NULL,
     wk_scheduling_fiber = NULL, wk_io_queue = NULL, wk_rand_seed = 0, wk_post_suspend = No_fcn, wk_suspended_stack = NULL,
     wk_fiber_to_free = NULL, wk_pending_exception = NULL, wk_stats = NULL, wk_steal_failure_count = 0,
     wk_work_stolen = False, wk_signal_node = NULL, wk_original_pedigree_leaf = No_leaf, wk_magic_1 = 0\<rparr>"

definition written :: "ptr \<Rightarrow> ('s, unit) prog" where
  "written p = (if p = NULL then failP Segfault else ret ())"

definition fill_future_fiber_pool :: "ptr \<Rightarrow> (rts, unit) prog" where
  "fill_future_fiber_pool w = block (map (\<lambda>i. bindP (cilk_fiber_allocate w) (\<lambda>f.
     st_wk w (wk_future_fiber_pool_update (\<lambda>fs. fs[i := f])))) [0..<nat MAX_FUTURE_FIBERS_IN_POOL])"

definition make_worker_deques :: "ptr \<Rightarrow> (rts, unit) prog" where
  "make_worker_deques w = block [
     bindP cilkrts_malloc (\<lambda>d. st_wk w (wk_active_deque_update (\<lambda>_. d))),
     bindP (ld_g g_ltqsize) (\<lambda>ltqsize. block [
       bindP (ld_wk wk_active_deque w) (\<lambda>d. bindP (deque_init d ltqsize) (\<lambda>_. ret ())),
       deque_pool_init (w, SUSPENDED) ltqsize,
       deque_pool_init (w, RESUMABLE) ltqsize]),
     bindP (ld_wk wk_active_deque w) (deque_switch w)]"

definition make_worker_locks :: "ptr \<Rightarrow> (rts, unit) prog" where
  "make_worker_locks w = block [
     on_worker_lock w cilkrts_mutex_init,
     on_steal_lock w cilkrts_mutex_init,
     st_wk w (wk_do_not_steal_update (\<lambda>_. 0))]"

definition make_worker :: "int \<Rightarrow> ptr \<Rightarrow> (rts, ptr) prog" where
  "make_worker self w = result [
     written w,
     modify (\<lambda>s. s\<lparr>r_workers := (r_workers s)(w \<mapsto> raw_worker)\<rparr>),
     st_wk w (wk_self_update (\<lambda>_. self)),
     st_wk w (wk_pedigree_update (\<lambda>_. \<lparr>ped_rank = 1, ped_parent = PNULL\<rparr>)),
     bindP cilkrts_malloc written,
     on_part r_fm r_fm_update (cilkrts_frame_malloc_per_worker_init w),
     st_wk w (\<lambda>x. x\<lparr>wk_reducer_map := NULL, wk_current_stack_frame := NULL\<rparr>),
     st_wk w (\<lambda>x. x\<lparr>wk_magic_0 := WORKER_MAGIC_0, wk_type := WORKER_FREE\<rparr>),
     make_worker_locks w,
     st_wk w (\<lambda>x. x\<lparr>wk_next_frame_ff := NULL, wk_last_full_frame := NULL\<rparr>),
     make_worker_deques w,
     st_wk w (wk_future_fiber_pool_idx_update (\<lambda>_. - 1)),
     fill_future_fiber_pool w,
     st_wk w (wk_future_fiber_pool_idx_update (\<lambda>_. MAX_FUTURE_FIBERS_IN_POOL - 1)),
     st_wk w (\<lambda>x. x\<lparr>wk_scheduling_fiber := NULL, wk_original_pedigree_leaf := No_leaf, wk_rand_seed := 0\<rparr>),
     st_wk w (\<lambda>x. x\<lparr>wk_post_suspend := No_fcn, wk_suspended_stack := NULL, wk_fiber_to_free := NULL,
       wk_pending_exception := NULL\<rparr>),
     bindP cilkrts_malloc (\<lambda>p. block [st_wk w (wk_stats_update (\<lambda>_. p)), written p]),
     st_wk w (\<lambda>x. x\<lparr>wk_steal_failure_count := 0, wk_work_stolen := False, wk_signal_node := NULL,
       wk_magic_1 := WORKER_MAGIC_1\<rparr>),
     bindP (ld_wk wk_the w) (\<lambda>d. bindP (ld_dq (\<lambda>x. length (dq_ltq x)) d) (\<lambda>limit.
       cilkrts_restore_stealing w (int limit))),
     reset_THE_exception w]
   (ret w)"

definition make_worker_system :: "ptr \<Rightarrow> (rts, unit) prog" where
  "make_worker_system w = block [
     bindP (ld_wk wk_type w) (\<lambda>ty. CILK_ASSERT ''WORKER_FREE == w->l->type'' (ty = WORKER_FREE)),
     st_wk w (wk_type_update (\<lambda>_. WORKER_SYSTEM)),
     bindP signal_node_create (\<lambda>n. st_wk w (wk_signal_node_update (\<lambda>_. n)))]"

text \<open>\<open>new_io_queue\<close> asserts that the system call \<open>eventfd\<close> gave a descriptor, which is taken for granted here.\<close>

definition io_queue_memory :: "(rts, ptr) prog" where
  "io_queue_memory = bindP cilkrts_malloc (\<lambda>q. result [written q] (ret q))"

definition make_worker_io :: "ptr \<Rightarrow> (rts, unit) prog" where
  "make_worker_io w = block [
     bindP (ld_wk wk_type w) (\<lambda>ty. CILK_ASSERT ''WORKER_FREE == w->l->type'' (ty = WORKER_FREE)),
     st_wk w (wk_type_update (\<lambda>_. WORKER_IO)),
     bindP io_queue_memory (\<lambda>q. st_wk w (wk_io_queue_update (\<lambda>_. q)))]"

section \<open>Destroying a worker\<close>

definition destroy_worker :: "ptr \<Rightarrow> (rts, unit) prog" where
  "destroy_worker w = block [
     bindP (ld_wk wk_pending_exception w) (\<lambda>e. CILK_ASSERT ''NULL == w->l->pending_exception'' (e = NULL)),
     bindP (ld_wk wk_scheduling_fiber w) (\<lambda>f. whenP (f \<noteq> NULL) (block [
       bindP (ld_wk wk_type w) (\<lambda>ty. CILK_ASSERT ''WORKER_FREE == w->l->type'' (ty = WORKER_FREE)),
       bindP (cilk_fiber_remove_reference f NULL) (\<lambda>ref_count. CILK_ASSERT ''0 == ref_count'' (ref_count = 0)),
       st_wk w (wk_scheduling_fiber_update (\<lambda>_. NULL))])),
     bindP (ld_wk wk_stats w) (\<lambda>p. CILK_ASSERT ''NULL == w->l->stats'' (p = NULL)),
     bindP (ld_wk (\<lambda>x. (wk_future_fiber_pool_idx x, wk_future_fiber_pool x)) w) (\<lambda>(idx, fs).
       block (map (\<lambda>f. bindP (cilk_fiber_remove_reference f NULL) (\<lambda>_. ret ())) (take (nat (idx + 1)) fs))),
     st_wk w (wk_future_fiber_pool_idx_update (\<lambda>_. - 1)),
     bindP (ld_wk wk_signal_node w) (\<lambda>n. whenP (n \<noteq> NULL) (block [
       bindP (ld_wk wk_type w) (\<lambda>ty. CILK_ASSERT ''WORKER_SYSTEM == w->l->type'' (ty = WORKER_SYSTEM)),
       signal_node_destroy n])),
     bindP (ld_wk wk_the w) (\<lambda>d. ld_dq (\<lambda>_. ()) d),
     deque_pool_free (w, SUSPENDED),
     deque_pool_free (w, RESUMABLE),
     bindP (ld_wk wk_active_deque w) (\<lambda>d. modify (\<lambda>s. s\<lparr>r_deques := (r_deques s)(d := None)\<rparr>)),
     on_part r_fm r_fm_update (cilkrts_frame_malloc_per_worker_cleanup w),
     modify (\<lambda>s. s\<lparr>r_workers := (r_workers s)(w := None)\<rparr>)]"

section \<open>The workers of the runtime\<close>

text \<open>Worker \<open>i\<close> hands its requests to the I/O worker \<open>n\<close> slots further on.\<close>

definition associate_io_worker :: "nat \<Rightarrow> nat \<Rightarrow> (rts, unit) prog" where
  "associate_io_worker n i = bindP (worker_no (int i)) (\<lambda>w. bindP (worker_no (int (i + n))) (\<lambda>v.
     bindP (ld_wk wk_io_queue v) (\<lambda>q. st_wk w (wk_io_queue_update (\<lambda>_. q)))))"

text \<open>\<open>workers_memory\<close> is one block of \<open>malloc\<close> in the code; here it is a block for each worker.\<close>

definition init_workers :: "(rts, unit) prog" where
  "init_workers =
     bindP (ld_g (\<lambda>g. nat (g_total_workers g))) (\<lambda>total_workers.
     bindP cilkrts_malloc (\<lambda>table. block [
       written table,
       st_g (g_workers_update (\<lambda>_. replicate (2 * total_workers) NULL)),
       block (map (\<lambda>i. bindP cilkrts_malloc (\<lambda>p. bindP (make_worker (int i) p) (\<lambda>w.
         st_g (g_workers_update (\<lambda>ws. ws[i := w]))))) [0..<2 * total_workers]),
       block (map (\<lambda>i. bindP (worker_no (int i)) make_worker_system) [1..<total_workers]),
       bindP (ld_g g_io_mode) (\<lambda>m. whenP (m \<noteq> IO_MODE_NORMAL) (block [
         block (map (\<lambda>i. bindP (worker_no (int i)) make_worker_io) [total_workers..<2 * total_workers]),
         block (map (associate_io_worker total_workers) [0..<total_workers])]))]))"

text \<open>The memory of the operating system's threads; making the threads changes no state of the model.\<close>

definition cilkrts_init_global_sysdep :: "(rts, unit) prog" where
  "cilkrts_init_global_sysdep = block [
     bindP (ld_g (\<lambda>g. g_total_workers g \<ge> g_P g - 1)) (CILK_ASSERT ''g->total_workers >= g->P - 1''),
     bindP cilkrts_malloc (\<lambda>p. CILK_ASSERT ''g->sysdep'' (p \<noteq> NULL)),
     bindP cilkrts_malloc (\<lambda>p. block [
       st_g (g_threads_update (\<lambda>_. p)),
       CILK_ASSERT ''g->sysdep->threads'' (p \<noteq> NULL)])]"

definition cilkrts_start_workers :: "int \<Rightarrow> (rts, unit) prog" where
  "cilkrts_start_workers n = block [
     st_g (g_workers_running_update (\<lambda>_. True)),
     st_g (g_work_done_update (\<lambda>_. False))]"

text \<open>The settings (\<open>cilkg_init_global_state\<close>) are already in \<open>r_g\<close>.\<close>

definition cilkrts_init_internal :: "bool \<Rightarrow> (rts, unit) prog" where
  "cilkrts_init_internal start = block [
     bindP (ld_g g_published) (\<lambda>published. whenP (\<not> published) (block [
       init_workers,
       cilkrts_init_global_sysdep,
       st_g (g_published_update (\<lambda>_. True))])),
     bindP (ld_g g_workers_running) (\<lambda>running. whenP (start \<and> \<not> running)
       (bindP (ld_g g_P) (\<lambda>p. cilkrts_start_workers (p - 1))))]"

text \<open>The threads that are woken here are joined; that they end is the operating system's.\<close>

definition cilkrts_stop_workers :: "(rts, unit) prog" where
  "cilkrts_stop_workers = block [
     st_g (g_work_done_update (\<lambda>_. True)),
     bindP (ld_g (\<lambda>g. g_workers_running g \<and> g_threads g \<noteq> NULL)) (\<lambda>running. whenP running (block [
       bindP (ld_g g_P) (\<lambda>p. whenP (p > 1)
         (bindP (worker_no 0) (\<lambda>w0. bindP (ld_wk wk_signal_node w0) (\<lambda>n. block [
           CILK_ASSERT ''g->workers[0]->l->signal_node'' (n \<noteq> NULL),
           signal_node_msg n 1])))),
       st_g (g_workers_running_update (\<lambda>_. False))]))]"

definition cilkrts_deinit_internal :: "(rts, unit) prog" where
  "cilkrts_deinit_internal = block [
     bindP (worker_no 1) (\<lambda>w. bindP (current_ff w) (\<lambda>ff. whenP (ff \<noteq> NULL) (block [
       cilkrts_destroy_full_frame w ff,
       set_current_ff w NULL]))),
     st_g (g_threads_update (\<lambda>_. NULL)),
     bindP (ld_g (\<lambda>g. nat (g_total_workers g))) (\<lambda>n.
       block (map (\<lambda>i. bindP (worker_no (int i)) destroy_worker) [0..<2 * n])),
     st_g (g_workers_update (\<lambda>_. [])),
     on_part r_fm r_fm_update cilkrts_frame_malloc_global_cleanup,
     st_g (g_published_update (\<lambda>_. False))]"

definition cilkrts_end_cilk :: "(rts, unit) prog" where
  "cilkrts_end_cilk = bindP (ld_g g_published) (\<lambda>published. whenP published
     (bindP (ld_g g_Q) (\<lambda>q. bindP (gets r_tls) (\<lambda>w. block [
       whenP (q \<noteq> 0 \<or> w \<noteq> NULL) (cilkrts_bug ''Attempt to shut down Cilk while Cilk is still running''),
       cilkrts_stop_workers,
       cilkrts_deinit_internal]))))"

section \<open>A worker for a user thread\<close>

definition take_worker :: "ptr \<Rightarrow> (rts, ptr) prog" where
  "take_worker w = result [
     st_wk w (wk_type_update (\<lambda>_. WORKER_USER)),
     bindP (ld_wk wk_active_deque w) (\<lambda>d. st_dq d (dq_team_update (\<lambda>_. w)))]
   (ret w)"

primrec scan_for_free_worker :: "int list \<Rightarrow> (rts, ptr option) prog" where
  "scan_for_free_worker [] = ret None"
| "scan_for_free_worker (i # is) =
     bindP (worker_no i) (\<lambda>w. bindP (ld_wk wk_type w) (\<lambda>ty. result [
       CILK_ASSERT ''WORKER_SYSTEM != w->l->type'' (ty \<noteq> WORKER_SYSTEM)]
      (if ty = WORKER_FREE then bindP (take_worker w) (\<lambda>w. ret (Some w)) else scan_for_free_worker is)))"

definition find_free_worker :: "(rts, ptr) prog" where
  "find_free_worker = bindP (ld_g g_total_workers) (\<lambda>n.
     bindP (scan_for_free_worker [0..n - 1]) (\<lambda>found. case found of
       Some w \<Rightarrow> ret w
     | None \<Rightarrow> bindP cilkrts_malloc (\<lambda>w. bindP (make_worker (- 1) w) take_worker)))"

definition cilkrts_unbind_thread :: "(rts, unit) prog" where
  "cilkrts_unbind_thread = bindP (ld_g g_published) (\<lambda>published. whenP published
     (bindP (gets r_tls) (\<lambda>w. whenP (w \<noteq> NULL) (block [
       modify (\<lambda>s. s\<lparr>r_tls := NULL\<rparr>),
       bindP (ld_wk wk_self w) (\<lambda>self. if self = - 1 then destroy_worker w
         else block [st_wk w (wk_type_update (\<lambda>_. WORKER_FREE)), cilkrts_leave_cilk])]))))"

section \<open>What a new worker is\<close>

definition empty_pool :: "nat \<Rightarrow> deque_pool" where
  "empty_pool n = \<lparr>dp_array = Some (replicate n NULL), dp_size = 0, dp_capacity = n\<rparr>"

definition idle_deque :: "nat \<Rightarrow> ptr \<Rightarrow> deque" where
  "idle_deque n w = zero_deque\<lparr>dq_ltq := replicate n NULL, dq_fiber_ltq := replicate n NULL,
     dq_protected_tail := int n, dq_fiber_protected_tail := int n, dq_worker := w, dq_self := ACTIVE_DEQUE_INDEX\<rparr>"

lemma deque_init_ok:
  assumes "d \<noteq> NULL" "2 \<le> r_mem_left s"
  shows "deque_init d n s = Inr (0, s\<lparr>r_deques := (r_deques s)(d \<mapsto> (idle_deque n NULL)\<lparr>dq_self := 0\<rparr>),
     r_brk := r_brk s + 2, r_mem_left := r_mem_left s - 2\<rparr>)"
  using assms by (simp add: deque_init_def run idle_deque_def zero_deque_def)

lemma pool_eta: "p\<lparr>dp_size := 0, dp_capacity := n, dp_array := Some (replicate n NULL)\<rparr> = empty_pool n"
  by (cases p) (simp add: empty_pool_def)

lemma pool_init_ok:
  assumes "worker_at s w = Some x" "0 < n" "1 \<le> r_mem_left s"
  shows "deque_pool_init (w, k) n s = Inr ((), s\<lparr>r_brk := r_brk s + 1, r_mem_left := r_mem_left s - 1,
     r_workers := (r_workers s)(w \<mapsto> set_pool k (empty_pool n) x)\<rparr>)"
  using assms by (cases k) (auto simp: deque_pool_init_def pool_resize_def ld_pool_def st_pool_def run pool_eta
    dest: deref_SomeD)

text \<open>
  What making the worker \<open>w\<close> leaves alone: other workers and the deques there were. It takes \<open>k\<close> blocks
  of memory.
\<close>

definition grows :: "ptr \<Rightarrow> nat \<Rightarrow> rts \<Rightarrow> rts \<Rightarrow> bool" where
  "grows w k s t \<longleftrightarrow> (\<forall>v. v \<noteq> w \<longrightarrow> r_workers t v = r_workers s v) \<and> (\<forall>e \<le> r_brk s. r_deques t e = r_deques s e)
     \<and> r_brk t = r_brk s + k \<and> r_mem_left s = r_mem_left t + k \<and> r_g t = r_g s \<and> r_nodes t = r_nodes s \<and> r_tls t = r_tls s"

lemma grows_trans: "grows w j s t \<Longrightarrow> grows w k t u \<Longrightarrow> i = j + k \<Longrightarrow> grows w i s u"
  by (auto simp: grows_def)

lemma growsD: "grows w k s t \<Longrightarrow> r_brk t = r_brk s + k \<and> r_mem_left t = r_mem_left s - k \<and> r_g t = r_g s"
  by (simp add: grows_def)

lemma pool_init_grows:
  assumes "worker_at s w = Some x" "0 < n" "1 \<le> r_mem_left s"
  shows "\<exists>t. deque_pool_init (w, k) n s = Inr ((), t) \<and> worker_at t w = Some (set_pool k (empty_pool n) x)
     \<and> r_deques t = r_deques s \<and> grows w 1 s t"
proof -
  have "w \<noteq> NULL" using assms(1) by (auto dest: deref_SomeD)
  then show ?thesis unfolding pool_init_ok [OF assms] using assms(3) by (auto simp: grows_def)
qed

text \<open>A worker with its deque; \<open>deque_switch\<close> gives it the pedigree that the new deque has saved, of rank 0.\<close>

definition with_deque :: "ptr \<Rightarrow> nat \<Rightarrow> worker \<Rightarrow> worker" where
  "with_deque d n x = x\<lparr>wk_active_deque := d, wk_the := d, wk_suspended_deques := empty_pool n,
     wk_resumable_deques := empty_pool n, wk_pedigree := \<lparr>ped_rank = 0, ped_parent = PNULL\<rparr>,
     wk_current_stack_frame := NULL\<rparr>"

text \<open>The deque of a new worker is made above the old break, so no other deque changes.\<close>

lemma deque_switch_new:
  assumes "worker_at s w = Some x" "wk_active_deque x = d" "deque_at s d = Some ((idle_deque n NULL)\<lparr>dq_self := 0\<rparr>)"
  shows "\<exists>t. deque_switch w d s = Inr ((), t) \<and> deque_at t d = Some (idle_deque n w)
     \<and> worker_at t w = Some (x\<lparr>wk_the := d, wk_pedigree := \<lparr>ped_rank = 0, ped_parent = PNULL\<rparr>, wk_current_stack_frame := NULL\<rparr>)
     \<and> (\<forall>v. v \<noteq> w \<longrightarrow> r_workers t v = r_workers s v) \<and> (\<forall>e. e \<noteq> d \<longrightarrow> r_deques t e = r_deques s e)
     \<and> r_brk t = r_brk s \<and> r_mem_left t = r_mem_left s \<and> r_g t = r_g s \<and> r_nodes t = r_nodes s \<and> r_tls t = r_tls s"
proof -
  have "d \<noteq> NULL" "w \<noteq> NULL" using assms by (auto dest: deref_SomeD)
  with assms show ?thesis
    by (simp add: deque_switch_def run idle_deque_def zero_deque_def)
qed

lemma make_worker_deques_ok:
  assumes x: "worker_at s w = Some x" and n: "0 < g_ltqsize (r_g s)" and m: "5 \<le> r_mem_left s"
  shows "\<exists>d t. make_worker_deques w s = Inr ((), t) \<and> r_brk s < d \<and> d \<le> r_brk t \<and> grows w 5 s t
     \<and> worker_at t w = Some (with_deque d (g_ltqsize (r_g s)) x) \<and> deque_at t d = Some (idle_deque (g_ltqsize (r_g s)) w)"
proof -
  let ?n = "g_ltqsize (r_g s)"
  obtain d where d: "d = r_brk s + 1" "d \<noteq> NULL" by simp
  let ?x1 = "x\<lparr>wk_active_deque := d\<rparr>"
  let ?x2 = "set_pool SUSPENDED (empty_pool ?n) ?x1"
  let ?x3 = "set_pool RESUMABLE (empty_pool ?n) ?x2"
  have w: "w \<noteq> NULL" using x by (auto dest: deref_SomeD)
  obtain s1 where e1: "bindP cilkrts_malloc (\<lambda>d. st_wk w (wk_active_deque_update (\<lambda>_. d))) s = Inr ((), s1)"
      "r_workers s1 = (r_workers s)(w \<mapsto> ?x1)" "r_deques s1 = r_deques s"
      "r_brk s1 = r_brk s + 1" "r_mem_left s1 = r_mem_left s - 1" "r_g s1 = r_g s" "r_nodes s1 = r_nodes s" "r_tls s1 = r_tls s"
    using x m w d by (simp add: run)
  then have s1: "bindP cilkrts_malloc (\<lambda>d. st_wk w (wk_active_deque_update (\<lambda>_. d))) s = Inr ((), s1)"
      "worker_at s1 w = Some ?x1" "grows w 1 s s1"
    using w m by (auto simp: grows_def)
  obtain s2 where s2: "deque_init d ?n s1 = Inr (0, s2)" "worker_at s2 w = Some ?x1"
      "deque_at s2 d = Some ((idle_deque ?n NULL)\<lparr>dq_self := 0\<rparr>)" "r_brk s2 = r_brk s + 3" "r_mem_left s2 = r_mem_left s - 3"
      "r_g s2 = r_g s" "\<forall>v. r_workers s2 v = r_workers s1 v" "\<forall>e. e \<noteq> d \<longrightarrow> r_deques s2 e = r_deques s1 e"
      "r_nodes s2 = r_nodes s" "r_tls s2 = r_tls s"
    using deque_init_ok [of d s1 ?n] m s1 d by (auto simp: grows_def)
  have m2: "1 \<le> r_mem_left s2" using s2(5) m by linarith
  have g2: "grows w 3 s s2" using s1(3) s2(4-) d m by (auto simp: grows_def)
  obtain s3 where s3: "deque_pool_init (w, SUSPENDED) ?n s2 = Inr ((), s3)" "worker_at s3 w = Some ?x2"
      "r_deques s3 = r_deques s2" "grows w 1 s2 s3"
    using pool_init_grows [OF s2(2) n m2, of SUSPENDED] by auto
  have m3: "1 \<le> r_mem_left s3" using growsD [OF s3(4)] s2(5) m by auto
  obtain s4 where s4: "deque_pool_init (w, RESUMABLE) ?n s3 = Inr ((), s4)" "worker_at s4 w = Some ?x3"
      "r_deques s4 = r_deques s2" "grows w 1 s3 s4"
    using pool_init_grows [OF s3(2) n m3, of RESUMABLE] s3(3) by auto
  have d4: "deque_at s4 d = Some ((idle_deque ?n NULL)\<lparr>dq_self := 0\<rparr>)" using s2(3) s4(3) by simp
  have g4: "grows w 5 s s4" using grows_trans [OF grows_trans [OF g2 s3(4)] s4(4)] by simp
  obtain t where t: "deque_switch w d s4 = Inr ((), t)" "deque_at t d = Some (idle_deque ?n w)"
     "worker_at t w = Some (?x3\<lparr>wk_the := d, wk_pedigree := \<lparr>ped_rank = 0, ped_parent = PNULL\<rparr>, wk_current_stack_frame := NULL\<rparr>)"
     "\<forall>v. v \<noteq> w \<longrightarrow> r_workers t v = r_workers s4 v" "\<forall>e. e \<noteq> d \<longrightarrow> r_deques t e = r_deques s4 e"
     "r_brk t = r_brk s4" "r_mem_left t = r_mem_left s4" "r_g t = r_g s4" "r_nodes t = r_nodes s4" "r_tls t = r_tls s4"
    using deque_switch_new [OF s4(2) _ d4] by auto
  have gt: "grows w 5 s t" using g4 t(4-) d(1) by (auto simp: grows_def)
  have reads: "ld_g g_ltqsize s1 = Inr (?n, s1)" "ld_wk wk_active_deque w s1 = Inr (d, s1)" "ld_wk wk_active_deque w s4 = Inr (d, s4)"
    using s1 s4(2) by (simp_all add: run grows_def)
  have "make_worker_deques w s = Inr ((), t)"
    unfolding make_worker_deques_def run_block_Cons s1(1)
    by (simp add: run_bindP run_block_Cons run_block_Nil run_ret reads s2(1) s3(1) s4(1) t(1))
  moreover have "worker_at t w = Some (with_deque d ?n x)" using t(3) by (simp add: with_deque_def)
  moreover have "r_brk s < d" "d \<le> r_brk t" using d(1) growsD [OF gt] by simp_all
  ultimately show ?thesis using t(2) gt by blast
qed

text \<open>The fibers for futures come from the supply as long as it lasts.\<close>

lemma fill_pool_ok:
  assumes "worker_at s w = Some x"
  shows "\<exists>fs t. fill_future_fiber_pool w s = Inr ((), t) \<and> worker_at t w = Some (x\<lparr>wk_future_fiber_pool := fs\<rparr>)
     \<and> r_deques t = r_deques s \<and> grows w 0 s t"
proof -
  have "\<exists>fs t. block (map (\<lambda>i. bindP (cilk_fiber_allocate w) (\<lambda>f.
        st_wk w (wk_future_fiber_pool_update (\<lambda>fs. fs[i := f])))) is) s = Inr ((), t)
      \<and> worker_at t w = Some (x\<lparr>wk_future_fiber_pool := fs\<rparr>) \<and> r_deques t = r_deques s \<and> grows w 0 s t" for "is"
    using assms
  proof (induction "is" arbitrary: s x)
    case Nil
    then show ?case by (auto simp: run grows_def intro!: exI [of _ "wk_future_fiber_pool x"])
  next
    case (Cons i "is")
    obtain f s1 where f: "cilk_fiber_allocate w s = Inr (f, s1)" "worker_at s1 w = Some x"
        "r_deques s1 = r_deques s" "grows w 0 s s1"
      using Cons.prems by (cases "r_fiber_supply s") (simp_all add: cilk_fiber_allocate_def run grows_def)
    let ?x = "wk_future_fiber_pool_update (\<lambda>fs. fs[i := f]) x"
    let ?s = "s1\<lparr>r_workers := (r_workers s1)(w \<mapsto> ?x)\<rparr>"
    have "w \<noteq> NULL" using f(2) by (auto dest: deref_SomeD)
    then have "worker_at ?s w = Some ?x" "grows w 0 s ?s" using f(4) by (auto simp: grows_def)
    with Cons.IH [OF this(1)] f(1-3) show ?case by (auto simp: run grows_def)
  qed
  then show ?thesis unfolding fill_future_fiber_pool_def .
qed

lemma per_worker_init_ok: "\<exists>f. cilkrts_frame_malloc_per_worker_init w c = Inr ((), f)"
proof -
  have "\<exists>f. block (map (\<lambda>i. block [write_loc (Worker_list w i) NULL, set_potential w i 0]) is) c = Inr ((), f)" for "is"
    by (induction "is" arbitrary: c) (auto simp: run set_potential_def)
  then show ?thesis unfolding cilkrts_frame_malloc_per_worker_init_def .
qed

text \<open>What \<open>make_worker\<close> promises.\<close>

definition idle_worker :: "worker \<Rightarrow> bool" where
  "idle_worker x \<longleftrightarrow> worker_unlocked x \<and> wk_steal_lock x = free_mutex \<and> wk_next_frame_ff x = NULL \<and> wk_reducer_map x = NULL
     \<and> wk_current_stack_frame x = NULL \<and> wk_scheduling_fiber x = NULL \<and> wk_pending_exception x = NULL
     \<and> wk_post_suspend x = No_fcn \<and> wk_fiber_to_free x = NULL \<and> wk_signal_node x = NULL \<and> wk_the x = wk_active_deque x
     \<and> dp_size (wk_suspended_deques x) = 0 \<and> dp_size (wk_resumable_deques x) = 0
     \<and> wk_pedigree x = \<lparr>ped_rank = 0, ped_parent = PNULL\<rparr>"

lemma make_worker_ok:
  assumes w: "w \<noteq> NULL" and n: "0 < g_ltqsize (r_g s)" and m: "7 \<le> r_mem_left s"
  shows "\<exists>t x d. make_worker self w s = Inr (w, t) \<and> worker_at t w = Some x \<and> idle_worker x
     \<and> wk_self x = self \<and> wk_type x = WORKER_FREE \<and> wk_io_queue x = NULL \<and> wk_stats x \<noteq> NULL \<and> wk_active_deque x = d
     \<and> deque_at t d = Some (idle_deque (g_ltqsize (r_g s)) w) \<and> r_brk s < d \<and> d \<le> r_brk t \<and> grows w 7 s t"
proof -
  let ?n = "g_ltqsize (r_g s)"
  obtain f where f: "cilkrts_frame_malloc_per_worker_init w (r_fm s) = Inr ((), f)" using per_worker_init_ok by blast
  let ?x1 = "raw_worker\<lparr>wk_self := self, wk_pedigree := \<lparr>ped_rank = 1, ped_parent = PNULL\<rparr>, wk_reducer_map := NULL,
     wk_current_stack_frame := NULL, wk_magic_0 := WORKER_MAGIC_0, wk_type := WORKER_FREE, wk_lock := free_mutex,
     wk_steal_lock := free_mutex, wk_do_not_steal := 0, wk_next_frame_ff := NULL, wk_last_full_frame := NULL\<rparr>"
  let ?before = "[
     written w,
     modify (\<lambda>s. s\<lparr>r_workers := (r_workers s)(w \<mapsto> raw_worker)\<rparr>),
     st_wk w (wk_self_update (\<lambda>_. self)),
     st_wk w (wk_pedigree_update (\<lambda>_. \<lparr>ped_rank = 1, ped_parent = PNULL\<rparr>)),
     bindP cilkrts_malloc written,
     on_part r_fm r_fm_update (cilkrts_frame_malloc_per_worker_init w),
     st_wk w (\<lambda>x. x\<lparr>wk_reducer_map := NULL, wk_current_stack_frame := NULL\<rparr>),
     st_wk w (\<lambda>x. x\<lparr>wk_magic_0 := WORKER_MAGIC_0, wk_type := WORKER_FREE\<rparr>),
     make_worker_locks w,
     st_wk w (\<lambda>x. x\<lparr>wk_next_frame_ff := NULL, wk_last_full_frame := NULL\<rparr>)]"
  obtain s1 where e1: "block ?before s = Inr ((), s1)" "r_workers s1 = (r_workers s)(w \<mapsto> ?x1)" "r_deques s1 = r_deques s"
      "r_brk s1 = r_brk s + 1" "r_mem_left s1 = r_mem_left s - 1" "r_g s1 = r_g s" "r_nodes s1 = r_nodes s" "r_tls s1 = r_tls s"
    using w m f
    by (simp add: run written_def make_worker_locks_def cilkrts_mutex_init_def free_mutex_def raw_worker_def)
  then have s1: "block ?before s = Inr ((), s1)" "worker_at s1 w = Some ?x1" "grows w 1 s s1"
    using w m by (auto simp: grows_def)
  have n1: "0 < g_ltqsize (r_g s1)" "5 \<le> r_mem_left s1" using n m s1(3) by (simp_all add: grows_def)
  obtain d s2 where s2: "make_worker_deques w s1 = Inr ((), s2)" "r_brk s1 < d" "d \<le> r_brk s2" "grows w 5 s1 s2"
      "worker_at s2 w = Some (with_deque d ?n ?x1)" "deque_at s2 d = Some (idle_deque ?n w)"
    using make_worker_deques_ok [OF s1(2) n1] growsD [OF s1(3)] by auto
  let ?x2 = "(with_deque d ?n ?x1)\<lparr>wk_future_fiber_pool_idx := - 1\<rparr>"
  obtain s3 where s3: "st_wk w (wk_future_fiber_pool_idx_update (\<lambda>_. - 1)) s2 = Inr ((), s3)"
      "worker_at s3 w = Some ?x2" "r_deques s3 = r_deques s2" "grows w 0 s2 s3"
    using s2(5) w by (auto simp: run grows_def)
  obtain fs s4 where s4: "fill_future_fiber_pool w s3 = Inr ((), s4)" "worker_at s4 w = Some (?x2\<lparr>wk_future_fiber_pool := fs\<rparr>)"
      "r_deques s4 = r_deques s2" "grows w 0 s3 s4"
    using fill_pool_ok [OF s3(2)] s3(3) by auto
  have g4: "grows w 6 s s4" using grows_trans [OF grows_trans [OF grows_trans [OF s1(3) s2(4)] s3(4)] s4(4)] by simp
  then have m4: "1 \<le> r_mem_left s4" using m by (simp add: grows_def)
  let ?after = "[
     st_wk w (wk_future_fiber_pool_idx_update (\<lambda>_. MAX_FUTURE_FIBERS_IN_POOL - 1)),
     st_wk w (\<lambda>x. x\<lparr>wk_scheduling_fiber := NULL, wk_original_pedigree_leaf := No_leaf, wk_rand_seed := 0\<rparr>),
     st_wk w (\<lambda>x. x\<lparr>wk_post_suspend := No_fcn, wk_suspended_stack := NULL, wk_fiber_to_free := NULL,
       wk_pending_exception := NULL\<rparr>),
     bindP cilkrts_malloc (\<lambda>p. block [st_wk w (wk_stats_update (\<lambda>_. p)), written p]),
     st_wk w (\<lambda>x. x\<lparr>wk_steal_failure_count := 0, wk_work_stolen := False, wk_signal_node := NULL,
       wk_magic_1 := WORKER_MAGIC_1\<rparr>),
     bindP (ld_wk wk_the w) (\<lambda>d. bindP (ld_dq (\<lambda>x. length (dq_ltq x)) d) (\<lambda>limit.
       cilkrts_restore_stealing w (int limit))),
     reset_THE_exception w]"
  have d4: "deque_at s4 d = Some (idle_deque ?n w)" "d \<noteq> NULL" using s2(6) s4(3) by (auto dest: deref_SomeD)
  let ?x = "?x2\<lparr>wk_future_fiber_pool := fs, wk_future_fiber_pool_idx := MAX_FUTURE_FIBERS_IN_POOL - 1,
     wk_scheduling_fiber := NULL, wk_original_pedigree_leaf := No_leaf, wk_rand_seed := 0,
     wk_post_suspend := No_fcn, wk_suspended_stack := NULL, wk_fiber_to_free := NULL, wk_pending_exception := NULL,
     wk_stats := r_brk s4 + 1, wk_steal_failure_count := 0, wk_work_stolen := False, wk_signal_node := NULL,
     wk_magic_1 := WORKER_MAGIC_1\<rparr>"
  obtain t where t': "block ?after s4 = Inr ((), t)" "r_workers t = (r_workers s4)(w \<mapsto> ?x)"
      "r_deques t = (r_deques s4)(d \<mapsto> idle_deque ?n w)" "r_brk t = r_brk s4 + 1"
      "r_mem_left t = r_mem_left s4 - 1" "r_g t = r_g s4" "r_nodes t = r_nodes s4" "r_tls t = r_tls s4"
    using s4(2) d4 w m4
    by (simp add: run written_def cilkrts_restore_stealing_def reset_THE_exception_def with_deque_def)
      (simp add: idle_deque_def zero_deque_def)
  then have t: "worker_at t w = Some ?x" "deque_at t d = Some (idle_deque ?n w)" using w d4(2) by simp_all
  have x: "idle_worker ?x" "wk_self ?x = self" "wk_type ?x = WORKER_FREE" "wk_io_queue ?x = NULL" "wk_stats ?x \<noteq> NULL" "wk_active_deque ?x = d"
    by (simp_all add: idle_worker_def worker_unlocked_def with_deque_def empty_pool_def raw_worker_def)
  have gt: "grows w 7 s t" using g4 t'(2-) m4 s2(2) growsD [OF s1(3)] by (auto simp: grows_def)
  let ?mid = "[make_worker_deques w, st_wk w (wk_future_fiber_pool_idx_update (\<lambda>_. - 1)), fill_future_fiber_pool w]"
  have mid: "block ?mid s1 = Inr ((), s4)"
    by (simp only: s2(1) s3(1) s4(1) run_block_Cons run_block_Nil sum.case prod.case)
  have "block (?before @ ?mid @ ?after) s = Inr ((), t)"
    unfolding block_append [of ?before] block_append [of ?mid] s1(1) mid sum.case prod.case t'(1) by (rule refl)
  moreover have "make_worker self w = result (?before @ ?mid @ ?after) (ret w)" by (simp add: make_worker_def)
  ultimately have "make_worker self w s = Inr (w, t)" by (simp only: run_result sum.case prod.case run_ret)
  moreover have "r_brk s < d" using s2(2) growsD [OF s1(3)] by simp
  moreover have "d \<le> r_brk t" using s2(3) growsD [OF s3(4)] growsD [OF s4(4)] t'(4) by simp
  ultimately show ?thesis using t x gt by blast
qed

section \<open>All workers\<close>

text \<open>
  \<open>role s ty q i w\<close>: the worker \<open>w\<close> in slot \<open>i\<close> is idle, of type \<open>ty i\<close>, with the I/O queue \<open>q i\<close>, with a signal node
  when it is a system worker and only then, and with an empty deque of its own that is open to thieves.
\<close>

definition role :: "rts \<Rightarrow> (nat \<Rightarrow> cilk_worker_type) \<Rightarrow> (nat \<Rightarrow> ptr) \<Rightarrow> nat \<Rightarrow> ptr \<Rightarrow> bool" where
  "role s ty q i w \<longleftrightarrow> w \<le> r_brk s \<and> (\<exists>x. worker_at s w = Some x \<and> idle_worker (x\<lparr>wk_signal_node := NULL\<rparr>) \<and> wk_self x = int i
     \<and> wk_type x = ty i \<and> wk_io_queue x = q i
     \<and> (wk_signal_node x \<noteq> NULL \<longleftrightarrow> ty i = WORKER_SYSTEM) \<and> wk_stats x \<noteq> NULL \<and> wk_active_deque x \<le> r_brk s
     \<and> deque_at s (wk_active_deque x) = Some (idle_deque (g_ltqsize (r_g s)) w))"

lemma role_grows:
  assumes "role s ty q i v" "grows w k s t" "v \<noteq> w"
  shows "role t ty q i v"
proof -
  have w: "r_workers t v = r_workers s v" and d: "\<And>e. e \<le> r_brk s \<Longrightarrow> r_deques t e = r_deques s e"
    and b: "r_brk s \<le> r_brk t" "r_g t = r_g s"
    using assms(2,3) by (auto simp: grows_def)
  obtain x where x: "v \<le> r_brk s" "worker_at s v = Some x" "idle_worker (x\<lparr>wk_signal_node := NULL\<rparr>)" "wk_self x = int i"
      "wk_type x = ty i" "wk_io_queue x = q i"
      "wk_signal_node x \<noteq> NULL \<longleftrightarrow> ty i = WORKER_SYSTEM" "wk_stats x \<noteq> NULL" "wk_active_deque x \<le> r_brk s"
      "deque_at s (wk_active_deque x) = Some (idle_deque (g_ltqsize (r_g s)) v)"
    using assms(1) unfolding role_def by blast
  have "worker_at t v = Some x" "deque_at t (wk_active_deque x) = Some (idle_deque (g_ltqsize (r_g t)) v)"
    using x(2,10) w d [OF x(9)] b(2) by (auto simp: deref_def split: if_splits)
  with x b(1) show ?thesis unfolding role_def by (intro conjI exI [of _ x]) auto
qed

lemma idle_signal: "idle_worker x \<Longrightarrow> wk_signal_node x = NULL \<and> idle_worker (x\<lparr>wk_signal_node := NULL\<rparr>)"
  by (simp add: idle_worker_def worker_unlocked_def)

definition slots :: "rts \<Rightarrow> (nat \<Rightarrow> cilk_worker_type) \<Rightarrow> (nat \<Rightarrow> ptr) \<Rightarrow> nat \<Rightarrow> bool" where
  "slots s ty q k \<longleftrightarrow> k \<le> length (g_workers (r_g s)) \<and> (\<forall>i < k. role s ty q i (g_workers (r_g s) ! i))
     \<and> (\<forall>i < k. \<forall>j < k. i \<noteq> j \<longrightarrow> g_workers (r_g s) ! i \<noteq> g_workers (r_g s) ! j)"

abbreviation all_free :: "nat \<Rightarrow> cilk_worker_type" where "all_free \<equiv> \<lambda>_. WORKER_FREE"
abbreviation no_queues :: "nat \<Rightarrow> ptr" where "no_queues \<equiv> \<lambda>_. NULL"

lemma make_slot_ok:
  assumes s: "slots s all_free no_queues k" "k < length (g_workers (r_g s))" "0 < g_ltqsize (r_g s)" "8 \<le> r_mem_left s"
  shows "\<exists>t ws. bindP cilkrts_malloc (\<lambda>p. bindP (make_worker (int k) p) (\<lambda>w.
        st_g (g_workers_update (\<lambda>ws. ws[k := w])))) s = Inr ((), t) \<and> slots t all_free no_queues (Suc k)
     \<and> r_g t = (r_g s)\<lparr>g_workers := ws\<rparr> \<and> length ws = length (g_workers (r_g s)) \<and> r_mem_left t = r_mem_left s - 8 \<and> r_tls t = r_tls s"
proof -
  let ?w = "r_brk s + 1"
  let ?s = "s\<lparr>r_brk := ?w, r_mem_left := r_mem_left s - 1\<rparr>"
  have m: "cilkrts_malloc s = Inr (?w, ?s)" using s(4) by (simp add: run)
  have "?w \<noteq> NULL" "0 < g_ltqsize (r_g ?s)" "7 \<le> r_mem_left ?s" using s(3,4) by simp_all
  from make_worker_ok [OF this, of "int k"] obtain u x d where u: "make_worker (int k) ?w ?s = Inr (?w, u)" "worker_at u ?w = Some x" "idle_worker x" "wk_self x = int k"
      "wk_type x = WORKER_FREE" "wk_io_queue x = NULL" "wk_stats x \<noteq> NULL" "wk_active_deque x = d"
      "deque_at u d = Some (idle_deque (g_ltqsize (r_g s)) ?w)" "?w < d" "d \<le> r_brk u" "grows ?w 7 ?s u"
    by auto
  let ?ws = "(g_workers (r_g s))[k := ?w]"
  let ?t = "u\<lparr>r_g := (r_g u)\<lparr>g_workers := ?ws\<rparr>\<rparr>"
  have g: "r_g u = r_g s" "r_brk u = r_brk s + 8" "r_mem_left u = r_mem_left s - 8" "r_tls u = r_tls s"
    using u(12) s(4) by (auto simp: grows_def)
  have "bindP cilkrts_malloc (\<lambda>p. bindP (make_worker (int k) p) (\<lambda>w.
        st_g (g_workers_update (\<lambda>ws. ws[k := w])))) s = Inr ((), ?t)"
    using m u(1) g by (simp add: run_bindP run_modify)
  moreover have "slots ?t all_free no_queues (Suc k)"
  proof -
    have le: "g_workers (r_g s) ! i \<le> r_brk s" if "i < k" for i using s(1) that by (simp add: slots_def role_def)
    have old: "role ?t all_free no_queues i (g_workers (r_g s) ! i)" if "i < k" for i
    proof -
      have r: "role s all_free no_queues i (g_workers (r_g s) ! i)" using s(1) that by (simp add: slots_def)
      then have "role ?s all_free no_queues i (g_workers (r_g s) ! i)" by (auto simp: role_def)
      from role_grows [OF this u(12)] le [OF that] have "role u all_free no_queues i (g_workers (r_g s) ! i)" by simp
      then show ?thesis by (simp add: role_def)
    qed
    have new: "role ?t all_free no_queues k ?w"
      using u g idle_signal [OF u(3)] unfolding role_def by (intro conjI exI [of _ x]) auto
    have at: "?ws ! i = (if i = k then ?w else g_workers (r_g s) ! i)" if "i < Suc k" for i using that s(2) by (simp add: nth_list_update)
    have ne: "g_workers (r_g s) ! i \<noteq> ?w" "?w \<noteq> g_workers (r_g s) ! i" if "i < k" for i using le [OF that] by simp_all
    have "g_workers (r_g s) ! i \<noteq> g_workers (r_g s) ! j" if "i < k" "j < k" "i \<noteq> j" for i j
      using s(1) that by (simp add: slots_def)
    then show ?thesis unfolding slots_def using old new s(2) ne at by (auto simp: less_Suc_eq)
  qed
  moreover have "r_g ?t = (r_g s)\<lparr>g_workers := ?ws\<rparr>" "length ?ws = length (g_workers (r_g s))"
    "r_mem_left ?t = r_mem_left s - 8" "r_tls ?t = r_tls s" using g by simp_all
  ultimately show ?thesis by blast
qed

lemma make_slots_ok:
  assumes "length (g_workers (r_g s)) = n" "0 < g_ltqsize (r_g s)" "8 * n \<le> r_mem_left s"
  shows "\<exists>t. block (map (\<lambda>i. bindP cilkrts_malloc (\<lambda>p. bindP (make_worker (int i) p) (\<lambda>w.
        st_g (g_workers_update (\<lambda>ws. ws[i := w]))))) [0..<n]) s = Inr ((), t) \<and> slots t all_free no_queues n
     \<and> (\<exists>ws. r_g t = (r_g s)\<lparr>g_workers := ws\<rparr> \<and> length ws = n) \<and> r_mem_left t = r_mem_left s - 8 * n \<and> r_tls t = r_tls s"
proof (rule block_upt [where a = 0 and P = "\<lambda>k t. slots t all_free no_queues k
     \<and> (\<exists>ws. r_g t = (r_g s)\<lparr>g_workers := ws\<rparr> \<and> length ws = n) \<and> r_mem_left t = r_mem_left s - 8 * k \<and> r_tls t = r_tls s"], goal_cases)
  case 2
  then show ?case using assms(1) by (auto simp: slots_def intro!: exI [of _ "g_workers (r_g s)"])
next
  case (3 k u)
  then obtain ws where u: "slots u all_free no_queues k" "r_g u = (r_g s)\<lparr>g_workers := ws\<rparr>" "length ws = n"
      "r_mem_left u = r_mem_left s - 8 * k" "r_tls u = r_tls s" by auto
  have "k < length (g_workers (r_g u))" "0 < g_ltqsize (r_g u)" "8 \<le> r_mem_left u"
    using 3(2) u assms(2,3) by simp_all
  from make_slot_ok [OF u(1) this] u(2-5) show ?case by fastforce
qed simp

lemma worker_no_slot: "slots s ty q k \<Longrightarrow> i < k \<Longrightarrow> worker_no (int i) s = Inr (g_workers (r_g s) ! i, s)"
  by (simp add: worker_no_def slots_def run)

text \<open>One worker gets another type, signal node or queue.\<close>

lemma slot_changes:
  assumes s: "slots s ty q k" "n < k" and x: "worker_at s (g_workers (r_g s) ! n) = Some x"
    and t: "r_workers t = (r_workers s)(g_workers (r_g s) ! n \<mapsto> y)" "r_deques t = r_deques s" "r_g t = r_g s"
      "r_brk s \<le> r_brk t"
    and y: "y = x\<lparr>wk_type := wk_type y, wk_signal_node := wk_signal_node y, wk_io_queue := wk_io_queue y\<rparr>"
      "wk_signal_node y \<noteq> NULL \<longleftrightarrow> wk_type y = WORKER_SYSTEM"
  shows "slots t (ty(n := wk_type y)) (q(n := wk_io_queue y)) k"
proof -
  let ?w = "g_workers (r_g s) ! n"
  have w: "?w \<noteq> NULL" using x by (auto dest: deref_SomeD)
  have role: "role s ty q i (g_workers (r_g s) ! i)" if "i < k" for i using s(1) that by (simp add: slots_def)
  obtain x' where x': "worker_at s ?w = Some x'" "idle_worker (x'\<lparr>wk_signal_node := NULL\<rparr>)" "wk_self x' = int n"
      "wk_stats x' \<noteq> NULL" "wk_active_deque x' \<le> r_brk s" "?w \<le> r_brk s"
      "deque_at s (wk_active_deque x') = Some (idle_deque (g_ltqsize (r_g s)) ?w)"
    using role [OF s(2)] unfolding role_def by blast
  have [simp]: "x' = x" using x x'(1) by simp
  have keep: "wk_self y = wk_self x" "wk_stats y = wk_stats x" "wk_active_deque y = wk_active_deque x"
      "idle_worker (y\<lparr>wk_signal_node := NULL\<rparr>) = idle_worker (x\<lparr>wk_signal_node := NULL\<rparr>)"
    by (subst y(1); simp add: idle_worker_def worker_unlocked_def)+
  have "role t (ty(n := wk_type y)) (q(n := wk_io_queue y)) i (g_workers (r_g s) ! i)" if i: "i < k" for i
  proof (cases "i = n")
    case True
    have "worker_at t ?w = Some y" using t(1) w by simp
    then show ?thesis using x' t(2-4) keep y(2) True unfolding role_def
      by (intro conjI exI [of _ y]) (simp_all add: deref_def)
  next
    case False
    then have ne: "g_workers (r_g s) ! i \<noteq> ?w" using s i by (auto simp: slots_def)
    have "worker_at t (g_workers (r_g s) ! i) = worker_at s (g_workers (r_g s) ! i)" using ne t(1) by (simp add: deref_def)
    then show ?thesis using role [OF i] t(2-4) False unfolding role_def by fastforce
  qed
  then show ?thesis using s(1) t(3) by (simp add: slots_def)
qed

lemma slot_worker:
  assumes "slots s ty q k" "n < k"
  obtains x where "worker_at s (g_workers (r_g s) ! n) = Some x" "wk_type x = ty n" "wk_io_queue x = q n"
    "wk_signal_node x \<noteq> NULL \<longleftrightarrow> ty n = WORKER_SYSTEM" "g_workers (r_g s) ! n \<noteq> NULL"
    "deque_at s (wk_active_deque x) = Some (idle_deque (g_ltqsize (r_g s)) (g_workers (r_g s) ! n))"
proof -
  have "role s ty q n (g_workers (r_g s) ! n)" using assms by (simp add: slots_def)
  then obtain x where "worker_at s (g_workers (r_g s) ! n) = Some x" "wk_type x = ty n" "wk_io_queue x = q n"
    "wk_signal_node x \<noteq> NULL \<longleftrightarrow> ty n = WORKER_SYSTEM"
    "deque_at s (wk_active_deque x) = Some (idle_deque (g_ltqsize (r_g s)) (g_workers (r_g s) ! n))"
    unfolding role_def by blast
  with that show thesis by (auto dest: deref_SomeD)
qed

text \<open>The three loops over the table.\<close>

definition system_types :: "nat \<Rightarrow> nat \<Rightarrow> cilk_worker_type" where
  "system_types m i = (if 1 \<le> i \<and> i < m then WORKER_SYSTEM else WORKER_FREE)"

definition slot_types :: "nat \<Rightarrow> nat \<Rightarrow> nat \<Rightarrow> cilk_worker_type" where
  "slot_types n m i = (if n \<le> i \<and> i < m then WORKER_IO else system_types n i)"

lemma system_slots_ok:
  assumes "slots s all_free no_queues k" "n \<le> k" "1 \<le> n" "n \<le> r_mem_left s + 1"
  shows "\<exists>t. block (map (\<lambda>i. bindP (worker_no (int i)) make_worker_system) [1..<n]) s = Inr ((), t)
     \<and> slots t (system_types n) no_queues k \<and> r_g t = r_g s \<and> r_mem_left t = r_mem_left s - (n - 1) \<and> r_tls t = r_tls s"
proof (rule block_upt [where a = 1 and P = "\<lambda>m t. slots t (system_types m) no_queues k \<and> r_g t = r_g s
     \<and> r_mem_left t = r_mem_left s - (m - 1) \<and> r_tls t = r_tls s"], goal_cases)
  case 2
  have "system_types 1 = all_free" by (auto simp: system_types_def)
  with assms(1) show ?case by simp
next
  case (3 m u)
  then have u: "slots u (system_types m) no_queues k" "r_g u = r_g s" "r_mem_left u = r_mem_left s - (m - 1)" "r_tls u = r_tls s"
    by auto
  have m: "m < k" using 3(2) assms(2) by simp
  let ?w = "g_workers (r_g u) ! m"
  obtain x where x: "worker_at u ?w = Some x" "wk_type x = WORKER_FREE" "wk_io_queue x = NULL" "?w \<noteq> NULL"
    using slot_worker [OF u(1) m] by (metis system_types_def less_irrefl)
  let ?y = "x\<lparr>wk_type := WORKER_SYSTEM, wk_signal_node := r_brk u + 1\<rparr>"
  have mem: "1 \<le> r_mem_left u" using u(3) 3 assms(4) by simp
  obtain t where t: "make_worker_system ?w u = Inr ((), t)" "r_workers t = (r_workers u)(?w \<mapsto> ?y)" "r_deques t = r_deques u"
      "r_g t = r_g u" "r_brk t = r_brk u + 1" "r_mem_left t = r_mem_left u - 1" "r_tls t = r_tls u"
    using x(1,2,4) mem by (simp add: make_worker_system_def signal_node_create_def run)
  have types: "(system_types m)(m := WORKER_SYSTEM) = system_types (Suc m)" using 3(1) by (auto simp: system_types_def)
  have "slots t ((system_types m)(m := wk_type ?y)) (no_queues(m := wk_io_queue ?y)) k"
    using t by (intro slot_changes [OF u(1) m x(1)]) simp_all
  moreover have "no_queues(m := NULL) = no_queues" by auto
  ultimately have "slots t (system_types (Suc m)) no_queues k" using x(3) by (simp add: types)
  moreover have "bindP (worker_no (int m)) make_worker_system u = Inr ((), t)"
    using t(1) by (simp add: run_bindP worker_no_slot [OF u(1) m])
  ultimately show ?case using t(4,6,7) u 3(1) mem by auto
qed (use assms in simp)

text \<open>Each I/O worker gets a queue of its own.\<close>

definition own_queues :: "nat \<Rightarrow> nat \<Rightarrow> (nat \<Rightarrow> ptr) \<Rightarrow> ptr \<Rightarrow> bool" where
  "own_queues n m q b \<longleftrightarrow> (\<forall>i. i < n \<or> m \<le> i \<longrightarrow> q i = NULL) \<and> (\<forall>i. n \<le> i \<and> i < m \<longrightarrow> q i \<noteq> NULL \<and> q i \<le> b)
     \<and> inj_on q {n..<m}"

lemma own_queues_step:
  assumes "own_queues n m q b" "n \<le> m"
  shows "own_queues n (Suc m) (q(m := b + 1)) (b + 1)"
proof -
  have "q i \<le> b" if "i \<in> {n..<m}" for i using assms(1) that by (auto simp: own_queues_def)
  then have "b + 1 \<notin> q ` {n..<m}" by fastforce
  moreover have "inj_on (q(m := b + 1)) {n..<m}" using assms(1) by (simp add: own_queues_def inj_on_def)
  moreover have "{n..<Suc m} = insert m {n..<m}" using assms(2) by auto
  ultimately have "inj_on (q(m := b + 1)) {n..<Suc m}" by auto
  then show ?thesis using assms by (auto simp: own_queues_def less_Suc_eq le_Suc_eq)
qed

lemma io_slots_ok:
  assumes "slots s (system_types n) no_queues (2 * n)" "1 \<le> n" "n \<le> r_mem_left s"
  shows "\<exists>t. block (map (\<lambda>i. bindP (worker_no (int i)) make_worker_io) [n..<2 * n]) s = Inr ((), t)
     \<and> (\<exists>q. slots t (slot_types n (2 * n)) q (2 * n) \<and> own_queues n (2 * n) q (r_brk t))
     \<and> r_g t = r_g s \<and> r_mem_left t = r_mem_left s - (2 * n - n) \<and> r_tls t = r_tls s"
proof (rule block_upt [where a = n and P = "\<lambda>m t. (\<exists>q. slots t (slot_types n m) q (2 * n) \<and> own_queues n m q (r_brk t))
     \<and> r_g t = r_g s \<and> r_mem_left t = r_mem_left s - (m - n) \<and> r_tls t = r_tls s"], goal_cases)
  case 2
  have "slot_types n n = system_types n" by (rule ext) (auto simp: slot_types_def)
  moreover have "own_queues n n no_queues (r_brk s)" by (simp add: own_queues_def)
  ultimately show ?case using assms(1) by auto
next
  case (3 m u)
  then obtain q where u: "slots u (slot_types n m) q (2 * n)" "own_queues n m q (r_brk u)" "r_g u = r_g s"
      "r_mem_left u = r_mem_left s - (m - n)" "r_tls u = r_tls s" by auto
  let ?w = "g_workers (r_g u) ! m"
  have "slot_types n m m = WORKER_FREE" using 3(1) by (simp add: slot_types_def system_types_def)
  then obtain x where x: "worker_at u ?w = Some x" "wk_type x = WORKER_FREE" "wk_signal_node x = NULL" "?w \<noteq> NULL"
    using slot_worker [OF u(1) 3(2)] by (metis cilk_worker_type.distinct(1))
  let ?y = "x\<lparr>wk_type := WORKER_IO, wk_io_queue := r_brk u + 1\<rparr>"
  have mem: "1 \<le> r_mem_left u" using u(4) 3 assms(3) by simp
  obtain t where t: "make_worker_io ?w u = Inr ((), t)" "r_workers t = (r_workers u)(?w \<mapsto> ?y)" "r_deques t = r_deques u"
      "r_g t = r_g u" "r_brk t = r_brk u + 1" "r_mem_left t = r_mem_left u - 1" "r_tls t = r_tls u"
    using x(1,2,4) mem by (simp add: make_worker_io_def io_queue_memory_def written_def run)
  have types: "(slot_types n m)(m := WORKER_IO) = slot_types n (Suc m)" using 3(1) by (auto simp: slot_types_def)
  have "slots t ((slot_types n m)(m := wk_type ?y)) (q(m := wk_io_queue ?y)) (2 * n)"
    using t x(3) by (intro slot_changes [OF u(1) 3(2) x(1)]) simp_all
  then have "slots t (slot_types n (Suc m)) (q(m := r_brk u + 1)) (2 * n)" by (simp add: types)
  moreover have "own_queues n (Suc m) (q(m := r_brk u + 1)) (r_brk t)" using own_queues_step [OF u(2) 3(1)] t(5) by simp
  moreover have "bindP (worker_no (int m)) make_worker_io u = Inr ((), t)"
    using t(1) by (simp add: run_bindP worker_no_slot [OF u(1) 3(2)])
  ultimately show ?case using t(4,6,7) u 3(1) mem by auto
qed (use assms in simp)

lemma associate_ok:
  assumes "slots s ty q (2 * n)"
  shows "\<exists>t. block (map (associate_io_worker n) [0..<n]) s = Inr ((), t)
     \<and> slots t ty (\<lambda>i. if i < n then q (i + n) else q i) (2 * n) \<and> r_g t = r_g s \<and> r_mem_left t = r_mem_left s \<and> r_tls t = r_tls s"
proof (rule block_upt [where a = 0 and P = "\<lambda>m t. slots t ty (\<lambda>i. if i < m then q (i + n) else q i) (2 * n) \<and> r_g t = r_g s
     \<and> r_mem_left t = r_mem_left s \<and> r_tls t = r_tls s"], goal_cases)
  case (3 m u)
  then have u: "slots u ty (\<lambda>i. if i < m then q (i + n) else q i) (2 * n)" "r_g u = r_g s" "r_mem_left u = r_mem_left s"
      "r_tls u = r_tls s" by auto
  have m: "m < 2 * n" "m + n < 2 * n" using 3(2) by simp_all
  let ?w = "g_workers (r_g u) ! m" and ?v = "g_workers (r_g u) ! (m + n)"
  obtain x where x: "worker_at u ?w = Some x" "wk_type x = ty m" "wk_signal_node x \<noteq> NULL \<longleftrightarrow> ty m = WORKER_SYSTEM" "?w \<noteq> NULL"
    using slot_worker [OF u(1) m(1)] by blast
  obtain z where z: "worker_at u ?v = Some z" "wk_io_queue z = q (m + n)"
    using slot_worker [OF u(1) m(2)] 3(2) by (metis add_lessD1 less_irrefl not_add_less1 nat_add_left_cancel_less)
  let ?y = "x\<lparr>wk_io_queue := q (m + n)\<rparr>"
  let ?t = "u\<lparr>r_workers := (r_workers u)(?w \<mapsto> ?y)\<rparr>"
  have run_it: "associate_io_worker n m u = Inr ((), ?t)"
    using x z unfolding associate_io_worker_def run_bindP worker_no_slot [OF u(1) m(1)] sum.case prod.case
      worker_no_slot [OF u(1) m(2)]
    by (simp add: run)
  have queues: "(\<lambda>i. if i < m then q (i + n) else q i)(m := q (m + n)) = (\<lambda>i. if i < Suc m then q (i + n) else q i)"
    by (auto simp: less_Suc_eq)
  have "slots ?t (ty(m := wk_type ?y)) ((\<lambda>i. if i < m then q (i + n) else q i)(m := wk_io_queue ?y)) (2 * n)"
    using x(2,3) by (intro slot_changes [OF u(1) m(1) x(1)]) simp_all
  then have "slots ?t ty (\<lambda>i. if i < Suc m then q (i + n) else q i) (2 * n)" using x(2) by (simp add: queues)
  with run_it u show ?case by auto
qed (use assms in simp_all)

text \<open>
  A runtime for \<open>n\<close> workers, in the I/O mode that \<open>cilkg_get_user_settable_values\<close> chooses, that has memory for them.
\<close>

definition can_start :: "rts \<Rightarrow> nat \<Rightarrow> bool" where
  "can_start s n \<longleftrightarrow> 1 \<le> n \<and> g_total_workers (r_g s) = int n \<and> g_io_mode (r_g s) = IO_MODE_SHARED_CORE
     \<and> 0 < g_ltqsize (r_g s) \<and> 18 * n + 2 \<le> r_mem_left s"

text \<open>Every worker shares a queue with an I/O worker and with no other.\<close>

definition paired :: "nat \<Rightarrow> (nat \<Rightarrow> ptr) \<Rightarrow> bool" where
  "paired n q \<longleftrightarrow> (\<forall>i < n. q i \<noteq> NULL \<and> q (i + n) = q i) \<and> inj_on q {0..<n}"

lemma associated_paired:
  assumes "own_queues n (2 * n) q b"
  shows "paired n (\<lambda>i. if i < n then q (i + n) else q i)"
proof -
  have "q (i + n) \<noteq> NULL" if "i < n" for i using assms that by (simp add: own_queues_def)
  moreover have "inj_on (\<lambda>i. if i < n then q (i + n) else q i) {0..<n}"
  proof (rule inj_onI)
    fix i j assume ij: "i \<in> {0..<n}" "j \<in> {0..<n}" "(if i < n then q (i + n) else q i) = (if j < n then q (j + n) else q j)"
    have "inj_on q {n..<2 * n}" using assms by (simp add: own_queues_def)
    from inj_onD [OF this, of "i + n" "j + n"] ij show "i = j" by simp
  qed
  ultimately show ?thesis by (simp add: paired_def)
qed

lemma init_workers_ok:
  assumes "can_start s n"
  shows "\<exists>t ws q. init_workers s = Inr ((), t) \<and> slots t (slot_types n (2 * n)) q (2 * n) \<and> paired n q
     \<and> r_g t = (r_g s)\<lparr>g_workers := ws\<rparr> \<and> length ws = 2 * n \<and> r_tls t = r_tls s \<and> 2 \<le> r_mem_left t"
proof -
  have n: "1 \<le> n" "nat (g_total_workers (r_g s)) = n" "g_io_mode (r_g s) \<noteq> IO_MODE_NORMAL" "0 < g_ltqsize (r_g s)"
      "18 * n + 2 \<le> r_mem_left s" using assms by (simp_all add: can_start_def IO_MODE_NORMAL_def IO_MODE_SHARED_CORE_def)
  let ?s = "s\<lparr>r_brk := r_brk s + 1, r_mem_left := r_mem_left s - 1,
     r_g := (r_g s)\<lparr>g_workers := replicate (2 * n) NULL\<rparr>\<rparr>"
  have "length (g_workers (r_g ?s)) = 2 * n" "0 < g_ltqsize (r_g ?s)" "8 * (2 * n) \<le> r_mem_left ?s"
    using n(1,4,5) by simp_all
  from make_slots_ok [OF this] obtain t ws where t:
    "block (map (\<lambda>i. bindP cilkrts_malloc (\<lambda>p. bindP (make_worker (int i) p) (\<lambda>w.
        st_g (g_workers_update (\<lambda>ws. ws[i := w]))))) [0..<2 * n]) ?s = Inr ((), t)" "slots t all_free no_queues (2 * n)"
    "r_g t = (r_g ?s)\<lparr>g_workers := ws\<rparr>" "length ws = 2 * n" "r_mem_left t = r_mem_left s - 1 - 16 * n" "r_tls t = r_tls s"
    by auto
  have "n \<le> 2 * n" "n \<le> r_mem_left t + 1" using n t(5) by simp_all
  from system_slots_ok [OF t(2) this(1) n(1) this(2)] obtain u where u:
    "block (map (\<lambda>i. bindP (worker_no (int i)) make_worker_system) [1..<n]) t = Inr ((), u)"
    "slots u (system_types n) no_queues (2 * n)" "r_g u = r_g t" "r_mem_left u = r_mem_left t - (n - 1)" "r_tls u = r_tls t" by blast
  have "n \<le> r_mem_left u" using n t(5) u(4) by simp
  from io_slots_ok [OF u(2) n(1) this] obtain v q where v:
    "block (map (\<lambda>i. bindP (worker_no (int i)) make_worker_io) [n..<2 * n]) u = Inr ((), v)"
    "slots v (slot_types n (2 * n)) q (2 * n)" "own_queues n (2 * n) q (r_brk v)" "r_g v = r_g u"
    "r_mem_left v = r_mem_left u - (2 * n - n)" "r_tls v = r_tls u" by blast
  obtain x where x: "block (map (associate_io_worker n) [0..<n]) v = Inr ((), x)"
    "slots x (slot_types n (2 * n)) (\<lambda>i. if i < n then q (i + n) else q i) (2 * n)" "r_g x = r_g v"
    "r_mem_left x = r_mem_left v" "r_tls x = r_tls v"
    using associate_ok [OF v(2)] by blast
  have upd: "r_g_update (g_workers_update (\<lambda>_. ws)) x = x\<lparr>r_g := (r_g x)\<lparr>g_workers := ws\<rparr>\<rparr>" for x :: rts and ws
    by (cases x) simp
  have "init_workers s = Inr ((), x)"
    using n t(1,3) u(1,3) v(1) x(1) unfolding init_workers_def
    by (simp add: run_bindP run_block_Cons run_block_Nil run_gets run_modify run_cilkrts_malloc written_def run_ret run_whenP upd)
  moreover have "2 \<le> r_mem_left x" using n(1,5) t(5) u(4) v(5) x(4) by simp
  ultimately show ?thesis
    using x(2,3,5) v(4,6) u(3,5) t(3,4,6) associated_paired [OF v(3)] by auto
qed

text \<open>A runtime for two workers before \<open>init_workers\<close>.\<close>

definition start_rts :: rts where
  "start_rts = sample_rts\<lparr>r_workers := Map.empty, r_tls := NULL, r_mem_left := 40,
     r_g := sample_global\<lparr>g_workers := [], g_threads := NULL, g_published := False, g_workers_running := False\<rparr>\<rparr>"

lemma start_rts_ok:
  "can_start start_rts 2" "g_P (r_g start_rts) = 2" "\<not> g_published (r_g start_rts)" "\<not> g_workers_running (r_g start_rts)"
  "g_Q (r_g start_rts) = 0" "r_tls start_rts = NULL"
  by (simp_all add: can_start_def start_rts_def sample_rts_def sample_global_def IO_MODE_SHARED_CORE_def)

section \<open>What the setup promises\<close>

text \<open>
  C26. Starting the runtime, in the I/O mode it always chooses, gives \<open>2n\<close> different workers, all idle, each with an
  empty deque of its own that is open to thieves. Slot 0 is left for a user thread, the slots from 1 below \<open>n\<close> are system
  workers that wait on a signal node, and those from \<open>n\<close> on are I/O workers; worker \<open>i\<close> below \<open>n\<close> has the queue of the
  I/O worker in slot \<open>i + n\<close>, and no two of them share one.
\<close>

theorem init_workers_fills_the_slots:
  assumes "can_start s n"
  shows "\<exists>t q. init_workers s = Inr ((), t) \<and> length (g_workers (r_g t)) = 2 * n \<and> distinct (g_workers (r_g t))
     \<and> (\<forall>i < 2 * n. role t (\<lambda>i. if i = 0 then WORKER_FREE else if i < n then WORKER_SYSTEM else WORKER_IO) q i
          (g_workers (r_g t) ! i))
     \<and> (\<forall>i < n. q i \<noteq> NULL \<and> q (i + n) = q i) \<and> inj_on q {0..<n}"
proof -
  obtain t ws q where t: "init_workers s = Inr ((), t)" "slots t (slot_types n (2 * n)) q (2 * n)" "paired n q"
      "r_g t = (r_g s)\<lparr>g_workers := ws\<rparr>" "length ws = 2 * n"
    using init_workers_ok [OF assms] by blast
  have "slot_types n (2 * n) i = (if i = 0 then WORKER_FREE else if i < n then WORKER_SYSTEM else WORKER_IO)" if "i < 2 * n" for i
    using that assms by (auto simp: slot_types_def system_types_def can_start_def)
  then have "role t (\<lambda>i. if i = 0 then WORKER_FREE else if i < n then WORKER_SYSTEM else WORKER_IO) q i (g_workers (r_g t) ! i)"
    if "i < 2 * n" for i
    using t(2) that unfolding slots_def role_def by simp
  with t show ?thesis by (auto simp: slots_def distinct_conv_nth paired_def intro!: exI [of _ q])
qed

theorem init_workers_fills_the_slots_witness:
  "\<exists>t q. init_workers start_rts = Inr ((), t) \<and> length (g_workers (r_g t)) = 4
     \<and> role t (\<lambda>i. if i = 0 then WORKER_FREE else if i < 2 then WORKER_SYSTEM else WORKER_IO) q 3 (g_workers (r_g t) ! 3)
     \<and> q 3 = q 1 \<and> q 1 \<noteq> NULL"
proof -
  obtain t q where t: "init_workers start_rts = Inr ((), t)" "length (g_workers (r_g t)) = 2 * 2"
      "\<forall>i < 2 * 2. role t (\<lambda>i. if i = 0 then WORKER_FREE else if i < 2 then WORKER_SYSTEM else WORKER_IO) q i (g_workers (r_g t) ! i)"
      "\<forall>i < 2. q i \<noteq> NULL \<and> q (i + 2) = q i"
    using init_workers_fills_the_slots [OF start_rts_ok(1)] by blast
  have "q 3 = q 1" "q 1 \<noteq> NULL" using t(4) [rule_format, of 1] by (simp_all add: numeral_eq_Suc)
  moreover have "role t (\<lambda>i. if i = 0 then WORKER_FREE else if i < 2 then WORKER_SYSTEM else WORKER_IO) q 3 (g_workers (r_g t) ! 3)"
    using t(3) [rule_format, of 3] by simp
  ultimately show ?thesis using t(1,2) by auto
qed

text \<open>
  C27. While one user thread is in Cilk, a second one that enters stops the program, whenever the runtime has more than one
  worker: the scan for a free worker runs over the system workers too and asserts that there is none.
\<close>

theorem second_user_thread_asserts:
  assumes "can_start s n" "2 \<le> n"
  shows "block [init_workers, bindP find_free_worker (\<lambda>_. ret ()), bindP find_free_worker (\<lambda>_. ret ())] s
     = Inl (Assertion ''WORKER_SYSTEM != w->l->type'')"
proof -
  obtain t ws q where t: "init_workers s = Inr ((), t)" "slots t (slot_types n (2 * n)) q (2 * n)"
      "r_g t = (r_g s)\<lparr>g_workers := ws\<rparr>" "length ws = 2 * n"
    using init_workers_ok [OF assms(1)] by blast
  have tot: "g_total_workers (r_g t) = int n" using assms(1) t(3) by (simp add: can_start_def)
  have "[0..int n - 1] = 0 # 1 # [2..int n - 1]" using assms(2) by (simp add: upto_rec1)
  then have scan: "scan_for_free_worker [0..int n - 1] = scan_for_free_worker (0 # 1 # [2..int n - 1])" by simp
  let ?w0 = "ws ! 0" and ?w1 = "ws ! 1"
  have ne: "?w0 \<noteq> ?w1" using t(2,3) assms(2) by (simp add: slots_def)
  obtain x0 where x0: "worker_at t ?w0 = Some x0" "wk_type x0 = WORKER_FREE" "?w0 \<noteq> NULL"
      "deque_at t (wk_active_deque x0) = Some (idle_deque (g_ltqsize (r_g t)) ?w0)"
    using slot_worker [OF t(2), of 0] t(3) assms(2) by (auto simp: slot_types_def system_types_def)
  obtain x1 where x1: "worker_at t ?w1 = Some x1" "wk_type x1 = WORKER_SYSTEM" "?w1 \<noteq> NULL"
    using slot_worker [OF t(2), of 1] t(3) assms(2) by (auto simp: slot_types_def system_types_def)
  have nz: "wk_active_deque x0 \<noteq> NULL" using x0(4) by (auto dest: deref_SomeD)
  have no: "worker_no 0 u = Inr (?w0, u)" "worker_no 1 u = Inr (?w1, u)" if "g_workers (r_g u) = ws" for u
    using that t(4) assms(2) by (auto simp: worker_no_def run)
  obtain u where u: "find_free_worker t = Inr (?w0, u)" "r_g u = r_g t"
      "worker_at u ?w0 = Some (x0\<lparr>wk_type := WORKER_USER\<rparr>)" "worker_at u ?w1 = Some x1"
    using x0 x1 nz ne no [of t] t(3) unfolding find_free_worker_def run_bindP run_gets tot sum.case prod.case scan
    by (simp add: run take_worker_def)
  have "find_free_worker u = Inl (Assertion ''WORKER_SYSTEM != w->l->type'')"
    using u(3,4) x1(2) no [of u] t(3) u(2) unfolding find_free_worker_def run_bindP run_gets u(2) tot sum.case prod.case scan
    by (simp add: run)
  with t(1) u(1) show ?thesis by (simp add: run_block_Cons run_bindP run_ret)
qed

theorem second_user_thread_asserts_witness:
  "block [init_workers, bindP find_free_worker (\<lambda>_. ret ()), bindP find_free_worker (\<lambda>_. ret ())] start_rts
     = Inl (Assertion ''WORKER_SYSTEM != w->l->type'')"
  using second_user_thread_asserts [OF start_rts_ok(1)] by simp

text \<open>
  C28. \<open>__cilkrts_end_cilk\<close> never shuts down a runtime that has system workers: after a start of the runtime it
  reaches the assertion that worker 0 has a signal node, and only the system workers have one.
\<close>

theorem end_cilk_asserts:
  assumes "can_start s n" "g_P (r_g s) = int n" "2 \<le> n" "\<not> g_published (r_g s)" "\<not> g_workers_running (r_g s)"
    "g_Q (r_g s) = 0" "r_tls s = NULL"
  shows "block [cilkrts_init_internal True, cilkrts_end_cilk] s = Inl (Assertion ''g->workers[0]->l->signal_node'')"
proof -
  obtain t ws q where t: "init_workers s = Inr ((), t)" "slots t (slot_types n (2 * n)) q (2 * n)"
      "r_g t = (r_g s)\<lparr>g_workers := ws\<rparr>" "length ws = 2 * n" "r_tls t = NULL" "2 \<le> r_mem_left t"
    using init_workers_ok [OF assms(1)] assms(7) by auto
  obtain x where x: "worker_at t (ws ! 0) = Some x" "wk_signal_node x = NULL"
    using slot_worker [OF t(2), of 0] t(3) assms(3) by (auto simp: slot_types_def system_types_def)
  have tot: "int n - 1 \<le> g_total_workers (r_g s)" using assms(1) by (simp add: can_start_def)
  obtain u where u: "cilkrts_init_internal True s = Inr ((), u)" "r_workers u = r_workers t" "r_tls u = NULL"
      "r_g u = (r_g s)\<lparr>g_workers := ws, g_threads := r_brk t + 2, g_published := True, g_workers_running := True,
         g_work_done := False\<rparr>"
    using t(1,3,5,6) tot assms(2,4,5)
    by (simp add: cilkrts_init_internal_def cilkrts_init_global_sysdep_def cilkrts_start_workers_def run)
  have "worker_no 0 v = Inr (ws ! 0, v)" if "g_workers (r_g v) = ws" for v
    using that t(4) assms(3) by (auto simp: worker_no_def run)
  then have "cilkrts_end_cilk u = Inl (Assertion ''g->workers[0]->l->signal_node'')"
    using assms(2,3,6) x u(2-4) by (simp add: cilkrts_end_cilk_def cilkrts_stop_workers_def run)
  with u(1) show ?thesis by (simp add: run_block_Cons)
qed

theorem end_cilk_asserts_witness:
  "block [cilkrts_init_internal True, cilkrts_end_cilk] start_rts = Inl (Assertion ''g->workers[0]->l->signal_node'')"
  using end_cilk_asserts [OF start_rts_ok(1)] start_rts_ok by simp

text \<open>
  A worker cannot be destroyed: in the default build \<open>destroy_worker\<close> asserts that it has no statistics
  record, and \<open>make_worker\<close> always allocates one.
\<close>

theorem destroy_new_worker_asserts:
  assumes "w \<noteq> NULL" "0 < g_ltqsize (r_g s)" "7 \<le> r_mem_left s"
  shows "block [bindP (make_worker self w) (\<lambda>_. ret ()), destroy_worker w] s = Inl (Assertion ''NULL == w->l->stats'')"
proof -
  obtain t x where t: "make_worker self w s = Inr (w, t)" "worker_at t w = Some x" "idle_worker x" "wk_stats x \<noteq> NULL"
    using make_worker_ok [OF assms] by blast
  then have "destroy_worker w t = Inl (Assertion ''NULL == w->l->stats'')"
    by (simp add: destroy_worker_def run idle_worker_def)
  with t(1) show ?thesis by (simp add: run_block_Cons run_bindP run_ret)
qed

theorem destroy_new_worker_asserts_witness:
  "block [bindP (make_worker 0 77) (\<lambda>_. ret ()), destroy_worker 77] start_rts = Inl (Assertion ''NULL == w->l->stats'')"
  using destroy_new_worker_asserts [of 77 start_rts 0]
  by (simp add: start_rts_def sample_rts_def sample_global_def)

end
