(* ===== verification/Entry_Points.thy ===== *)
theory Entry_Points
  imports Worker_Setup Reductions Hyperobject
begin

text \<open>
  What compiled code calls (\<open>cilk-abi.c\<close>, with the parts of \<open>scheduler.c\<close>, \<open>except-gcc.cpp\<close> and
  \<open>cilk_fiber.cpp\<close> behind it): entering a frame and binding a thread to a worker on the first entry,
  detaching a child, leaving a frame with and without a steal, syncing, and the return from the
  initial frame. The last section runs the calls a compiled function makes when nothing is stolen.
\<close>

section \<open>Binding a thread\<close>

definition cilk_fiber_allocate_from_thread :: "(rts, ptr) prog" where
  "cilk_fiber_allocate_from_thread = bindP cilkrts_malloc (\<lambda>f. result [
     CILK_ASSERT ''retmem'' (f \<noteq> NULL),
     modify (\<lambda>s. s\<lparr>r_fibers := (r_fibers s)(f \<mapsto> fresh_fiber\<lparr>fb_from_thread := True\<rparr>)\<rparr>),
     modify (\<lambda>s. s\<lparr>r_cur_fiber := f\<rparr>)]
   (ret f))"

definition cilk_fiber_deallocate_from_thread :: "ptr \<Rightarrow> (rts, unit) prog" where
  "cilk_fiber_deallocate_from_thread f = block [
     bindP (ld_fb fb_from_thread f) (CILK_ASSERT ''this->is_allocated_from_thread()''),
     bindP (gets r_cur_fiber) (\<lambda>c. CILK_ASSERT ''this == cilkos_get_tls_cilk_fiber()'' (f = c)),
     modify (\<lambda>s. s\<lparr>r_cur_fiber := NULL\<rparr>),
     modify (\<lambda>s. s\<lparr>r_fibers := (r_fibers s)(f := None)\<rparr>)]"

text \<open>The heap that scheduling fibers come from is the supply of fibers.\<close>

definition cilk_fiber_allocate_from_heap :: "(rts, ptr) prog" where
  "cilk_fiber_allocate_from_heap = cilk_fiber_allocate NULL"

text \<open>The first full frame of the thread, its reducer map and its pedigree.\<close>

definition bind_initial_frame :: "ptr \<Rightarrow> (rts, unit) prog" where
  "bind_initial_frame w = bindP (cilkrts_make_full_frame w NULL) (\<lambda>ff. block [
     bindP cilk_fiber_allocate_from_thread (\<lambda>f. block [
       st_ff ff (ff_fiber_self_update (\<lambda>_. f)),
       CILK_ASSERT ''ff->fiber_self'' (f \<noteq> NULL),
       st_fb f (fb_owner_update (\<lambda>_. w))]),
     bindP (ld_ff ff_join_counter ff) (\<lambda>n. CILK_ASSERT ''ff->join_counter == 0'' (n = 0)),
     st_ff ff (ff_join_counter_update (\<lambda>_. 1)),
     set_current_ff w ff,
     bindP (ld_wk wk_active_deque w) (\<lambda>d. st_g (g_original_deque_update (\<lambda>_. d))),
     bindP (install_new_reducer_map w) (\<lambda>m.
       on_field r_rmaps r_rmaps_update id id m (cilkrts_set_leftmost_reducer_map True)),
     load_pedigree_leaf_into_user_worker w])"

definition bind_scheduling_fiber :: "ptr \<Rightarrow> (rts, unit) prog" where
  "bind_scheduling_fiber w = block [
     bindP (ld_wk (\<lambda>x. wk_scheduling_fiber x = NULL \<and> wk_self x \<ge> 0) w) (\<lambda>missing. whenP missing
       (bindP cilk_fiber_allocate_from_heap (\<lambda>f. block [
         st_wk w (wk_scheduling_fiber_update (\<lambda>_. f)),
         cilk_fiber_reset_state f]))),
     bindP (ld_wk wk_scheduling_fiber w) (\<lambda>f. whenP (f = NULL)
       (bindP (cilkrts_disallow_stealing w None) (\<lambda>_. ret ())))]"

definition cilkrts_bind_thread_1 :: "(rts, ptr) prog" where
  "cilkrts_bind_thread_1 = result [
     cilkrts_init_internal True,
     bindP (ld_g g_work_done) (\<lambda>d. whenP d
       (cilkrts_bug ''Attempt to enter Cilk while Cilk is shutting down''))]
   (bindP find_free_worker (\<lambda>w. result [
      CILK_ASSERT ''w'' (w \<noteq> NULL),
      modify (\<lambda>s. s\<lparr>r_tls := w\<rparr>),
      bind_initial_frame w,
      bindP (ld_wk wk_the w) (\<lambda>d. block [
        bindP (ld_dq dq_head d) (\<lambda>h. CILK_ASSERT ''*w->head == *w->l->current_ltq'' (h = 0)),
        bindP (ld_dq dq_tail d) (\<lambda>t. CILK_ASSERT ''*w->tail == *w->l->current_ltq'' (t = 0)),
        bindP (ld_dq (\<lambda>x. dq_protected_tail x = int (length (dq_ltq x))) d)
          (CILK_ASSERT ''*w->protected_tail  == *w->ltq_limit'')]),
      st_wk w (wk_pending_exception_update (\<lambda>_. NULL)),
      bind_scheduling_fiber w,
      bindP (ld_wk wk_self w) (\<lambda>self. whenP (self \<noteq> - 1) cilkrts_enter_cilk)]
    (ret w)))"

section \<open>Entering a frame\<close>

definition CILK_FRAME_FLAGS_MASK :: "32 word" where "CILK_FRAME_FLAGS_MASK = 0x00FFFFFF"

definition push_frame :: "ptr \<Rightarrow> ptr \<Rightarrow> (rts, unit) prog" where
  "push_frame w sf = block [
     bindP (ld_wk wk_current_stack_frame w) (\<lambda>p. st_sf sf (sf_call_parent_update (\<lambda>_. p))),
     st_sf sf (sf_worker_update (\<lambda>_. w)),
     st_wk w (wk_current_stack_frame_update (\<lambda>_. sf))]"

definition enter_frame_internal :: "ptr \<Rightarrow> 32 word \<Rightarrow> (rts, unit) prog" where
  "enter_frame_internal sf version = bindP (gets r_tls) (\<lambda>w0.
     if w0 = NULL then bindP cilkrts_bind_thread_1 (\<lambda>w. block [
       st_sf sf (sf_flags_update (\<lambda>_. CILK_FRAME_LAST OR push_bit 24 version)),
       bindP (ld_sf sf_flags sf) (\<lambda>f. CILK_ASSERT ''(sf->flags & CILK_FRAME_FLAGS_MASK) == CILK_FRAME_LAST''
         (f AND CILK_FRAME_FLAGS_MASK = CILK_FRAME_LAST)),
       push_frame w sf])
     else block [
       st_sf sf (sf_flags_update (\<lambda>_. push_bit 24 version)),
       bindP (ld_sf sf_flags sf) (\<lambda>f. CILK_ASSERT ''(sf->flags & CILK_FRAME_FLAGS_MASK) == 0''
         (f AND CILK_FRAME_FLAGS_MASK = 0)),
       push_frame w0 sf])"

definition cilkrts_enter_frame :: "ptr \<Rightarrow> (rts, unit) prog" where
  "cilkrts_enter_frame sf = enter_frame_internal sf 0"

definition cilkrts_enter_frame_1 :: "ptr \<Rightarrow> (rts, unit) prog" where
  "cilkrts_enter_frame_1 sf = enter_frame_internal sf 1"

definition enter_frame_fast_internal :: "ptr \<Rightarrow> 32 word \<Rightarrow> (rts, unit) prog" where
  "enter_frame_fast_internal sf version = bindP (gets r_tls) (\<lambda>w. block [
     st_sf sf (sf_flags_update (\<lambda>_. push_bit 24 version)),
     push_frame w sf])"

definition cilkrts_enter_frame_fast :: "ptr \<Rightarrow> (rts, unit) prog" where
  "cilkrts_enter_frame_fast sf = enter_frame_fast_internal sf 0"

definition cilkrts_enter_frame_fast_1 :: "ptr \<Rightarrow> (rts, unit) prog" where
  "cilkrts_enter_frame_fast_1 sf = enter_frame_fast_internal sf 1"

section \<open>Detaching a child\<close>

definition cilkrts_detach :: "ptr \<Rightarrow> (rts, unit) prog" where
  "cilkrts_detach self = bindP (gets r_tls) (\<lambda>w.
     bindP (ld_sf sf_call_parent self) (\<lambda>parent.
     bindP (ld_wk wk_the w) (\<lambda>d.
     bindP (ld_dq dq_tail d) (\<lambda>tail. block [
       detach_pedigree w self,
       bindP (ld_dq (\<lambda>x. int (length (dq_ltq x))) d) (\<lambda>limit. CILK_ASSERT ''tail < *w->ltq_limit'' (tail < limit)),
       st_dq d (dq_ltq_update (\<lambda>xs. xs[nat tail := parent])),
       st_dq d (dq_tail_update (\<lambda>_. tail + 1)),
       or_flags self CILK_FRAME_DETACHED]))))"

text \<open>True when the parent may have been stolen.\<close>

fun before_exc :: "int \<Rightarrow> exc_ptr \<Rightarrow> bool" where
  "before_exc t (Exc e) \<longleftrightarrow> t < e"
| "before_exc t EXC_INFINITY \<longleftrightarrow> True"

definition cilkrts_undo_detach :: "ptr \<Rightarrow> (rts, bool) prog" where
  "cilkrts_undo_detach sf = bindP (gets r_tls) (\<lambda>w.
     bindP (ld_wk wk_the w) (\<lambda>d.
     bindP (ld_dq dq_tail d) (\<lambda>t. result [
       st_dq d (dq_tail_update (\<lambda>_. t - 1)),
       and_not_flags sf CILK_FRAME_DETACHED]
     (ld_dq (\<lambda>x. before_exc (t - 1) (dq_exc x)) d))))"

definition cilkrts_pop_frame :: "ptr \<Rightarrow> (rts, unit) prog" where
  "cilkrts_pop_frame sf = bindP (gets r_tls) (\<lambda>w. block [
     bindP (ld_sf sf_call_parent sf) (\<lambda>p. st_wk w (wk_current_stack_frame_update (\<lambda>_. p))),
     st_sf sf (sf_call_parent_update (\<lambda>_. NULL))])"

section \<open>Leaving when the parent may have been stolen\<close>

text \<open>
  How a call of the runtime at the end of a frame goes on: it returns to the code that called it,
  or the strand is over and the worker is on its scheduling fiber, or the initial frame waits for the worker it
  started on, with the reducer map it will destroy then.
\<close>

datatype leave_outcome = Returned | Strand_over | Initial_waits ptr

text \<open>The last of the active workers makes the frame that waits to leave Cilk run again.\<close>

definition retire_active_worker :: "(rts, unit) prog" where
  "retire_active_worker = bindP cilkg_decrement_active_workers (\<lambda>n. whenP (n = 0)
     (bindP (ld_g g_exit_frame) (\<lambda>e. block [
        CILK_ASSERT ''w->g->exit_frame'' (e \<noteq> NULL),
        bindP (ld_ff ff_sync_master e) (\<lambda>m. cilkrts_push_next_frame m e)])))"

definition return_to_stolen_parent :: "red_client \<Rightarrow> ptr \<Rightarrow> ptr \<Rightarrow> ptr \<Rightarrow> (rts, unit) prog" where
  "return_to_stolen_parent rc w ff returning_sf = block [
     cilkrts_reset_future_fiber_deque,
     bindP (execute_reductions_for_spawn_return rc w ff returning_sf) (\<lambda>w. block [
       update_pedigree_on_leave_frame w returning_sf,
       retire_active_worker,
       longjmp_into_runtime w Fcn_do_return_from_spawn NULL])]"

definition cilkrts_c_THE_exception_check :: "red_client \<Rightarrow> ptr \<Rightarrow> ptr \<Rightarrow> (rts, leave_outcome) prog" where
  "cilkrts_c_THE_exception_check rc w returning_sf = result [cilkrts_worker_lock w]
     (bindP (current_ff w) (\<lambda>ff. result [
        CILK_ASSERT ''ff'' (ff \<noteq> NULL),
        bindP (ld_wk wk_pending_exception w) (\<lambda>e. CILK_ASSERT ''!w->l->pending_exception'' (e = NULL)),
        reset_THE_exception w]
      (bindP (ld_wk wk_the w) (\<lambda>d.
       bindP (ld_dq (\<lambda>x. \<not> dq_head x < dq_tail x + 1) d) (\<lambda>stolen_p. result [
         whenP stolen_p (block [
           cilkrts_save_exception_state w ff,
           st_dq d (dq_tail_update (\<lambda>t. t + 1))]),
         cilkrts_worker_unlock w]
        (if stolen_p then result [return_to_stolen_parent rc w ff returning_sf] (ret Strand_over)
         else ret Returned))))))"

definition cilkrts_exception_from_spawn :: "red_client \<Rightarrow> ptr \<Rightarrow> ptr \<Rightarrow> (rts, unit) prog" where
  "cilkrts_exception_from_spawn rc w returning_sf = bindP (current_ff w) (\<lambda>ff. block [
     bindP (ld_wk wk_the w) (\<lambda>d. bindP (ld_dq (\<lambda>x. dq_head x = dq_tail x) d) (CILK_ASSERT ''*w->head == *w->tail'')),
     bindP (execute_reductions_for_spawn_return rc w ff returning_sf) (\<lambda>w. block [
       retire_active_worker,
       longjmp_into_runtime w Fcn_do_return_from_spawn NULL])])"

definition cilkrts_return_exception :: "red_client \<Rightarrow> ptr \<Rightarrow> (rts, leave_outcome) prog" where
  "cilkrts_return_exception rc sf = bindP (gets r_tls) (\<lambda>w.
     bindP (ld_sf sf_except_data sf) (\<lambda>exc. result [
       bindP (ld_sf sf_flags sf) (\<lambda>f. CILK_ASSERT ''sf->flags & CILK_FRAME_DETACHED'' (has_flag f CILK_FRAME_DETACHED)),
       and_not_flags sf CILK_FRAME_DETACHED]
     (bindP (cilkrts_pop_tail w) (\<lambda>parent.
       if parent = NULL then result [
         update_pedigree_on_leave_frame w sf,
         bindP (ld_sf sf_call_parent sf) (\<lambda>p. st_wk w (wk_current_stack_frame_update (\<lambda>_. p))),
         st_sf sf (sf_call_parent_update (\<lambda>_. NULL)),
         save_exception_info w exc (exc = NULL),
         bindP (current_ff w) (move_pending_exception w),
         cilkrts_exception_from_spawn rc w sf] (ret Strand_over)
       else result [update_pedigree_on_leave_frame w sf] (ret Returned)))))"

section \<open>The return from the initial frame\<close>

text \<open>\<open>sf\<close> is the address of the local frame of the function.\<close>

definition suspend_return_from_initial :: "ptr \<Rightarrow> ptr \<Rightarrow> (rts, unit) prog" where
  "suspend_return_from_initial sf w = block [
     cilkrts_enter_frame_fast_1 sf,
     st_sf sf (sf_call_parent_update (\<lambda>_. NULL)),
     bindP (ld_sf sf_flags sf) (\<lambda>f. CILK_ASSERT ''(sf.flags & CILK_FRAME_LAST) == 0'' (f AND CILK_FRAME_LAST = 0)),
     bindP (current_ff w) (\<lambda>ff. block [
       st_ff ff (ff_call_stack_update (\<lambda>_. sf)),
       cilkrts_put_stack ff sf]),
     kyles_longjmp_into_runtime w Fcn_do_suspend_return_from_initial sf]"

text \<open>The function up to the point where the frame runs on the worker it started on.\<close>

definition begin_return_from_initial :: "ptr \<Rightarrow> ptr \<Rightarrow> (rts, leave_outcome) prog" where
  "begin_return_from_initial sf w0 =
     bindP (ld_wk wk_reducer_map w0) (\<lambda>rm. result [st_wk w0 (wk_reducer_map_update (\<lambda>_. NULL))]
      (bindP (gets r_tls) (\<lambda>w.
       bindP (worker_no 0) (\<lambda>first.
       bindP (ld_g g_active_workers) (\<lambda>n.
         if w \<noteq> first \<or> n > 1 then result [
           bindP (current_ff w) (\<lambda>ff. st_ff ff (ff_join_counter_update (\<lambda>j. j - 1))),
           suspend_return_from_initial sf w] (ret (Initial_waits rm))
         else result [bindP cilkg_decrement_active_workers (\<lambda>_. ret ())] (ret Returned))))))"

definition leave_initial_frame :: "ptr \<Rightarrow> (rts, unit) prog" where
  "leave_initial_frame w = with_worker_lock w [
     bindP (current_ff w) (\<lambda>ff. block [
       CILK_ASSERT ''ff'' (ff \<noteq> NULL),
       bindP (ld_ff ff_join_counter ff) (\<lambda>n. CILK_ASSERT ''ff->join_counter == 1'' (n = 1)),
       set_current_ff w NULL,
       bindP (ld_wk wk_active_deque w) (\<lambda>d. st_g (g_original_deque_update (\<lambda>_. d))),
       bindP (ld_ff ff_fiber_self ff) (\<lambda>f. block [
         CILK_ASSERT ''ff->fiber_self'' (f \<noteq> NULL),
         bindP (ld_wk wk_scheduling_fiber w) (\<lambda>sched.
           CILK_ASSERT ''ff->fiber_self != w->l->scheduling_fiber'' (f \<noteq> sched)),
         cilk_fiber_deallocate_from_thread f]),
       st_ff ff (ff_fiber_self_update (\<lambda>_. NULL)),
       cilkrts_destroy_full_frame w ff])]"

definition finish_return_from_initial :: "red_client \<Rightarrow> ptr \<Rightarrow> (rts, unit) prog" where
  "finish_return_from_initial rc rm = bindP (gets r_tls) (\<lambda>w. block [
     bindP (ld_g g_active_workers) (\<lambda>n. CILK_ASSERT ''w->g->active_workers == 0'' (n = 0)),
     st_g (g_exit_frame_update (\<lambda>_. NULL)),
     bindP (ld_wk wk_type w) (\<lambda>ty. CILK_ASSERT ''w->l->type == WORKER_USER'' (ty = WORKER_USER)),
     bindP (ld_wk (\<lambda>x. dp_size (wk_suspended_deques x)) w) (\<lambda>n.
       CILK_ASSERT ''w->l->suspended_deques.size == 0'' (n = 0)),
     bindP (ld_wk (\<lambda>x. dp_size (wk_resumable_deques x)) w) (\<lambda>n.
       CILK_ASSERT ''w->l->resumable_deques.size == 0'' (n = 0)),
     leave_initial_frame w,
     save_pedigree_leaf_from_user_worker w,
     whenP (rm \<noteq> NULL) (rc_destroy rc w rm),
     cilkrts_unbind_thread])"

definition cilkrts_c_return_from_initial :: "red_client \<Rightarrow> ptr \<Rightarrow> ptr \<Rightarrow> (rts, leave_outcome) prog" where
  "cilkrts_c_return_from_initial rc sf w =
     bindP (ld_wk wk_reducer_map w) (\<lambda>rm.
     bindP (begin_return_from_initial sf w) (\<lambda>o1.
       if o1 = Returned then result [finish_return_from_initial rc rm] (ret Returned) else ret o1))"

section \<open>Leaving a frame\<close>

text \<open>
  \<open>init_sf\<close> is where the frame of \<open>suspend_return_from_initial\<close> goes when one is needed. The checks of
  \<open>CILK_LIB_DEBUG\<close> are not compiled in.
\<close>

definition leave_detached_frame :: "red_client \<Rightarrow> ptr \<Rightarrow> ptr \<Rightarrow> (rts, leave_outcome) prog" where
  "leave_detached_frame rc w sf =
     bindP (cilkrts_undo_detach sf) (\<lambda>failed.
     bindP (if failed then cilkrts_c_THE_exception_check rc w sf else ret Returned) (\<lambda>r.
       if r = Returned then result [
         update_pedigree_on_leave_frame w sf,
         bindP (ld_sf sf_flags sf) (\<lambda>f. whenP (f AND CILK_FRAME_FLAGS_MASK \<noteq> 0)
           (cilkrts_bug ''W%u: frame won undo-detach race with flags %02x''))] (ret Returned)
       else ret r))"

definition cilkrts_leave_frame :: "red_client \<Rightarrow> ptr \<Rightarrow> ptr \<Rightarrow> (rts, leave_outcome) prog" where
  "cilkrts_leave_frame rc init_sf sf = bindP (gets r_tls) (\<lambda>w.
     bindP (ld_sf sf_flags sf) (\<lambda>f.
       if has_flag f CILK_FRAME_DETACHED then
         if has_flag f CILK_FRAME_EXCEPTING then cilkrts_return_exception rc sf
         else leave_detached_frame rc w sf
       else if has_flag f CILK_FRAME_LAST then cilkrts_c_return_from_initial rc init_sf w
       else if has_flag f CILK_FRAME_STOLEN then result [cilkrts_return w] (ret Returned)
       else ret Returned))"

section \<open>Syncing\<close>

definition cilkrts_c_sync :: "red_client \<Rightarrow> ptr \<Rightarrow> ptr \<Rightarrow> (rts, unit) prog" where
  "cilkrts_c_sync rc w sf_at_sync = bindP (current_ff w) (\<lambda>ff. block [
     move_pending_exception w ff,
     bindP (execute_reductions_for_sync rc w ff sf_at_sync) (\<lambda>w.
       longjmp_into_runtime w Fcn_do_sync sf_at_sync)])"

definition cilkrts_c_sync_except :: "red_client \<Rightarrow> ptr \<Rightarrow> ptr \<Rightarrow> (rts, unit) prog" where
  "cilkrts_c_sync_except rc w sf = bindP (ld_sf sf_except_data sf) (\<lambda>exc. block [
     bindP (ld_sf sf_flags sf) (\<lambda>f. CILK_ASSERT
       ''(sf->flags & (CILK_FRAME_UNSYNCHED|CILK_FRAME_EXCEPTING)) == (CILK_FRAME_UNSYNCHED|CILK_FRAME_EXCEPTING)''
       (f AND (CILK_FRAME_UNSYNCHED OR CILK_FRAME_EXCEPTING) = CILK_FRAME_UNSYNCHED OR CILK_FRAME_EXCEPTING)),
     and_not_flags sf CILK_FRAME_EXCEPTING,
     save_exception_info w exc False,
     bindP (gets r_eh_uncaught) (\<lambda>n. CILK_ASSERT ''!std::uncaught_exception()'' (n = 0)),
     cilkrts_c_sync rc w sf])"

text \<open>Control comes back to the frame through the jump buffer of the frame, never from here.\<close>

definition cilkrts_sync :: "red_client \<Rightarrow> ptr \<Rightarrow> (rts, unit) prog" where
  "cilkrts_sync rc sf = bindP (gets r_tls) (\<lambda>w. block [
     bindP (has_pedigree sf) (\<lambda>v1. whenP v1
       (bindP (ld_wk wk_pedigree w) (\<lambda>p. st_sf sf (sf_pedigree_update (\<lambda>_. p))))),
     bindP (ld_sf sf_flags sf) (\<lambda>f. whenP (\<not> has_flag f CILK_FRAME_UNSYNCHED)
       (cilkrts_bug ''W%u: double sync %p'')),
     bindP (ld_sf sf_flags sf) (\<lambda>f.
       if has_flag f CILK_FRAME_EXCEPTING then cilkrts_c_sync_except rc w sf else cilkrts_c_sync rc w sf)])"


section \<open>A run in which nothing is stolen\<close>

text \<open>
  What the body of a compiled function asks of the runtime, in order: \<open>Spawn h c b k\<close> spawns, through the helper
  frame \<open>h\<close>, a function with frame \<open>c\<close> and body \<open>b\<close>, and goes on with \<open>k\<close>; \<open>Call c b k\<close> calls one;
  \<open>Sync k\<close> syncs. The compiler emits the calls of the runtime in the order \<open>cilk_fake.h\<close> and
  \<open>abi.h\<close> show: a sync calls the runtime only when the frame is marked as unsynched, and names the next strand.
\<close>

datatype body = Finish | Spawn ptr ptr body body | Call ptr body body | Sync body

definition go_on :: "(rts, leave_outcome) prog \<Rightarrow> (rts, leave_outcome) prog \<Rightarrow> (rts, leave_outcome) prog" where
  "go_on m k = bindP m (\<lambda>r. if r = Returned then k else ret r)"

definition leave_function :: "red_client \<Rightarrow> ptr \<Rightarrow> ptr \<Rightarrow> (rts, leave_outcome) prog" where
  "leave_function rc i sf = result [cilkrts_pop_frame sf] (cilkrts_leave_frame rc i sf)"

definition cilk_sync :: "red_client \<Rightarrow> ptr \<Rightarrow> (rts, leave_outcome) prog" where
  "cilk_sync rc sf = bindP (ld_sf sf_flags sf) (\<lambda>f.
     if has_flag f CILK_FRAME_UNSYNCHED then result [cilkrts_sync rc sf] (ret Strand_over)
     else result [update_pedigree_after_sync sf] (ret Returned))"

primrec run_body :: "red_client \<Rightarrow> ptr \<Rightarrow> body \<Rightarrow> ptr \<Rightarrow> (rts, leave_outcome) prog" where
  "run_body rc i Finish sf = ret Returned"
| "run_body rc i (Spawn h c b k) sf = result [cilkrts_enter_frame_fast_1 h, cilkrts_detach h, cilkrts_enter_frame_1 c]
     (go_on (run_body rc i b c) (go_on (leave_function rc i c) (go_on (leave_function rc i h) (run_body rc i k sf))))"
| "run_body rc i (Call c b k) sf = result [cilkrts_enter_frame_1 c]
     (go_on (run_body rc i b c) (go_on (leave_function rc i c) (run_body rc i k sf)))"
| "run_body rc i (Sync k) sf = go_on (cilk_sync rc sf) (run_body rc i k sf)"

text \<open>How many cells of the deque a body needs, and how many strands follow one another in it.\<close>

primrec spawn_depth :: "body \<Rightarrow> nat" where
  "spawn_depth Finish = 0"
| "spawn_depth (Spawn h c b k) = max (Suc (spawn_depth b)) (spawn_depth k)"
| "spawn_depth (Call c b k) = max (spawn_depth b) (spawn_depth k)"
| "spawn_depth (Sync k) = spawn_depth k"

primrec strands :: "body \<Rightarrow> nat" where
  "strands Finish = 0"
| "strands (Spawn h c b k) = Suc (strands k)"
| "strands (Call c b k) = strands b + strands k"
| "strands (Sync k) = Suc (strands k)"

text \<open>The frames of a body lie in the stack memory \<open>M\<close>, away from the frames \<open>L\<close> that are live.\<close>

primrec frames_in :: "ptr set \<Rightarrow> body \<Rightarrow> ptr set \<Rightarrow> bool" where
  "frames_in M Finish L \<longleftrightarrow> True"
| "frames_in M (Spawn h c b k) L \<longleftrightarrow> h \<in> M - L \<and> c \<in> M - insert h L \<and> frames_in M b (insert c (insert h L))
     \<and> frames_in M k L"
| "frames_in M (Call c b k) L \<longleftrightarrow> c \<in> M - L \<and> frames_in M b (insert c L) \<and> frames_in M k L"
| "frames_in M (Sync k) L \<longleftrightarrow> frames_in M k L"

definition ABI_1 :: "32 word" where "ABI_1 = 0x01000000"

definition fresh_frame :: "ptr \<Rightarrow> worker \<Rightarrow> stack_frame \<Rightarrow> stack_frame" where
  "fresh_frame w x y = y\<lparr>sf_flags := ABI_1, sf_call_parent := wk_current_stack_frame x, sf_worker := w\<rparr>"

text \<open>What the entry points leave alone.\<close>

definition rest :: "rts \<Rightarrow> rts" where
  "rest s = s\<lparr>r_sfs := Map.empty, r_workers := Map.empty, r_deques := Map.empty\<rparr>"

lemma rest_upd [simp]:
  "rest (s\<lparr>r_sfs := F\<rparr>) = rest s" "rest (s\<lparr>r_workers := W\<rparr>) = rest s" "rest (s\<lparr>r_deques := D\<rparr>) = rest s"
  by (simp_all add: rest_def)

lemma rest_tls: "rest t = rest s \<Longrightarrow> r_tls t = r_tls s"
  by (cases s, cases t) (simp add: rest_def)

lemma abi_1_flags [simp]:
  "ABI_1 AND CILK_FRAME_FLAGS_MASK = 0" "CILK_FRAME_VERSION_VALUE ABI_1 = 1"
  "\<not> has_flag ABI_1 CILK_FRAME_DETACHED" "\<not> has_flag ABI_1 CILK_FRAME_LAST" "\<not> has_flag ABI_1 CILK_FRAME_STOLEN"
  "\<not> has_flag ABI_1 CILK_FRAME_UNSYNCHED" "\<not> has_flag ABI_1 CILK_FRAME_EXCEPTING"
  "has_flag (set_flag CILK_FRAME_DETACHED ABI_1) CILK_FRAME_DETACHED"
  "\<not> has_flag (set_flag CILK_FRAME_DETACHED ABI_1) CILK_FRAME_EXCEPTING"
  "clear_flag CILK_FRAME_DETACHED (set_flag CILK_FRAME_DETACHED ABI_1) = ABI_1"
  by (simp_all add: ABI_1_def CILK_FRAME_FLAGS_MASK_def CILK_FRAME_VERSION_VALUE_def CILK_FRAME_VERSION_MASK_def
    frame_flag_defs has_flag_def set_flag_def clear_flag_def)

lemma ped_rank_of_worker:
  "wk_pedigree_update (ped_rank_update f) x = x\<lparr>wk_pedigree := ped_rank_update f (wk_pedigree x)\<rparr>"
  by (cases x) simp

lemma ped_both_of_worker:
  "wk_pedigree_update (ped_parent_update (\<lambda>_. p) \<circ> ped_rank_update (\<lambda>_. r)) (x :: worker)
   = x\<lparr>wk_pedigree := \<lparr>ped_rank = r, ped_parent = p\<rparr>\<rparr>"
  by (cases x) simp

lemma enter_frame_runs:
  assumes "r_tls s = w" "worker_at s w = Some x" "sf_at s f = Some y"
    and m: "m = cilkrts_enter_frame_1 f \<or> m = cilkrts_enter_frame_fast_1 f"
  obtains t where "m s = Inr ((), t)" "rest t = rest s" "r_deques t = r_deques s"
    "r_workers t = (r_workers s)(w \<mapsto> x\<lparr>wk_current_stack_frame := f\<rparr>)"
    "r_sfs t = (r_sfs s)(f \<mapsto> fresh_frame w x y)"
proof -
  have d: "w \<noteq> 0" "r_workers s w = Some x" "f \<noteq> 0" "r_sfs s f = Some y"
    using assms deref_SomeD by metis+
  note e = fresh_frame_def ABI_1_def CILK_FRAME_FLAGS_MASK_def
  have "m s = Inr ((), s\<lparr>r_sfs := (r_sfs s)(f \<mapsto> fresh_frame w x y),
      r_workers := (r_workers s)(w \<mapsto> x\<lparr>wk_current_stack_frame := f\<rparr>)\<rparr>)"
    using m
  proof
    assume "m = cilkrts_enter_frame_1 f"
    then show ?thesis using assms(1-3) d
      by (simp add: cilkrts_enter_frame_1_def enter_frame_internal_def push_frame_def run e)
  next
    assume "m = cilkrts_enter_frame_fast_1 f"
    then show ?thesis using assms(1-3) d
      by (simp add: cilkrts_enter_frame_fast_1_def enter_frame_fast_internal_def push_frame_def run e)
  qed
  then show ?thesis using that by simp
qed

lemma detach_runs:
  assumes "r_tls s = w" "worker_at s w = Some x" "sf_at s h = Some y" "sf_call_parent y = sf" "sf \<noteq> h"
    "sf_at s sf = Some z" "wk_the x = d" "deque_at s d = Some q" "0 \<le> dq_tail q"
    "sf_flags y = ABI_1"
  shows "if dq_tail q < int (length (dq_ltq q)) then \<exists>t. cilkrts_detach h s = Inr ((), t) \<and> rest t = rest s
     \<and> r_deques t = (r_deques s)(d \<mapsto> q\<lparr>dq_tail := dq_tail q + 1, dq_ltq := (dq_ltq q)[nat (dq_tail q) := sf]\<rparr>)
     \<and> r_workers t = (r_workers s)(w \<mapsto> x\<lparr>wk_pedigree := \<lparr>ped_rank = 1, ped_parent = PFrame h\<rparr>\<rparr>)
     \<and> r_sfs t = (r_sfs s)(sf \<mapsto> z\<lparr>sf_pedigree := wk_pedigree x\<rparr>,
         h \<mapsto> y\<lparr>sf_pedigree := wk_pedigree x, sf_flags := set_flag CILK_FRAME_DETACHED ABI_1\<rparr>)
   else cilkrts_detach h s = Inl (Assertion ''tail < *w->ltq_limit'')"
  using assms deref_SomeD [OF assms(2)] deref_SomeD [OF assms(3)] deref_SomeD [OF assms(6)] deref_SomeD [OF assms(8)]
  by (auto simp: cilkrts_detach_def detach_pedigree_def or_flags_def run fun_upd_twist)

lemma leave_call_runs:
  assumes "r_tls s = w" "worker_at s w = Some x" "sf_at s c = Some y" "sf_flags y = ABI_1"
  obtains t where "leave_function rc i c s = Inr (Returned, t)" "rest t = rest s" "r_deques t = r_deques s"
    "r_workers t = (r_workers s)(w \<mapsto> x\<lparr>wk_current_stack_frame := sf_call_parent y\<rparr>)"
    "r_sfs t = (r_sfs s)(c \<mapsto> y\<lparr>sf_call_parent := NULL\<rparr>)"
proof -
  have "leave_function rc i c s = Inr (Returned, s\<lparr>r_sfs := (r_sfs s)(c \<mapsto> y\<lparr>sf_call_parent := NULL\<rparr>),
      r_workers := (r_workers s)(w \<mapsto> x\<lparr>wk_current_stack_frame := sf_call_parent y\<rparr>)\<rparr>)"
    using assms deref_SomeD [OF assms(2)] deref_SomeD [OF assms(3)]
    by (simp add: leave_function_def cilkrts_pop_frame_def cilkrts_leave_frame_def run)
  then show ?thesis using that by simp
qed

text \<open>The helper leaves: its parent is at the tail of the deque and no thief has moved \<open>E\<close> past it.\<close>

lemma leave_spawn_runs:
  assumes "r_tls s = w" "worker_at s w = Some x" "sf_at s h = Some y"
    "sf_flags y = set_flag CILK_FRAME_DETACHED ABI_1" "wk_the x = d" "deque_at s d = Some q"
    "dq_exc q = Exc e" "e < dq_tail q"
  obtains t where "leave_function rc i h s = Inr (Returned, t)" "rest t = rest s"
    "r_deques t = (r_deques s)(d \<mapsto> q\<lparr>dq_tail := dq_tail q - 1\<rparr>)"
    "r_workers t = (r_workers s)(w \<mapsto> x\<lparr>wk_current_stack_frame := sf_call_parent y,
       wk_pedigree := \<lparr>ped_rank = ped_rank (sf_pedigree y) + 1, ped_parent = ped_parent (sf_pedigree y)\<rparr>\<rparr>)"
    "r_sfs t = (r_sfs s)(h \<mapsto> y\<lparr>sf_call_parent := NULL, sf_flags := ABI_1\<rparr>)"
proof -
  have "\<exists>t. leave_function rc i h s = Inr (Returned, t) \<and> rest t = rest s \<and>
    r_deques t = (r_deques s)(d \<mapsto> q\<lparr>dq_tail := dq_tail q - 1\<rparr>) \<and>
    r_workers t = (r_workers s)(w \<mapsto> x\<lparr>wk_current_stack_frame := sf_call_parent y,
       wk_pedigree := \<lparr>ped_rank = ped_rank (sf_pedigree y) + 1, ped_parent = ped_parent (sf_pedigree y)\<rparr>\<rparr>) \<and>
    r_sfs t = (r_sfs s)(h \<mapsto> y\<lparr>sf_call_parent := NULL, sf_flags := ABI_1\<rparr>)"
    using assms deref_SomeD [OF assms(2)] deref_SomeD [OF assms(3)] deref_SomeD [OF assms(6)]
    by (simp add: leave_function_def cilkrts_pop_frame_def cilkrts_leave_frame_def leave_detached_frame_def
      cilkrts_undo_detach_def and_not_flags_def update_pedigree_on_leave_frame_def has_pedigree_def run
      ped_both_of_worker)
  then show ?thesis using that by blast
qed

lemma sync_runs:
  assumes "r_tls s = w" "worker_at s w = Some x" "sf_at s sf = Some y" "sf_flags y = ABI_1"
  obtains t where "cilk_sync rc sf s = Inr (Returned, t)" "rest t = rest s" "r_deques t = r_deques s" "r_sfs t = r_sfs s"
    "r_workers t = (r_workers s)(w \<mapsto> x\<lparr>wk_pedigree := ped_rank_update (\<lambda>r. r + 1) (wk_pedigree x)\<rparr>)"
proof -
  have "cilk_sync rc sf s = Inr (Returned, s\<lparr>r_workers :=
     (r_workers s)(w \<mapsto> x\<lparr>wk_pedigree := ped_rank_update (\<lambda>r. r + 1) (wk_pedigree x)\<rparr>)\<rparr>)"
    using assms deref_SomeD [OF assms(2)] deref_SomeD [OF assms(3)]
    by (simp add: cilk_sync_def update_pedigree_after_sync_def has_pedigree_def run ped_rank_of_worker)
  then show ?thesis using that by simp
qed


text \<open>
  \<open>strand_at\<close>: the worker runs a frame, with the deque it uses in order and nothing of it under theft.
  \<open>back_at\<close>: it runs it again, \<open>n\<close> strands later.
\<close>

definition running :: "ptr \<Rightarrow> ptr \<Rightarrow> worker \<Rightarrow> deque \<Rightarrow> ptr \<Rightarrow> rts \<Rightarrow> bool" where
  "running w d x q sf s \<longleftrightarrow> r_tls s = w \<and> worker_at s w = Some x \<and> wk_the x = d \<and> wk_current_stack_frame x = sf
     \<and> deque_at s d = Some q \<and> 0 \<le> dq_tail q \<and> (\<exists>e. dq_exc q = Exc e \<and> e \<le> dq_tail q)"

definition strand_at :: "ptr \<Rightarrow> ptr \<Rightarrow> worker \<Rightarrow> deque \<Rightarrow> ptr \<Rightarrow> rts \<Rightarrow> bool" where
  "strand_at w d x q sf s \<longleftrightarrow> running w d x q sf s \<and> map_option sf_flags (sf_at s sf) = Some ABI_1"

definition stack_ok :: "ptr set \<Rightarrow> rts \<Rightarrow> bool" where
  "stack_ok M s \<longleftrightarrow> (\<forall>p \<in> M. sf_at s p \<noteq> None)"

definition steps_on :: "nat \<Rightarrow> worker \<Rightarrow> worker" where
  "steps_on n x = x\<lparr>wk_pedigree := ped_rank_update (\<lambda>r. r + of_nat n) (wk_pedigree x)\<rparr>"

definition back_at :: "ptr \<Rightarrow> ptr \<Rightarrow> worker \<Rightarrow> deque \<Rightarrow> nat \<Rightarrow> rts \<Rightarrow> rts \<Rightarrow> bool" where
  "back_at w d x q n s t \<longleftrightarrow> rest t = rest s \<and> r_workers t = (r_workers s)(w \<mapsto> steps_on n x)
     \<and> (\<exists>l. r_deques t = (r_deques s)(d \<mapsto> q\<lparr>dq_ltq := l\<rparr>) \<and> length l = length (dq_ltq q)
          \<and> take (nat (dq_tail q)) l = take (nat (dq_tail q)) (dq_ltq q))"

text \<open>The frames that are live keep what they hold, but for the pedigree of the frame that runs.\<close>

definition live_kept :: "ptr set \<Rightarrow> ptr set \<Rightarrow> ptr \<Rightarrow> rts \<Rightarrow> rts \<Rightarrow> bool" where
  "live_kept M L sf s t \<longleftrightarrow> (\<forall>p. p \<notin> M - L \<longrightarrow> p \<noteq> sf \<longrightarrow> r_sfs t p = r_sfs s p)
     \<and> map_option (sf_pedigree_update (\<lambda>_. \<lparr>ped_rank = 0, ped_parent = PNULL\<rparr>)) (sf_at t sf)
       = map_option (sf_pedigree_update (\<lambda>_. \<lparr>ped_rank = 0, ped_parent = PNULL\<rparr>)) (sf_at s sf)"

lemma back_at_0: "strand_at w d x q sf s \<Longrightarrow> back_at w d x q 0 s s"
  by (auto simp: back_at_def strand_at_def running_def steps_on_def dest!: deref_SomeD intro!: exI [of _ "dq_ltq q"])

lemma steps_on_add: "steps_on n (steps_on m x) = steps_on (m + n) x"
  by (simp add: steps_on_def add.assoc)

lemma back_at_trans:
  assumes "back_at w d x q m s t" "r_deques t = (r_deques s)(d \<mapsto> q')" "back_at w d (steps_on m x) q' n t u"
  shows "back_at w d x q (m + n) s u"
proof -
  obtain l where l: "q' = q\<lparr>dq_ltq := l\<rparr>" "length l = length (dq_ltq q)"
    "take (nat (dq_tail q)) l = take (nat (dq_tail q)) (dq_ltq q)"
    using assms(1,2) by (auto simp: back_at_def dest!: fun_cong [of _ _ d])
  then show ?thesis using assms by (auto simp: back_at_def steps_on_add)
qed

lemma live_kept_trans:
  "live_kept M L sf s t \<Longrightarrow> live_kept M L sf t u \<Longrightarrow> live_kept M L sf s u"
  by (auto simp: live_kept_def)

lemma strand_back:
  assumes "strand_at w d x q sf s" "back_at w d x q n s t" "live_kept M L sf s t" "r_deques t = (r_deques s)(d \<mapsto> q')"
  shows "strand_at w d (steps_on n x) q' sf t"
proof -
  have q': "dq_tail q' = dq_tail q" "dq_exc q' = dq_exc q"
    using assms(2,4) by (auto simp: back_at_def dest!: fun_cong [of _ _ d])
  have "map_option sf_flags (sf_at t sf) = map_option sf_flags (sf_at s sf)"
  proof -
    have "map_option sf_flags (map_option (sf_pedigree_update (\<lambda>_. \<lparr>ped_rank = 0, ped_parent = PNULL\<rparr>)) (sf_at t sf))
      = map_option sf_flags (map_option (sf_pedigree_update (\<lambda>_. \<lparr>ped_rank = 0, ped_parent = PNULL\<rparr>)) (sf_at s sf))"
      using assms(3) by (simp only: live_kept_def)
    then show ?thesis by (simp add: option.map_comp o_def)
  qed
  moreover have "r_tls t = r_tls s"
    using assms(2) rest_tls [of t s] by (simp add: back_at_def)
  moreover have "r_workers t = (r_workers s)(w \<mapsto> steps_on n x)"
    using assms(2) by (simp add: back_at_def)
  moreover have "w \<noteq> 0" "d \<noteq> 0"
    using assms(1) by (auto simp: strand_at_def running_def dest!: deref_SomeD)
  ultimately show ?thesis
    using assms(1,4) q' by (simp add: strand_at_def running_def steps_on_def)
qed


definition untouched :: "ptr set \<Rightarrow> ptr set \<Rightarrow> rts \<Rightarrow> rts \<Rightarrow> bool" where
  "untouched M L s t \<longleftrightarrow> (\<forall>p. p \<notin> M - L \<longrightarrow> r_sfs t p = r_sfs s p)"

lemma untouched_live: "untouched M L s t \<Longrightarrow> sf \<in> L \<Longrightarrow> live_kept M L sf s t"
  by (auto simp: untouched_def live_kept_def deref_def)

lemma stack_ok_upd:
  "r_sfs t = (r_sfs s)(p \<mapsto> y) \<Longrightarrow> stack_ok M s \<Longrightarrow> stack_ok M t"
  by (auto simp: stack_ok_def deref_def split: if_splits)

text \<open>A function is entered.\<close>

lemma call_starts:
  assumes s: "running w d x q sf s" and c: "c \<in> M" "stack_ok M s"
  obtains y t where "cilkrts_enter_frame_1 c s = Inr ((), t)" "rest t = rest s" "r_deques t = r_deques s"
    "r_workers t = (r_workers s)(w \<mapsto> x\<lparr>wk_current_stack_frame := c\<rparr>)" "r_sfs t = (r_sfs s)(c \<mapsto> fresh_frame w x y)"
    "strand_at w d (x\<lparr>wk_current_stack_frame := c\<rparr>) q c t" "stack_ok M t"
proof -
  obtain y where y: "sf_at s c = Some y" using c by (auto simp: stack_ok_def)
  obtain t where t: "cilkrts_enter_frame_1 c s = Inr ((), t)" "rest t = rest s" "r_deques t = r_deques s"
    "r_workers t = (r_workers s)(w \<mapsto> x\<lparr>wk_current_stack_frame := c\<rparr>)" "r_sfs t = (r_sfs s)(c \<mapsto> fresh_frame w x y)"
    using s y by (auto simp: running_def intro: enter_frame_runs [of s w x c y])
  have "strand_at w d (x\<lparr>wk_current_stack_frame := c\<rparr>) q c t"
    using s t rest_tls [OF t(2)] deref_SomeD [OF y] deref_SomeD [of "r_workers s" w x]
    by (auto simp: strand_at_def running_def fresh_frame_def)
  then show ?thesis using that t stack_ok_upd [OF t(5) c(2)] by blast
qed

text \<open>It returns to its caller.\<close>

lemma call_returns:
  assumes s: "running w d x q sf s" and c: "c \<in> M - L"
    and s1: "rest s1 = rest s" "r_deques s1 = r_deques s"
      "r_workers s1 = (r_workers s)(w \<mapsto> x\<lparr>wk_current_stack_frame := c\<rparr>)" "r_sfs s1 = (r_sfs s)(c \<mapsto> fresh_frame w x y)"
    and t1: "back_at w d (x\<lparr>wk_current_stack_frame := c\<rparr>) q n s1 t1" "live_kept M (insert c L) c s1 t1" "stack_ok M t1"
  obtains t where "leave_function rc i c t1 = Inr (Returned, t)" "back_at w d x q n s t" "untouched M L s t" "stack_ok M t"
proof -
  have w: "w \<noteq> 0" "r_tls t1 = w"
    using s rest_tls [of t1 s] s1(1) t1(1) by (auto simp: running_def back_at_def dest!: deref_SomeD)
  obtain z where z: "sf_at t1 c = Some z" "sf_flags z = ABI_1" "sf_call_parent z = sf"
  proof -
    have "c \<noteq> 0" using t1(3) c by (cases "c = 0") (auto simp: stack_ok_def)
    then have "map_option (sf_pedigree_update (\<lambda>_. \<lparr>ped_rank = 0, ped_parent = PNULL\<rparr>)) (sf_at t1 c)
      = Some (sf_pedigree_update (\<lambda>_. \<lparr>ped_rank = 0, ped_parent = PNULL\<rparr>) (fresh_frame w x y))"
      using t1(2) s1(4) by (simp add: live_kept_def)
    then obtain z where z: "sf_at t1 c = Some z"
      "z\<lparr>sf_pedigree := \<lparr>ped_rank = 0, ped_parent = PNULL\<rparr>\<rparr> = (fresh_frame w x y)\<lparr>sf_pedigree := \<lparr>ped_rank = 0, ped_parent = PNULL\<rparr>\<rparr>"
      by auto
    have "sf_flags z = sf_flags (fresh_frame w x y)" "sf_call_parent z = sf_call_parent (fresh_frame w x y)"
      using arg_cong [OF z(2), of sf_flags] arg_cong [OF z(2), of sf_call_parent] by simp_all
    then show ?thesis using that z(1) s by (simp add: fresh_frame_def running_def)
  qed
  have wk: "worker_at t1 w = Some (steps_on n (x\<lparr>wk_current_stack_frame := c\<rparr>))"
    using t1(1) w(1) by (simp add: back_at_def)
  obtain t where t: "leave_function rc i c t1 = Inr (Returned, t)" "rest t = rest t1" "r_deques t = r_deques t1"
    "r_workers t = (r_workers t1)(w \<mapsto> (steps_on n (x\<lparr>wk_current_stack_frame := c\<rparr>))\<lparr>wk_current_stack_frame := sf_call_parent z\<rparr>)"
    "r_sfs t = (r_sfs t1)(c \<mapsto> z\<lparr>sf_call_parent := NULL\<rparr>)"
    by (rule leave_call_runs [OF w(2) wk z(1,2), of rc i]) blast
  have "(steps_on n (x\<lparr>wk_current_stack_frame := c\<rparr>))\<lparr>wk_current_stack_frame := sf_call_parent z\<rparr> = steps_on n x"
    using s z(3) by (cases x) (auto simp: steps_on_def running_def)
  then have "back_at w d x q n s t"
    using t(2-4) t1(1) s1(1-3) by (simp add: back_at_def)
  moreover have "untouched M L s t"
    using t(5) t1(2) s1(4) c by (auto simp: untouched_def live_kept_def)
  ultimately show ?thesis using that t(1) stack_ok_upd [OF t(5) t1(3)] by blast
qed


text \<open>A helper is entered and detached: its parent goes to the tail of the deque.\<close>

definition pushed :: "ptr \<Rightarrow> deque \<Rightarrow> deque" where
  "pushed sf q = q\<lparr>dq_tail := dq_tail q + 1, dq_ltq := (dq_ltq q)[nat (dq_tail q) := sf]\<rparr>"

definition in_helper :: "ptr \<Rightarrow> worker \<Rightarrow> worker" where
  "in_helper h x = x\<lparr>wk_current_stack_frame := h, wk_pedigree := \<lparr>ped_rank = 1, ped_parent = PFrame h\<rparr>\<rparr>"

definition detached :: "ptr \<Rightarrow> worker \<Rightarrow> stack_frame \<Rightarrow> stack_frame" where
  "detached w x y = (fresh_frame w x y)\<lparr>sf_pedigree := wk_pedigree x, sf_flags := set_flag CILK_FRAME_DETACHED ABI_1\<rparr>"

lemma spawn_enters:
  assumes s: "strand_at w d x q sf s" and h: "h \<in> M - L" "sf \<in> L" "stack_ok M s"
  obtains y z s1 where "cilkrts_enter_frame_fast_1 h s = Inr ((), s1)" "rest s1 = rest s" "sf_at s sf = Some z"
    "if dq_tail q < int (length (dq_ltq q)) then \<exists>t. cilkrts_detach h s1 = Inr ((), t) \<and> rest t = rest s
     \<and> r_deques t = (r_deques s)(d \<mapsto> pushed sf q) \<and> r_workers t = (r_workers s)(w \<mapsto> in_helper h x)
     \<and> r_sfs t = (r_sfs s)(sf \<mapsto> z\<lparr>sf_pedigree := wk_pedigree x\<rparr>, h \<mapsto> detached w x y)
     else cilkrts_detach h s1 = Inl (Assertion ''tail < *w->ltq_limit'')"
proof -
  obtain y where y: "sf_at s h = Some y" using h by (auto simp: stack_ok_def)
  obtain z where z: "sf_at s sf = Some z" "sf_flags z = ABI_1" using s by (auto simp: strand_at_def)
  have r: "r_tls s = w" "worker_at s w = Some x" "wk_the x = d" "wk_current_stack_frame x = sf"
    "deque_at s d = Some q" "0 \<le> dq_tail q" "sf \<noteq> h"
    using s h by (auto simp: strand_at_def running_def)
  obtain s1 where s1: "cilkrts_enter_frame_fast_1 h s = Inr ((), s1)" "rest s1 = rest s" "r_deques s1 = r_deques s"
    "r_workers s1 = (r_workers s)(w \<mapsto> x\<lparr>wk_current_stack_frame := h\<rparr>)" "r_sfs s1 = (r_sfs s)(h \<mapsto> fresh_frame w x y)"
    by (rule enter_frame_runs [OF r(1,2) y disjI2 [OF refl]]) blast
  have nz: "w \<noteq> 0" "h \<noteq> 0" using r(2) y by (auto dest!: deref_SomeD)
  have "if dq_tail q < int (length (dq_ltq q)) then \<exists>t. cilkrts_detach h s1 = Inr ((), t) \<and> rest t = rest s1
     \<and> r_deques t = (r_deques s1)(d \<mapsto> q\<lparr>dq_tail := dq_tail q + 1, dq_ltq := (dq_ltq q)[nat (dq_tail q) := sf]\<rparr>)
     \<and> r_workers t = (r_workers s1)(w \<mapsto> x\<lparr>wk_current_stack_frame := h, wk_pedigree := \<lparr>ped_rank = 1, ped_parent = PFrame h\<rparr>\<rparr>)
     \<and> r_sfs t = (r_sfs s1)(sf \<mapsto> z\<lparr>sf_pedigree := wk_pedigree x\<rparr>,
         h \<mapsto> (fresh_frame w x y)\<lparr>sf_pedigree := wk_pedigree x, sf_flags := set_flag CILK_FRAME_DETACHED ABI_1\<rparr>)
   else cilkrts_detach h s1 = Inl (Assertion ''tail < *w->ltq_limit'')"
    using detach_runs [of s1 w "x\<lparr>wk_current_stack_frame := h\<rparr>" h "fresh_frame w x y" sf z d q] s1 r z nz rest_tls [OF s1(2)]
    by (auto simp: fresh_frame_def split: if_splits)
  then show ?thesis
    using that [OF s1(1,2) z(1), of y] s1 r(7)
    by (auto simp: pushed_def in_helper_def detached_def fun_upd_twist split: if_splits)
qed

lemma spawn_running:
  assumes s: "strand_at w d x q sf s" and h: "h \<in> M" "stack_ok M s" "sf_at s sf = Some z"
    and t: "rest t = rest s" "r_deques t = (r_deques s)(d \<mapsto> pushed sf q)" "r_workers t = (r_workers s)(w \<mapsto> in_helper h x)"
      "r_sfs t = (r_sfs s)(sf \<mapsto> z\<lparr>sf_pedigree := wk_pedigree x\<rparr>, h \<mapsto> detached w x y)"
  shows "running w d (in_helper h x) (pushed sf q) h t \<and> stack_ok M t"
proof
  have "w \<noteq> 0" "d \<noteq> 0" using s by (auto simp: strand_at_def running_def dest!: deref_SomeD)
  then show "running w d (in_helper h x) (pushed sf q) h t"
    using s t rest_tls [OF t(1)] by (auto simp: strand_at_def running_def in_helper_def pushed_def)
  show "stack_ok M t"
    using h t(4) by (auto simp: stack_ok_def deref_def split: if_splits)
qed

lemma spawn_returns:
  assumes s: "strand_at w d x q sf s" and h: "h \<in> M - L" "sf \<in> L" "sf_at s sf = Some z" "stack_ok M s"
    and s2: "rest s2 = rest s" "r_deques s2 = (r_deques s)(d \<mapsto> pushed sf q)"
      "r_workers s2 = (r_workers s)(w \<mapsto> in_helper h x)"
      "r_sfs s2 = (r_sfs s)(sf \<mapsto> z\<lparr>sf_pedigree := wk_pedigree x\<rparr>, h \<mapsto> detached w x y)"
    and t1: "back_at w d (in_helper h x) (pushed sf q) n s2 t1" "untouched M (insert h L) s2 t1" "stack_ok M t1"
  obtains t where "leave_function rc i h t1 = Inr (Returned, t)" "back_at w d x q 1 s t" "live_kept M L sf s t" "stack_ok M t"
proof -
  have r: "w \<noteq> 0" "d \<noteq> 0" "wk_the x = d" "wk_current_stack_frame x = sf" "0 \<le> dq_tail q" "sf \<noteq> h" "sf \<noteq> 0"
    using s h by (auto simp: strand_at_def running_def dest!: deref_SomeD)
  obtain e where e: "dq_exc q = Exc e" "e \<le> dq_tail q" using s by (auto simp: strand_at_def running_def)
  have tls: "r_tls t1 = w"
    using s rest_tls [of t1 s] s2(1) t1(1) by (simp add: strand_at_def running_def back_at_def)
  have hz: "h \<noteq> 0" using h(1,4) by (cases "h = 0") (auto simp: stack_ok_def)
  have f: "sf_at t1 h = Some (detached w x y)" "r_sfs t1 sf = Some (z\<lparr>sf_pedigree := wk_pedigree x\<rparr>)"
    using t1(2) s2(4) h r(6) hz by (auto simp: untouched_def deref_def)
  obtain l where l: "r_deques t1 = (r_deques s)(d \<mapsto> (pushed sf q)\<lparr>dq_ltq := l\<rparr>)" "length l = length (dq_ltq q)"
    "take (nat (dq_tail q + 1)) l = take (nat (dq_tail q + 1)) ((dq_ltq q)[nat (dq_tail q) := sf])"
    using t1(1) s2(2) by (auto simp: back_at_def pushed_def)
  have prefix: "take (nat (dq_tail q)) l = take (nat (dq_tail q)) (dq_ltq q)"
    using arg_cong [OF l(3), of "take (nat (dq_tail q))"] nat_mono [of "dq_tail q" "dq_tail q + 1"] by (simp add: min_absorb1)
  obtain t where t: "leave_function rc i h t1 = Inr (Returned, t)" "rest t = rest t1"
    "r_deques t = (r_deques t1)(d \<mapsto> ((pushed sf q)\<lparr>dq_ltq := l\<rparr>)\<lparr>dq_tail := dq_tail ((pushed sf q)\<lparr>dq_ltq := l\<rparr>) - 1\<rparr>)"
    "r_workers t = (r_workers t1)(w \<mapsto> (steps_on n (in_helper h x))\<lparr>wk_current_stack_frame := sf_call_parent (detached w x y),
       wk_pedigree := \<lparr>ped_rank = ped_rank (sf_pedigree (detached w x y)) + 1,
         ped_parent = ped_parent (sf_pedigree (detached w x y))\<rparr>\<rparr>)"
    "r_sfs t = (r_sfs t1)(h \<mapsto> (detached w x y)\<lparr>sf_call_parent := NULL, sf_flags := ABI_1\<rparr>)"
    by (rule leave_spawn_runs [OF tls _ f(1), of "steps_on n (in_helper h x)" d "(pushed sf q)\<lparr>dq_ltq := l\<rparr>" e rc i])
      (use t1(1) l(1) r e in \<open>auto simp: back_at_def detached_def steps_on_def in_helper_def pushed_def\<close>)
  have "back_at w d x q 1 s t"
  proof -
    have "(steps_on n (in_helper h x))\<lparr>wk_current_stack_frame := sf_call_parent (detached w x y),
       wk_pedigree := \<lparr>ped_rank = ped_rank (sf_pedigree (detached w x y)) + 1,
         ped_parent = ped_parent (sf_pedigree (detached w x y))\<rparr>\<rparr> = steps_on 1 x"
      by (cases x; cases "wk_pedigree x") (simp add: steps_on_def in_helper_def detached_def fresh_frame_def)
    moreover have "((pushed sf q)\<lparr>dq_ltq := l\<rparr>)\<lparr>dq_tail := dq_tail ((pushed sf q)\<lparr>dq_ltq := l\<rparr>) - 1\<rparr> = q\<lparr>dq_ltq := l\<rparr>"
      by (simp add: pushed_def)
    ultimately show ?thesis
      using t(2-4) t1(1) s2(1,3) l(1,2) prefix unfolding back_at_def by auto
  qed
  moreover have "live_kept M L sf s t"
    using t(5) t1(2) s2(4) h(1,3) f(2) r(6,7) by (auto simp: untouched_def live_kept_def deref_def)
  ultimately show ?thesis using that t(1) stack_ok_upd [OF t(5) t1(3)] by blast
qed


section \<open>The execution of a body\<close>

text \<open>What a body does from a state: it returns with all its strands behind it, or it runs out of deque.\<close>

definition body_runs :: "red_client \<Rightarrow> ptr \<Rightarrow> ptr set \<Rightarrow> ptr set \<Rightarrow> ptr \<Rightarrow> ptr \<Rightarrow> worker \<Rightarrow> deque \<Rightarrow> body \<Rightarrow> ptr \<Rightarrow> rts \<Rightarrow> bool" where
  "body_runs rc i M L w d x q b sf s \<longleftrightarrow>
     (if spawn_depth b \<le> nat (int (length (dq_ltq q)) - dq_tail q)
      then \<exists>t. run_body rc i b sf s = Inr (Returned, t) \<and> back_at w d x q (strands b) s t \<and> live_kept M L sf s t \<and> stack_ok M t
      else run_body rc i b sf s = Inl (Assertion ''tail < *w->ltq_limit''))"

lemma go_on_Returned: "m s = Inr (Returned, t) \<Longrightarrow> go_on m k s = k t"
  by (simp add: go_on_def run)

lemma go_on_fails: "m s = Inl e \<Longrightarrow> go_on m k s = Inl e"
  by (simp add: go_on_def run)

text \<open>After a first part that comes back the rest of the body runs.\<close>

lemma body_continues:
  assumes s: "strand_at w d x q sf s" and m: "m s = Inr (Returned, t)" "back_at w d x q n s t" "live_kept M L sf s t" "stack_ok M t"
    and rest_of: "\<And>x q s. strand_at w d x q sf s \<Longrightarrow> stack_ok M s \<Longrightarrow> body_runs rc i M L w d x q k sf s"
    and b: "run_body rc i b sf s = go_on m (run_body rc i k sf) s" "strands b = n + strands k"
      "spawn_depth k \<le> nat (int (length (dq_ltq q)) - dq_tail q) \<longleftrightarrow> spawn_depth b \<le> nat (int (length (dq_ltq q)) - dq_tail q)"
  shows "body_runs rc i M L w d x q b sf s"
proof -
  obtain l where l: "r_deques t = (r_deques s)(d \<mapsto> q\<lparr>dq_ltq := l\<rparr>)" "length l = length (dq_ltq q)"
    using m(2) by (auto simp: back_at_def)
  have "body_runs rc i M L w d (steps_on n x) (q\<lparr>dq_ltq := l\<rparr>) k sf t"
    by (rule rest_of [OF strand_back [OF s m(2,3) l(1)] m(4)])
  then show ?thesis
    using b l(2) back_at_trans [OF m(2) l(1)] live_kept_trans [OF m(3)]
    by (auto simp: body_runs_def go_on_Returned [of m, OF m(1)] split: if_splits)
qed

lemma body_runs_Sync:
  assumes "strand_at w d x q sf s" "stack_ok M s"
    and "\<And>x q s. strand_at w d x q sf s \<Longrightarrow> stack_ok M s \<Longrightarrow> body_runs rc i M L w d x q k sf s"
  shows "body_runs rc i M L w d x q (Sync k) sf s"
proof -
  obtain y where y: "sf_at s sf = Some y" "sf_flags y = ABI_1" using assms(1) by (auto simp: strand_at_def)
  have r: "r_tls s = w" "worker_at s w = Some x" "deque_at s d = Some q" using assms(1) by (auto simp: strand_at_def running_def)
  obtain t where t: "cilk_sync rc sf s = Inr (Returned, t)" "rest t = rest s" "r_deques t = r_deques s" "r_sfs t = r_sfs s"
    "r_workers t = (r_workers s)(w \<mapsto> x\<lparr>wk_pedigree := ped_rank_update (\<lambda>r. r + 1) (wk_pedigree x)\<rparr>)"
    by (rule sync_runs [OF r(1,2) y, of rc]) blast
  have "back_at w d x q 1 s t"
    using t deref_SomeD [OF r(3)] by (auto simp: back_at_def steps_on_def intro!: exI [of _ "dq_ltq q"])
  moreover have "live_kept M L sf s t" "stack_ok M t" using t(4) assms(2) by (simp_all add: live_kept_def stack_ok_def)
  ultimately show ?thesis
    by (rule body_continues [where m = "cilk_sync rc sf" and n = 1, OF assms(1) t(1) _ _ _ assms(3)]) simp_all
qed


lemma go_on_assoc: "go_on (go_on a b) k = go_on a (go_on b k)" "go_on (result ms a) k = result ms (go_on a k)"
  by (auto simp: fun_eq_iff go_on_def run split: sum.splits)

text \<open>A call as one step: it comes back, or it runs out of deque.\<close>

lemma call_step:
  assumes s: "running w d x q sf s" "stack_ok M s" and c: "c \<in> M - L"
    and body: "\<And>x q s. strand_at w d x q c s \<Longrightarrow> stack_ok M s \<Longrightarrow> body_runs rc i M (insert c L) w d x q b c s"
  shows "if spawn_depth b \<le> nat (int (length (dq_ltq q)) - dq_tail q)
    then \<exists>t. result [cilkrts_enter_frame_1 c] (go_on (run_body rc i b c) (leave_function rc i c)) s = Inr (Returned, t)
      \<and> back_at w d x q (strands b) s t \<and> untouched M L s t \<and> stack_ok M t
    else result [cilkrts_enter_frame_1 c] (run_body rc i b c) s = Inl (Assertion ''tail < *w->ltq_limit'')"
proof -
  obtain y s1 where s1: "cilkrts_enter_frame_1 c s = Inr ((), s1)" "rest s1 = rest s" "r_deques s1 = r_deques s"
    "r_workers s1 = (r_workers s)(w \<mapsto> x\<lparr>wk_current_stack_frame := c\<rparr>)" "r_sfs s1 = (r_sfs s)(c \<mapsto> fresh_frame w x y)"
    "strand_at w d (x\<lparr>wk_current_stack_frame := c\<rparr>) q c s1" "stack_ok M s1"
    using call_starts [OF s(1) _ s(2)] c by blast
  note b = body [OF s1(6,7), unfolded body_runs_def]
  show ?thesis
  proof (cases "spawn_depth b \<le> nat (int (length (dq_ltq q)) - dq_tail q)")
    case True
    then obtain t1 where t1: "run_body rc i b c s1 = Inr (Returned, t1)"
      "back_at w d (x\<lparr>wk_current_stack_frame := c\<rparr>) q (strands b) s1 t1" "live_kept M (insert c L) c s1 t1" "stack_ok M t1"
      using b by auto
    obtain t where "leave_function rc i c t1 = Inr (Returned, t)" "back_at w d x q (strands b) s t" "untouched M L s t" "stack_ok M t"
      by (rule call_returns [OF s(1) c s1(2-5) t1(2-4), of rc i])
    then show ?thesis using True s1(1) t1(1) by (simp add: run go_on_def)
  next
    case False
    then show ?thesis using b s1(1) by (simp add: run)
  qed
qed

lemma body_runs_Call:
  assumes s: "strand_at w d x q sf s" "stack_ok M s" and c: "c \<in> M - L" "sf \<in> L"
    and b: "\<And>x q s. strand_at w d x q c s \<Longrightarrow> stack_ok M s \<Longrightarrow> body_runs rc i M (insert c L) w d x q b c s"
    and k: "\<And>x q s. strand_at w d x q sf s \<Longrightarrow> stack_ok M s \<Longrightarrow> body_runs rc i M L w d x q k sf s"
  shows "body_runs rc i M L w d x q (Call c b k) sf s"
proof -
  have "running w d x q sf s" using s(1) by (simp add: strand_at_def)
  note step = call_step [OF this s(2) c(1) b]
  show ?thesis
  proof (cases "spawn_depth b \<le> nat (int (length (dq_ltq q)) - dq_tail q)")
  case True
  let ?m = "result [cilkrts_enter_frame_1 c] (go_on (run_body rc i b c) (leave_function rc i c))"
  obtain t where t: "?m s = Inr (Returned, t)" "back_at w d x q (strands b) s t" "untouched M L s t" "stack_ok M t"
    using step True by auto
  show ?thesis
    by (rule body_continues [where m = ?m and n = "strands b", OF s(1) t(1,2) untouched_live [OF t(3) c(2)] t(4) k])
      (use True in \<open>simp_all add: go_on_assoc\<close>)
next
  case False
  then have "result [cilkrts_enter_frame_1 c] (run_body rc i b c) s = Inl (Assertion ''tail < *w->ltq_limit'')"
    using step by auto
  then show ?thesis using False by (auto simp: body_runs_def run go_on_def split: sum.splits)
qed
qed

lemma body_runs_Spawn:
  assumes s: "strand_at w d x q sf s" "stack_ok M s" and f: "h \<in> M - L" "c \<in> M - insert h L" "sf \<in> L"
    and b: "\<And>x q s. strand_at w d x q c s \<Longrightarrow> stack_ok M s \<Longrightarrow> body_runs rc i M (insert c (insert h L)) w d x q b c s"
    and k: "\<And>x q s. strand_at w d x q sf s \<Longrightarrow> stack_ok M s \<Longrightarrow> body_runs rc i M L w d x q k sf s"
  shows "body_runs rc i M L w d x q (Spawn h c b k) sf s"
proof -
  let ?room = "nat (int (length (dq_ltq q)) - dq_tail q)"
  obtain y z s1 where s1: "cilkrts_enter_frame_fast_1 h s = Inr ((), s1)" "rest s1 = rest s" "sf_at s sf = Some z"
    and det: "if dq_tail q < int (length (dq_ltq q)) then \<exists>t. cilkrts_detach h s1 = Inr ((), t) \<and> rest t = rest s
     \<and> r_deques t = (r_deques s)(d \<mapsto> pushed sf q) \<and> r_workers t = (r_workers s)(w \<mapsto> in_helper h x)
     \<and> r_sfs t = (r_sfs s)(sf \<mapsto> z\<lparr>sf_pedigree := wk_pedigree x\<rparr>, h \<mapsto> detached w x y)
     else cilkrts_detach h s1 = Inl (Assertion ''tail < *w->ltq_limit'')"
    by (rule spawn_enters [OF s(1) f(1,3) s(2)])
  show ?thesis
  proof (cases "dq_tail q < int (length (dq_ltq q))")
    case True
    then obtain s2 where s2: "cilkrts_detach h s1 = Inr ((), s2)" "rest s2 = rest s"
      "r_deques s2 = (r_deques s)(d \<mapsto> pushed sf q)" "r_workers s2 = (r_workers s)(w \<mapsto> in_helper h x)"
      "r_sfs s2 = (r_sfs s)(sf \<mapsto> z\<lparr>sf_pedigree := wk_pedigree x\<rparr>, h \<mapsto> detached w x y)"
      using det by auto
    have h: "running w d (in_helper h x) (pushed sf q) h s2" "stack_ok M s2"
      using spawn_running [OF s(1) _ s(2) s1(3) s2(2-5)] f(1) by auto
    have room: "nat (int (length (dq_ltq (pushed sf q))) - dq_tail (pushed sf q)) = ?room - 1"
      by (simp add: pushed_def)
    note step = call_step [OF h f(2) b, unfolded room]
    show ?thesis
    proof (cases "spawn_depth b \<le> ?room - 1")
      case True
      let ?call = "result [cilkrts_enter_frame_1 c] (go_on (run_body rc i b c) (leave_function rc i c))"
      let ?m = "result [cilkrts_enter_frame_fast_1 h, cilkrts_detach h, cilkrts_enter_frame_1 c]
        (go_on (run_body rc i b c) (go_on (leave_function rc i c) (leave_function rc i h)))"
      obtain t1 where t1: "?call s2 = Inr (Returned, t1)" "back_at w d (in_helper h x) (pushed sf q) (strands b) s2 t1"
        "untouched M (insert h L) s2 t1" "stack_ok M t1"
        using step True by auto
      obtain t where t: "leave_function rc i h t1 = Inr (Returned, t)" "back_at w d x q 1 s t" "live_kept M L sf s t" "stack_ok M t"
        by (rule spawn_returns [OF s(1) f(1,3) s1(3) s(2) s2(2-5) t1(2-4), of rc i])
      have "?m s = go_on ?call (leave_function rc i h) s2"
        using s1(1) s2(1) by (simp add: go_on_assoc) (simp add: run)
      then have m: "?m s = Inr (Returned, t)" using go_on_Returned [of ?call, OF t1(1)] t(1) by simp
      show ?thesis
        by (rule body_continues [where m = ?m and n = 1, OF s(1) m t(2-4) k])
          (use True \<open>dq_tail q < _\<close> in \<open>auto simp: go_on_assoc\<close>)
    next
      case False
      then have "result [cilkrts_enter_frame_1 c] (run_body rc i b c) s2 = Inl (Assertion ''tail < *w->ltq_limit'')"
        using step by auto
      then show ?thesis
        using False s1(1) s2(1) by (auto simp: body_runs_def run go_on_def split: sum.splits)
    qed
  next
    case False
    then show ?thesis using det s1(1) by (auto simp: body_runs_def run)
  qed
qed

lemma body_runs_always:
  "strand_at w d x q sf s \<Longrightarrow> stack_ok M s \<Longrightarrow> sf \<in> L \<Longrightarrow> frames_in M b L \<Longrightarrow> body_runs rc i M L w d x q b sf s"
proof (induction b arbitrary: x q sf s L)
  case Finish
  then show ?case using back_at_0 [OF Finish(1)] by (simp add: body_runs_def run live_kept_def)
next
  case (Spawn h c b k)
  show ?case
    by (rule body_runs_Spawn [OF Spawn.prems(1,2) _ _ Spawn.prems(3) Spawn.IH(1) Spawn.IH(2)]) (use Spawn.prems in auto)
next
  case (Call c b k)
  show ?case
    by (rule body_runs_Call [OF Call.prems(1,2) _ Call.prems(3) Call.IH(1) Call.IH(2)]) (use Call.prems in auto)
next
  case (Sync k)
  show ?case by (rule body_runs_Sync [OF Sync.prems(1,2) Sync.IH]) (use Sync.prems in auto)
qed


text \<open>
  C39. Without a steal the calls that a compiled function makes undo each other. Any nest of spawns, calls
  and syncs, in which every frame entered is left, comes back to the frame it started from when the deque has
  room for its depth: the deque has its old ends and its old parents below the tail, the worker its
  old frame, the frames that were live are as before but for the pedigree saved in the one that runs, nothing
  else of the runtime has changed, and the pedigree of the worker is the old one, with the rank higher by one for each spawn and sync.
\<close>

theorem serial_run_comes_back:
  assumes "strand_at w d x q sf s" "stack_ok M s" "sf \<in> L" "frames_in M b L"
    and "int (spawn_depth b) \<le> int (length (dq_ltq q)) - dq_tail q"
  shows "\<exists>t l. run_body rc i b sf s = Inr (Returned, t) \<and> worker_at t w = Some (steps_on (strands b) x)
    \<and> deque_at t d = Some (q\<lparr>dq_ltq := l\<rparr>) \<and> take (nat (dq_tail q)) l = take (nat (dq_tail q)) (dq_ltq q)
    \<and> (\<forall>p. p \<notin> M - L \<longrightarrow> p \<noteq> sf \<longrightarrow> r_sfs t p = r_sfs s p) \<and> rest t = rest s"
proof -
  have nz: "w \<noteq> 0" "d \<noteq> 0" using assms(1) by (auto simp: strand_at_def running_def dest!: deref_SomeD)
  have "spawn_depth b \<le> nat (int (length (dq_ltq q)) - dq_tail q)" using assms(5) by simp
  then obtain t where t: "run_body rc i b sf s = Inr (Returned, t)" "back_at w d x q (strands b) s t" "live_kept M L sf s t"
    using body_runs_always [OF assms(1-4), of rc i] by (auto simp: body_runs_def)
  obtain l where "r_deques t = (r_deques s)(d \<mapsto> q\<lparr>dq_ltq := l\<rparr>)" "take (nat (dq_tail q)) l = take (nat (dq_tail q)) (dq_ltq q)"
    using t(2) by (auto simp: back_at_def)
  then show ?thesis using t nz by (auto simp: back_at_def live_kept_def)
qed

definition serial_sf :: stack_frame where
  "serial_sf = \<lparr>sf_flags = ABI_1, sf_call_parent = NULL, sf_worker = NULL, sf_except_data = NULL, sf_sp = 0, sf_fp = 0,
     sf_pedigree = \<lparr>ped_rank = 0, ped_parent = PNULL\<rparr>\<rparr>"

definition serial_worker :: worker where
  "serial_worker = sample_worker\<lparr>wk_the := 20, wk_current_stack_frame := 50\<rparr>"

definition serial_deque :: "nat \<Rightarrow> deque" where
  "serial_deque n = zero_deque\<lparr>dq_ltq := replicate n NULL, dq_exc := Exc 0\<rparr>"

definition serial_rts :: "nat \<Rightarrow> rts" where
  "serial_rts n = sample_rts\<lparr>r_workers := [10 \<mapsto> serial_worker], r_deques := [20 \<mapsto> serial_deque n],
     r_sfs := (\<lambda>p. if 50 \<le> p then Some serial_sf else None)\<rparr>"

definition serial_body :: body where
  "serial_body = Spawn 60 61 (Spawn 62 63 Finish (Sync Finish)) (Call 60 (Sync Finish) Finish)"

lemma serial_rts_ok:
  "strand_at 10 20 serial_worker (serial_deque n) 50 (serial_rts n)" "stack_ok {60..70} (serial_rts n)"
  "frames_in {60..70} serial_body {50}"
  by (auto simp: strand_at_def running_def serial_rts_def serial_worker_def serial_deque_def serial_body_def
    sample_rts_def zero_deque_def serial_sf_def stack_ok_def deref_def)

definition no_client :: red_client where
  "no_client = \<lparr>rc_merge = \<lambda>w m m' k. ret w, rc_destroy = \<lambda>w m. ret (), rc_rounds = 1\<rparr>"

lemma serial_room:
  "spawn_depth serial_body = 2" "strands serial_body = 2" "length (dq_ltq (serial_deque n)) = n" "dq_tail (serial_deque n) = 0"
  by (simp_all add: serial_body_def serial_deque_def zero_deque_def)

lemma serial_run_comes_back_witness:
  "\<exists>t l. run_body no_client 0 serial_body 50 (serial_rts 2) = Inr (Returned, t) \<and>
     worker_at t 10 = Some (steps_on 2 serial_worker) \<and> deque_at t 20 = Some ((serial_deque 2)\<lparr>dq_ltq := l\<rparr>)"
proof -
  have "int (spawn_depth serial_body) \<le> int (length (dq_ltq (serial_deque 2))) - dq_tail (serial_deque 2)"
    by (simp add: serial_room)
  from serial_run_comes_back [OF serial_rts_ok(1,2) _ serial_rts_ok(3) this, of no_client 0]
  show ?thesis unfolding serial_room by blast
qed

text \<open>
  C40. The deque bounds how deep spawns may nest. A nest of spawns deeper than the cells that are left
  stops the program on the assertion of \<open>__cilkrts_detach\<close>, however the spawns and calls are arranged.
\<close>

theorem deep_spawns_assert:
  assumes "strand_at w d x q sf s" "stack_ok M s" "sf \<in> L" "frames_in M b L"
    and "int (spawn_depth b) > int (length (dq_ltq q)) - dq_tail q" "spawn_depth b > 0"
  shows "run_body rc i b sf s = Inl (Assertion ''tail < *w->ltq_limit'')"
  using body_runs_always [OF assms(1-4), of rc i] assms(5,6) by (auto simp: body_runs_def split: if_splits)

lemma deep_spawns_assert_witness:
  "run_body no_client 0 serial_body 50 (serial_rts 1) = Inl (Assertion ''tail < *w->ltq_limit'')"
  by (rule deep_spawns_assert [OF serial_rts_ok(1,2) _ serial_rts_ok(3)]) (simp_all add: serial_room)

end
