(* ===== verification/Reduction_Order.thy ===== *)
theory Reduction_Order
  imports Reductions
begin

text \<open>
  The reduction protocol under interleaving (the end of \<open>scheduler.c\<close>). One frame, its continuation and the children that
  were stolen from it run at the same time; what each step may change is what the code changes while it
  holds the lock of the frame, and the reductions themselves run without it. Values are the lists of
  the updates they come from, so that reducing two maps is appending them: \<open>Reducer_Merge\<close> shows that merging two
  maps does this for every reducer. Whatever the order of the steps, the frame ends with the updates in serial order.
\<close>

section \<open>The maps of a frame and of its children\<close>

type_synonym 'a rmap = "'a list option"

text \<open>
  What the child is doing. \<open>K_run m\<close>: it runs on a worker with the map \<open>m\<close>. \<open>K_return m\<close>: it has left its frame and
  waits for the lock of the parent, before the fast path; \<open>K_again m\<close>: after a reduction. \<open>K_merge l m r\<close>: it
  reduces the three maps it has taken, without the lock. \<open>K_gone\<close>: unlinked from the children of the parent.
  \<open>kid_log\<close>, which no step of the code reads, has all updates of the child.
\<close>

datatype 'a kid_state =
  K_run "'a rmap" | K_return "'a rmap" | K_again "'a rmap" | K_merge "'a rmap" "'a rmap" "'a rmap" | K_gone

record 'a kid =
  kid_state :: "'a kid_state"
  kid_right :: "'a rmap"
  kid_log :: "'a list"

text \<open>
  The continuation of the frame: it runs with a map, it has taken the map of its worker at a sync and waits for the lock, it
  reduces two maps, or it waits for the children.
\<close>

datatype 'a cont_state = C_run "'a rmap" | C_sync "'a rmap" | C_merge "'a rmap" "'a rmap" | C_wait

record 'a red_frame =
  rf_children :: "'a rmap"
  rf_kids :: "'a kid list"
  rf_cont :: "'a cont_state"
  rf_log :: "'a list"

definition updates :: "'a rmap \<Rightarrow> 'a list" where
  "updates m = (case m of None \<Rightarrow> [] | Some us \<Rightarrow> us)"

section \<open>Critical sections\<close>

text \<open>The sibling to the left: the last child before position \<open>n\<close> that is still linked.\<close>

fun left_sibling :: "'a kid list \<Rightarrow> nat \<Rightarrow> nat option" where
  "left_sibling ks 0 = None"
| "left_sibling ks (Suc n) = (if kid_state (ks ! n) = K_gone then left_sibling ks n else Some n)"

definition left_map :: "'a red_frame \<Rightarrow> nat option \<Rightarrow> 'a rmap" where
  "left_map s p = (case p of None \<Rightarrow> rf_children s | Some j \<Rightarrow> kid_right (rf_kids s ! j))"

definition put_left :: "nat option \<Rightarrow> 'a rmap \<Rightarrow> 'a red_frame \<Rightarrow> 'a red_frame" where
  "put_left p l s = (case p of None \<Rightarrow> s\<lparr>rf_children := l\<rparr>
     | Some j \<Rightarrow> s\<lparr>rf_kids := (rf_kids s)[j := (rf_kids s ! j)\<lparr>kid_right := l\<rparr>]\<rparr>)"

definition put_kid :: "nat \<Rightarrow> 'a kid_state \<Rightarrow> 'a rmap \<Rightarrow> 'a red_frame \<Rightarrow> 'a red_frame" where
  "put_kid i st r s = s\<lparr>rf_kids := (rf_kids s)[i := (rf_kids s ! i)\<lparr>kid_state := st, kid_right := r\<rparr>]\<rparr>"

text \<open>The table of the fast path, on maps \<open>(left, middle, right)\<close>: \<open>None\<close> where the slow path goes on.\<close>

definition fast_path :: "'m option \<times> 'm option \<times> 'm option \<Rightarrow> ('m option \<times> 'm option \<times> 'm option) option" where
  "fast_path = (\<lambda>(l, m, r).
     let case_value = of_bool (l \<noteq> None) + 2 * of_bool (m \<noteq> None) + 4 * of_bool (r \<noteq> None) :: nat in
     if case_value \<ge> 2 then
       if case_value = 2 then Some (m, None, r)
       else if case_value = 4 then Some (r, m, None)
       else None
     else Some (l, m, r))"

definition slide_left :: "'m option \<times> 'm option \<times> 'm option \<Rightarrow> 'm option \<times> 'm option \<times> 'm option" where
  "slide_left = (\<lambda>(l, m, r).
     let (l, m) = (if l = None then (m, None) else (l, m));
         (m, r) = (if m = None then (r, None) else (m, r))
     in (l, m, r))"

text \<open>
  What a returning child does while it holds the lock: it leaves its maps to the left and is unlinked, or
  takes the maps around it to reduce them.
\<close>

definition return_section :: "bool \<Rightarrow> nat \<Rightarrow> 'a rmap \<Rightarrow> 'a red_frame \<Rightarrow> 'a red_frame" where
  "return_section first i m s =
    (let p = left_sibling (rf_kids s) i;
         maps = (left_map s p, m, kid_right (rf_kids s ! i))
     in case (if first then fast_path maps else None) of
       Some (l, m, r) \<Rightarrow> put_kid i K_gone r (put_left p l s)
     | None \<Rightarrow>
        (case slide_left maps of (l, m, r) \<Rightarrow>
          if m = None then put_kid i K_gone r (put_left p l s)
          else put_kid i (K_merge l m r) None (put_left p None s)))"

text \<open>The same for the frame at a sync: it leaves its map to the left or takes the one there.\<close>

definition sync_section :: "'a rmap \<Rightarrow> 'a red_frame \<Rightarrow> 'a red_frame" where
  "sync_section middle s =
    (let p = left_sibling (rf_kids s) (length (rf_kids s));
         (l, m) = (if left_map s p = None then (middle, None) else (left_map s p, middle))
     in if m = None then (put_left p l s)\<lparr>rf_cont := C_wait\<rparr>
        else (put_left p None s)\<lparr>rf_cont := C_merge l m\<rparr>)"

definition add_update :: "'a rmap \<Rightarrow> 'a \<Rightarrow> 'a rmap" where
  "add_update m u = Some (updates m @ [u])"

text \<open>Reducing two maps; a missing map is the identity.\<close>

definition reduce_maps :: "'a rmap \<Rightarrow> 'a rmap \<Rightarrow> 'a rmap" where
  "reduce_maps l r = (if l = None then r else if r = None then l else Some (updates l @ updates r))"

section \<open>Steps\<close>

inductive red_step :: "'a red_frame \<Rightarrow> 'a red_frame \<Rightarrow> bool" where
  kid_update: "i < length (rf_kids s) \<Longrightarrow> rf_kids s ! i = k \<Longrightarrow> kid_state k = K_run m \<Longrightarrow>
    red_step s (s\<lparr>rf_kids := (rf_kids s)[i := k\<lparr>kid_state := K_run (add_update m u), kid_log := kid_log k @ [u]\<rparr>]\<rparr>)"
| kid_leaves: "i < length (rf_kids s) \<Longrightarrow> rf_kids s ! i = k \<Longrightarrow> kid_state k = K_run m \<Longrightarrow>
    red_step s (s\<lparr>rf_kids := (rf_kids s)[i := k\<lparr>kid_state := K_return m\<rparr>]\<rparr>)"
| kid_returns: "i < length (rf_kids s) \<Longrightarrow> kid_state (rf_kids s ! i) = K_return m \<Longrightarrow>
    red_step s (return_section True i m s)"
| kid_merges: "i < length (rf_kids s) \<Longrightarrow> rf_kids s ! i = k \<Longrightarrow> kid_state k = K_merge l m r \<Longrightarrow>
    red_step s (s\<lparr>rf_kids := (rf_kids s)[i := k\<lparr>kid_state := K_again (reduce_maps (reduce_maps l m) r)\<rparr>]\<rparr>)"
| kid_again: "i < length (rf_kids s) \<Longrightarrow> kid_state (rf_kids s ! i) = K_again m \<Longrightarrow>
    red_step s (return_section False i m s)"
| cont_update: "rf_cont s = C_run m \<Longrightarrow>
    red_step s (s\<lparr>rf_cont := C_run (add_update m u), rf_log := rf_log s @ [u]\<rparr>)"
| cont_stolen: "rf_cont s = C_run m \<Longrightarrow>
    red_step s (s\<lparr>rf_kids := rf_kids s @ [\<lparr>kid_state = K_run m, kid_right = None, kid_log = rf_log s\<rparr>],
      rf_cont := C_run None, rf_log := []\<rparr>)"
| cont_syncs: "rf_cont s = C_run m \<Longrightarrow>
    red_step s (s\<lparr>rf_cont := (if m = None then C_wait else C_sync m)\<rparr>)"
| cont_section: "rf_cont s = C_sync m \<Longrightarrow> red_step s (sync_section m s)"
| cont_merges: "rf_cont s = C_merge l m \<Longrightarrow> red_step s (s\<lparr>rf_cont := C_sync (reduce_maps l m)\<rparr>)"
| cont_resumes: "rf_cont s = C_wait \<Longrightarrow> \<forall>k \<in> set (rf_kids s). kid_state k = K_gone \<Longrightarrow>
    red_step s (s\<lparr>rf_children := None, rf_kids := [], rf_cont := C_run (rf_children s),
      rf_log := concat (map kid_log (rf_kids s)) @ rf_log s\<rparr>)"

definition red_start :: "'a red_frame \<Rightarrow> bool" where
  "red_start s \<longleftrightarrow> rf_children s = None \<and> rf_kids s = [] \<and> rf_cont s = C_run None \<and> rf_log s = []"

text \<open>All updates since the frame started, in the order in which one worker alone would make them.\<close>

definition serial_updates :: "'a red_frame \<Rightarrow> 'a list" where
  "serial_updates s = concat (map kid_log (rf_kids s)) @ rf_log s"

section \<open>The invariant\<close>

fun held :: "'a kid_state \<Rightarrow> 'a list" where
  "held (K_run m) = updates m"
| "held (K_return m) = updates m"
| "held (K_again m) = updates m"
| "held (K_merge l m r) = updates l @ updates m @ updates r"
| "held K_gone = []"

fun cont_held :: "'a cont_state \<Rightarrow> 'a list" where
  "cont_held (C_run m) = updates m"
| "cont_held (C_sync m) = updates m"
| "cont_held (C_merge l m) = updates l @ updates m"
| "cont_held C_wait = []"

definition content :: "'a kid \<Rightarrow> 'a list" where
  "content k = held (kid_state k) @ updates (kid_right k)"

text \<open>The updates in the maps before the \<open>n\<close>th child, and those made before it in serial order.\<close>

definition found :: "'a red_frame \<Rightarrow> nat \<Rightarrow> 'a list" where
  "found s n = updates (rf_children s) @ concat (map content (take n (rf_kids s)))"

definition made :: "'a red_frame \<Rightarrow> nat \<Rightarrow> 'a list" where
  "made s n = concat (map kid_log (take n (rf_kids s)))"

definition gone_ok :: "'a red_frame \<Rightarrow> bool" where
  "gone_ok s \<longleftrightarrow> (\<forall>k \<in> set (rf_kids s). kid_state k = K_gone \<longrightarrow> kid_right k = None)"

definition runs_at :: "'a red_frame \<Rightarrow> nat \<Rightarrow> bool" where
  "runs_at s i \<longleftrightarrow> (\<exists>m. kid_state (rf_kids s ! i) = K_run m)"

definition red_inv :: "'a red_frame \<Rightarrow> bool" where
  "red_inv s \<longleftrightarrow> gone_ok s
     \<and> (\<forall>i < length (rf_kids s). runs_at s i \<longrightarrow>
          found s i = made s i \<and> held (kid_state (rf_kids s ! i)) = kid_log (rf_kids s ! i))
     \<and> (\<forall>m. rf_cont s = C_run m \<longrightarrow> found s (length (rf_kids s)) = made s (length (rf_kids s)) \<and> updates m = rf_log s)
     \<and> found s (length (rf_kids s)) @ cont_held (rf_cont s) = serial_updates s"


lemma left_sibling_cases:
  "left_sibling ks n = None \<Longrightarrow> j < n \<Longrightarrow> kid_state (ks ! j) = K_gone"
  "left_sibling ks n = Some p \<Longrightarrow> p < n \<and> kid_state (ks ! p) \<noteq> K_gone"
  "left_sibling ks n = Some p \<Longrightarrow> p < j \<Longrightarrow> j < n \<Longrightarrow> kid_state (ks ! j) = K_gone"
  by (induction n) (auto simp: less_Suc_eq split: if_splits)

lemma found_split: "i \<le> j \<Longrightarrow> found s j = found s i @ concat (map content (drop i (take j (rf_kids s))))"
  using append_take_drop_id [of i "take j (rf_kids s)"]
  by (simp add: found_def min_def flip: concat_append map_append)

lemma found_Suc: "n < length (rf_kids s) \<Longrightarrow> found s (Suc n) = found s n @ content (rf_kids s ! n)"
  by (simp add: found_def take_Suc_conv_app_nth)

lemma no_content: "gone_ok s \<Longrightarrow> n \<le> length (rf_kids s) \<Longrightarrow> (\<forall>j. p \<le> j \<and> j < n \<longrightarrow> kid_state (rf_kids s ! j) = K_gone) \<Longrightarrow>
   concat (map content (drop p (take n (rf_kids s)))) = []"
proof -
  assume a: "gone_ok s" "n \<le> length (rf_kids s)" "\<forall>j. p \<le> j \<and> j < n \<longrightarrow> kid_state (rf_kids s ! j) = K_gone"
  have "content k = []" if "k \<in> set (drop p (take n (rf_kids s)))" for k
  proof -
    from that obtain j where j: "j < length (drop p (take n (rf_kids s)))" "k = drop p (take n (rf_kids s)) ! j"
      by (auto simp: in_set_conv_nth)
    then have "k = rf_kids s ! (p + j)" "p + j < n" using a(2) by auto
    then show ?thesis using a by (auto simp: content_def gone_ok_def updates_def)
  qed
  then show ?thesis by simp
qed

lemma made_split: "i \<le> j \<Longrightarrow> made s j = made s i @ concat (map kid_log (drop i (take j (rf_kids s))))"
  using append_take_drop_id [of i "take j (rf_kids s)"]
  by (simp add: made_def min_def flip: concat_append map_append)

lemma made_Suc: "n < length (rf_kids s) \<Longrightarrow> made s (Suc n) = made s n @ kid_log (rf_kids s ! n)"
  by (simp add: made_def take_Suc_conv_app_nth)

text \<open>What is to the left of a position ends with the map in the slot of the left sibling.\<close>

lemma put_left_same:
  "left_sibling (rf_kids s) n = p \<Longrightarrow> n \<le> length (rf_kids s) \<Longrightarrow> put_left p (left_map s p) s = s"
  using left_sibling_cases(2) [of "rf_kids s" n] by (cases p) (auto simp: put_left_def left_map_def)

lemma put_left_kids [simp]:
  "length (rf_kids (put_left p l s)) = length (rf_kids s)" "rf_cont (put_left p l s) = rf_cont s"
  "rf_log (put_left p l s) = rf_log s"
  by (simp_all add: put_left_def split: option.splits)

lemma put_left_kid [simp]:
  "kid_state (rf_kids (put_left p l s) ! i) = kid_state (rf_kids s ! i)"
  "kid_log (rf_kids (put_left p l s) ! i) = kid_log (rf_kids s ! i)"
proof -
  have "kid_state (rf_kids (put_left p l s) ! i) = kid_state (rf_kids s ! i) \<and> kid_log (rf_kids (put_left p l s) ! i) = kid_log (rf_kids s ! i)"
  proof (cases p)
    case (Some q)
    then show ?thesis
      by (cases "q < length (rf_kids s)") (simp_all add: put_left_def nth_list_update list_update_beyond)
  qed (simp add: put_left_def)
  then show "kid_state (rf_kids (put_left p l s) ! i) = kid_state (rf_kids s ! i)"
    "kid_log (rf_kids (put_left p l s) ! i) = kid_log (rf_kids s ! i)" by simp_all
qed

lemma put_left_beyond: "left_sibling (rf_kids s) n = p \<Longrightarrow> n \<le> i \<Longrightarrow> rf_kids (put_left p l s) ! i = rf_kids s ! i"
  using left_sibling_cases(2) [of "rf_kids s" n] by (cases p) (auto simp: put_left_def)

lemma found_put_left_below: "found (put_left (Some p) l s) j = found s j" if "j \<le> p"
  using that by (simp add: found_def put_left_def)

lemma found_left:
  assumes "gone_ok s" "n \<le> length (rf_kids s)" "left_sibling (rf_kids s) n = p"
  obtains A where "\<And>l. found (put_left p l s) n = A @ updates l" "found s n = A @ updates (left_map s p)"
proof -
  have "\<exists>A. \<forall>l. found (put_left p l s) n = A @ updates l"
  proof (cases p)
    case None
    have "concat (map content (drop 0 (take n (rf_kids s)))) = []"
      using no_content [OF assms(1,2), of 0] left_sibling_cases(1) [of "rf_kids s" n] assms(3) None by auto
    then show ?thesis using None by (auto simp: found_def put_left_def intro: exI [of _ "[]"])
  next
    case (Some q)
    have q: "q < n" "q < length (rf_kids s)" using left_sibling_cases(2) [of "rf_kids s" n q] assms(2,3) Some by auto
    have "found (put_left p l s) n = (found s q @ held (kid_state (rf_kids s ! q))) @ updates l" for l
    proof -
      let ?t = "put_left p l s"
      have "concat (map content (drop (Suc q) (take n (rf_kids s)))) = []"
        using no_content [OF assms(1,2), of "Suc q"] left_sibling_cases(3) [of "rf_kids s" n q] assms(3) Some by auto
      moreover have "drop (Suc q) (take n (rf_kids ?t)) = drop (Suc q) (take n (rf_kids s))"
        using Some by (simp add: put_left_def take_update_swap drop_update_cancel)
      ultimately have "found ?t n = found ?t (Suc q)"
        using found_split [of "Suc q" n ?t] q by simp
      also have "\<dots> = found s q @ content (rf_kids ?t ! q)"
        using found_Suc [of q ?t] q Some by (simp add: found_put_left_below)
      finally show ?thesis using Some q by (simp add: content_def put_left_def)
    qed
    then show ?thesis by blast
  qed
  then obtain A where A: "\<And>l. found (put_left p l s) n = A @ updates l" by blast
  then show ?thesis using that [of A] A [of "left_map s p"] put_left_same [OF assms(3,2)] by simp
qed


text \<open>
  What one position holds, with the slot to its left, changes hands; everything before and after it stays.
\<close>

definition moves_at :: "'a red_frame \<Rightarrow> 'a red_frame \<Rightarrow> bool" where
  "moves_at s t \<longleftrightarrow> length (rf_kids t) = length (rf_kids s) \<and> gone_ok t
     \<and> (\<forall>j. kid_log (rf_kids t ! j) = kid_log (rf_kids s ! j))
     \<and> (\<forall>j < length (rf_kids s). runs_at t j \<longrightarrow>
          kid_state (rf_kids t ! j) = kid_state (rf_kids s ! j) \<and> found t j = found s j)"

lemma made_same: "moves_at s t \<Longrightarrow> made t n = made s n"
proof -
  assume m: "moves_at s t"
  have "map kid_log (rf_kids t) = map kid_log (rf_kids s)"
    using m by (auto simp: moves_at_def intro: nth_equalityI)
  then show ?thesis by (simp add: made_def flip: take_map)
qed

lemma moves_keeps_inv:
  assumes m: "moves_at s t" and inv: "red_inv s" and log: "rf_log t = rf_log s"
    and c: "\<And>m. rf_cont t = C_run m \<Longrightarrow> rf_cont s = C_run m \<and> found t (length (rf_kids s)) = found s (length (rf_kids s))"
    and total: "found t (length (rf_kids s)) @ cont_held (rf_cont t) = found s (length (rf_kids s)) @ cont_held (rf_cont s)"
  shows "red_inv t"
proof -
  have l: "length (rf_kids t) = length (rf_kids s)" "gone_ok t" "\<forall>j. kid_log (rf_kids t ! j) = kid_log (rf_kids s ! j)"
    using m by (simp_all add: moves_at_def)
  have "serial_updates t = serial_updates s"
    using made_same [OF m, of "length (rf_kids s)"] l(1) log by (simp add: serial_updates_def made_def)
  moreover have "found t i = made t i \<and> held (kid_state (rf_kids t ! i)) = kid_log (rf_kids t ! i)"
    if "i < length (rf_kids t)" "runs_at t i" for i
  proof -
    have "kid_state (rf_kids t ! i) = kid_state (rf_kids s ! i)" "found t i = found s i"
      using m that l(1) by (auto simp: moves_at_def)
    then show ?thesis using inv that l made_same [OF m] by (auto simp: red_inv_def runs_at_def)
  qed
  ultimately show ?thesis
    using inv l log c total made_same [OF m] unfolding red_inv_def by auto
qed

lemma gone_okD: "gone_ok s \<Longrightarrow> i < length (rf_kids s) \<Longrightarrow> kid_state (rf_kids s ! i) = K_gone \<Longrightarrow> kid_right (rf_kids s ! i) = None"
  by (auto simp: gone_ok_def)

lemma gone_okI:
  "(\<And>i. i < length (rf_kids s) \<Longrightarrow> kid_state (rf_kids s ! i) = K_gone \<Longrightarrow> kid_right (rf_kids s ! i) = None) \<Longrightarrow> gone_ok s"
  by (auto simp: gone_ok_def in_set_conv_nth)

lemma kid_right_put_left:
  "left_sibling (rf_kids s) n = p \<Longrightarrow> kid_state (rf_kids s ! i) = K_gone \<Longrightarrow> kid_right (rf_kids (put_left p l s) ! i) = kid_right (rf_kids s ! i)"
  using left_sibling_cases(2) [of "rf_kids s" n] by (cases "p = Some i") (auto simp: put_left_def split: option.splits)

lemma gone_ok_put_left:
  "gone_ok s \<Longrightarrow> left_sibling (rf_kids s) n = p \<Longrightarrow> gone_ok (put_left p l s)"
  by (rule gone_okI) (simp add: kid_right_put_left gone_okD)

lemma runs_left: "left_sibling (rf_kids s) n = p \<Longrightarrow> runs_at s j \<Longrightarrow> j < n \<Longrightarrow> \<exists>q. p = Some q \<and> j \<le> q \<and> q < n"
  using left_sibling_cases [of "rf_kids s" n] by (cases p) (fastforce simp: runs_at_def not_less)+


lemma put_kid_simps [simp]:
  "length (rf_kids (put_kid i st r s)) = length (rf_kids s)" "rf_cont (put_kid i st r s) = rf_cont s"
  "rf_log (put_kid i st r s) = rf_log s" "rf_children (put_kid i st r s) = rf_children s"
  "j \<noteq> i \<Longrightarrow> rf_kids (put_kid i st r s) ! j = rf_kids s ! j"
  by (simp_all add: put_kid_def)

lemma put_kid_same: "i < length (rf_kids s) \<Longrightarrow> rf_kids (put_kid i st r s) ! i = (rf_kids s ! i)\<lparr>kid_state := st, kid_right := r\<rparr>"
  by (simp add: put_kid_def)

lemma found_put_kid_below: "j \<le> i \<Longrightarrow> found (put_kid i st r s) j = found s j"
  by (simp add: found_def put_kid_def)

lemma same_after:
  assumes "found t n = found s n" "\<And>j. n \<le> j \<Longrightarrow> rf_kids t ! j = rf_kids s ! j" "length (rf_kids t) = length (rf_kids s)"
  shows "n \<le> j \<Longrightarrow> found t j = found s j"
proof -
  assume "n \<le> j"
  moreover have "drop n (rf_kids t) = drop n (rf_kids s)"
    by (rule nth_equalityI) (use assms(2,3) in auto)
  then have "drop n (take j (rf_kids t)) = drop n (take j (rf_kids s))"
    by (metis drop_take)
  ultimately show ?thesis using found_split [of n j] assms(1) by metis
qed

lemma section_moves:
  assumes ok: "gone_ok s" and i: "i < length (rf_kids s)" and p: "left_sibling (rf_kids s) i = p"
    and st: "st = K_gone \<longrightarrow> r = None" "\<And>m. st \<noteq> K_run m"
    and held: "updates l @ held st @ updates r = updates (left_map s p) @ content (rf_kids s ! i)"
    and t: "t = put_kid i st r (put_left p l s)"
  shows "moves_at s t" "i < j \<Longrightarrow> found t j = found s j"
proof -
  obtain A where A: "\<And>l. found (put_left p l s) i = A @ updates l" "found s i = A @ updates (left_map s p)"
    using found_left [OF ok _ p] i by auto
  have "found t (Suc i) = found s (Suc i)"
    using found_Suc [of i t] found_Suc [OF i] i A held
    by (simp add: t found_put_kid_below put_kid_same content_def)
  moreover have "rf_kids t ! j = rf_kids s ! j" if "Suc i \<le> j" for j
    using that put_left_beyond [OF p, of j] by (simp add: t)
  ultimately show above: "found t j = found s j" if "i < j" for j
    using same_after [of t "Suc i" s j] that by (simp add: t)
  have log: "kid_log (rf_kids t ! j) = kid_log (rf_kids s ! j)" for j
    by (cases "j = i") (simp_all add: t put_kid_same i)
  have "gone_ok t"
  proof (rule gone_okI)
    fix j assume "j < length (rf_kids t)" "kid_state (rf_kids t ! j) = K_gone"
    then show "kid_right (rf_kids t ! j) = None"
      using st(1) gone_okD [OF gone_ok_put_left [OF ok p], of j] i by (cases "j = i") (simp_all add: t put_kid_same)
  qed
  moreover have "kid_state (rf_kids t ! j) = kid_state (rf_kids s ! j) \<and> found t j = found s j"
    if "j < length (rf_kids s)" "runs_at t j" for j
  proof -
    have "j \<noteq> i" using that(2) st(2) i by (auto simp: runs_at_def t put_kid_same)
    moreover have "found t j = found s j" if "j < i"
    proof -
      have "runs_at s j" using \<open>runs_at t j\<close> \<open>j \<noteq> i\<close> by (simp add: runs_at_def t)
      with runs_left [OF p _ \<open>j < i\<close>] obtain q where "p = Some q" "j \<le> q" by auto
      then show ?thesis using \<open>j < i\<close> by (simp add: t found_put_kid_below found_put_left_below)
    qed
    ultimately show ?thesis using above [of j] by (cases "j < i") (auto simp: t)
  qed
  ultimately show "moves_at s t" using log by (simp add: moves_at_def t)
qed

text \<open>The arithmetic of the critical sections: no update is lost or reordered.\<close>

lemma fast_path_keeps: "fast_path (l, m, r) = Some (l', m', r') \<Longrightarrow>
   m' = None \<and> r' = None \<and> updates l' = updates l @ updates m @ updates r"
  by (cases l; cases m; cases r) (auto simp: fast_path_def Let_def updates_def split: if_splits)

lemma slide_left_keeps: "slide_left (l, m, r) = (l', m', r') \<Longrightarrow>
   updates l' @ updates m' @ updates r' = updates l @ updates m @ updates r \<and> (m' = None \<longrightarrow> r' = None)"
  by (cases l; cases m; cases r) (auto simp: slide_left_def Let_def updates_def split: if_splits)

lemma updates_None [simp]: "updates None = []"
  by (simp add: updates_def)

lemma updates_reduce: "updates (reduce_maps l r) = updates l @ updates r"
  by (auto simp: reduce_maps_def updates_def split: option.splits)

lemma section_inv:
  assumes inv: "red_inv s" and i: "i < length (rf_kids s)" and p: "left_sibling (rf_kids s) i = p"
    and st: "st = K_gone \<longrightarrow> r = None" "\<And>m. st \<noteq> K_run m"
    and held: "updates l @ held st @ updates r = updates (left_map s p) @ content (rf_kids s ! i)"
  shows "red_inv (put_kid i st r (put_left p l s))"
proof -
  have "gone_ok s" using inv by (simp add: red_inv_def)
  note moves = section_moves [OF this i p st held refl]
  show ?thesis
    by (rule moves_keeps_inv [OF moves(1) inv]) (simp_all add: moves(2) [OF i])
qed

lemma return_section_inv:
  assumes inv: "red_inv s" and i: "i < length (rf_kids s)"
    and m: "kid_state (rf_kids s ! i) = K_return m \<or> kid_state (rf_kids s ! i) = K_again m"
  shows "red_inv (return_section first i m s)"
proof -
  obtain p where p: "left_sibling (rf_kids s) i = p" by blast
  let ?l = "left_map s p" and ?r = "kid_right (rf_kids s ! i)"
  have c: "content (rf_kids s ! i) = updates m @ updates ?r" using m by (auto simp: content_def)
  note go = section_inv [OF inv i p, unfolded c]
  show ?thesis
  proof (cases "if first then fast_path (?l, m, ?r) else None")
    case None
    obtain l' m' r' where sl: "slide_left (?l, m, ?r) = (l', m', r')" by (metis prod_cases3)
    have "red_inv (if m' = None then put_kid i K_gone r' (put_left p l' s) else put_kid i (K_merge l' m' r') None (put_left p None s))"
      using go [of K_gone r' l'] go [of "K_merge l' m' r'" None None] slide_left_keeps [OF sl] by auto
    then show ?thesis using None sl p by (simp add: return_section_def)
  next
    case (Some x)
    obtain l' m' r' where x: "x = (l', m', r')" by (metis prod_cases3)
    then have "fast_path (?l, m, ?r) = Some (l', m', r')" using Some by (simp split: if_splits)
    then show ?thesis using go [of K_gone r' l'] fast_path_keeps Some x p by (fastforce simp: return_section_def)
  qed
qed

text \<open>A child goes on with what it holds.\<close>

lemma kid_keeps_inv:
  assumes inv: "red_inv s" and i: "i < length (rf_kids s)" "rf_kids s ! i = k"
    and st: "st \<noteq> K_gone" "\<And>m. st \<noteq> K_run m" "held st = held (kid_state k)"
  shows "red_inv (s\<lparr>rf_kids := (rf_kids s)[i := k\<lparr>kid_state := st\<rparr>]\<rparr>)"
proof -
  obtain p where p: "left_sibling (rf_kids s) i = p" by blast
  have "red_inv (put_kid i st (kid_right k) (put_left p (left_map s p) s))"
    by (rule section_inv [OF inv i(1) p]) (use st i(2) in \<open>auto simp: content_def\<close>)
  then show ?thesis using put_left_same [OF p] i by (simp add: put_kid_def)
qed

lemma sync_section_inv:
  assumes inv: "red_inv s" and m: "rf_cont s = C_sync m"
  shows "red_inv (sync_section m s)"
proof -
  let ?n = "length (rf_kids s)"
  obtain p where p: "left_sibling (rf_kids s) ?n = p" by blast
  have ok: "gone_ok s" using inv by (simp add: red_inv_def)
  obtain A where A: "\<And>l. found (put_left p l s) ?n = A @ updates l" "found s ?n = A @ updates (left_map s p)"
    using found_left [OF ok le_refl p] by auto
  have go: "red_inv ((put_left p l s)\<lparr>rf_cont := c\<rparr>)"
    if c: "\<And>m. c \<noteq> C_run m" and held: "updates l @ cont_held c = updates (left_map s p) @ updates m" for c l
  proof (rule moves_keeps_inv [OF _ inv])
    have f: "found (s\<lparr>rf_cont := c\<rparr>) j = found s j" for s :: "'a red_frame" and c j by (simp add: found_def)
    have g: "gone_ok ((put_left p l s)\<lparr>rf_cont := c\<rparr>)" using gone_ok_put_left [OF ok p] by (simp add: gone_ok_def)
    have "found (put_left p l s) j = found s j" if "j < ?n" "runs_at s j" for j
      using runs_left [OF p that(2,1)] by (auto simp: found_put_left_below)
    then show "moves_at s ((put_left p l s)\<lparr>rf_cont := c\<rparr>)" using g by (auto simp: moves_at_def f runs_at_def)
    show "found ((put_left p l s)\<lparr>rf_cont := c\<rparr>) ?n @ cont_held (rf_cont ((put_left p l s)\<lparr>rf_cont := c\<rparr>))
      = found s ?n @ cont_held (rf_cont s)" using A held m by (simp add: f)
  qed (use c in auto)
  show ?thesis
    using go [of C_wait m] go [of C_wait "left_map s p"] go [of "C_merge (left_map s p) m" None] p
    by (auto simp: sync_section_def Let_def)
qed

text \<open>An update of a running child appears in the same place in the maps and in the serial order.\<close>

lemma kid_update_inv:
  assumes inv: "red_inv s" and i: "i < length (rf_kids s)" "rf_kids s ! i = k" and m: "kid_state k = K_run m"
  shows "red_inv (s\<lparr>rf_kids := (rf_kids s)[i := k\<lparr>kid_state := K_run (add_update m u), kid_log := kid_log k @ [u]\<rparr>]\<rparr>)"
    (is "red_inv ?t")
proof -
  have own: "found s i = made s i" "updates m = kid_log k" using inv i m by (auto simp: red_inv_def runs_at_def)
  have below: "found ?t j = found s j" "made ?t j = made s j" if "j \<le> i" for j
    using that by (simp_all add: found_def made_def)
  have add: "updates (add_update m u) = kid_log k @ [u]" using own by (simp add: add_update_def updates_def)
  have f: "found ?t j = made s i @ kid_log k @ [u] @ B j" "found s j = made s i @ kid_log k @ B j"
    if "i < j" "B = (\<lambda>j. updates (kid_right k) @ concat (map content (drop (Suc i) (take j (rf_kids s)))))" for j B
    using that found_split [of "Suc i" j ?t] found_split [of "Suc i" j s] found_Suc [of i ?t] found_Suc [of i s] i m own add below(1) [of i]
    by (simp_all add: content_def drop_update_cancel take_update_swap)
  have g: "made ?t j = made s i @ kid_log k @ [u] @ C j" "made s j = made s i @ kid_log k @ C j"
    if "i < j" "C = (\<lambda>j. concat (map kid_log (drop (Suc i) (take j (rf_kids s)))))" for j C
    using that made_split [of "Suc i" j ?t] made_split [of "Suc i" j s] made_Suc [of i ?t] made_Suc [of i s] i below(2) [of i]
    by (simp_all add: drop_update_cancel take_update_swap)
  have shift: "found ?t j @ xs = made ?t j @ ys" if "i < j" "found s j @ xs = made s j @ ys" for j xs ys
    using that f [OF _ refl, of j] g [OF _ refl, of j] by simp
  have others: "rf_kids ?t ! j = rf_kids s ! j" if "j \<noteq> i" for j using that by simp
  show ?thesis unfolding red_inv_def
  proof (intro conjI allI impI)
    show "gone_ok ?t"
    proof (rule gone_okI)
      fix j assume "j < length (rf_kids ?t)" "kid_state (rf_kids ?t ! j) = K_gone"
      then show "kid_right (rf_kids ?t ! j) = None"
        using gone_okD [of s j] inv i(1) by (cases "j = i") (auto simp: red_inv_def)
    qed
    fix j assume j: "j < length (rf_kids ?t)" "runs_at ?t j"
    have "j \<noteq> i \<Longrightarrow> found s j = made s j \<and> held (kid_state (rf_kids s ! j)) = kid_log (rf_kids s ! j)"
      using inv j others [of j] by (simp add: red_inv_def runs_at_def)
    then show "found ?t j = made ?t j" "held (kid_state (rf_kids ?t ! j)) = kid_log (rf_kids ?t ! j)"
      using shift [of j "[]" "[]"] below [of j] others [of j] i own(1) add by (cases i j rule: linorder_cases; simp)+
  next
    fix m' assume "rf_cont ?t = C_run m'"
    then show "found ?t (length (rf_kids ?t)) = made ?t (length (rf_kids ?t))" "updates m' = rf_log ?t"
      using inv i(1) shift [of "length (rf_kids s)" "[]" "[]"] by (simp_all add: red_inv_def)
  next
    have "found s (length (rf_kids s)) @ cont_held (rf_cont s) = made s (length (rf_kids s)) @ rf_log s"
      using inv by (simp add: red_inv_def serial_updates_def made_def)
    then show "found ?t (length (rf_kids ?t)) @ cont_held (rf_cont ?t) = serial_updates ?t"
      using shift [of "length (rf_kids s)"] i(1) by (simp add: serial_updates_def made_def)
  qed
qed

lemma found_cong: "rf_children t = rf_children s \<Longrightarrow> take n (rf_kids t) = take n (rf_kids s) \<Longrightarrow> found t n = found s n"
  and made_cong: "take n (rf_kids t) = take n (rf_kids s) \<Longrightarrow> made t n = made s n"
  by (simp_all add: found_def made_def)

lemma cont_stolen_inv:
  assumes inv: "red_inv s" and m: "rf_cont s = C_run m"
  shows "red_inv (s\<lparr>rf_kids := rf_kids s @ [\<lparr>kid_state = K_run m, kid_right = None, kid_log = rf_log s\<rparr>],
      rf_cont := C_run None, rf_log := []\<rparr>)" (is "red_inv ?t")
proof -
  let ?n = "length (rf_kids s)"
  have s: "found s ?n = made s ?n" "updates m = rf_log s" using inv m by (auto simp: red_inv_def)
  have below: "found ?t j = found s j" "made ?t j = made s j" if "j \<le> ?n" for j
    using that by (simp_all add: found_def made_def)
  have last: "found ?t (Suc ?n) = made ?t (Suc ?n)"
    using found_Suc [of ?n ?t] made_Suc [of ?n ?t] below [of ?n] s by (simp add: content_def)
  have "found ?t j = made ?t j \<and> held (kid_state (rf_kids ?t ! j)) = kid_log (rf_kids ?t ! j)"
    if "j < Suc ?n" "runs_at ?t j" for j
    using that inv below [of j] s by (cases "j = ?n") (auto simp: red_inv_def runs_at_def nth_append)
  moreover have "gone_ok ?t" using inv by (auto simp: red_inv_def gone_ok_def)
  ultimately show ?thesis
    using last by (auto simp: red_inv_def serial_updates_def made_def)
qed

lemma cont_inv:
  assumes inv: "red_inv s" and c: "cont_held c = cont_held (rf_cont s)" "\<And>m. c \<noteq> C_run m"
  shows "red_inv (s\<lparr>rf_cont := c\<rparr>)"
  using assms by (simp add: red_inv_def gone_ok_def found_def made_def runs_at_def serial_updates_def)

lemma cont_update_inv:
  assumes inv: "red_inv s" and m: "rf_cont s = C_run m"
  shows "red_inv (s\<lparr>rf_cont := C_run (add_update m u), rf_log := rf_log s @ [u]\<rparr>)"
proof -
  have "updates (add_update m u) = updates m @ [u]" by (simp add: add_update_def updates_def)
  then show ?thesis using inv m by (simp add: red_inv_def gone_ok_def found_def made_def runs_at_def serial_updates_def)
qed

text \<open>All children are gone: what there is lies in the one map of the frame.\<close>

lemma all_in_children:
  assumes "gone_ok s" "\<forall>k \<in> set (rf_kids s). kid_state k = K_gone"
  shows "found s (length (rf_kids s)) = updates (rf_children s)"
  using no_content [OF assms(1), of "length (rf_kids s)" 0] assms(2) by (simp add: found_def)

lemma cont_resumes_inv:
  assumes inv: "red_inv s" and c: "rf_cont s = C_wait" "\<forall>k \<in> set (rf_kids s). kid_state k = K_gone"
  shows "red_inv (s\<lparr>rf_children := None, rf_kids := [], rf_cont := C_run (rf_children s),
      rf_log := concat (map kid_log (rf_kids s)) @ rf_log s\<rparr>)"
  using inv c all_in_children [OF _ c(2)]
  by (simp add: red_inv_def gone_ok_def serial_updates_def) (simp add: found_def made_def)

lemma red_step_inv: "red_step s t \<Longrightarrow> red_inv s \<Longrightarrow> red_inv t"
proof (induction rule: red_step.induct)
  case (kid_update i s k m u) then show ?case by (blast intro: kid_update_inv)
next
  case (kid_leaves i s k m) then show ?case by (intro kid_keeps_inv) auto
next
  case (kid_returns i s m) then show ?case by (blast intro: return_section_inv)
next
  case (kid_merges i s k l m r) then show ?case by (intro kid_keeps_inv) (auto simp: updates_reduce)
next
  case (kid_again i s m) then show ?case by (blast intro: return_section_inv)
next
  case (cont_update s m u) then show ?case by (blast intro: cont_update_inv)
next
  case (cont_stolen s m) then show ?case by (blast intro: cont_stolen_inv)
next
  case (cont_syncs s m) then show ?case by (intro cont_inv) auto
next
  case (cont_section s m) then show ?case by (blast intro: sync_section_inv)
next
  case (cont_merges s l m) then show ?case by (intro cont_inv) (auto simp: updates_reduce)
next
  case (cont_resumes s) then show ?case by (blast intro: cont_resumes_inv)
qed

lemma red_start_inv: "red_start s \<Longrightarrow> red_inv s"
  by (simp add: red_start_def red_inv_def gone_ok_def serial_updates_def found_def made_def)

lemma red_reach_inv: "red_step\<^sup>*\<^sup>* s t \<Longrightarrow> red_start s \<Longrightarrow> red_inv t"
  by (induction rule: rtranclp_induct) (auto intro: red_start_inv red_step_inv)


section \<open>Every run comes to rest\<close>

text \<open>
  A frame has joined when its continuation waits and every child is unlinked. \<open>comes_to_rest\<close>: every
  run, whatever the order of its steps, joins after finitely many steps and gets stuck nowhere before.
\<close>

definition joined :: "'a red_frame \<Rightarrow> bool" where
  "joined s \<longleftrightarrow> rf_cont s = C_wait \<and> (\<forall>k \<in> set (rf_kids s). kid_state k = K_gone)"

inductive comes_to_rest :: "'a red_frame \<Rightarrow> bool" where
  rest: "joined s \<Longrightarrow> comes_to_rest s"
| goes_on: "\<exists>t. red_step s t \<Longrightarrow> (\<And>t. red_step s t \<Longrightarrow> comes_to_rest t) \<Longrightarrow> comes_to_rest s"

text \<open>All strands have made their last update.\<close>

definition all_left :: "'a red_frame \<Rightarrow> bool" where
  "all_left s \<longleftrightarrow> (\<forall>k \<in> set (rf_kids s). \<forall>m. kid_state k \<noteq> K_run m) \<and> (\<forall>m. rf_cont s \<noteq> C_run m)"

text \<open>The maps that are left to reduce and the sections that are left to run.\<close>

definition is_map :: "'a rmap \<Rightarrow> nat" where
  "is_map m = of_bool (m \<noteq> None)"

lemma is_map_None [simp]: "is_map None = 0"
  by (simp add: is_map_def)

fun kid_work :: "'a kid_state \<Rightarrow> nat" where
  "kid_work (K_run m) = 2 * is_map m"
| "kid_work (K_return m) = 2 * is_map m + 2"
| "kid_work (K_again m) = 2 * is_map m + 2"
| "kid_work (K_merge l m r) = 2 * (is_map l + is_map m + is_map r) + 1"
| "kid_work K_gone = 0"

fun cont_work :: "'a cont_state \<Rightarrow> nat" where
  "cont_work (C_run m) = 2 * is_map m"
| "cont_work (C_sync m) = 2 * is_map m + 2"
| "cont_work (C_merge l m) = 2 * (is_map l + is_map m) + 1"
| "cont_work C_wait = 0"

definition work_of :: "'a kid \<Rightarrow> nat" where
  "work_of k = kid_work (kid_state k) + 2 * is_map (kid_right k)"

definition red_work :: "'a red_frame \<Rightarrow> nat" where
  "red_work s = 2 * is_map (rf_children s) + sum_list (map work_of (rf_kids s)) + cont_work (rf_cont s)"

fun takes_two :: "'a kid_state \<Rightarrow> bool" where
  "takes_two (K_merge l m r) \<longleftrightarrow> l \<noteq> None \<and> m \<noteq> None"
| "takes_two (K_again m) \<longleftrightarrow> m \<noteq> None"
| "takes_two _ \<longleftrightarrow> True"

definition merges_ok :: "'a red_frame \<Rightarrow> bool" where
  "merges_ok s \<longleftrightarrow> (\<forall>k \<in> set (rf_kids s). takes_two (kid_state k))
     \<and> (\<forall>l m. rf_cont s = C_merge l m \<longrightarrow> l \<noteq> None \<and> m \<noteq> None)"

lemma sum_list_put:
  "i < length xs \<Longrightarrow> sum_list (map f (xs[i := y])) + f (xs ! i) = sum_list (map f xs) + (f y :: nat)"
  using elem_le_sum_list [of i "map f xs"] by (simp add: map_update sum_list_update)

lemma work_put_kid:
  "i < length (rf_kids s) \<Longrightarrow>
   red_work (put_kid i st r s) + work_of (rf_kids s ! i) = red_work s + kid_work st + 2 * is_map r"
  using sum_list_put [of i "rf_kids s" work_of "(rf_kids s ! i)\<lparr>kid_state := st, kid_right := r\<rparr>"]
  by (simp add: red_work_def put_kid_def work_of_def)

lemma work_put_left:
  assumes "left_sibling (rf_kids s) n = p" "n \<le> length (rf_kids s)"
  shows "red_work (put_left p l s) + 2 * is_map (left_map s p) = red_work s + 2 * is_map l"
proof (cases p)
  case (Some q)
  then have "q < length (rf_kids s)" using left_sibling_cases(2) [of "rf_kids s" n q] assms by auto
  then show ?thesis
    using Some sum_list_put [of q "rf_kids s" work_of "(rf_kids s ! q)\<lparr>kid_right := l\<rparr>"]
    by (simp add: red_work_def put_left_def left_map_def work_of_def)
qed (simp add: red_work_def put_left_def left_map_def)

lemma work_section:
  assumes "left_sibling (rf_kids s) i = p" "i < length (rf_kids s)"
  shows "red_work (put_kid i st r (put_left p l s)) + 2 * is_map (left_map s p) + work_of (rf_kids s ! i)
    = red_work s + 2 * is_map l + kid_work st + 2 * is_map r"
  using work_put_kid [of i "put_left p l s" st r] work_put_left [OF assms(1), of l] put_left_beyond [OF assms(1) order_refl, of l] assms(2)
  by simp

lemma fast_path_maps: "fast_path (l, m, r) = Some (l', m', r') \<Longrightarrow> is_map l' + is_map r' = is_map l + is_map m + is_map r"
  by (cases l; cases m; cases r) (auto simp: fast_path_def Let_def is_map_def split: if_splits)

lemma fast_path_goes_on: "fast_path (l, m, r) = None \<Longrightarrow> l \<noteq> None \<or> m \<noteq> None"
  by (cases l; cases m; cases r) (auto simp: fast_path_def Let_def)

lemma slide_left_maps: "slide_left (l, m, r) = (l', m', r') \<Longrightarrow> l \<noteq> None \<or> m \<noteq> None \<Longrightarrow>
   is_map l' + is_map m' + is_map r' = is_map l + is_map m + is_map r \<and> (m' \<noteq> None \<longrightarrow> l' \<noteq> None)"
  by (cases l; cases m; cases r) (auto simp: slide_left_def Let_def is_map_def split: if_splits)

lemma return_section_work:
  assumes i: "i < length (rf_kids s)" and k: "kid_state (rf_kids s ! i) = K_return m \<or> kid_state (rf_kids s ! i) = K_again m"
    and first: "\<not> first \<longrightarrow> m \<noteq> None"
  shows "red_work (return_section first i m s) < red_work s \<and> (kid_state (rf_kids (return_section first i m s) ! i) = K_gone
    \<or> (\<exists>l m' r. l \<noteq> None \<and> m' \<noteq> None \<and> kid_state (rf_kids (return_section first i m s) ! i) = K_merge l m' r))"
proof -
  obtain p where p: "left_sibling (rf_kids s) i = p" by blast
  let ?l = "left_map s p" and ?r = "kid_right (rf_kids s ! i)"
  have w: "work_of (rf_kids s ! i) = 2 * is_map m + 2 + 2 * is_map ?r" using k by (auto simp: work_of_def)
  note go = work_section [OF p i, unfolded w]
  have kid: "kid_state (rf_kids (put_kid i st r (put_left p l s)) ! i) = st" for st r l
    using i by (simp add: put_kid_same)
  show ?thesis
  proof (cases "if first then fast_path (?l, m, ?r) else None")
    case None
    obtain l' m' r' where sl: "slide_left (?l, m, ?r) = (l', m', r')" by (metis prod_cases3)
    have "?l \<noteq> None \<or> m \<noteq> None" using None first fast_path_goes_on [of ?l m ?r] by (auto split: if_splits)
    note maps = slide_left_maps [OF sl this]
    show ?thesis
    proof (cases "m' = None")
      case True
      then have "return_section first i m s = put_kid i K_gone r' (put_left p l' s)"
        using None sl p by (simp add: return_section_def)
      then show ?thesis using go [of K_gone r' l'] maps kid by (simp add: is_map_def)
    next
      case False
      then have "return_section first i m s = put_kid i (K_merge l' m' r') None (put_left p None s)"
        using None sl p by (auto simp: return_section_def)
      moreover have "is_map m' = 1" "is_map l' = 1" using maps False by (auto simp: is_map_def)
      ultimately show ?thesis using go [of "K_merge l' m' r'" None None] maps kid False by simp
    qed
  next
    case (Some x)
    obtain l' m' r' where x: "x = (l', m', r')" by (metis prod_cases3)
    then have "fast_path (?l, m, ?r) = Some (l', m', r')" using Some by (simp split: if_splits)
    from fast_path_maps [OF this] show ?thesis using go [of K_gone r' l'] Some x p kid by (simp add: return_section_def)
  qed
qed

lemma return_section_others: "j \<noteq> i \<Longrightarrow> kid_state (rf_kids (return_section first i m s) ! j) = kid_state (rf_kids s ! j)"
  "rf_cont (return_section first i m s) = rf_cont s" "length (rf_kids (return_section first i m s)) = length (rf_kids s)"
  by (auto simp: return_section_def Let_def split: option.splits prod.splits)

lemma kids_all_but_one:
  assumes "\<forall>k \<in> set (rf_kids s). P (kid_state k)" "length (rf_kids t) = length (rf_kids s)"
    "\<And>j. j < length (rf_kids s) \<Longrightarrow> j \<noteq> i \<Longrightarrow> kid_state (rf_kids t ! j) = kid_state (rf_kids s ! j)"
    "i < length (rf_kids s) \<Longrightarrow> P (kid_state (rf_kids t ! i))"
  shows "\<forall>k \<in> set (rf_kids t). P (kid_state k)"
proof -
  have "P (kid_state (rf_kids t ! j))" if "j < length (rf_kids t)" for j
    using that assms by (cases "j = i") auto
  then show ?thesis by (simp add: all_set_conv_all_nth)
qed

lemma sync_section_work:
  assumes "rf_cont s = C_sync m"
  shows "red_work (sync_section m s) < red_work s"
    and "\<And>P. \<forall>k \<in> set (rf_kids s). P (kid_state k) \<Longrightarrow> \<forall>k \<in> set (rf_kids (sync_section m s)). P (kid_state k)"
    and "rf_cont (sync_section m s) = C_wait \<or> (\<exists>l m'. l \<noteq> None \<and> m' \<noteq> None \<and> rf_cont (sync_section m s) = C_merge l m')"
proof -
  obtain p where p: "left_sibling (rf_kids s) (length (rf_kids s)) = p" by blast
  have c: "red_work (t\<lparr>rf_cont := c\<rparr>) + cont_work (rf_cont t) = red_work t + cont_work c" for t :: "'a red_frame" and c
    by (simp add: red_work_def)
  have w: "red_work ((put_left p l s)\<lparr>rf_cont := c\<rparr>) + 2 * is_map (left_map s p) + 2 * is_map m + 2
    = red_work s + 2 * is_map l + cont_work c" for l c
    using c [where t = "put_left p l s" and c = c] work_put_left [OF p order_refl, of l] assms(1) by simp
  show "red_work (sync_section m s) < red_work s"
    using w [where l = m and c = C_wait] w [where l = "left_map s p" and c = C_wait]
      w [where l = None and c = "C_merge (left_map s p) m"] p
    by (auto simp: sync_section_def Let_def is_map_def)
  show "rf_cont (sync_section m s) = C_wait \<or> (\<exists>l m'. l \<noteq> None \<and> m' \<noteq> None \<and> rf_cont (sync_section m s) = C_merge l m')"
    by (auto simp: sync_section_def Let_def)
  have "length (rf_kids (sync_section m s)) = length (rf_kids s)"
    "kid_state (rf_kids (sync_section m s) ! j) = kid_state (rf_kids s ! j)" for j
    by (auto simp: sync_section_def Let_def)
  then show "\<forall>k \<in> set (rf_kids s). P (kid_state k) \<Longrightarrow> \<forall>k \<in> set (rf_kids (sync_section m s)). P (kid_state k)" for P
    by (simp add: all_set_conv_all_nth)
qed

lemma work_set_kid:
  "i < length (rf_kids s) \<Longrightarrow> rf_kids s ! i = k \<Longrightarrow>
   red_work (s\<lparr>rf_kids := (rf_kids s)[i := k\<lparr>kid_state := st\<rparr>]\<rparr>) + kid_work (kid_state k) = red_work s + kid_work st"
  using sum_list_put [of i "rf_kids s" work_of "k\<lparr>kid_state := st\<rparr>"] by (simp add: red_work_def work_of_def)

lemma is_map_reduce: "is_map (reduce_maps l m) = of_bool (l \<noteq> None \<or> m \<noteq> None)"
  by (auto simp: is_map_def reduce_maps_def)

text \<open>What a child can become when it returns.\<close>

lemma return_section_kids:
  assumes "i < length (rf_kids s)" "kid_state (rf_kids s ! i) = K_return m \<or> kid_state (rf_kids s ! i) = K_again m"
    "\<not> first \<longrightarrow> m \<noteq> None" "\<forall>k \<in> set (rf_kids s). P (kid_state k)"
    and P: "P K_gone" "\<And>l m r. l \<noteq> None \<Longrightarrow> m \<noteq> None \<Longrightarrow> P (K_merge l m r)"
  shows "\<forall>k \<in> set (rf_kids (return_section first i m s)). P (kid_state k)"
proof -
  have "P (kid_state (rf_kids (return_section first i m s) ! i))"
    using return_section_work [OF assms(1-3), THEN conjunct2]
  proof
    assume "\<exists>l m' r. l \<noteq> None \<and> m' \<noteq> None \<and> kid_state (rf_kids (return_section first i m s) ! i) = K_merge l m' r"
    then obtain l m' r where k: "l \<noteq> None" "m' \<noteq> None" "kid_state (rf_kids (return_section first i m s) ! i) = K_merge l m' r"
      by blast
    show ?thesis unfolding k(3) by (rule P(2) [OF k(1,2)])
  qed (simp only: P(1))
  from kids_all_but_one [where s = s and i = i and P = P, OF assms(4) return_section_others(3) return_section_others(1) this]
  show ?thesis .
qed

lemma set_kid_all:
  "\<forall>k \<in> set ks. P (kid_state k) \<Longrightarrow> P (kid_state k') \<Longrightarrow> \<forall>k \<in> set (ks[i := k']). P (kid_state k)"
  by (auto dest!: set_update_subset_insert [THEN subsetD])

lemma merges_ok_kid: "merges_ok s \<Longrightarrow> i < length (rf_kids s) \<Longrightarrow> rf_kids s ! i = k \<Longrightarrow> takes_two (kid_state k)"
  by (auto simp: merges_ok_def)

lemma merges_ok_step: "red_step s t \<Longrightarrow> merges_ok s \<Longrightarrow> merges_ok t"
proof (induction rule: red_step.induct)
  case (kid_returns i s m)
  then show ?case
    using return_section_kids [of i s m True takes_two] by (simp add: merges_ok_def return_section_others)
next
  case (kid_again i s m)
  then show ?case
    using return_section_kids [of i s m False takes_two] merges_ok_kid [OF kid_again(3,1) refl]
    by (simp add: merges_ok_def return_section_others)
next
  case (kid_merges i s k l m r)
  have "takes_two (K_again (reduce_maps (reduce_maps l m) r))"
    using merges_ok_kid [OF kid_merges(4,1,2)] kid_merges(3) by (auto simp: reduce_maps_def)
  then have "\<forall>k \<in> set ((rf_kids s)[i := k\<lparr>kid_state := K_again (reduce_maps (reduce_maps l m) r)\<rparr>]). takes_two (kid_state k)"
    using kid_merges(4) by (intro set_kid_all) (simp_all add: merges_ok_def)
  then show ?case using kid_merges(4) by (simp add: merges_ok_def)
next
  case (kid_update i s k m u)
  then have "\<forall>k \<in> set ((rf_kids s)[i := k\<lparr>kid_state := K_run (add_update m u), kid_log := kid_log k @ [u]\<rparr>]). takes_two (kid_state k)"
    by (intro set_kid_all) (simp_all add: merges_ok_def)
  then show ?case using kid_update.prems by (simp add: merges_ok_def)
next
  case (kid_leaves i s k m)
  then have "\<forall>k \<in> set ((rf_kids s)[i := k\<lparr>kid_state := K_return m\<rparr>]). takes_two (kid_state k)"
    by (intro set_kid_all) (simp_all add: merges_ok_def)
  then show ?case using kid_leaves.prems by (simp add: merges_ok_def)
next
  case (cont_section s m)
  then show ?case using sync_section_work(2,3) [of s m] by (auto simp: merges_ok_def)
qed (auto simp: merges_ok_def)

text \<open>Once all strands have left, a step reduces the work or is the last one.\<close>

lemma red_step_works:
  "red_step s t \<Longrightarrow> all_left s \<Longrightarrow> merges_ok s \<Longrightarrow> \<not> joined s \<Longrightarrow> red_work t < red_work s \<and> all_left t"
proof (induction rule: red_step.induct)
  case (kid_returns i s m)
  then show ?case
    using return_section_kids [of i s m True "\<lambda>st. \<forall>m. st \<noteq> K_run m"] return_section_work [of i s m True]
    by (simp add: all_left_def return_section_others)
next
  case (kid_again i s m)
  then show ?case
    using return_section_kids [of i s m False "\<lambda>st. \<forall>m. st \<noteq> K_run m"] return_section_work [of i s m False]
      merges_ok_kid [OF kid_again(4,1) refl]
    by (simp add: all_left_def return_section_others)
next
  case (kid_merges i s k l m r)
  have lm: "l \<noteq> None" "m \<noteq> None" using merges_ok_kid [OF kid_merges(5,1,2)] kid_merges(3) by simp_all
  then have "is_map (reduce_maps (reduce_maps l m) r) = 1" "is_map l = 1" "is_map m = 1"
    by (auto simp: is_map_def reduce_maps_def)
  then have "red_work (s\<lparr>rf_kids := (rf_kids s)[i := k\<lparr>kid_state := K_again (reduce_maps (reduce_maps l m) r)\<rparr>]\<rparr>) < red_work s"
    using work_set_kid [OF kid_merges(1,2), of "K_again (reduce_maps (reduce_maps l m) r)"] kid_merges(3) by simp
  moreover have "\<forall>k \<in> set ((rf_kids s)[i := k\<lparr>kid_state := K_again (reduce_maps (reduce_maps l m) r)\<rparr>]). \<forall>m. kid_state k \<noteq> K_run m"
    by (rule set_kid_all [where P = "\<lambda>st. \<forall>m. st \<noteq> K_run m"]) (use kid_merges in \<open>simp_all add: all_left_def\<close>)
  ultimately show ?case
    using kid_merges by (simp add: all_left_def)
next
  case (kid_update i s k m u)
  then show ?case by (auto simp: all_left_def)
next
  case (kid_leaves i s k m)
  then show ?case by (auto simp: all_left_def)
next
  case (cont_section s m)
  then show ?case
    using sync_section_work(1) [of s m] sync_section_work(2) [of s m "\<lambda>st. \<forall>m. st \<noteq> K_run m"] sync_section_work(3) [of s m]
    by (auto simp: all_left_def)
next
  case (cont_merges s l m)
  then show ?case by (simp add: all_left_def merges_ok_def red_work_def is_map_reduce) (simp add: is_map_def)
next
  case (cont_resumes s) then show ?case by (simp add: joined_def)
qed (auto simp: all_left_def)

lemma red_progress:
  assumes "all_left s" "\<not> joined s"
  shows "\<exists>t. red_step s t"
proof (cases "rf_cont s")
  case (C_run m) then show ?thesis using assms by (simp add: all_left_def)
next
  case (C_sync m) then show ?thesis by (blast intro: cont_section)
next
  case (C_merge l m) then show ?thesis by (blast intro: cont_merges)
next
  case C_wait
  then obtain k where k: "k \<in> set (rf_kids s)" "kid_state k \<noteq> K_gone" using assms(2) by (auto simp: joined_def)
  then obtain i where i: "i < length (rf_kids s)" "rf_kids s ! i = k" by (auto simp: in_set_conv_nth)
  show ?thesis
    using k assms(1) i by (cases "kid_state k") (auto simp: all_left_def intro: red_step.intros)
qed

lemma rests_when_left: "all_left s \<Longrightarrow> merges_ok s \<Longrightarrow> comes_to_rest s"
proof (induction "red_work s" arbitrary: s rule: less_induct)
  case less
  show ?case
  proof (cases "joined s")
    case False
    show ?thesis
    proof (rule goes_on [OF red_progress [OF less.prems(1) False]])
      fix t assume "red_step s t"
      then show "comes_to_rest t"
        using red_step_works [OF _ less.prems False] merges_ok_step less by blast
    qed
  qed (rule rest)
qed


section \<open>The critical sections of the code\<close>

text \<open>
  The tables above are those of the programs in \<open>Reductions\<close>: \<open>three_maps\<close> reads, through the
  pointers of the code, the map to the left, the one of the worker and the one to the right of the frame.
\<close>

definition slot_of :: "ptr \<Rightarrow> ptr option" where
  "slot_of p = (if p = NULL then None else Some p)"

fun left_ptr :: "rts \<Rightarrow> left_slot \<Rightarrow> ptr option" where
  "left_ptr s (Children_of p) = map_option ff_children_reducer_map (frame_at s p)"
| "left_ptr s (Right_of q) = map_option ff_right_reducer_map (frame_at s q)"

definition three_maps :: "rts \<Rightarrow> ptr \<Rightarrow> ptr \<Rightarrow> left_slot \<Rightarrow> (ptr option \<times> ptr option \<times> ptr option) option" where
  "three_maps s w ff left =
    (case (left_ptr s left, map_option wk_reducer_map (worker_at s w), map_option ff_right_reducer_map (frame_at s ff)) of
       (Some l, Some m, Some r) \<Rightarrow> Some (slot_of l, slot_of m, slot_of r) | _ \<Rightarrow> None)"

text \<open>The frame whose field the slot is, which is never the returning frame itself.\<close>

fun slot_frame :: "left_slot \<Rightarrow> ptr" where
  "slot_frame (Children_of p) = p"
| "slot_frame (Right_of q) = q"

definition apart :: "ptr \<Rightarrow> left_slot \<Rightarrow> bool" where
  "apart ff left \<longleftrightarrow> slot_frame left \<noteq> ff"

lemma three_maps_SomeD:
  "three_maps s w ff left = Some maps \<Longrightarrow> \<exists>l x f. left_ptr s left = Some l \<and> worker_at s w = Some x \<and> frame_at s ff = Some f
     \<and> maps = (slot_of l, slot_of (wk_reducer_map x), slot_of (ff_right_reducer_map f))"
  by (auto simp: three_maps_def split: option.splits)

lemma slide_maps_left_follows:
  assumes "three_maps s w ff left = Some maps" "apart ff left"
  shows "\<exists>t. slide_maps_left w ff left s = Inr ((), t) \<and> three_maps t w ff left = Some (slide_left maps)"
proof -
  obtain l x f where a: "left_ptr s left = Some l" "worker_at s w = Some x" "frame_at s ff = Some f"
    "maps = (slot_of l, slot_of (wk_reducer_map x), slot_of (ff_right_reducer_map f))"
    using three_maps_SomeD [OF assms(1)] by blast
  then obtain g where g: "frame_at s (slot_frame left) = Some g" by (cases left) auto
  show ?thesis
    using a assms(2) g deref_SomeD [OF a(2)] deref_SomeD [OF a(3)] deref_SomeD [OF g]
    by (cases left) (simp_all add: slide_maps_left_def run three_maps_def slide_left_def slot_of_def apart_def Let_def)
qed

text \<open>With no exception pending the fast path is its table.\<close>

definition no_exceptions :: "rts \<Rightarrow> ptr \<Rightarrow> ptr \<Rightarrow> bool" where
  "no_exceptions s w ff \<longleftrightarrow> map_option wk_pending_exception (worker_at s w) = Some NULL
     \<and> map_option (\<lambda>f. (ff_pending_exception f, ff_right_pending_exception f)) (frame_at s ff) = Some (NULL, NULL)"

lemma splice_nothing:
  assumes "frame_at s ff = Some f" "ff_pending_exception f = NULL" "ff_right_pending_exception f = NULL"
    and "frame_at s (slot_frame left) = Some g"
  shows "splice_exceptions_for_spawn w ff left s = Inr ((), s)"
proof -
  note d = deref_SomeD [OF assms(1)] deref_SomeD [OF assms(4)]
  have f: "(r_frames s)(ff \<mapsto> f\<lparr>ff_pending_exception := NULL\<rparr>) = r_frames s"
    "(r_frames s)(ff \<mapsto> f\<lparr>ff_right_pending_exception := NULL\<rparr>) = r_frames s"
    using assms(2,3) d by (simp_all add: fun_upd_idem)
  have n: "bindP (load_left_exception left) (\<lambda>l. bindP (ld_ff fld ff)
       (\<lambda>e. bindP (cilkrts_merge_pending_exceptions w l e) (store_left_exception left))) s = Inr ((), s)"
    if "fld f = NULL" for fld
    using that assms(1,4) d by (cases left) (auto simp: run cilkrts_merge_pending_exceptions_def fun_upd_idem)
  have st: "st_ff ff (ff_pending_exception_update (\<lambda>_. 0)) s = Inr ((), s)"
    "st_ff ff (ff_right_pending_exception_update (\<lambda>_. 0)) s = Inr ((), s)"
    using assms(1) f by (simp_all add: run)
  show ?thesis
    by (simp add: splice_exceptions_for_spawn_def run_block_Cons run_block_Nil st n [of ff_pending_exception, OF assms(2)]
      n [of ff_right_pending_exception, OF assms(3)])
qed

lemma fast_path_follows:
  assumes maps: "three_maps s w ff left = Some maps" and "apart ff left" "no_exceptions s w ff"
    and left: "compute_left_ptrs_for_spawn_return w ff s = Inr (left, s)"
  shows "\<exists>r t. fast_path_reductions_for_spawn_return w ff s = Inr (r, t)
    \<and> (case fast_path maps of
        Some maps' \<Rightarrow> r = None \<and> three_maps t w ff left = Some maps'
      | None \<Rightarrow> r = Some left \<and> three_maps t w ff left = Some maps)"
proof -
  obtain l x f where a: "left_ptr s left = Some l" "worker_at s w = Some x" "frame_at s ff = Some f"
    "maps = (slot_of l, slot_of (wk_reducer_map x), slot_of (ff_right_reducer_map f))"
    using three_maps_SomeD [OF maps] by blast
  obtain g where g: "frame_at s (slot_frame left) = Some g" using a(1) by (cases left) auto
  have e: "wk_pending_exception x = NULL" "ff_pending_exception f = NULL" "ff_right_pending_exception f = NULL"
    using assms(3) a by (auto simp: no_exceptions_def)
  have l: "load_left_map left s = Inr (l, s)" using a(1) by (cases left) (auto simp: run)
  let ?case = "of_bool (l \<noteq> NULL) + 2 * of_bool (wk_reducer_map x \<noteq> NULL) + 4 * of_bool (ff_right_reducer_map f \<noteq> NULL) :: nat"
  have prog: "fast_path_reductions_for_spawn_return w ff s =
      (if ?case \<ge> 2 then
         if ?case = 2 then result [store_left_map left (wk_reducer_map x), st_wk w (wk_reducer_map_update (\<lambda>_. NULL))] (ret None) s
         else if ?case = 4 then result [store_left_map left (ff_right_reducer_map f),
           st_ff ff (ff_right_reducer_map_update (\<lambda>_. NULL))] (ret None) s
         else Inr (Some left, s)
       else Inr (None, s))"
    using a(2,3) e(1) l left splice_nothing [OF a(3) e(2,3) g, of w]
    by (simp only: fast_path_reductions_for_spawn_return_def run option.case sum.case prod.case if_True Let_def) (auto simp: run split: sum.splits option.splits)
  show ?thesis
    using a assms(2) g deref_SomeD [OF a(2)] deref_SomeD [OF a(3)] deref_SomeD [OF g] unfolding prog
    by (cases left) (simp_all add: run three_maps_def fast_path_def slot_of_def apart_def Let_def)
qed


section \<open>What the protocol guarantees\<close>

text \<open>
  C2. Reductions keep the serial order. However the updates of the continuation and of its children, the steals, the
  returns of the children, the sync and the critical sections of all of them follow one another, when the continuation waits and all
  children are gone the one map left, \<open>children_reducer_map\<close>, has all updates exactly once, in the order in which one
  worker alone would have made them.
\<close>

theorem reductions_keep_serial_order:
  assumes "red_start s" "red_step\<^sup>*\<^sup>* s t" "joined t"
  shows "updates (rf_children t) = serial_updates t"
proof -
  have inv: "red_inv t" using red_reach_inv assms(1,2) by blast
  then have "found t (length (rf_kids t)) = updates (rf_children t)"
    using all_in_children [of t] assms(3) by (simp add: joined_def red_inv_def)
  then show ?thesis using inv assms(3) by (simp add: red_inv_def joined_def)
qed

text \<open>
  C3. Reductions end. Once all strands of a frame have made their last update, every run of the protocol joins after
  finitely many critical sections and reductions, and none gets stuck: the loops of the slow paths, which start again whenever
  maps have arrived meanwhile, do not go on forever, and no map is left that nobody will reduce.
\<close>

theorem reductions_come_to_rest:
  assumes "red_start s" "red_step\<^sup>*\<^sup>* s t" "all_left t"
  shows "comes_to_rest t"
proof (rule rests_when_left [OF assms(3)])
  have "merges_ok s" using assms(1) by (simp add: red_start_def merges_ok_def)
  with assms(2) show "merges_ok t"
    by (induction rule: rtranclp_induct) (auto intro: merges_ok_step)
qed

text \<open>One child, stolen after the first update, returns after the parent has reached its sync.\<close>

definition red_sample :: "'a rmap \<Rightarrow> 'a kid list \<Rightarrow> 'a cont_state \<Rightarrow> 'a list \<Rightarrow> 'a red_frame" where
  "red_sample c ks co log = \<lparr>rf_children = c, rf_kids = ks, rf_cont = co, rf_log = log\<rparr>"

abbreviation kid_is :: "'a kid_state \<Rightarrow> 'a rmap \<Rightarrow> 'a list \<Rightarrow> 'a kid" where
  "kid_is st r log \<equiv> \<lparr>kid_state = st, kid_right = r, kid_log = log\<rparr>"

lemmas red_sample_simps = red_sample_def updates_def add_update_def reduce_maps_def return_section_def sync_section_def
  left_map_def put_left_def put_kid_def fast_path_def slide_left_def Let_def

lemma sample_half:
  "red_step\<^sup>*\<^sup>* (red_sample None [] (C_run None) [])
     (red_sample None [kid_is (K_run (Some [1])) None [1]] (C_run None) [] :: nat red_frame)"
proof -
  have "red_step\<^sup>*\<^sup>* (red_sample None [] (C_run None) []) (red_sample None [] (C_run (Some [1])) [1] :: nat red_frame)"
    using cont_update [of "red_sample None [] (C_run None) []" None "1 :: nat"]
    by (intro r_into_rtranclp) (simp add: red_sample_simps)
  also have "red_step (red_sample None [] (C_run (Some [1])) [1]) (red_sample None [kid_is (K_run (Some [1])) None [1]] (C_run None) [] :: nat red_frame)"
    using cont_stolen [of "red_sample None [] (C_run (Some [1 :: nat])) [1]" "Some [1]"] by (simp add: red_sample_simps)
  finally show ?thesis .
qed

lemma sample_left:
  "red_step\<^sup>*\<^sup>* (red_sample None [] (C_run None) [])
     (red_sample None [kid_is (K_return (Some [1, 3])) (Some [2]) [1, 3]] C_wait [2] :: nat red_frame)"
proof -
  note sample_half
  also have "red_step (red_sample None [kid_is (K_run (Some [1])) None [1]] (C_run None) [])
    (red_sample None [kid_is (K_run (Some [1, 3])) None [1, 3]] (C_run None) [] :: nat red_frame)"
    using kid_update [of 0 "red_sample None [kid_is (K_run (Some [1])) None [1]] (C_run None) []" _ "Some [1]" "3 :: nat"]
    by (simp add: red_sample_simps)
  also have "red_step (red_sample None [kid_is (K_run (Some [1, 3])) None [1, 3]] (C_run None) [])
    (red_sample None [kid_is (K_run (Some [1, 3])) None [1, 3]] (C_run (Some [2])) [2] :: nat red_frame)"
    using cont_update [of "red_sample None [kid_is (K_run (Some [1, 3])) None [1, 3]] (C_run None) []" None "2 :: nat"]
    by (simp add: red_sample_simps)
  also have "red_step (red_sample None [kid_is (K_run (Some [1, 3])) None [1, 3]] (C_run (Some [2])) [2])
    (red_sample None [kid_is (K_run (Some [1, 3])) None [1, 3]] (C_sync (Some [2])) [2] :: nat red_frame)"
    using cont_syncs [of "red_sample None [kid_is (K_run (Some [1, 3])) None [1, 3]] (C_run (Some [2])) [2 :: nat]" "Some [2]"]
    by (simp add: red_sample_simps)
  also have "red_step (red_sample None [kid_is (K_run (Some [1, 3])) None [1, 3]] (C_sync (Some [2])) [2])
    (red_sample None [kid_is (K_run (Some [1, 3])) (Some [2]) [1, 3]] C_wait [2] :: nat red_frame)"
    using cont_section [of "red_sample None [kid_is (K_run (Some [1, 3])) None [1, 3]] (C_sync (Some [2])) [2 :: nat]" "Some [2]"]
    by (simp add: red_sample_simps)
  also have "red_step (red_sample None [kid_is (K_run (Some [1, 3])) (Some [2]) [1, 3]] C_wait [2])
    (red_sample None [kid_is (K_return (Some [1, 3])) (Some [2]) [1, 3]] C_wait [2] :: nat red_frame)"
    using kid_leaves [of 0 "red_sample None [kid_is (K_run (Some [1, 3])) (Some [2]) [1, 3]] C_wait [2 :: nat]" _ "Some [1, 3]"]
    by (simp add: red_sample_simps)
  finally show ?thesis .
qed

lemma sample_joined:
  "red_step\<^sup>*\<^sup>* (red_sample None [] (C_run None) [])
     (red_sample (Some [1, 3, 2]) [kid_is K_gone None [1, 3]] C_wait [2] :: nat red_frame)"
proof -
  note sample_left
  also have "red_step (red_sample None [kid_is (K_return (Some [1, 3])) (Some [2]) [1, 3]] C_wait [2])
    (red_sample None [kid_is (K_merge (Some [1, 3]) (Some [2]) None) None [1, 3]] C_wait [2] :: nat red_frame)"
    using kid_returns [of 0 "red_sample None [kid_is (K_return (Some [1, 3])) (Some [2]) [1, 3]] C_wait [2 :: nat]" "Some [1, 3]"]
    by (simp add: red_sample_simps)
  also have "red_step (red_sample None [kid_is (K_merge (Some [1, 3]) (Some [2]) None) None [1, 3]] C_wait [2])
    (red_sample None [kid_is (K_again (Some [1, 3, 2])) None [1, 3]] C_wait [2] :: nat red_frame)"
    using kid_merges [of 0 "red_sample None [kid_is (K_merge (Some [1, 3]) (Some [2]) None) None [1, 3]] C_wait [2 :: nat]"
      _ "Some [1, 3]" "Some [2]" None]
    by (simp add: red_sample_simps)
  also have "red_step (red_sample None [kid_is (K_again (Some [1, 3, 2])) None [1, 3]] C_wait [2])
    (red_sample (Some [1, 3, 2]) [kid_is K_gone None [1, 3]] C_wait [2] :: nat red_frame)"
    using kid_again [of 0 "red_sample None [kid_is (K_again (Some [1, 3, 2])) None [1, 3]] C_wait [2 :: nat]" "Some [1, 3, 2]"]
    by (simp add: red_sample_simps)
  finally show ?thesis .
qed

lemma reductions_keep_serial_order_witness:
  "\<exists>t. red_step\<^sup>*\<^sup>* (red_sample None [] (C_run None) [] :: nat red_frame) t \<and> joined t
     \<and> updates (rf_children t) = serial_updates t \<and> serial_updates t = [1, 3, 2]"
proof -
  have "joined (red_sample (Some [1, 3, 2]) [kid_is K_gone None [1, 3]] C_wait [2] :: nat red_frame)"
    by (simp add: joined_def red_sample_def)
  from reductions_keep_serial_order [OF _ sample_joined this] sample_joined this
  show ?thesis by (auto simp: red_start_def serial_updates_def red_sample_def)
qed

lemma reductions_come_to_rest_witness:
  "comes_to_rest (red_sample None [kid_is (K_return (Some [1, 3])) (Some [2]) [1, 3]] C_wait [2] :: nat red_frame)"
  by (rule reductions_come_to_rest [OF _ sample_left]) (simp_all add: red_start_def red_sample_def all_left_def)

end
