(* ===== verification/Fiber_Pool.thy ===== *)
theory Fiber_Pool
  imports Fiber Settings
begin

text \<open>
  The pools of fibers (\<open>cilk_fiber_pool.cpp\<close>, and the part of \<open>cilk_fiber.cpp\<close> that takes fibers from
  them and gives them back): a pool for each worker, which only that worker uses, and the global
  pool, which is its parent and has a lock. The theories of the scheduler see all pools as the one
  supply of \<open>Fiber\<close>; the contract at the end, \<open>fiber_supply\<close>, is what both keep. Sizes are kept at
  their 32 bits; \<open>total\<close> and \<open>high_water\<close> are integers.
\<close>

section \<open>Data\<close>

record fiber_pool =
  pl_lock :: "spin_mutex option"     \<comment> \<open>NULL in a pool that is not shared\<close>
  pl_stack_size :: nat
  pl_parent :: ptr
  pl_fibers :: "ptr list"            \<comment> \<open>the array of \<open>max_size\<close> pointers\<close>
  pl_max_size :: "32 word"
  pl_size :: "32 word"
  pl_total :: int
  pl_high_water :: int
  pl_alloc_max :: int

text \<open>
  The memory: the pools, the fibers that have been constructed and not destroyed, and how often the
  heap has been asked. What it answers is a parameter \<open>heap\<close> of the definitions that ask it: an
  address, which may be one that was freed before, or NULL, and whether \<open>mmap\<close> finds a stack.
\<close>

type_synonym heap = "nat \<Rightarrow> ptr set \<Rightarrow> ptr \<times> bool"

record fiber_memory =
  mem_pools :: "ptr \<rightharpoonup> fiber_pool"
  mem_fibers :: "ptr \<rightharpoonup> fiber"
  mem_calls :: nat

abbreviation ld_pl :: "(fiber_pool \<Rightarrow> 'a) \<Rightarrow> ptr \<Rightarrow> (fiber_memory, 'a) prog" where
  "ld_pl f p \<equiv> load mem_pools f p"
abbreviation st_pl :: "ptr \<Rightarrow> (fiber_pool \<Rightarrow> fiber_pool) \<Rightarrow> (fiber_memory, unit) prog" where
  "st_pl p f \<equiv> store mem_pools mem_pools_update p f"
abbreviation ld_fiber :: "(fiber \<Rightarrow> 'a) \<Rightarrow> ptr \<Rightarrow> (fiber_memory, 'a) prog" where
  "ld_fiber f p \<equiv> load mem_fibers f p"
abbreviation st_fiber :: "ptr \<Rightarrow> (fiber \<Rightarrow> fiber) \<Rightarrow> (fiber_memory, unit) prog" where
  "st_fiber p f \<equiv> store mem_fibers mem_fibers_update p f"

section \<open>Locks and the array of a pool\<close>

definition on_pool_lock :: "ptr \<Rightarrow> (spin_mutex, unit) prog \<Rightarrow> (fiber_memory, unit) prog" where
  "on_pool_lock pool m = bindP (ld_pl pl_lock pool) (\<lambda>l. case l of None \<Rightarrow> failP Segfault
     | Some x \<Rightarrow> (case m x of Inl e \<Rightarrow> failP e | Inr (_, y) \<Rightarrow> st_pl pool (pl_lock_update (\<lambda>_. Some y))))"

text \<open>\<open>if (pool->lock) spin_mutex_lock(pool->lock)\<close>, and unlocking alike.\<close>

definition lock_pool :: "ptr \<Rightarrow> (fiber_memory, unit) prog" where
  "lock_pool pool = bindP (ld_pl pl_lock pool) (\<lambda>l. whenP (l \<noteq> None) (on_pool_lock pool spin_mutex_lock))"

definition unlock_pool :: "ptr \<Rightarrow> (fiber_memory, unit) prog" where
  "unlock_pool pool = bindP (ld_pl pl_lock pool) (\<lambda>l. whenP (l \<noteq> None) (on_pool_lock pool spin_mutex_unlock))"

text \<open>\<open>pool->fibers[--pool->size]\<close>\<close>

definition pop_fiber :: "ptr \<Rightarrow> (fiber_memory, ptr) prog" where
  "pop_fiber pool = result [st_pl pool (\<lambda>p. p\<lparr>pl_size := pl_size p - 1\<rparr>)]
     (bindP (ld_pl pl_size pool) (\<lambda>n. bindP (ld_pl pl_fibers pool) (\<lambda>xs.
        if unat n < length xs then ret (xs ! unat n) else failP Segfault)))"

text \<open>\<open>pool->fibers[pool->size++] = fiber\<close>\<close>

definition push_fiber :: "ptr \<Rightarrow> ptr \<Rightarrow> (fiber_memory, unit) prog" where
  "push_fiber pool fiber = bindP (ld_pl pl_size pool) (\<lambda>n. bindP (ld_pl pl_fibers pool) (\<lambda>xs. block [
     if unat n < length xs then st_pl pool (pl_fibers_update (\<lambda>_. xs[unat n := fiber])) else failP Segfault,
     st_pl pool (pl_size_update (\<lambda>_. n + 1))]))"

definition increment_pool_total :: "ptr \<Rightarrow> (fiber_memory, unit) prog" where
  "increment_pool_total pool = block [
     st_pl pool (\<lambda>p. p\<lparr>pl_total := pl_total p + 1\<rparr>),
     st_pl pool (\<lambda>p. if pl_high_water p < pl_total p then p\<lparr>pl_high_water := pl_total p\<rparr> else p)]"

definition decrement_pool_total :: "ptr \<Rightarrow> int \<Rightarrow> (fiber_memory, unit) prog" where
  "decrement_pool_total pool fibers_freed = st_pl pool (\<lambda>p. p\<lparr>pl_total := pl_total p - fibers_freed\<rparr>)"

section \<open>The heap\<close>

definition malloc_fiber :: "heap \<Rightarrow> (fiber_memory, ptr \<times> bool) prog" where
  "malloc_fiber heap = bindP (gets (\<lambda>s. heap (mem_calls s) (dom (mem_fibers s)))) (\<lambda>answer.
     result [modify (\<lambda>s. s\<lparr>mem_calls := Suc (mem_calls s)\<rparr>)] (ret answer))"

definition allocate_from_heap :: "heap \<Rightarrow> (fiber_memory, ptr) prog" where
  "allocate_from_heap heap = bindP (malloc_fiber heap) (\<lambda>(f, mapped).
     if f = NULL then ret NULL
     else if \<not> mapped then cilkrts_bug ''Cilk: out of memory for stacks''
     else result [modify (\<lambda>s. s\<lparr>mem_fibers := (mem_fibers s)(f \<mapsto> fresh_fiber)\<rparr>)] (ret f))"

definition deallocate_to_heap :: "ptr \<Rightarrow> (fiber_memory, unit) prog" where
  "deallocate_to_heap fiber = block [
     ld_fiber (\<lambda>_. ()) fiber,
     modify (\<lambda>s. s\<lparr>mem_fibers := (mem_fibers s)(fiber := None)\<rparr>)]"

text \<open>The fiber that stands for the stack a thread came with; there is no pool for those.\<close>

definition allocate_from_thread :: "heap \<Rightarrow> (fiber_memory, ptr) prog" where
  "allocate_from_thread heap = bindP (malloc_fiber heap) (\<lambda>(f, _). result
     [CILK_ASSERT ''retmem'' (f \<noteq> NULL),
      modify (\<lambda>s. s\<lparr>mem_fibers := (mem_fibers s)(f \<mapsto> fresh_fiber\<lparr>fb_from_thread := True\<rparr>)\<rparr>)] (ret f))"

definition deallocate_from_thread :: "ptr \<Rightarrow> (fiber_memory, int) prog" where
  "deallocate_from_thread fiber = result [
     bindP (ld_fiber fb_from_thread fiber) (CILK_ASSERT ''this->is_allocated_from_thread()''),
     deallocate_to_heap fiber] (ret 0)"

definition remove_reference_from_thread :: "ptr \<Rightarrow> (fiber_memory, int) prog" where
  "remove_reference_from_thread fiber = result [deallocate_to_heap fiber] (ret 0)"

section \<open>Taking a fiber\<close>

text \<open>
  \<open>levels\<close> bounds how many pools there are above each other; the runtime has two levels. The
  reference counts that are set here exist on Windows only.
\<close>

fun try_allocate_from_pool_recursive :: "nat \<Rightarrow> ptr \<Rightarrow> (fiber_memory, ptr) prog" where
  "try_allocate_from_pool_recursive 0 pool = failP Diverges"
| "try_allocate_from_pool_recursive (Suc levels) pool =
     bindP (bindP (ld_pl pl_size pool) (\<lambda>n. if 0 < n then
        bindP (lock_pool pool) (\<lambda>_. bindP (ld_pl pl_size pool) (\<lambda>n.
        bindP (if 0 < n then pop_fiber pool else ret NULL) (\<lambda>r. result [unlock_pool pool] (ret r))))
        else ret NULL)) (\<lambda>r.
     bindP (ld_pl pl_parent pool) (\<lambda>parent.
     if r = NULL \<and> parent \<noteq> NULL then try_allocate_from_pool_recursive levels parent else ret r))"

text \<open>Step 5: the fiber is counted before it is there, and no longer when there is none.\<close>

definition allocate_counted :: "heap \<Rightarrow> ptr \<Rightarrow> (fiber_memory, ptr) prog" where
  "allocate_counted heap pool = bindP (allocate_from_heap heap) (\<lambda>r. if r \<noteq> NULL then ret r else result
     [lock_pool pool, decrement_pool_total pool 1, unlock_pool pool] (ret NULL))"

text \<open>The condition \<open>pool->total < pool->alloc_max\<close> of step 3 is commented out in the code.\<close>

fun fiber_allocate :: "heap \<Rightarrow> nat \<Rightarrow> ptr \<Rightarrow> (fiber_memory, ptr) prog" where
  "fiber_allocate heap 0 pool = failP Diverges"
| "fiber_allocate heap (Suc levels) pool =
     bindP (lock_pool pool) (\<lambda>_. bindP (ld_pl pl_size pool) (\<lambda>n.
     bindP (if 0 < n then pop_fiber pool else ret NULL) (\<lambda>r.
     if r \<noteq> NULL then result [unlock_pool pool] (ret r)
     else result [increment_pool_total pool, unlock_pool pool]
       (bindP (allocate_counted heap pool) (\<lambda>r. if r \<noteq> NULL then ret r
        else bindP (ld_pl pl_parent pool) (\<lambda>parent.
          if parent \<noteq> NULL then fiber_allocate heap levels parent else ret r))))))"

definition allocate_with_try_allocate_from_pool :: "heap \<Rightarrow> nat \<Rightarrow> ptr \<Rightarrow> (fiber_memory, ptr) prog" where
  "allocate_with_try_allocate_from_pool heap levels pool =
     bindP (try_allocate_from_pool_recursive levels pool) (\<lambda>r. if r \<noteq> NULL then ret r else
     bindP (lock_pool pool) (\<lambda>_. bindP (ld_pl pl_size pool) (\<lambda>n.
     bindP (if 0 < n then pop_fiber pool else ret NULL) (\<lambda>r.
     if r \<noteq> NULL then result [unlock_pool pool] (ret r)
     else bindP (ld_pl (\<lambda>p. pl_total p < pl_alloc_max p) pool) (\<lambda>can_allocate_from_heap.
       result [whenP can_allocate_from_heap (increment_pool_total pool), unlock_pool pool]
       (bindP (if can_allocate_from_heap then allocate_counted heap pool else ret NULL) (\<lambda>r. if r \<noteq> NULL then ret r
        else bindP (ld_pl pl_parent pool) (\<lambda>parent.
          if parent \<noteq> NULL then fiber_allocate heap (levels - 1) parent else ret r))))))))"

section \<open>Giving a fiber back\<close>

text \<open>Stage 2: at most \<open>b\<close> fibers are moved to the buffer.\<close>

fun grab_fibers :: "nat \<Rightarrow> ptr \<Rightarrow> 32 word \<Rightarrow> (fiber_memory, ptr list) prog" where
  "grab_fibers 0 pool num_to_keep = ret []"
| "grab_fibers (Suc b) pool num_to_keep = bindP (ld_pl pl_size pool) (\<lambda>n.
     if num_to_keep < n then bindP (pop_fiber pool) (\<lambda>f.
       bindP (grab_fibers b pool num_to_keep) (\<lambda>fs. ret (f # fs)))
     else ret [])"

text \<open>One round; on the right the loop is over. A fiber to return is 0 where the caller has none.\<close>

definition free_round :: "ptr \<Rightarrow> 32 word \<Rightarrow> ptr \<Rightarrow> (fiber_memory, unit + unit) prog" where
  "free_round pool num_to_keep fiber_to_return =
     bindP (lock_pool pool) (\<lambda>_.
     bindP (grab_fibers 10 pool num_to_keep) (\<lambda>fibers_to_free.
     bindP (decrement_pool_total pool (int (length fibers_to_free))) (\<lambda>_.
     bindP (ld_pl pl_size pool) (\<lambda>n. bindP (ld_pl pl_max_size pool) (\<lambda>max_size.
     result [
       whenP (n \<le> num_to_keep \<and> fiber_to_return \<noteq> NULL) (block [
         CILK_ASSERT ''pool->size < pool->max_size'' (n < max_size),
         push_fiber pool fiber_to_return]),
       unlock_pool pool,
       block (map deallocate_to_heap fibers_to_free)]
     (ret (if n \<le> num_to_keep then Inr () else Inl ())))))))"

text \<open>Every round but the last empties 10 places, so a round for each fiber and one more are enough.\<close>

definition cilk_fiber_pool_free_fibers_from_pool :: "ptr \<Rightarrow> 32 word \<Rightarrow> ptr \<Rightarrow> (fiber_memory, unit) prog" where
  "cilk_fiber_pool_free_fibers_from_pool pool num_to_keep fiber_to_return =
     bindP (ld_pl pl_size pool) (\<lambda>n. loopP (Suc (unat n)) (\<lambda>_. free_round pool num_to_keep fiber_to_return) ())"

text \<open>Moving fibers to the parent before, as the comment of the function says, is commented out.\<close>

definition deallocate_self :: "ptr \<Rightarrow> ptr \<Rightarrow> (fiber_memory, unit) prog" where
  "deallocate_self fiber pool = block [
     st_fiber fiber (fb_resumable_update (\<lambda>_. False)),
     CILK_ASSERT ''NULL != pool'' (pool \<noteq> NULL),
     bindP (ld_fiber fb_from_thread fiber) (\<lambda>b. CILK_ASSERT ''!this->is_allocated_from_thread()'' (\<not> b)),
     lock_pool pool,
     bindP (ld_pl pl_size pool) (\<lambda>n. bindP (ld_pl pl_max_size pool) (\<lambda>max_size.
       if n < max_size then block [push_fiber pool fiber, unlock_pool pool]
       else block [unlock_pool pool,
         cilk_fiber_pool_free_fibers_from_pool pool (max_size - 1) fiber]))]"

definition fiber_remove_reference :: "ptr \<Rightarrow> ptr \<Rightarrow> (fiber_memory, int) prog" where
  "fiber_remove_reference fiber pool =
     result [if pool \<noteq> NULL then deallocate_self fiber pool else deallocate_to_heap fiber] (ret 0)"

section \<open>Making and destroying pools\<close>

fun preallocate :: "heap \<Rightarrow> nat \<Rightarrow> ptr \<Rightarrow> (fiber_memory, unit) prog" where
  "preallocate heap 0 pool = ret ()"
| "preallocate heap (Suc n) pool = bindP (allocate_from_heap heap) (\<lambda>f.
     block [push_fiber pool f, preallocate heap n pool])"

text \<open>Three quarters of the places are filled, although the comment says a quarter.\<close>

definition cilk_fiber_pool_init ::
  "heap \<Rightarrow> ptr \<Rightarrow> ptr \<Rightarrow> nat \<Rightarrow> 32 word \<Rightarrow> int \<Rightarrow> bool \<Rightarrow> (fiber_memory, unit) prog"
where
  "cilk_fiber_pool_init heap pool parent stack_size buffer_size alloc_max is_shared = block [
     modify (\<lambda>s. s\<lparr>mem_pools := (mem_pools s)(pool \<mapsto>
       \<lparr>pl_lock = (if is_shared then Some \<lparr>sm_lock = 0\<rparr> else None), pl_stack_size = stack_size,
        pl_parent = parent, pl_fibers = replicate (unat buffer_size) NULL, pl_max_size = buffer_size,
        pl_size = 0, pl_total = 0, pl_high_water = 0, pl_alloc_max = alloc_max\<rparr>)\<rparr>),
     preallocate heap (unat (buffer_size div 2 + buffer_size div 4)) pool]"

definition cilk_fiber_pool_set_fiber_limit :: "ptr \<Rightarrow> int \<Rightarrow> (fiber_memory, unit) prog" where
  "cilk_fiber_pool_set_fiber_limit root_pool max_fibers = block [
     bindP (ld_pl pl_parent root_pool) (\<lambda>parent. CILK_ASSERT ''NULL == root_pool->parent'' (parent = NULL)),
     st_pl root_pool (pl_alloc_max_update (\<lambda>_. max_fibers))]"

fun move_fibers :: "nat \<Rightarrow> ptr \<Rightarrow> ptr \<Rightarrow> 32 word \<Rightarrow> (fiber_memory, unit) prog" where
  "move_fibers 0 pool parent num_to_keep = failP Diverges"
| "move_fibers (Suc n) pool parent num_to_keep =
     bindP (ld_pl (\<lambda>p. pl_size p < pl_max_size p) parent) (\<lambda>room. bindP (ld_pl pl_size pool) (\<lambda>size.
       whenP (room \<and> num_to_keep < size) (bindP (pop_fiber pool) (\<lambda>f. block [
         push_fiber parent f, move_fibers n pool parent num_to_keep]))))"

definition cilk_fiber_pool_move_fibers_to_parent_pool :: "ptr \<Rightarrow> 32 word \<Rightarrow> (fiber_memory, unit) prog" where
  "cilk_fiber_pool_move_fibers_to_parent_pool pool num_to_keep =
     bindP (ld_pl pl_parent pool) (\<lambda>parent.
     bindP (CILK_ASSERT ''pool->parent'' (parent \<noteq> NULL)) (\<lambda>_.
     bindP (ld_pl (\<lambda>p. pl_size p < pl_max_size p) parent) (\<lambda>room. whenP room (block [
       on_pool_lock parent spin_mutex_lock,
       bindP (ld_pl pl_size pool) (\<lambda>n. move_fibers (Suc (unat n)) pool parent num_to_keep),
       bindP (ld_pl pl_total pool) (\<lambda>total. whenP (total < 0) (block [
         st_pl parent (\<lambda>p. p\<lparr>pl_total := pl_total p + total\<rparr>),
         st_pl pool (pl_total_update (\<lambda>_. 0))])),
       on_pool_lock parent spin_mutex_unlock]))))"

definition cilk_fiber_pool_destroy :: "ptr \<Rightarrow> (fiber_memory, unit) prog" where
  "cilk_fiber_pool_destroy pool = block [
     lock_pool pool,
     bindP (ld_pl pl_parent pool) (\<lambda>parent.
       whenP (parent \<noteq> NULL) (cilk_fiber_pool_move_fibers_to_parent_pool pool 0)),
     unlock_pool pool,
     cilk_fiber_pool_free_fibers_from_pool pool 0 NULL,
     modify (\<lambda>s. s\<lparr>mem_pools := (mem_pools s)(pool := None)\<rparr>)]"

section \<open>What the pools hold\<close>

definition pool_contents :: "fiber_pool \<Rightarrow> ptr list" where
  "pool_contents pl = take (unat (pl_size pl)) (pl_fibers pl)"

definition pool_ok :: "fiber_pool \<Rightarrow> bool" where
  "pool_ok pl \<longleftrightarrow> length (pl_fibers pl) = unat (pl_max_size pl) \<and> pl_size pl \<le> pl_max_size pl"

text \<open>A live fiber that no thread came with.\<close>

definition pool_fiber :: "fiber_memory \<Rightarrow> ptr \<Rightarrow> bool" where
  "pool_fiber s f \<longleftrightarrow> (\<exists>fb. deref (mem_fibers s) f = Some fb \<and> \<not> fb_from_thread fb)"

text \<open>
  The invariant: pools hold live fibers, each of them once, and no fiber is in two pools.
\<close>

definition pools_inv :: "fiber_memory \<Rightarrow> bool" where
  "pools_inv s \<longleftrightarrow> 0 \<notin> dom (mem_fibers s) \<and> finite (dom (mem_fibers s))
   \<and> (\<forall>p pl. deref (mem_pools s) p = Some pl \<longrightarrow>
        pool_ok pl \<and> distinct (pool_contents pl) \<and> (\<forall>f \<in> set (pool_contents pl). pool_fiber s f))
   \<and> (\<forall>p pl q ql. deref (mem_pools s) p = Some pl \<longrightarrow> deref (mem_pools s) q = Some ql \<longrightarrow> p \<noteq> q \<longrightarrow>
        set (pool_contents pl) \<inter> set (pool_contents ql) = {})"

definition pooled :: "fiber_memory \<Rightarrow> ptr set" where
  "pooled s = {f. \<exists>p pl. deref (mem_pools s) p = Some pl \<and> f \<in> set (pool_contents pl)}"

lemma pooledI: "deref (mem_pools s) q = Some ql \<Longrightarrow> x \<in> set (pool_contents ql) \<Longrightarrow> x \<in> pooled s"
  by (auto simp: pooled_def)

text \<open>The fibers that somebody has: those alive and in no pool.\<close>

definition in_use :: "fiber_memory \<Rightarrow> ptr set" where
  "in_use s = {f. pool_fiber s f \<and> f \<notin> pooled s}"

text \<open>What no operation on fibers changes of the pools, and who holds their locks.\<close>

definition pool_frame :: "fiber_pool \<Rightarrow> ptr \<times> 32 word \<times> int \<times> nat" where
  "pool_frame pl = (pl_parent pl, pl_max_size pl, pl_alloc_max pl, pl_stack_size pl)"

definition frame_of :: "fiber_memory \<Rightarrow> ptr \<Rightarrow> (ptr \<times> 32 word \<times> int \<times> nat) option" where
  "frame_of s p = map_option pool_frame (deref (mem_pools s) p)"

definition locks_of :: "fiber_memory \<Rightarrow> ptr \<Rightarrow> spin_mutex option option" where
  "locks_of s p = map_option pl_lock (deref (mem_pools s) p)"

definition unlocked :: "fiber_memory \<Rightarrow> bool" where
  "unlocked s \<longleftrightarrow> (\<forall>p m. locks_of s p = Some (Some m) \<longrightarrow> sm_lock m = 0)"

lemma pools_invD:
  assumes "pools_inv s" and "deref (mem_pools s) p = Some pl"
  shows "pool_ok pl" "distinct (pool_contents pl)" "\<And>f. f \<in> set (pool_contents pl) \<Longrightarrow> pool_fiber s f"
    "\<And>q ql. deref (mem_pools s) q = Some ql \<Longrightarrow> p \<noteq> q \<Longrightarrow> set (pool_contents pl) \<inter> set (pool_contents ql) = {}"
  using assms unfolding pools_inv_def by blast+

lemma pool_fiber_nonnull: "pool_fiber s f \<Longrightarrow> f \<noteq> 0"
  by (auto simp: pool_fiber_def dest: deref_SomeD)

text \<open>A change of one pool that keeps the invariant.\<close>

lemma pools_inv_upd:
  assumes "pools_inv s" and "deref (mem_pools s) p = Some pl" and "pool_ok pl'" and "distinct (pool_contents pl')"
    and "\<And>f. f \<in> set (pool_contents pl') \<Longrightarrow> f \<in> set (pool_contents pl) \<or> f \<in> in_use s"
  shows "pools_inv (s\<lparr>mem_pools := (mem_pools s)(p \<mapsto> pl')\<rparr>)"
proof -
  have live: "pool_fiber s f" if "f \<in> set (pool_contents pl')" for f
    using assms(5) [OF that] pools_invD(3) [OF assms(1,2)] by (auto simp: in_use_def)
  have apart: "f \<notin> set (pool_contents ql)" if "f \<in> set (pool_contents pl')" "deref (mem_pools s) q = Some ql" "q \<noteq> p" for f q ql
    using assms(5) [OF that(1)] pools_invD(4) [OF assms(1,2) that(2)] that by (fastforce simp: in_use_def pooled_def)
  have "p \<noteq> 0" using assms(2) by (auto dest: deref_SomeD)
  then show ?thesis
    using assms(1,3,4) live apart
    unfolding pools_inv_def pool_fiber_def by (simp split: if_splits) blast
qed

lemma in_use_upd:
  assumes "pools_inv s" and "deref (mem_pools s) p = Some pl"
  shows "in_use (s\<lparr>mem_pools := (mem_pools s)(p \<mapsto> pl')\<rparr>) =
    in_use s \<union> set (pool_contents pl) - set (pool_contents pl')"
proof -
  have p: "p \<noteq> 0" using assms(2) by (auto dest: deref_SomeD)
  have other: "x \<in> pooled s - set (pool_contents pl) \<longleftrightarrow>
      (\<exists>q ql. q \<noteq> p \<and> deref (mem_pools s) q = Some ql \<and> x \<in> set (pool_contents ql))" for x
  proof
    assume "x \<in> pooled s - set (pool_contents pl)"
    then obtain q ql where "deref (mem_pools s) q = Some ql" "x \<in> set (pool_contents ql)" "x \<notin> set (pool_contents pl)"
      unfolding pooled_def by blast
    then show "\<exists>q ql. q \<noteq> p \<and> deref (mem_pools s) q = Some ql \<and> x \<in> set (pool_contents ql)"
      using assms(2) by (cases "q = p") auto
  next
    assume "\<exists>q ql. q \<noteq> p \<and> deref (mem_pools s) q = Some ql \<and> x \<in> set (pool_contents ql)"
    then show "x \<in> pooled s - set (pool_contents pl)"
      using pools_invD(4) [OF assms] unfolding pooled_def by blast
  qed
  have "pooled (s\<lparr>mem_pools := (mem_pools s)(p \<mapsto> pl')\<rparr>) =
      {x. x \<in> set (pool_contents pl') \<or>
        (\<exists>q ql. q \<noteq> p \<and> deref (mem_pools s) q = Some ql \<and> x \<in> set (pool_contents ql))}" (is "?l = ?r")
  proof (intro set_eqI iffI)
    fix x assume "x \<in> ?l"
    then obtain q ql where "deref ((mem_pools s)(p \<mapsto> pl')) q = Some ql" "x \<in> set (pool_contents ql)"
      unfolding pooled_def by auto
    then show "x \<in> ?r" using p by (cases "q = p") auto
  next
    fix x assume "x \<in> ?r"
    then consider "x \<in> set (pool_contents pl')"
      | q ql where "q \<noteq> p" "deref (mem_pools s) q = Some ql" "x \<in> set (pool_contents ql)" by auto
    then show "x \<in> ?l"
    proof cases
      case 1
      then show ?thesis using p by (intro pooledI [where q = p]) simp_all
    next
      case 2
      then show ?thesis by (intro pooledI [where q = q]) simp_all
    qed
  qed
  also have "\<dots> = pooled s - set (pool_contents pl) \<union> set (pool_contents pl')"
    using other by blast
  finally show ?thesis
    using pools_invD(3) [OF assms] by (auto simp: in_use_def pool_fiber_def)
qed

lemma contents_pop:
  assumes "pool_ok pl" and "0 < pl_size pl"
  shows "pool_contents (pl\<lparr>pl_size := pl_size pl - 1\<rparr>) = butlast (pool_contents pl)"
    and "unat (pl_size pl - 1) < length (pl_fibers pl)"
    and "pl_fibers pl ! unat (pl_size pl - 1) = last (pool_contents pl)" and "pool_contents pl \<noteq> []"
    and "pool_ok (pl\<lparr>pl_size := pl_size pl - 1\<rparr>)"
proof -
  have n: "0 < unat (pl_size pl)" "unat (pl_size pl) \<le> length (pl_fibers pl)"
      "unat (pl_size pl - 1) = unat (pl_size pl) - 1"
    using assms unat_minus_one [of "pl_size pl"] word_gt_0 [of "pl_size pl"]
    by (auto simp: pool_ok_def word_less_nat_alt word_le_nat_alt)
  then show "pool_contents (pl\<lparr>pl_size := pl_size pl - 1\<rparr>) = butlast (pool_contents pl)"
    and "unat (pl_size pl - 1) < length (pl_fibers pl)" and "pool_contents pl \<noteq> []"
    by (auto simp: pool_contents_def butlast_take)
  show "pl_fibers pl ! unat (pl_size pl - 1) = last (pool_contents pl)"
    using n unfolding pool_contents_def by (subst last_conv_nth) (auto simp: min_def)
  show "pool_ok (pl\<lparr>pl_size := pl_size pl - 1\<rparr>)"
    using assms(1) n unfolding pool_ok_def word_le_nat_alt by simp linarith
qed

lemma pool_contents_push:
  assumes "pool_ok pl" and "pl_size pl < pl_max_size pl"
  shows "pool_contents (pl\<lparr>pl_fibers := (pl_fibers pl)[unat (pl_size pl) := f], pl_size := pl_size pl + 1\<rparr>) =
      pool_contents pl @ [f]"
    and "unat (pl_size pl) < length (pl_fibers pl)"
    and "pool_ok (pl\<lparr>pl_fibers := (pl_fibers pl)[unat (pl_size pl) := f], pl_size := pl_size pl + 1\<rparr>)"
proof -
  have "unat (pl_size pl) < length (pl_fibers pl)"
    using assms by (auto simp: pool_ok_def word_less_nat_alt)
  moreover have m: "unat (pl_size pl) < unat (pl_max_size pl)" "unat (pl_max_size pl) < 2 ^ 32"
    using assms(2) unsigned_less [of "pl_max_size pl"] by (simp_all add: word_less_nat_alt)
  ultimately have n: "unat (pl_size pl) < length (pl_fibers pl)" "unat (pl_size pl + 1) = Suc (unat (pl_size pl))"
    by (simp_all add: unat_word_ariths)
  then show "unat (pl_size pl) < length (pl_fibers pl)" by simp
  show "pool_contents (pl\<lparr>pl_fibers := (pl_fibers pl)[unat (pl_size pl) := f], pl_size := pl_size pl + 1\<rparr>) =
      pool_contents pl @ [f]"
    using n by (simp add: pool_contents_def take_Suc_conv_app_nth)
  let ?ql = "pl\<lparr>pl_fibers := (pl_fibers pl)[unat (pl_size pl) := f], pl_size := pl_size pl + 1\<rparr>"
  have le: "pl_size pl + 1 \<le> pl_max_size pl" unfolding word_le_nat_alt n(2) using m(1) by (rule Suc_leI)
  have e: "length (pl_fibers ?ql) = length (pl_fibers pl)" "pl_size ?ql = pl_size pl + 1" "pl_max_size ?ql = pl_max_size pl"
    by simp_all
  show "pool_ok ?ql"
    unfolding pool_ok_def e using le assms(1) [unfolded pool_ok_def, THEN conjunct1] by (intro conjI)
qed

section \<open>Running the operations\<close>

lemma upd_same_pool: "deref (mem_pools s) p = Some pl \<Longrightarrow> s\<lparr>mem_pools := (mem_pools s)(p \<mapsto> pl)\<rparr> = s"
proof -
  assume "deref (mem_pools s) p = Some pl"
  then have "(mem_pools s)(p \<mapsto> pl) = mem_pools s" by (intro fun_upd_idem) (blast dest: deref_SomeD)
  then show ?thesis by simp
qed

abbreviation with_pool :: "fiber_memory \<Rightarrow> ptr \<Rightarrow> fiber_pool \<Rightarrow> fiber_memory" where
  "with_pool s p pl \<equiv> s\<lparr>mem_pools := (mem_pools s)(p \<mapsto> pl)\<rparr>"

definition locked :: "fiber_pool \<Rightarrow> fiber_pool" where
  "locked pl = pl\<lparr>pl_lock := map_option (\<lambda>_. \<lparr>sm_lock = 1\<rparr>) (pl_lock pl)\<rparr>"

definition lock_free :: "fiber_pool \<Rightarrow> bool" where
  "lock_free pl \<longleftrightarrow> (case pl_lock pl of None \<Rightarrow> True | Some m \<Rightarrow> sm_lock m = 0)"

lemma unlockedD: "unlocked s \<Longrightarrow> deref (mem_pools s) p = Some pl \<Longrightarrow> lock_free pl"
  by (auto simp: unlocked_def locks_of_def lock_free_def split: option.split)

lemma locked_simps [simp]:
  "pl_size (locked pl) = pl_size pl" "pl_fibers (locked pl) = pl_fibers pl" "pl_max_size (locked pl) = pl_max_size pl"
  "pl_parent (locked pl) = pl_parent pl" "pl_total (locked pl) = pl_total pl" "pl_high_water (locked pl) = pl_high_water pl"
  "pl_alloc_max (locked pl) = pl_alloc_max pl" "pl_stack_size (locked pl) = pl_stack_size pl"
  by (simp_all add: locked_def)

lemma spin_mutex_upd [simp]: "(m :: spin_mutex)\<lparr>sm_lock := x\<rparr> = \<lparr>sm_lock = x\<rparr>"
  by (cases m) simp

lemma run_lock_pool:
  "deref (mem_pools s) p = Some pl \<Longrightarrow> lock_free pl \<Longrightarrow> lock_pool p s = Inr ((), with_pool s p (locked pl))"
  by (auto simp: lock_pool_def on_pool_lock_def run lock_free_def locked_def spin_mutex_lock_def
      spin_mutex_trylock_def upd_same_pool split: option.splits)

text \<open>Unlocking a pool that was changed since it was locked gives it back its free lock.\<close>

lemma run_unlock_pool:
  assumes "deref (mem_pools s) p = Some ql" and "pl_lock ql = pl_lock (locked pl)" and "lock_free pl"
  shows "unlock_pool p s = Inr ((), with_pool s p (ql\<lparr>pl_lock := pl_lock pl\<rparr>))"
proof (cases "pl_lock pl")
  case None
  with assms have "ql\<lparr>pl_lock := pl_lock pl\<rparr> = ql" by (simp add: locked_def)
  with assms None show ?thesis by (simp add: unlock_pool_def run upd_same_pool locked_def)
next
  case (Some m)
  with assms(3) have "m = \<lparr>sm_lock = 0\<rparr>" by (simp add: lock_free_def)
  with Some assms show ?thesis
    by (simp add: unlock_pool_def on_pool_lock_def run locked_def spin_mutex_unlock_def)
qed

lemma run_pop_fiber:
  assumes "deref (mem_pools s) p = Some pl" and "pool_ok pl" and "0 < pl_size pl"
  shows "pop_fiber p s = Inr (last (pool_contents pl), with_pool s p (pl\<lparr>pl_size := pl_size pl - 1\<rparr>))"
  using assms contents_pop [OF assms(2,3)] deref_SomeD [OF assms(1)] by (simp add: pop_fiber_def run)

lemma run_push_fiber:
  assumes "deref (mem_pools s) p = Some pl" and "pool_ok pl" and "pl_size pl < pl_max_size pl"
  shows "push_fiber p f s = Inr ((), with_pool s p
    (pl\<lparr>pl_fibers := (pl_fibers pl)[unat (pl_size pl) := f], pl_size := pl_size pl + 1\<rparr>))"
  using assms pool_contents_push [OF assms(2,3)] deref_SomeD [OF assms(1)] by (simp add: push_fiber_def run)

lemma pool_ok_locked [simp]: "pool_ok (locked pl) = pool_ok pl" "pool_contents (locked pl) = pool_contents pl"
  by (simp_all add: pool_ok_def pool_contents_def)

lemma relock [simp]: "lock_free pl \<Longrightarrow> (locked pl)\<lparr>pl_lock := pl_lock pl\<rparr> = pl"
  by (simp add: locked_def)

text \<open>A change of one pool keeps what nobody changes when the pool itself keeps it.\<close>

lemma same_frame:
  "deref (mem_pools s) p = Some pl \<Longrightarrow> pool_frame ql = pool_frame pl \<Longrightarrow> frame_of (with_pool s p ql) = frame_of s"
  by (auto simp: frame_of_def fun_eq_iff dest: deref_SomeD)

lemma still_unlocked: "unlocked s \<Longrightarrow> lock_free ql \<Longrightarrow> unlocked (with_pool s p ql)"
  by (auto simp: unlocked_def locks_of_def lock_free_def split: option.splits)

definition counted :: "fiber_pool \<Rightarrow> fiber_pool" where
  "counted pl = (let q = pl\<lparr>pl_total := pl_total pl + 1\<rparr>
     in if pl_high_water q < pl_total q then q\<lparr>pl_high_water := pl_total q\<rparr> else q)"

lemma run_increment_pool_total:
  "deref (mem_pools s) p = Some pl \<Longrightarrow> increment_pool_total p s = Inr ((), with_pool s p (counted pl))"
  by (auto simp: increment_pool_total_def run counted_def dest: deref_SomeD)

lemma counted_simps [simp]:
  "pl_size (counted pl) = pl_size pl" "pl_fibers (counted pl) = pl_fibers pl" "pl_max_size (counted pl) = pl_max_size pl"
  "pl_parent (counted pl) = pl_parent pl" "pl_lock (counted pl) = pl_lock pl" "pool_ok (counted pl) = pool_ok pl"
  "pool_contents (counted pl) = pool_contents pl" "pool_frame (counted pl) = pool_frame pl"
  "lock_free (counted pl) = lock_free pl"
  by (simp_all add: counted_def Let_def pool_ok_def pool_contents_def pool_frame_def lock_free_def)

section \<open>Taking a fiber gives one that nobody has\<close>

text \<open>
  What the heap answers is NULL or an address at which no fiber lives. The chain of parents of a
  pool ends after at most \<open>n\<close> pools.
\<close>

definition heap_ok :: "heap \<Rightarrow> bool" where
  "heap_ok heap \<longleftrightarrow> (\<forall>n L. finite L \<longrightarrow> fst (heap n L) \<notin> L)"

primrec chain :: "nat \<Rightarrow> (ptr \<Rightarrow> (ptr \<times> 32 word \<times> int \<times> nat) option) \<Rightarrow> ptr \<Rightarrow> bool" where
  "chain 0 F p = False"
| "chain (Suc n) F p = (case F p of None \<Rightarrow> False | Some (parent, _) \<Rightarrow> parent = 0 \<or> chain n F parent)"

text \<open>A quiet memory: between the operations of the runtime no pool is locked.\<close>

definition quiet :: "fiber_memory \<Rightarrow> bool" where
  "quiet s \<longleftrightarrow> pools_inv s \<and> unlocked s"

definition took :: "fiber_memory \<Rightarrow> ptr \<Rightarrow> fiber_memory \<Rightarrow> bool" where
  "took s f t \<longleftrightarrow> quiet t \<and> frame_of t = frame_of s
     \<and> (if f = NULL then in_use t = in_use s else f \<notin> in_use s \<and> in_use t = insert f (in_use s))"

abbreviation out_of_stacks :: failure where
  "out_of_stacks \<equiv> Bug ''Cilk: out of memory for stacks''"

lemma chain_pool: "chain n (frame_of s) p \<Longrightarrow> \<exists>pl. deref (mem_pools s) p = Some pl"
  by (cases n) (auto simp: frame_of_def split: option.splits)

lemma in_use_apart: "deref (mem_pools s) p = Some pl \<Longrightarrow> in_use s \<inter> set (pool_contents pl) = {}"
  by (auto simp: in_use_def dest: pooledI)

lemma frame_of_pool: "deref (mem_pools s) p = Some pl \<Longrightarrow> frame_of s p = Some (pool_frame pl)"
  by (simp add: frame_of_def)

lemma frame_pool:
  assumes "frame_of t = frame_of s" and "deref (mem_pools s) p = Some pl"
  obtains ql where "deref (mem_pools t) p = Some ql" "pool_frame ql = pool_frame pl"
proof -
  have "frame_of t p = Some (pool_frame pl)" using assms by (simp add: frame_of_def)
  then show thesis using that by (auto simp: frame_of_def)
qed

text \<open>Taking the last fiber out of the array, whoever holds the lock.\<close>

definition same_locks :: "fiber_memory \<Rightarrow> fiber_memory \<Rightarrow> bool" where
  "same_locks s t \<longleftrightarrow> frame_of t = frame_of s \<and> locks_of t = locks_of s"

lemma same_locks_upd:
  "deref (mem_pools s) p = Some pl \<Longrightarrow> pool_frame ql = pool_frame pl \<Longrightarrow> pl_lock ql = pl_lock pl \<Longrightarrow>
   same_locks s (with_pool s p ql)"
  using same_frame [of s p pl ql] by (auto simp: same_locks_def locks_of_def fun_eq_iff dest: deref_SomeD)

lemma same_locks_quiet: "same_locks s t \<Longrightarrow> unlocked s \<Longrightarrow> unlocked t"
  by (simp add: same_locks_def unlocked_def)

lemma mem_pop_inv:
  assumes "pools_inv s" and "deref (mem_pools s) p = Some pl" and "0 < pl_size pl"
    and f: "f = last (pool_contents pl)" and t: "t = with_pool s p (pl\<lparr>pl_size := pl_size pl - 1\<rparr>)"
  shows "pools_inv t" and "in_use t = insert f (in_use s)" and "f \<notin> in_use s" and "f \<noteq> 0" and "same_locks s t"
proof -
  note pl = pools_invD [OF assms(1,2)]
  note pop = contents_pop [OF pl(1) assms(3)]
  let ?ql = "pl\<lparr>pl_size := pl_size pl - 1\<rparr>"
  obtain xs where xs: "pool_contents pl = xs @ [f]" using pop(4) f by (metis append_butlast_last_id)
  then have x: "f \<notin> set xs" "distinct xs" "pool_contents ?ql = xs" using pl(2) pop(1) by auto
  show "pools_inv t"
    unfolding t by (rule pools_inv_upd [OF assms(1,2) pop(5)]) (use x xs in auto)
  show "in_use t = insert f (in_use s)"
    using in_use_upd [OF assms(1,2), of ?ql] x xs in_use_apart [OF assms(2)] unfolding t by auto
  show "f \<notin> in_use s" using in_use_apart [OF assms(2)] xs by auto
  show "f \<noteq> 0" using pl(3) [of f] xs pool_fiber_nonnull by auto
  show "same_locks s t" unfolding t by (rule same_locks_upd [OF assms(2)]) (simp_all add: pool_frame_def)
qed

lemma popped:
  assumes "quiet s" and "deref (mem_pools s) p = Some pl" and "0 < pl_size pl"
  shows "took s (last (pool_contents pl)) (with_pool s p (pl\<lparr>pl_size := pl_size pl - 1\<rparr>))"
    and "last (pool_contents pl) \<noteq> 0"
proof -
  have inv: "pools_inv s" "unlocked s" using assms(1) by (simp_all add: quiet_def)
  note pop = mem_pop_inv [OF inv(1) assms(2,3) refl refl]
  show "last (pool_contents pl) \<noteq> 0" by (rule pop(4))
  then show "took s (last (pool_contents pl)) (with_pool s p (pl\<lparr>pl_size := pl_size pl - 1\<rparr>))"
    using pop same_locks_quiet [OF pop(5) inv(2)] by (simp add: took_def quiet_def same_locks_def)
qed

text \<open>A fiber from the heap.\<close>

lemma heap_answers:
  assumes "quiet s" and "heap_ok heap"
  shows "allocate_from_heap heap s = Inl out_of_stacks
    \<or> (\<exists>f t. allocate_from_heap heap s = Inr (f, t) \<and> took s f t \<and> mem_pools t = mem_pools s)"
proof -
  obtain f mapped where a: "heap (mem_calls s) (dom (mem_fibers s)) = (f, mapped)" by fastforce
  have inv: "pools_inv s" "unlocked s" using assms(1) by (simp_all add: quiet_def)
  then have "finite (dom (mem_fibers s))" by (simp add: pools_inv_def)
  with a have f: "f \<notin> dom (mem_fibers s)" using assms(2) by (metis fst_conv heap_ok_def)
  have calls: "pools_inv (s\<lparr>mem_calls := n\<rparr>) = pools_inv s" "in_use (s\<lparr>mem_calls := n\<rparr>) = in_use s"
      "unlocked (s\<lparr>mem_calls := n\<rparr>) = unlocked s" "frame_of (s\<lparr>mem_calls := n\<rparr>) = frame_of s" for n
    by (simp_all add: pools_inv_def pool_fiber_def in_use_def pooled_def unlocked_def locks_of_def frame_of_def fun_eq_iff)
  let ?t = "s\<lparr>mem_calls := Suc (mem_calls s), mem_fibers := (mem_fibers s)(f \<mapsto> fresh_fiber)\<rparr>"
  show ?thesis
  proof (cases "f = 0 \<or> \<not> mapped")
    case True
    then show ?thesis
      using a inv by (auto simp: allocate_from_heap_def malloc_fiber_def run took_def quiet_def calls)
  next
    case False
    have old: "g \<noteq> f" if "pool_fiber s g" for g
      using that f by (auto simp: pool_fiber_def dest: deref_SomeD)
    have live: "pool_fiber ?t g \<longleftrightarrow> g = f \<or> pool_fiber s g" for g
      using False old by (auto simp: pool_fiber_def fresh_fiber_def)
    have pooled: "pooled ?t = pooled s" by (simp add: pooled_def)
    have "pooled s \<subseteq> {g. pool_fiber s g}" using pools_invD(3) [OF inv(1)] by (auto simp: pooled_def)
    then have "f \<notin> pooled s" "f \<notin> in_use s" using old by (auto simp: in_use_def)
    moreover from this have "in_use ?t = insert f (in_use s)" by (auto simp: in_use_def live pooled)
    moreover have "pools_inv ?t"
      using inv(1) False unfolding pools_inv_def by (simp add: live)
    moreover have "unlocked ?t" "frame_of ?t = frame_of s"
      using inv(2) by (simp_all add: unlocked_def locks_of_def frame_of_def fun_eq_iff)
    moreover have "allocate_from_heap heap s = Inr (f, ?t)"
      using a False by (simp add: allocate_from_heap_def malloc_fiber_def run)
    ultimately show ?thesis using False by (auto simp: took_def quiet_def)
  qed
qed

text \<open>Counting up and down changes nothing that matters here.\<close>

lemma counts:
  assumes "quiet s" and "deref (mem_pools s) p = Some pl" and "pool_contents ql = pool_contents pl"
    and "pool_ok ql = pool_ok pl" and "pool_frame ql = pool_frame pl" and "lock_free ql = lock_free pl"
  shows "took s 0 (with_pool s p ql)"
proof -
  have inv: "pools_inv s" "unlocked s" using assms(1) by (simp_all add: quiet_def)
  note pl = pools_invD [OF inv(1) assms(2)]
  have "pools_inv (with_pool s p ql)"
    by (rule pools_inv_upd [OF inv(1) assms(2)]) (use assms pl in auto)
  moreover have "in_use (with_pool s p ql) = in_use s"
    using in_use_upd [OF inv(1) assms(2), of ql] in_use_apart [OF assms(2)] assms(3) by auto
  ultimately show ?thesis
    using still_unlocked [OF inv(2), of ql p] unlockedD [OF inv(2) assms(2)] assms same_frame [OF assms(2), of ql]
    by (simp add: took_def quiet_def)
qed

lemma took_trans: "took s 0 t \<Longrightarrow> took t f u \<Longrightarrow> took s f u"
  by (auto simp: took_def split: if_splits)

lemma counted_allocation:
  assumes "quiet s" and "heap_ok heap" and "deref (mem_pools s) p = Some pl"
  shows "allocate_counted heap p s = Inl out_of_stacks
    \<or> (\<exists>f t. allocate_counted heap p s = Inr (f, t) \<and> took s f t)"
  using heap_answers [OF assms(1,2)]
proof (elim disjE exE conjE)
  fix f t assume t: "allocate_from_heap heap s = Inr (f, t)" "took s f t" "mem_pools t = mem_pools s"
  show ?thesis
  proof (cases "f = 0")
    case True
    have q: "quiet t" and pl: "deref (mem_pools t) p = Some pl" "lock_free pl"
      using t(2,3) assms(3) unlockedD by (auto simp: took_def quiet_def)
    let ?ql = "pl\<lparr>pl_total := pl_total pl - 1\<rparr>"
    have "allocate_counted heap p s = Inr (0, with_pool t p ?ql)"
      using t(1) True pl run_lock_pool [OF pl] deref_SomeD [OF pl(1)]
        run_unlock_pool [of "with_pool t p ((locked pl)\<lparr>pl_total := pl_total pl - 1\<rparr>)" p
          "(locked pl)\<lparr>pl_total := pl_total pl - 1\<rparr>" pl]
      by (simp add: allocate_counted_def decrement_pool_total_def run locked_def)
    moreover have "took t 0 (with_pool t p ?ql)"
      by (rule counts [OF q pl(1)]) (simp_all add: pool_contents_def pool_ok_def pool_frame_def lock_free_def)
    ultimately show ?thesis using took_trans t(2) True by auto
  qed (use t in \<open>simp add: allocate_counted_def run\<close>)
qed (simp add: allocate_counted_def run)

text \<open>The beginning of \<open>allocate\<close>, under the lock of the pool: a fiber of the pool, or a higher count.\<close>

declare fiber_allocate.simps(2) [simp del]

lemma run_fiber_allocate:
  assumes "quiet s" and "deref (mem_pools s) p = Some pl"
  shows "fiber_allocate heap (Suc n) p s =
    (if 0 < pl_size pl then Inr (last (pool_contents pl), with_pool s p (pl\<lparr>pl_size := pl_size pl - 1\<rparr>))
     else bindP (allocate_counted heap p) (\<lambda>r. if r \<noteq> NULL then ret r
       else bindP (ld_pl pl_parent p) (\<lambda>parent.
         if parent \<noteq> NULL then fiber_allocate heap n parent else ret r)) (with_pool s p (counted pl)))"
proof -
  have inv: "pools_inv s" "lock_free pl" using assms unlockedD by (auto simp: quiet_def)
  have p: "p \<noteq> 0" using assms(2) by (auto dest: deref_SomeD)
  have ok: "pool_ok pl" using pools_invD(1) [OF inv(1) assms(2)] .
  show ?thesis
  proof (cases "0 < pl_size pl")
    case True
    have "pop_fiber p (with_pool s p (locked pl)) =
        Inr (last (pool_contents pl), with_pool s p ((locked pl)\<lparr>pl_size := pl_size pl - 1\<rparr>))"
      using run_pop_fiber [of "with_pool s p (locked pl)" p "locked pl"] True ok p by simp
    moreover have "unlock_pool p (with_pool s p ((locked pl)\<lparr>pl_size := pl_size pl - 1\<rparr>)) =
        Inr ((), with_pool s p (pl\<lparr>pl_size := pl_size pl - 1\<rparr>))"
      using run_unlock_pool [of "with_pool s p ((locked pl)\<lparr>pl_size := pl_size pl - 1\<rparr>)" p
          "(locked pl)\<lparr>pl_size := pl_size pl - 1\<rparr>" pl] p inv(2)
      by (simp add: locked_def)
    ultimately show ?thesis
      using run_lock_pool [OF assms(2) inv(2)] popped(2) [OF assms True] p True by (simp add: fiber_allocate.simps(2) run)
  next
    case False
    have "increment_pool_total p (with_pool s p (locked pl)) = Inr ((), with_pool s p (counted (locked pl)))"
      using run_increment_pool_total [of "with_pool s p (locked pl)" p "locked pl"] p by simp
    moreover have "unlock_pool p (with_pool s p (counted (locked pl))) = Inr ((), with_pool s p (counted pl))"
      using run_unlock_pool [of "with_pool s p (counted (locked pl))" p "counted (locked pl)" pl] p inv(2)
      by (simp add: locked_def counted_def Let_def)
    ultimately show ?thesis
      using run_lock_pool [OF assms(2) inv(2)] p False by (simp add: fiber_allocate.simps(2) run)
  qed
qed

lemma allocate_takes:
  assumes "heap_ok heap" and "quiet s" and "chain n (frame_of s) p"
  shows "fiber_allocate heap n p s = Inl out_of_stacks \<or> (\<exists>f t. fiber_allocate heap n p s = Inr (f, t) \<and> took s f t)"
  using assms(2,3)
proof (induction n arbitrary: p s)
  case (Suc n)
  obtain pl where pl: "deref (mem_pools s) p = Some pl" using chain_pool [OF Suc.prems(2)] by blast
  show ?case
  proof (cases "0 < pl_size pl")
    case True
    with popped(1) [OF Suc.prems(1) pl] show ?thesis by (auto simp: run_fiber_allocate [OF Suc.prems(1) pl])
  next
    case False
    let ?u = "with_pool s p (counted pl)"
    have u: "took s 0 ?u" by (rule counts [OF Suc.prems(1) pl]) simp_all
    then have "quiet ?u" by (simp add: took_def)
    have "deref (mem_pools ?u) p = Some (counted pl)" using deref_SomeD [OF pl] by simp
    from counted_allocation [OF \<open>quiet ?u\<close> assms(1) this] show ?thesis
    proof (elim disjE exE conjE)
      fix f t assume t: "allocate_counted heap p ?u = Inr (f, t)" "took ?u f t"
      have "quiet t" "frame_of t = frame_of s" using u t(2) by (auto simp: took_def)
      then obtain ql where ql: "deref (mem_pools t) p = Some ql" "pl_parent ql = pl_parent pl"
        using frame_pool [OF \<open>frame_of t = frame_of s\<close> pl] by (metis pool_frame_def prod.inject)
      show ?thesis
      proof (cases "f = 0 \<and> pl_parent pl \<noteq> 0")
        case True
        then have "chain n (frame_of t) (pl_parent pl)"
          using Suc.prems(2) frame_of_pool [OF pl] \<open>frame_of t = frame_of s\<close> by (simp add: pool_frame_def)
        from Suc.IH [OF \<open>quiet t\<close> this] show ?thesis
          using True False t ql took_trans [OF u] took_trans [of ?u t]
          by (auto simp: run_fiber_allocate [OF Suc.prems(1) pl] run)
      next
        case False
        then show ?thesis
          using \<open>\<not> 0 < pl_size pl\<close> t ql took_trans [OF u t(2)]
          by (auto simp: run_fiber_allocate [OF Suc.prems(1) pl] run)
      qed
    qed (use False in \<open>simp add: run_fiber_allocate [OF Suc.prems(1) pl] run\<close>)
  qed
qed simp

section \<open>Giving a fiber back\<close>

definition gave :: "fiber_memory \<Rightarrow> ptr set \<Rightarrow> fiber_memory \<Rightarrow> bool" where
  "gave s F t \<longleftrightarrow> quiet t \<and> frame_of t = frame_of s \<and> in_use t = in_use s - F"

text \<open>Fibers that are in no pool go back to the heap.\<close>

lemma run_deallocate_all:
  "set fs \<subseteq> in_use s \<Longrightarrow> distinct fs \<Longrightarrow>
   block (map deallocate_to_heap fs) s = Inr ((), s\<lparr>mem_fibers := mem_fibers s |` (- set fs)\<rparr>)"
proof (induction fs arbitrary: s)
  case Nil
  have "mem_fibers s |` UNIV = mem_fibers s" by (simp add: restrict_map_def)
  then show ?case by (simp add: run)
next
  case (Cons f fs)
  let ?t = "s\<lparr>mem_fibers := (mem_fibers s)(f := None)\<rparr>"
  have "set fs \<subseteq> in_use ?t"
    using Cons.prems by (auto simp: in_use_def pool_fiber_def pooled_def)
  moreover obtain fb where "deref (mem_fibers s) f = Some fb"
    using Cons.prems(1) by (auto simp: in_use_def pool_fiber_def)
  moreover have "(mem_fibers s)(f := None) |` (- set fs) = mem_fibers s |` (- set (f # fs))"
    by (auto simp: restrict_map_def fun_eq_iff)
  ultimately show ?case
    using Cons.IH [of ?t] Cons.prems(2) by (simp add: run deallocate_to_heap_def)
qed

lemma to_heap:
  assumes "quiet s" and "F \<subseteq> in_use s"
  shows "gave s F (s\<lparr>mem_fibers := mem_fibers s |` (- F)\<rparr>)"
proof -
  let ?t = "s\<lparr>mem_fibers := mem_fibers s |` (- F)\<rparr>"
  have live: "pool_fiber ?t f \<longleftrightarrow> pool_fiber s f \<and> f \<notin> F" for f
    by (auto simp: pool_fiber_def deref_def restrict_map_def)
  have pooled: "pooled ?t = pooled s" by (simp add: pooled_def)
  have "F \<inter> pooled s = {}" using assms(2) by (auto simp: in_use_def)
  then have "pools_inv ?t"
    using assms(1) unfolding quiet_def pools_inv_def by (auto simp: live dest: pooledI)
  then show ?thesis
    using assms(1)
    by (auto simp: gave_def quiet_def unlocked_def locks_of_def frame_of_def in_use_def live pooled)
qed

lemma gave_trans: "gave s F t \<Longrightarrow> gave t G u \<Longrightarrow> gave s (F \<union> G) u"
  by (auto simp: gave_def)

text \<open>\<open>k\<close> fibers from the end of the array.\<close>

definition shrunk :: "nat \<Rightarrow> fiber_pool \<Rightarrow> fiber_pool" where
  "shrunk k pl = pl\<lparr>pl_size := of_nat (unat (pl_size pl) - k)\<rparr>"

definition last_fibers :: "nat \<Rightarrow> fiber_pool \<Rightarrow> ptr list" where
  "last_fibers k pl = rev (drop (length (pool_contents pl) - k) (pool_contents pl))"

lemma length_contents: "pool_ok pl \<Longrightarrow> length (pool_contents pl) = unat (pl_size pl)"
  by (simp add: pool_contents_def pool_ok_def word_le_nat_alt)

lemma unat_of_size: "unat (of_nat (unat (x :: 32 word) - k) :: 32 word) = unat x - k"
proof -
  have "unat x < 2 ^ 32" using unsigned_less [of x] by simp
  then have "unat x - k < 2 ^ 32" by linarith
  then show ?thesis by (simp add: unsigned_of_nat take_bit_nat_eq_self)
qed

lemma shrunk_contents: "pool_contents (shrunk k pl) = take (unat (pl_size pl) - k) (pl_fibers pl)"
  by (simp add: shrunk_def pool_contents_def unat_of_size)

lemma shrunk_simps [simp]:
  "pl_max_size (shrunk k pl) = pl_max_size pl" "pl_fibers (shrunk k pl) = pl_fibers pl"
  "pl_lock (shrunk k pl) = pl_lock pl" "unat (pl_size (shrunk k pl)) = unat (pl_size pl) - k"
  "pl_parent (shrunk k pl) = pl_parent pl" "shrunk 0 pl = pl"
  by (simp_all add: shrunk_def unat_of_size)

lemma shrunk_ok: "pool_ok pl \<Longrightarrow> pool_ok (shrunk k pl)"
  by (auto simp: pool_ok_def word_le_nat_alt)

lemma run_grab_fibers:
  "deref (mem_pools s) p = Some pl \<Longrightarrow> pool_ok pl \<Longrightarrow> k = min b (unat (pl_size pl) - unat keep) \<Longrightarrow>
   grab_fibers b p keep s = Inr (last_fibers k pl, with_pool s p (shrunk k pl))"
proof (induction b arbitrary: s pl k)
  case 0
  then show ?case by (simp add: run last_fibers_def upd_same_pool)
next
  case (Suc b)
  show ?case
  proof (cases "keep < pl_size pl")
    case True
    then have size: "0 < pl_size pl" "unat keep < unat (pl_size pl)"
      by (auto simp: word_less_nat_alt intro: le_less_trans)
    let ?ql = "pl\<lparr>pl_size := pl_size pl - 1\<rparr>"
    note pop = contents_pop [OF Suc.prems(2) size(1)]
    have n: "unat (pl_size ?ql) = unat (pl_size pl) - 1" using size unat_minus_one [of "pl_size pl"] by (cases "pl_size pl = 0") auto
    obtain j where j: "k = Suc j" "j = min b (unat (pl_size ?ql) - unat keep)"
      using Suc.prems(3) size(2) n by (cases k) auto
    have p: "p \<noteq> 0" using Suc.prems(1) by (auto dest: deref_SomeD)
    have "grab_fibers b p keep (with_pool s p ?ql) = Inr (last_fibers j ?ql, with_pool s p (shrunk j ?ql))"
      using Suc.IH [of "with_pool s p ?ql" ?ql j] p pop(5) j(2) by simp
    moreover have "shrunk j ?ql = shrunk k pl" using n j(1) by (simp add: shrunk_def)
    moreover have "last_fibers k pl = last (pool_contents pl) # last_fibers j ?ql"
    proof -
      obtain xs x where xs: "pool_contents pl = xs @ [x]" using pop(4) by (metis rev_exhaust)
      then show ?thesis using pop(1) j(1) by (simp add: last_fibers_def)
    qed
    ultimately show ?thesis
      using Suc.prems(1) True run_pop_fiber [OF Suc.prems(1,2) size(1)] by (simp add: run)
  next
    case False
    then have "k = 0" using Suc.prems(3) by (simp add: word_less_nat_alt)
    with False Suc.prems(1) show ?thesis by (simp add: run last_fibers_def upd_same_pool)
  qed
qed

definition pushed :: "ptr \<Rightarrow> fiber_pool \<Rightarrow> fiber_pool" where
  "pushed f pl = pl\<lparr>pl_fibers := (pl_fibers pl)[unat (pl_size pl) := f], pl_size := pl_size pl + 1\<rparr>"

text \<open>What a round leaves in the pool: \<open>k\<close> fibers less, and the fiber that is returned.\<close>

definition after_round :: "nat \<Rightarrow> 32 word \<Rightarrow> ptr \<Rightarrow> fiber_pool \<Rightarrow> fiber_pool" where
  "after_round k keep f pl = (let ql = (shrunk k pl)\<lparr>pl_total := pl_total pl - int (length (last_fibers k pl))\<rparr>
     in if pl_size ql \<le> keep \<and> f \<noteq> 0 then pushed f ql else ql)"

lemma shrunk_locked: "shrunk k (locked pl) = locked (shrunk k pl)" "last_fibers k (locked pl) = last_fibers k pl"
  by (simp_all add: shrunk_def locked_def last_fibers_def pool_contents_def)

lemma run_free_round:
  assumes "deref (mem_pools s) p = Some pl" and "pool_ok pl" and "lock_free pl"
    and k: "k = min 10 (unat (pl_size pl) - unat keep)"
    and "f = 0 \<or> keep < pl_max_size pl"
  shows "free_round p keep f s = bindP (block (map deallocate_to_heap (last_fibers k pl)))
    (\<lambda>_. ret (if unat (pl_size pl) - k \<le> unat keep then Inr () else Inl ())) (with_pool s p (after_round k keep f pl))"
proof -
  have p: "p \<noteq> 0" using assms(1) by (auto dest: deref_SomeD)
  let ?ql = "(locked (shrunk k pl))\<lparr>pl_total := pl_total pl - int (length (last_fibers k pl))\<rparr>"
  have grab: "grab_fibers 10 p keep (with_pool s p (locked pl)) =
      Inr (last_fibers k pl, with_pool s p (locked (shrunk k pl)))"
    using run_grab_fibers [of "with_pool s p (locked pl)" p "locked pl" k 10 keep] p assms(2) k
    by (simp add: shrunk_locked)
  have size: "pl_size ?ql \<le> keep \<longleftrightarrow> unat (pl_size pl) - k \<le> unat keep"
    by (simp add: word_le_nat_alt)
  have room: "pl_size ?ql < pl_max_size pl" if "pl_size ?ql \<le> keep" "f \<noteq> 0"
    using that assms(5) by (auto intro: le_less_trans)
  have ok: "pool_ok ?ql" using shrunk_ok [OF assms(2), of k] by (simp add: pool_ok_def)
  let ?rl = "if pl_size ?ql \<le> keep \<and> f \<noteq> 0 then pushed f ?ql else ?ql"
  have push: "whenP (pl_size ?ql \<le> keep \<and> f \<noteq> 0) (block [
        CILK_ASSERT ''pool->size < pool->max_size'' (pl_size ?ql < pl_max_size pl), push_fiber p f]) (with_pool s p ?ql) =
      Inr ((), with_pool s p ?rl)"
    using room run_push_fiber [of "with_pool s p ?ql" p ?ql f] ok p by (auto simp: run pushed_def)
  have "pl_lock ?rl = pl_lock (locked pl)" by (simp add: pushed_def locked_def)
  from run_unlock_pool [of "with_pool s p ?rl" p ?rl, OF _ this assms(3)]
  have unlock: "unlock_pool p (with_pool s p ?rl) = Inr ((), with_pool s p (?rl\<lparr>pl_lock := pl_lock pl\<rparr>))" using p by simp
  have "?rl\<lparr>pl_lock := pl_lock pl\<rparr> = after_round k keep f pl"
    by (simp add: after_round_def Let_def pushed_def locked_def shrunk_def)
  with unlock have unlock: "unlock_pool p (with_pool s p ?rl) = Inr ((), with_pool s p (after_round k keep f pl))"
    by simp
  have total: "pl_total (shrunk k pl) = pl_total pl" by (simp add: shrunk_def)
  note facts = run_lock_pool [OF assms(1,3)] grab size p total
  consider "unat (pl_size pl) - k \<le> unat keep" "f \<noteq> 0" | "unat (pl_size pl) - k \<le> unat keep" "f = 0"
    | "\<not> unat (pl_size pl) - k \<le> unat keep" by blast
  then show ?thesis
  proof cases
    case 1
    then show ?thesis
      using facts push unlock room by (simp add: free_round_def decrement_pool_total_def run split: sum.splits)
  next
    case 2
    then show ?thesis
      using facts unlock by (simp add: free_round_def decrement_pool_total_def run split: sum.splits)
  next
    case 3
    then show ?thesis
      using facts unlock by (simp add: free_round_def decrement_pool_total_def run split: sum.splits)
  qed
qed

text \<open>The effect of a round on who has which fiber; the fibers from the end of the array are still alive.\<close>

lemma after_round:
  assumes "quiet s" and "deref (mem_pools s) p = Some pl" and k: "k = min 10 (unat (pl_size pl) - unat keep)"
    and f: "f = 0 \<or> f \<in> in_use s \<and> keep < pl_max_size pl"
    and F: "F = (if unat (pl_size pl) - k \<le> unat keep then {f} else {})"
    and m: "m = with_pool s p (after_round k keep f pl)"
  shows "quiet m \<and> frame_of m = frame_of s"
    and "in_use m = in_use s \<union> set (last_fibers k pl) - F"
    and "distinct (last_fibers k pl)" and "set (last_fibers k pl) \<subseteq> in_use m"
    and "unat (pl_size (after_round k keep f pl)) =
       unat (pl_size pl) - k + (if unat (pl_size pl) - k \<le> unat keep \<and> f \<noteq> 0 then 1 else 0)"
proof -
  have inv: "pools_inv s" "unlocked s" using assms(1) by (simp_all add: quiet_def)
  note pl = pools_invD [OF inv(1) assms(2)]
  obtain n where n: "n = unat (pl_size pl) - k" by simp
  let ?pl = "(shrunk k pl)\<lparr>pl_total := pl_total pl - int (length (last_fibers k pl))\<rparr>"
  have len: "length (pool_contents pl) = unat (pl_size pl)" using length_contents [OF pl(1)] .
  have front: "pool_contents ?pl = take n (pool_contents pl)"
    using pl(1) by (simp add: pool_contents_def shrunk_def unat_of_size n min_def)
  have gone: "set (last_fibers k pl) = set (drop n (pool_contents pl))"
    by (simp add: last_fibers_def len n)
  have ok: "pool_ok ?pl" using shrunk_ok [OF pl(1), of k] by (simp add: pool_ok_def)
  have small: "pl_size ?pl \<le> keep \<longleftrightarrow> n \<le> unat keep" by (simp add: word_le_nat_alt n)
  have room: "pl_size ?pl < pl_max_size ?pl" if "n \<le> unat keep" "f \<noteq> 0"
    using that f small by (auto intro: le_less_trans)
  have parts: "set (take n (pool_contents pl)) \<union> set (drop n (pool_contents pl)) = set (pool_contents pl)"
      "set (take n (pool_contents pl)) \<inter> set (drop n (pool_contents pl)) = {}"
      "distinct (take n (pool_contents pl))" "distinct (drop n (pool_contents pl))"
    using pl(2) by (metis set_append append_take_drop_id) (use pl(2) set_take_disj_set_drop_if_distinct in auto)
  then show d: "distinct (last_fibers k pl)" by (simp add: last_fibers_def len n)
  have apart: "in_use s \<inter> set (pool_contents pl) = {}" by (rule in_use_apart [OF assms(2)])
  have zero: "0 \<notin> in_use s" "0 \<notin> set (pool_contents pl)"
    using pl(3) pool_fiber_nonnull by (auto simp: in_use_def)
  let ?fs = "if n \<le> unat keep \<and> f \<noteq> 0 then [f] else []"
  have contents: "pool_contents (after_round k keep f pl) = take n (pool_contents pl) @ ?fs"
      and ok': "pool_ok (after_round k keep f pl)"
    using front small pool_contents_push(1,3) [OF ok room] ok
    by (auto simp: after_round_def Let_def pushed_def)
  have fs: "set ?fs = F - {0}" using F n by auto
  have "F - {0} \<subseteq> in_use s" using f F by auto
  then have "(F - {0}) \<inter> set (take n (pool_contents pl)) = {}"
    using apart set_take_subset [of n "pool_contents pl"] by blast
  then have held: "set (pool_contents (after_round k keep f pl)) = set (take n (pool_contents pl)) \<union> (F - {0})"
      "distinct (pool_contents (after_round k keep f pl))"
    using contents fs parts(3) by (auto split: if_splits)
  have inv': "pools_inv m"
    unfolding m using held(2)
    by (rule pools_inv_upd [OF inv(1) assms(2) ok'])
      (use held(1) \<open>F - {0} \<subseteq> in_use s\<close> set_take_subset [of n "pool_contents pl"] in blast)
  have used: "in_use m = in_use s \<union> set (pool_contents pl) - (set (take n (pool_contents pl)) \<union> (F - {0}))"
    unfolding m using in_use_upd [OF inv(1) assms(2), of "after_round k keep f pl"] held(1) by simp
  show "in_use m = in_use s \<union> set (last_fibers k pl) - F"
    unfolding used gone using parts(1,2) apart zero \<open>F - {0} \<subseteq> in_use s\<close> by blast
  show "set (last_fibers k pl) \<subseteq> in_use m"
    unfolding used gone using parts(1,2) apart \<open>F - {0} \<subseteq> in_use s\<close> by blast
  show "quiet m \<and> frame_of m = frame_of s"
    using inv' still_unlocked [OF inv(2), of "after_round k keep f pl" p] unlockedD [OF inv(2) assms(2)]
      same_frame [OF assms(2), of "after_round k keep f pl"]
    by (simp add: quiet_def m after_round_def Let_def pushed_def pool_frame_def shrunk_def lock_free_def)
  show "unat (pl_size (after_round k keep f pl)) =
       unat (pl_size pl) - k + (if unat (pl_size pl) - k \<le> unat keep \<and> f \<noteq> 0 then 1 else 0)"
    using length_contents [OF ok'] contents len n by (auto split: if_splits)
qed

lemma free_round_gives:
  assumes "quiet s" and "deref (mem_pools s) p = Some pl" and "f = 0 \<or> f \<in> in_use s \<and> keep < pl_max_size pl"
  shows "(\<exists>t ql. free_round p keep f s = Inr (Inl (), t) \<and> gave s {} t
        \<and> deref (mem_pools t) p = Some ql \<and> unat (pl_size ql) < unat (pl_size pl))
     \<or> (\<exists>t ql. free_round p keep f s = Inr (Inr (), t) \<and> gave s {f} t
        \<and> deref (mem_pools t) p = Some ql \<and> unat (pl_size ql) \<le> unat keep + (if f = 0 then 0 else 1))"
proof -
  have inv: "pools_inv s" "unlocked s" using assms(1) by (simp_all add: quiet_def)
  have p: "p \<noteq> 0" using assms(2) by (auto dest: deref_SomeD)
  obtain k F m where k: "k = min 10 (unat (pl_size pl) - unat keep)"
    and F: "F = (if unat (pl_size pl) - k \<le> unat keep then {f} else {})"
    and m: "m = with_pool s p (after_round k keep f pl)" by blast
  note r = after_round [OF assms(1,2) k assms(3) F m]
  let ?t = "m\<lparr>mem_fibers := mem_fibers m |` (- set (last_fibers k pl))\<rparr>"
  have t: "gave m (set (last_fibers k pl)) ?t" using to_heap r(1,4) by blast
  have "free_round p keep f s = Inr (if unat (pl_size pl) - k \<le> unat keep then Inr () else Inl (), ?t)"
    using run_free_round [OF assms(2) pools_invD(1) [OF inv(1) assms(2)] unlockedD [OF inv(2) assms(2)] k, of f]
      assms(3) run_deallocate_all [OF r(4,3)] by (auto simp: run m)
  moreover have "in_use s \<inter> set (last_fibers k pl) = {}"
    using in_use_apart [OF assms(2)] by (auto simp: last_fibers_def dest: in_set_dropD)
  then have "gave s F ?t" using t r(1,2) by (auto simp: gave_def)
  moreover have "deref (mem_pools ?t) p = Some (after_round k keep f pl)" using p by (simp add: m)
  moreover have "0 < k" if "\<not> unat (pl_size pl) - k \<le> unat keep" using that k by simp
  ultimately show ?thesis using F r(5) by (cases "unat (pl_size pl) - k \<le> unat keep") auto
qed

lemma gave_step: "gave s {} t \<Longrightarrow> gave t F u \<Longrightarrow> gave s F u"
  using gave_trans [of s "{}" t F u] by simp

text \<open>The rounds come to an end, and give back what they should.\<close>

lemma free_fibers_gives:
  assumes "quiet s" and "deref (mem_pools s) p = Some pl" and "f = 0 \<or> f \<in> in_use s \<and> keep < pl_max_size pl"
  shows "\<exists>t ql. cilk_fiber_pool_free_fibers_from_pool p keep f s = Inr ((), t) \<and> gave s {f} t
     \<and> deref (mem_pools t) p = Some ql \<and> unat (pl_size ql) \<le> unat keep + (if f = 0 then 0 else 1)"
proof -
  let ?I = "\<lambda>(_ :: unit) t. gave s {} t \<and> (\<exists>ql. deref (mem_pools t) p = Some ql \<and> unat (pl_size ql) \<le> unat (pl_size pl))"
  let ?m = "\<lambda>(_ :: unit) t. case deref (mem_pools t) p of None \<Rightarrow> 0 | Some ql \<Rightarrow> unat (pl_size ql)"
  have "\<exists>z t. loopP (Suc (unat (pl_size pl))) (\<lambda>_. free_round p keep f) () s = Inr (z, t)
      \<and> (gave s {f} t \<and> (\<exists>ql. deref (mem_pools t) p = Some ql \<and> unat (pl_size ql) \<le> unat keep + (if f = 0 then 0 else 1)))"
  proof (rule loopP_rule [where I = ?I and m = ?m])
    show "?I () s" using assms(1,2) by (auto simp: gave_def)
    show "?m () s < Suc (unat (pl_size pl))" using assms(2) by simp
  next
    fix x t assume "?I x t"
    then obtain ql where t: "gave s {} t" "deref (mem_pools t) p = Some ql" "unat (pl_size ql) \<le> unat (pl_size pl)" by auto
    then have "quiet t" "frame_of t = frame_of s" "in_use t = in_use s" by (auto simp: gave_def)
    moreover obtain rl where "deref (mem_pools t) p = Some rl" "pool_frame rl = pool_frame pl"
      using frame_pool [OF \<open>frame_of t = frame_of s\<close> assms(2)] by blast
    then have "pl_max_size ql = pl_max_size pl" using t(2) by (simp add: pool_frame_def)
    ultimately have "f = 0 \<or> f \<in> in_use t \<and> keep < pl_max_size ql" using assms(3) by simp
    from free_round_gives [OF \<open>quiet t\<close> t(2) this]
    show "(\<exists>y u. free_round p keep f t = Inr (Inl y, u) \<and> ?I y u \<and> ?m y u < ?m x t)
      \<or> (\<exists>z u. free_round p keep f t = Inr (Inr z, u) \<and> (gave s {f} u
          \<and> (\<exists>ql. deref (mem_pools u) p = Some ql \<and> unat (pl_size ql) \<le> unat keep + (if f = 0 then 0 else 1))))"
      using t gave_step [OF t(1)] by fastforce
  qed
  then show ?thesis using assms(2) by (auto simp: cilk_fiber_pool_free_fibers_from_pool_def run)
qed

text \<open>Giving back a fiber that somebody has, to a pool with at least one place.\<close>

lemma clear_resumable:
  assumes "quiet s" and "pool_fiber s f" and "\<not> fb_from_thread fb"
  shows "gave s {} (s\<lparr>mem_fibers := (mem_fibers s)(f \<mapsto> fb)\<rparr>)"
proof -
  let ?t = "s\<lparr>mem_fibers := (mem_fibers s)(f \<mapsto> fb)\<rparr>"
  have f: "f \<noteq> 0" using assms(2) by (rule pool_fiber_nonnull)
  have live: "pool_fiber ?t g \<longleftrightarrow> pool_fiber s g" for g
    using assms(2,3) f by (auto simp: pool_fiber_def)
  have "pooled ?t = pooled s" by (simp add: pooled_def)
  then show ?thesis
    using assms(1) f unfolding gave_def quiet_def pools_inv_def unlocked_def
    by (simp add: live in_use_def locks_of_def frame_of_def fun_eq_iff)
qed

lemma mem_push_inv:
  assumes "pools_inv s" and "deref (mem_pools s) p = Some pl" and "f \<in> in_use s" and "pl_size pl < pl_max_size pl"
    and t: "t = with_pool s p (pushed f pl)"
  shows "pools_inv t" and "in_use t = in_use s - {f}" and "same_locks s t"
proof -
  note pl = pools_invD [OF assms(1,2)]
  note ins = pool_contents_push(1,3) [OF pl(1) assms(4), of f, folded pushed_def]
  have apart: "in_use s \<inter> set (pool_contents pl) = {}" by (rule in_use_apart [OF assms(2)])
  show "pools_inv t"
    unfolding t by (rule pools_inv_upd [OF assms(1,2) ins(2)]) (use ins(1) pl(2) apart assms(3) in auto)
  show "in_use t = in_use s - {f}"
    using in_use_upd [OF assms(1,2), of "pushed f pl"] ins(1) apart unfolding t by auto
  show "same_locks s t"
    unfolding t by (rule same_locks_upd [OF assms(2)]) (simp_all add: pool_frame_def pushed_def)
qed

lemma pushing:
  assumes "quiet s" and "deref (mem_pools s) p = Some pl" and "f \<in> in_use s" and "pl_size pl < pl_max_size pl"
  shows "gave s {f} (with_pool s p (pushed f pl))"
proof -
  have inv: "pools_inv s" "unlocked s" using assms(1) by (simp_all add: quiet_def)
  note push = mem_push_inv [OF inv(1) assms(2-4) refl]
  then show ?thesis
    using same_locks_quiet [OF push(3) inv(2)] by (simp add: gave_def quiet_def same_locks_def)
qed

lemma remove_reference_gives:
  assumes "quiet s" and "f \<in> in_use s" and "p = 0 \<or> deref (mem_pools s) p = Some pl \<and> 0 < pl_max_size pl"
  shows "\<exists>t. fiber_remove_reference f p s = Inr (0, t) \<and> gave s {f} t"
proof (cases "p = 0")
  case True
  from run_deallocate_all [of "[f]" s] to_heap [OF assms(1), of "{f}"] assms(2) True show ?thesis
    by (auto simp: fiber_remove_reference_def run)
next
  case False
  with assms(3) have pl: "deref (mem_pools s) p = Some pl" "0 < pl_max_size pl" by auto
  obtain fb where fb: "deref (mem_fibers s) f = Some fb" "\<not> fb_from_thread fb"
    using assms(2) by (auto simp: in_use_def pool_fiber_def)
  let ?u = "s\<lparr>mem_fibers := (mem_fibers s)(f \<mapsto> fb\<lparr>fb_resumable := False\<rparr>)\<rparr>"
  have u: "gave s {} ?u"
    using clear_resumable [OF assms(1)] fb(2) assms(2) by (simp add: in_use_def)
  then have q: "quiet ?u" "f \<in> in_use ?u" using assms(2) by (auto simp: gave_def)
  have upl: "deref (mem_pools ?u) p = Some pl" using pl(1) by simp
  have inv: "pools_inv ?u" "unlocked ?u" using q(1) by (simp_all add: quiet_def)
  have ok: "pool_ok pl" "lock_free pl" using pools_invD(1) [OF inv(1) upl] unlockedD [OF inv(2) upl] by auto
  have f: "f \<noteq> 0" using assms(2) pool_fiber_nonnull by (auto simp: in_use_def)
  have lock: "lock_pool p ?u = Inr ((), with_pool ?u p (locked pl))" by (rule run_lock_pool [OF upl ok(2)])
  have start: "fiber_remove_reference f p s = bindP (block [
        bindP (ld_pl pl_size p) (\<lambda>n. bindP (ld_pl pl_max_size p) (\<lambda>max_size.
         if n < max_size then block [push_fiber p f, unlock_pool p]
         else block [unlock_pool p, cilk_fiber_pool_free_fibers_from_pool p (max_size - 1) f]))]) (\<lambda>_. ret 0)
      (with_pool ?u p (locked pl))"
    using lock fb f False by (simp add: fiber_remove_reference_def deallocate_self_def run split: sum.splits)
  show ?thesis
  proof (cases "pl_size pl < pl_max_size pl")
    case True
    let ?ql = "pushed f pl"
    have push: "push_fiber p f (with_pool ?u p (locked pl)) = Inr ((), with_pool ?u p (pushed f (locked pl)))"
      using run_push_fiber [of "with_pool ?u p (locked pl)" p "locked pl" f] ok(1) True False by (simp add: pushed_def)
    have "unlock_pool p (with_pool ?u p (pushed f (locked pl))) = Inr ((), with_pool ?u p ?ql)"
      using run_unlock_pool [of "with_pool ?u p (pushed f (locked pl))" p "pushed f (locked pl)" pl] False ok(2)
      by (simp add: pushed_def locked_def)
    then have "fiber_remove_reference f p s = Inr (0, with_pool ?u p ?ql)"
      using push True False by (simp add: start run)
    moreover have "gave ?u {f} (with_pool ?u p ?ql)" by (rule pushing [OF q(1) upl q(2) True])
    ultimately show ?thesis using gave_step [OF u] by blast
  next
    case full: False
    have "unlock_pool p (with_pool ?u p (locked pl)) = Inr ((), ?u)"
      using run_unlock_pool [of "with_pool ?u p (locked pl)" p "locked pl" pl] False ok(2) upd_same_pool [OF upl] by simp
    moreover have "pl_max_size pl - 1 < pl_max_size pl"
      using pl(2) unat_minus_one [of "pl_max_size pl"] word_gt_0 [of "pl_max_size pl"] by (auto simp: word_less_nat_alt)
    then obtain t where "cilk_fiber_pool_free_fibers_from_pool p (pl_max_size pl - 1) f ?u = Inr ((), t)" "gave ?u {f} t"
      using free_fibers_gives [OF q(1) upl, of f "pl_max_size pl - 1"] q(2) by blast
    ultimately have "fiber_remove_reference f p s = Inr (0, t)"
      using full False by (simp add: start run)
    then show ?thesis using gave_step [OF u \<open>gave ?u {f} t\<close>] by blast
  qed
qed

section \<open>The contract of a supply of fibers\<close>

text \<open>
  What the scheduler relies on: \<open>fetch\<close> gives NULL or a fiber that is not in use, \<open>give\<close> ends the use
  of a fiber. \<open>holds s U\<close> says that \<open>U\<close> are the fibers in use, \<open>source\<close> and \<open>sink\<close> which pools fibers can be
  taken from and given to, and \<open>fatal\<close> with what failures a supply may stop the program.
\<close>

datatype fiber_request = Take ptr | Give ptr ptr

fun serve ::
  "(ptr \<Rightarrow> ('s, ptr) prog) \<Rightarrow> (ptr \<Rightarrow> ptr \<Rightarrow> ('s, int) prog) \<Rightarrow> fiber_request list \<Rightarrow> ptr set \<Rightarrow> ('s, ptr set) prog"
where
  "serve fetch give [] U = ret U"
| "serve fetch give (Take p # rs) U = bindP (fetch p) (\<lambda>f.
     if f \<in> U then failP (Assertion ''a fiber nobody has'')
     else serve fetch give rs (if f = NULL then U else insert f U))"
| "serve fetch give (Give p f # rs) U =
     (if f \<in> U then bindP (give f p) (\<lambda>_. serve fetch give rs (U - {f})) else serve fetch give rs U)"

fun well_directed :: "(ptr \<Rightarrow> bool) \<Rightarrow> (ptr \<Rightarrow> bool) \<Rightarrow> fiber_request \<Rightarrow> bool" where
  "well_directed source sink (Take p) = source p"
| "well_directed source sink (Give p f) = sink p"

locale fiber_supply =
  fixes holds :: "'s \<Rightarrow> ptr set \<Rightarrow> bool"
    and fetch :: "ptr \<Rightarrow> ('s, ptr) prog"
    and give :: "ptr \<Rightarrow> ptr \<Rightarrow> ('s, int) prog"
    and source :: "'s \<Rightarrow> ptr \<Rightarrow> bool"
    and sink :: "'s \<Rightarrow> ptr \<Rightarrow> bool"
    and fatal :: "failure \<Rightarrow> bool"
  assumes no_null: "holds s U \<Longrightarrow> 0 \<notin> U"
    and take_law: "holds s U \<Longrightarrow> source s p \<Longrightarrow>
        (\<exists>e. fetch p s = Inl e \<and> fatal e)
      \<or> (\<exists>f t. fetch p s = Inr (f, t) \<and> source t = source s \<and> sink t = sink s
           \<and> (if f = NULL then holds t U else f \<notin> U \<and> holds t (insert f U)))"
    and give_law: "holds s U \<Longrightarrow> sink s p \<Longrightarrow> f \<in> U \<Longrightarrow>
        \<exists>t. give f p s = Inr (0, t) \<and> source t = source s \<and> sink t = sink s \<and> holds t (U - {f})"
begin

lemma served:
  "holds s U \<Longrightarrow> \<forall>r \<in> set rs. well_directed (source s) (sink s) r \<Longrightarrow>
   (\<exists>e. serve fetch give rs U s = Inl e \<and> fatal e) \<or> (\<exists>V t. serve fetch give rs U s = Inr (V, t) \<and> holds t V)"
proof (induction rs arbitrary: s U)
  case Nil
  then show ?case by (simp add: run)
next
  case (Cons r rs)
  show ?case
  proof (cases r)
    case (Take p)
    have "source s p" using Cons.prems(2) Take by simp
    from take_law [OF Cons.prems(1) this] show ?thesis
    proof (elim disjE exE conjE)
      fix f t
      assume t: "fetch p s = Inr (f, t)" "source t = source s" "sink t = sink s"
        "if f = NULL then holds t U else f \<notin> U \<and> holds t (insert f U)"
      have "holds t (if f = NULL then U else insert f U)" "f \<notin> U"
        using t(4) no_null [OF Cons.prems(1)] by (auto split: if_splits)
      with Cons.IH [OF this(1)] Cons.prems(2) t show ?thesis by (simp add: Take run)
    qed (simp add: Take run)
  next
    case (Give p f)
    show ?thesis
    proof (cases "f \<in> U")
      case True
      have "sink s p" using Cons.prems(2) Give by simp
      from give_law [OF Cons.prems(1) this True] obtain t where
        t: "give f p s = Inr (0, t)" "source t = source s" "sink t = sink s" "holds t (U - {f})" by blast
      from Cons.IH [OF t(4)] Cons.prems(2) t True show ?thesis by (simp add: Give run)
    next
      case False
      with Cons show ?thesis by (simp add: Give)
    qed
  qed
qed

end

text \<open>The pools of the code keep the contract.\<close>

definition pool_source :: "nat \<Rightarrow> fiber_memory \<Rightarrow> ptr \<Rightarrow> bool" where
  "pool_source levels s p \<longleftrightarrow> chain levels (frame_of s) p"

definition pool_sink :: "fiber_memory \<Rightarrow> ptr \<Rightarrow> bool" where
  "pool_sink s p \<longleftrightarrow> p = NULL \<or> (case frame_of s p of None \<Rightarrow> False | Some (_, max_size, _) \<Rightarrow> 0 < max_size)"

definition pools_hold :: "heap \<Rightarrow> fiber_memory \<Rightarrow> ptr set \<Rightarrow> bool" where
  "pools_hold heap s U \<longleftrightarrow> heap_ok heap \<and> quiet s \<and> in_use s = U"

interpretation pools: fiber_supply "pools_hold heap" "fiber_allocate heap levels" fiber_remove_reference
  "pool_source levels" pool_sink "\<lambda>e. e = out_of_stacks"
proof
  fix s U assume h: "pools_hold heap s U"
  then show "0 \<notin> U" by (auto simp: pools_hold_def in_use_def dest: pool_fiber_nonnull)
  fix p
  have frames: "pool_source levels t = pool_source levels s" "pool_sink t = pool_sink s" if "frame_of t = frame_of s" for t
    by (intro ext; simp add: pool_source_def pool_sink_def that)+
  show "(\<exists>e. fiber_allocate heap levels p s = Inl e \<and> e = out_of_stacks)
      \<or> (\<exists>f t. fiber_allocate heap levels p s = Inr (f, t) \<and> pool_source levels t = pool_source levels s
         \<and> pool_sink t = pool_sink s
         \<and> (if f = NULL then pools_hold heap t U else f \<notin> U \<and> pools_hold heap t (insert f U)))"
    if "pool_source levels s p"
  proof -
    have "fiber_allocate heap levels p s = Inl out_of_stacks
        \<or> (\<exists>f t. fiber_allocate heap levels p s = Inr (f, t) \<and> took s f t)"
      using h that by (intro allocate_takes) (simp_all add: pools_hold_def pool_source_def)
    then show ?thesis
    proof (elim disjE exE conjE)
      fix f t assume t: "fiber_allocate heap levels p s = Inr (f, t)" "took s f t"
      then have "if f = NULL then pools_hold heap t U else f \<notin> U \<and> pools_hold heap t (insert f U)"
        using h by (auto simp: took_def pools_hold_def)
      moreover have "frame_of t = frame_of s" using t(2) by (simp add: took_def)
      ultimately show ?thesis using t(1) frames [of t] by blast
    qed blast
  qed
  show "\<exists>t. fiber_remove_reference f p s = Inr (0, t) \<and> pool_source levels t = pool_source levels s
      \<and> pool_sink t = pool_sink s \<and> pools_hold heap t (U - {f})"
    if sink: "pool_sink s p" and f: "f \<in> U" for f
  proof -
    have "p = 0 \<or> (\<exists>pl. deref (mem_pools s) p = Some pl \<and> 0 < pl_max_size pl)"
      using sink by (auto simp: pool_sink_def frame_of_def pool_frame_def split: option.splits)
    then obtain pl where "p = 0 \<or> deref (mem_pools s) p = Some pl \<and> 0 < pl_max_size pl" by blast
    from remove_reference_gives [OF _ _ this, of f] obtain t where
      "fiber_remove_reference f p s = Inr (0, t)" "gave s {f} t"
      using h f by (auto simp: pools_hold_def)
    then show ?thesis using h frames [of t] by (auto simp: gave_def pools_hold_def)
  qed
qed

text \<open>So does the one supply that the theories of the scheduler see.\<close>

definition supply_holds :: "rts \<Rightarrow> ptr set \<Rightarrow> bool" where
  "supply_holds s U \<longleftrightarrow> 0 \<notin> set (r_fiber_supply s) \<and> distinct (r_fiber_supply s)
   \<and> U = {f. deref (r_fibers s) f \<noteq> None} \<and> U \<inter> set (r_fiber_supply s) = {}"

interpretation scheduler_fibers: fiber_supply supply_holds cilk_fiber_allocate cilk_fiber_remove_reference
  "\<lambda>_ _. True" "\<lambda>_ _. True" "\<lambda>e. False"
proof
  fix s U p assume h: "supply_holds s U"
  then show "0 \<notin> U" by (auto simp: supply_holds_def)
  show "(\<exists>e. cilk_fiber_allocate p s = Inl e \<and> False) \<or> (\<exists>f t. cilk_fiber_allocate p s = Inr (f, t)
      \<and> (\<lambda>_ :: ptr. True) = (\<lambda>_. True) \<and> (\<lambda>_ :: ptr. True) = (\<lambda>_. True)
      \<and> (if f = NULL then supply_holds t U else f \<notin> U \<and> supply_holds t (insert f U)))"
    using h by (cases "r_fiber_supply s") (auto simp: cilk_fiber_allocate_def run supply_holds_def split: if_splits)
  show "\<exists>t. cilk_fiber_remove_reference f p s = Inr (0, t) \<and> (\<lambda>_ :: ptr. True) = (\<lambda>_. True)
      \<and> (\<lambda>_ :: ptr. True) = (\<lambda>_. True) \<and> supply_holds t (U - {f})" if "f \<in> U" for f
    using h that by (auto simp: cilk_fiber_remove_reference_def run supply_holds_def disjoint_iff dest: deref_SomeD)
qed

section \<open>Making and destroying pools loses no fiber\<close>

text \<open>A heap with memory and stacks for every fiber.\<close>

definition plentiful :: "heap \<Rightarrow> bool" where
  "plentiful heap \<longleftrightarrow> heap_ok heap \<and> (\<forall>n L. fst (heap n L) \<noteq> NULL \<and> snd (heap n L))"

lemma plentiful_allocates:
  assumes "plentiful heap" and "quiet s"
  obtains f t where "allocate_from_heap heap s = Inr (f, t)" "f \<noteq> 0" "took s f t" "mem_pools t = mem_pools s"
proof -
  obtain f mapped where a: "heap (mem_calls s) (dom (mem_fibers s)) = (f, mapped)" by fastforce
  then have f: "f \<noteq> 0" "mapped" "heap_ok heap" using assms(1) by (metis fst_conv snd_conv plentiful_def)+
  then have "\<exists>t. allocate_from_heap heap s = Inr (f, t)"
    using a by (simp add: allocate_from_heap_def malloc_fiber_def run)
  then show thesis using heap_answers [OF assms(2) f(3)] f(1) that by fastforce
qed

lemma preallocates:
  assumes "plentiful heap"
  shows "quiet s \<Longrightarrow> deref (mem_pools s) p = Some pl \<Longrightarrow> unat (pl_size pl) + n \<le> unat (pl_max_size pl) \<Longrightarrow>
    \<exists>t. preallocate heap n p s = Inr ((), t) \<and> gave s {} t"
proof (induction n arbitrary: s pl)
  case 0
  then show ?case by (simp add: run gave_def)
next
  case (Suc n)
  obtain f u where u: "allocate_from_heap heap s = Inr (f, u)" "f \<noteq> 0" "took s f u" "mem_pools u = mem_pools s"
    by (rule plentiful_allocates [OF assms Suc.prems(1)])
  have q: "quiet u" "f \<in> in_use u" "f \<notin> in_use s" "in_use u = insert f (in_use s)" "frame_of u = frame_of s"
    using u(2,3) by (auto simp: took_def)
  have pl: "deref (mem_pools u) p = Some pl" using Suc.prems(2) u(4) by simp
  have room: "pl_size pl < pl_max_size pl" using Suc.prems(3) by (simp add: word_less_nat_alt)
  have ok: "pool_ok pl" using pools_invD(1) [OF _ pl] q(1) by (simp add: quiet_def)
  let ?v = "with_pool u p (pushed f pl)"
  have v: "gave u {f} ?v" by (rule pushing [OF q(1) pl q(2) room])
  have p: "p \<noteq> 0" using pl by (auto dest: deref_SomeD)
  have "unat (pl_size (pushed f pl)) = Suc (unat (pl_size pl))"
    using length_contents [of "pushed f pl"] pool_contents_push(1,3) [OF ok room, of f, folded pushed_def] length_contents [OF ok]
    by simp
  moreover have "pl_max_size (pushed f pl) = pl_max_size pl" by (simp add: pushed_def)
  moreover have "quiet ?v" using v by (simp add: gave_def)
  ultimately obtain t where "preallocate heap n p ?v = Inr ((), t)" "gave ?v {} t"
    using Suc.IH [of ?v "pushed f pl"] Suc.prems(3) p by auto
  moreover have "gave s {} ?v" using v q by (auto simp: gave_def)
  ultimately show ?case
    using u(1) run_push_fiber [OF pl ok room, of f] gave_step [of s ?v "{}" t] by (auto simp: run pushed_def)
qed

lemma new_pool:
  assumes "quiet s" and "mem_pools s p = None" and "p \<noteq> 0" and "pool_contents pl = []" and "pool_ok pl" and "lock_free pl"
  shows "quiet (with_pool s p pl)" and "in_use (with_pool s p pl) = in_use s"
proof -
  have pools: "pools_inv s" "unlocked s" using assms(1) by (simp_all add: quiet_def)
  have none: "deref (mem_pools s) p = None" using assms(2) by (simp add: deref_def)
  have live: "pool_fiber (with_pool s p pl) f = pool_fiber s f" for f by (simp add: pool_fiber_def)
  have "pools_inv (with_pool s p pl)"
    using pools(1) assms(3-5) none unfolding pools_inv_def by (simp add: live split: if_splits)
  then show "quiet (with_pool s p pl)"
    using still_unlocked [OF pools(2) assms(6)] by (simp add: quiet_def)
  have "pooled (with_pool s p pl) = pooled s"
  proof (intro set_eqI iffI)
    fix x assume "x \<in> pooled (with_pool s p pl)"
    then obtain q ql where q: "deref ((mem_pools s)(p \<mapsto> pl)) q = Some ql" "x \<in> set (pool_contents ql)"
      unfolding pooled_def by auto
    then have "q \<noteq> p" using assms(3,4) by (cases "q = p") auto
    with q show "x \<in> pooled s" by (intro pooledI [where q = q]) simp_all
  next
    fix x assume "x \<in> pooled s"
    then obtain q ql where q: "deref (mem_pools s) q = Some ql" "x \<in> set (pool_contents ql)" unfolding pooled_def by auto
    with none have "q \<noteq> p" by auto
    with q show "x \<in> pooled (with_pool s p pl)" by (intro pooledI [where q = q]) simp_all
  qed
  then show "in_use (with_pool s p pl) = in_use s" by (simp add: in_use_def live)
qed

lemma pool_init_quiet:
  assumes "plentiful heap" and "quiet s" and "mem_pools s p = None" and "p \<noteq> 0"
  shows "\<exists>t. cilk_fiber_pool_init heap p parent stack_size buffer_size alloc_max is_shared s = Inr ((), t)
    \<and> quiet t \<and> in_use t = in_use s
    \<and> frame_of t = (frame_of s)(p \<mapsto> (parent, buffer_size, alloc_max, stack_size))"
proof -
  obtain pl where pl: "pl = \<lparr>pl_lock = (if is_shared then Some \<lparr>sm_lock = 0\<rparr> else None), pl_stack_size = stack_size,
        pl_parent = parent, pl_fibers = replicate (unat buffer_size) NULL, pl_max_size = buffer_size,
        pl_size = 0, pl_total = 0, pl_high_water = 0, pl_alloc_max = alloc_max\<rparr>" by blast
  let ?u = "with_pool s p pl"
  have "pool_contents pl = []" "pool_ok pl" "lock_free pl"
    by (simp_all add: pl pool_contents_def pool_ok_def lock_free_def)
  note u = new_pool [OF assms(2-4) this]
  have "unat (buffer_size div 2 + buffer_size div 4) \<le> unat buffer_size"
  proof -
    have "unat (buffer_size div 2) + unat (buffer_size div 4) \<le> unat buffer_size" by (simp add: unat_div)
    moreover have "unat (buffer_size div 2 + buffer_size div 4) \<le> unat (buffer_size div 2) + unat (buffer_size div 4)"
      by (simp add: unat_word_ariths)
    ultimately show ?thesis by (rule le_trans [rotated])
  qed
  then have "unat (pl_size pl) + unat (buffer_size div 2 + buffer_size div 4) \<le> unat (pl_max_size pl)" by (simp add: pl)
  moreover have "deref (mem_pools ?u) p = Some pl" using assms(4) by simp
  ultimately obtain t where t: "preallocate heap (unat (buffer_size div 2 + buffer_size div 4)) p ?u = Inr ((), t)" "gave ?u {} t"
    using preallocates [OF assms(1) u(1)] by blast
  have "frame_of ?u = (frame_of s)(p \<mapsto> (parent, buffer_size, alloc_max, stack_size))"
    using assms(4) by (auto simp: frame_of_def pl pool_frame_def fun_eq_iff)
  moreover have "cilk_fiber_pool_init heap p parent stack_size buffer_size alloc_max is_shared s = Inr ((), t)"
    using t(1) by (simp add: cilk_fiber_pool_init_def run pl)
  ultimately show ?thesis using t(2) u(2) by (simp add: gave_def)
qed

text \<open>A change of a pool that leaves its fibers where they are.\<close>

lemma relabel:
  assumes "pools_inv s" and "deref (mem_pools s) p = Some pl"
    and "pool_contents ql = pool_contents pl" and "pool_ok ql = pool_ok pl"
  shows "pools_inv (with_pool s p ql)" and "in_use (with_pool s p ql) = in_use s"
proof -
  note pl = pools_invD [OF assms(1,2)]
  show "pools_inv (with_pool s p ql)"
    by (rule pools_inv_upd [OF assms(1,2)]) (use assms pl in auto)
  show "in_use (with_pool s p ql) = in_use s"
    using in_use_upd [OF assms(1,2), of ql] in_use_apart [OF assms(2)] assms(3) by auto
qed

lemma locks_of_upd: "p \<noteq> 0 \<Longrightarrow> locks_of (with_pool s p ql) = (locks_of s)(p \<mapsto> pl_lock ql)"
  by (auto simp: locks_of_def fun_eq_iff)

lemma same_locks_trans: "same_locks s t \<Longrightarrow> same_locks t u \<Longrightarrow> same_locks s u"
  by (simp add: same_locks_def)

lemma same_locks_pool:
  assumes "same_locks s t" and "deref (mem_pools s) p = Some pl"
  obtains ql where "deref (mem_pools t) p = Some ql" "pl_lock ql = pl_lock pl" "pool_frame ql = pool_frame pl"
proof -
  have "locks_of t p = Some (pl_lock pl)" "frame_of t p = Some (pool_frame pl)"
    using assms by (simp_all add: same_locks_def locks_of_def frame_of_def)
  then show thesis using that by (auto simp: locks_of_def frame_of_def)
qed

lemma moves:
  "pools_inv s \<Longrightarrow> deref (mem_pools s) p = Some pl \<Longrightarrow> deref (mem_pools s) q = Some ql \<Longrightarrow> p \<noteq> q \<Longrightarrow>
   unat (pl_size pl) < n \<Longrightarrow>
   \<exists>t. move_fibers n p q keep s = Inr ((), t) \<and> pools_inv t \<and> in_use t = in_use s \<and> same_locks s t"
proof (induction n arbitrary: s pl ql)
  case (Suc n)
  have pq: "p \<noteq> 0" "q \<noteq> 0" using Suc.prems(2,3) by (auto dest: deref_SomeD)
  show ?case
  proof (cases "pl_size ql < pl_max_size ql \<and> keep < pl_size pl")
    case True
    then have size: "0 < pl_size pl" by (auto intro: le_less_trans)
    let ?pl = "pl\<lparr>pl_size := pl_size pl - 1\<rparr>" and ?f = "last (pool_contents pl)"
    let ?u = "with_pool s p ?pl"
    note pop = mem_pop_inv [OF Suc.prems(1,2) size refl refl]
    have ok: "pool_ok pl" "pool_ok ql" using pools_invD(1) [OF Suc.prems(1)] Suc.prems(2,3) by auto
    have uq: "deref (mem_pools ?u) q = Some ql" "?f \<in> in_use ?u" using Suc.prems(3,4) pop(2) by auto
    note push = mem_push_inv [OF pop(1) uq conjunct1 [OF True] refl]
    let ?v = "with_pool ?u q (pushed ?f ql)"
    have vp: "deref (mem_pools ?v) p = Some ?pl" "deref (mem_pools ?v) q = Some (pushed ?f ql)"
      using pq Suc.prems(4) by auto
    have "unat (pl_size ?pl) < n"
      using Suc.prems(5) size unat_minus_one [of "pl_size pl"] word_gt_0 [of "pl_size pl"] by (auto simp: word_less_nat_alt)
    from Suc.IH [OF push(1) vp Suc.prems(4) this] obtain t where
      t: "move_fibers n p q keep ?v = Inr ((), t)" "pools_inv t" "in_use t = in_use ?v" "same_locks ?v t" by blast
    have "move_fibers (Suc n) p q keep s = Inr ((), t)"
      using Suc.prems(2,3) True run_pop_fiber [OF Suc.prems(2) ok(1) size] run_push_fiber [OF uq(1) ok(2) conjunct1 [OF True]] t(1)
      by (simp add: run pushed_def)
    moreover have "in_use t = in_use s" using t(3) push(2) pop(2,3) by auto
    ultimately show ?thesis using t(2,4) same_locks_trans [OF same_locks_trans [OF pop(5) push(3)]] by blast
  next
    case False
    with Suc.prems show ?thesis by (auto simp: run same_locks_def)
  qed
qed simp

lemma moves_to_parent:
  assumes "pools_inv s" and p: "deref (mem_pools s) p = Some pl" and q: "deref (mem_pools s) q = Some ql"
    and "q = pl_parent pl" and "p \<noteq> q" and "pl_lock ql = Some \<lparr>sm_lock = 0\<rparr>"
  shows "\<exists>t. cilk_fiber_pool_move_fibers_to_parent_pool p keep s = Inr ((), t)
    \<and> pools_inv t \<and> in_use t = in_use s \<and> same_locks s t"
proof (cases "pl_size ql < pl_max_size ql")
  case False
  with assms show ?thesis
    by (auto simp: cilk_fiber_pool_move_fibers_to_parent_pool_def run same_locks_def dest: deref_SomeD)
next
  case True
  have pq: "p \<noteq> 0" "q \<noteq> 0" using p q by (auto dest: deref_SomeD)
  let ?q1 = "ql\<lparr>pl_lock := Some \<lparr>sm_lock = 1\<rparr>\<rparr>"
  let ?s1 = "with_pool s q ?q1"
  have s1: "pools_inv ?s1" "in_use ?s1 = in_use s"
    by (rule relabel [OF assms(1) q]; simp add: pool_contents_def pool_ok_def)+
  have d1: "deref (mem_pools ?s1) p = Some pl" "deref (mem_pools ?s1) q = Some ?q1" using p pq assms(5) by auto
  obtain s2 where s2: "move_fibers (Suc (unat (pl_size pl))) p q keep ?s1 = Inr ((), s2)" "pools_inv s2"
      "in_use s2 = in_use ?s1" "same_locks ?s1 s2"
    using moves [OF s1(1) d1 assms(5)] by blast
  obtain p2 where p2: "deref (mem_pools s2) p = Some p2" "pl_lock p2 = pl_lock pl" "pool_frame p2 = pool_frame pl"
    by (rule same_locks_pool [OF s2(4) d1(1)])
  obtain q2 where q2: "deref (mem_pools s2) q = Some q2" "pl_lock q2 = Some \<lparr>sm_lock = 1\<rparr>" "pool_frame q2 = pool_frame ql"
    by (rule same_locks_pool [OF s2(4) d1(2)]) (simp add: pool_frame_def)
  let ?adjust = "bindP (ld_pl pl_total p) (\<lambda>total. whenP (total < 0) (block [
         st_pl q (\<lambda>r. r\<lparr>pl_total := pl_total r + total\<rparr>),
         st_pl p (pl_total_update (\<lambda>_. 0))]))"
  have "\<exists>s3 q3. ?adjust s2 = Inr ((), s3) \<and> pools_inv s3 \<and> in_use s3 = in_use s2 \<and> same_locks s2 s3
      \<and> deref (mem_pools s3) q = Some q3 \<and> pl_lock q3 = Some \<lparr>sm_lock = 1\<rparr> \<and> pool_frame q3 = pool_frame ql"
  proof (cases "pl_total p2 < 0")
    case True
    let ?q3 = "q2\<lparr>pl_total := pl_total q2 + pl_total p2\<rparr>" and ?p3 = "p2\<lparr>pl_total := 0\<rparr>"
    let ?u = "with_pool s2 q ?q3"
    have u: "pools_inv ?u" "in_use ?u = in_use s2"
      by (rule relabel [OF s2(2) q2(1)]; simp add: pool_contents_def pool_ok_def)+
    have up: "deref (mem_pools ?u) p = Some p2" using p2(1) assms(5) by simp
    have v: "pools_inv (with_pool ?u p ?p3)" "in_use (with_pool ?u p ?p3) = in_use ?u"
      by (rule relabel [OF u(1) up]; simp add: pool_contents_def pool_ok_def)+
    have "same_locks s2 ?u" "same_locks ?u (with_pool ?u p ?p3)"
      by (rule same_locks_upd [OF q2(1)] same_locks_upd [OF up]; simp add: pool_frame_def)+
    then have "same_locks s2 (with_pool ?u p ?p3)" by (rule same_locks_trans)
    moreover have "?adjust s2 = Inr ((), with_pool ?u p ?p3)" using True p2(1) q2(1) up pq assms(5) by (simp add: run)
    ultimately show ?thesis using v u(2) q2 pq assms(5) by (auto simp: pool_frame_def)
  next
    case False
    then show ?thesis using p2(1) q2 s2(2) by (auto simp: run same_locks_def)
  qed
  then obtain s3 q3 where s3: "?adjust s2 = Inr ((), s3)" "pools_inv s3" "in_use s3 = in_use s2" "same_locks s2 s3"
    and q3: "deref (mem_pools s3) q = Some q3" "pl_lock q3 = Some \<lparr>sm_lock = 1\<rparr>" "pool_frame q3 = pool_frame ql" by blast
  let ?q4 = "q3\<lparr>pl_lock := Some \<lparr>sm_lock = 0\<rparr>\<rparr>"
  let ?s4 = "with_pool s3 q ?q4"
  have s4: "pools_inv ?s4" "in_use ?s4 = in_use s3"
    by (rule relabel [OF s3(2) q3(1)]; simp add: pool_contents_def pool_ok_def)+
  have "locks_of s3 = (locks_of s)(q \<mapsto> Some \<lparr>sm_lock = 1\<rparr>)" "frame_of s3 = frame_of s"
    using s3(4) s2(4) locks_of_upd [OF pq(2)] same_frame [OF q, of ?q1] by (simp_all add: same_locks_def pool_frame_def)
  moreover have "locks_of s q = Some (Some \<lparr>sm_lock = 0\<rparr>)" using q assms(6) by (simp add: locks_of_def)
  ultimately have "locks_of ?s4 = locks_of s" "frame_of ?s4 = frame_of s"
    using locks_of_upd [OF pq(2)] same_frame [OF q3(1), of ?q4]
    by (simp_all add: fun_upd_idem pool_frame_def)
  then have "same_locks s ?s4" by (simp add: same_locks_def)
  moreover have "cilk_fiber_pool_move_fibers_to_parent_pool p keep s = Inr ((), ?s4)"
    using p q assms(4-6) True pq d1(1) s2(1) s3(1) q3
    by (simp add: cilk_fiber_pool_move_fibers_to_parent_pool_def run on_pool_lock_def spin_mutex_lock_def
        spin_mutex_trylock_def spin_mutex_unlock_def)
  ultimately show ?thesis using s4 s3(3) s2(3) s1(2) by auto
qed

text \<open>An empty pool can be taken away.\<close>

lemma drop_pool:
  assumes "quiet s" and "deref (mem_pools s) p = Some pl" and "pool_contents pl = []"
    and t: "t = s\<lparr>mem_pools := (mem_pools s)(p := None)\<rparr>"
  shows "quiet t" and "in_use t = in_use s" and "frame_of t = (frame_of s)(p := None)"
proof -
  have live: "pool_fiber t f = pool_fiber s f" for f by (simp add: pool_fiber_def t)
  have "pools_inv t" using assms(1) unfolding quiet_def pools_inv_def by (simp add: live) (simp add: t)
  moreover have "unlocked t" using assms(1) by (auto simp: quiet_def unlocked_def locks_of_def t split: if_splits)
  ultimately show "quiet t" by (simp add: quiet_def)
  have "pooled t = pooled s"
  proof (intro set_eqI iffI)
    fix x assume "x \<in> pooled s"
    then obtain q ql where q: "deref (mem_pools s) q = Some ql" "x \<in> set (pool_contents ql)" unfolding pooled_def by auto
    then have "q \<noteq> p" using assms(2,3) by auto
    with q show "x \<in> pooled t" by (intro pooledI [where q = q]) (simp_all add: t)
  qed (auto simp: pooled_def t split: if_splits)
  then show "in_use t = in_use s" by (simp add: in_use_def live)
  show "frame_of t = (frame_of s)(p := None)" by (auto simp: frame_of_def t fun_eq_iff)
qed

lemma pool_destroy_quiet:
  assumes "quiet s" and p: "deref (mem_pools s) p = Some pl"
    and parent: "pl_parent pl \<noteq> 0 \<Longrightarrow> pl_parent pl \<noteq> p \<and>
      (\<exists>ql m. deref (mem_pools s) (pl_parent pl) = Some ql \<and> pl_lock ql = Some m)"
  shows "\<exists>t. cilk_fiber_pool_destroy p s = Inr ((), t) \<and> quiet t \<and> in_use t = in_use s \<and> frame_of t = (frame_of s)(p := None)"
proof -
  have inv: "pools_inv s" "unlocked s" using assms(1) by (simp_all add: quiet_def)
  have free: "lock_free pl" by (rule unlockedD [OF inv(2) p])
  have p0: "p \<noteq> 0" using p by (auto dest: deref_SomeD)
  let ?u = "with_pool s p (locked pl)"
  have u: "pools_inv ?u" "in_use ?u = in_use s" by (rule relabel [OF inv(1) p]; simp)+
  have up: "deref (mem_pools ?u) p = Some (locked pl)" using p0 by simp
  let ?move = "bindP (ld_pl pl_parent p) (\<lambda>parent. whenP (parent \<noteq> NULL) (cilk_fiber_pool_move_fibers_to_parent_pool p 0))"
  have "\<exists>v. ?move ?u = Inr ((), v) \<and> pools_inv v \<and> in_use v = in_use ?u \<and> same_locks ?u v"
  proof (cases "pl_parent pl = 0")
    case True
    then show ?thesis using up u by (simp add: run same_locks_def)
  next
    case False
    with parent obtain ql m where ql: "deref (mem_pools s) (pl_parent pl) = Some ql" "pl_lock ql = Some m" "pl_parent pl \<noteq> p" by blast
    then have "m = \<lparr>sm_lock = 0\<rparr>" using unlockedD [OF inv(2) ql(1)] by (simp add: lock_free_def)
    then have lock: "pl_lock ql = Some \<lparr>sm_lock = 0\<rparr>" using ql(2) by simp
    have uq: "deref (mem_pools ?u) (pl_parent pl) = Some ql" using ql(1,3) by simp
    obtain v where v: "cilk_fiber_pool_move_fibers_to_parent_pool p 0 ?u = Inr ((), v)" "pools_inv v"
        "in_use v = in_use ?u" "same_locks ?u v"
      using moves_to_parent [OF u(1) up uq _ ql(3) [symmetric] lock, of 0] by auto
    have "?move ?u = Inr ((), v)" using v(1) up False by (simp add: run)
    with v(2-4) show ?thesis by blast
  qed
  then obtain v where v: "?move ?u = Inr ((), v)" "pools_inv v" "in_use v = in_use ?u" "same_locks ?u v" by blast
  obtain vl where vl: "deref (mem_pools v) p = Some vl" "pl_lock vl = pl_lock (locked pl)" "pool_frame vl = pool_frame (locked pl)"
    by (rule same_locks_pool [OF v(4) up])
  let ?wl = "vl\<lparr>pl_lock := pl_lock pl\<rparr>" and ?w = "with_pool v p (vl\<lparr>pl_lock := pl_lock pl\<rparr>)"
  have w: "pools_inv ?w" "in_use ?w = in_use v"
    by (rule relabel [OF v(2) vl(1)]; simp add: pool_contents_def pool_ok_def)+
  have "locks_of ?w = locks_of s"
    using v(4) locks_of_upd [OF p0] p by (simp add: same_locks_def fun_upd_idem locks_of_def)
  moreover have fw: "frame_of ?w = frame_of s"
    using same_frame [OF vl(1), of ?wl] same_frame [OF p, of "locked pl"] v(4) by (simp add: same_locks_def pool_frame_def)
  ultimately have qw: "quiet ?w" using inv(2) w(1) by (simp add: quiet_def unlocked_def)
  have "deref (mem_pools ?w) p = Some ?wl" using p0 by simp
  from free_fibers_gives [OF qw this, of 0 0] obtain t tl where
    t: "cilk_fiber_pool_free_fibers_from_pool p 0 0 ?w = Inr ((), t)" "gave ?w {0} t"
      "deref (mem_pools t) p = Some tl" "unat (pl_size tl) \<le> 0" by auto
  have "0 \<notin> in_use ?w" by (auto simp: in_use_def dest: pool_fiber_nonnull)
  then have g: "quiet t" "in_use t = in_use ?w" "frame_of t = frame_of s" using t(2) fw by (auto simp: gave_def)
  have "pool_contents tl = []" using t(4) by (simp add: pool_contents_def)
  note d = drop_pool [OF g(1) t(3) this refl]
  have "unlock_pool p v = Inr ((), ?w)" by (rule run_unlock_pool [OF vl(1,2) free])
  then have "cilk_fiber_pool_destroy p s = Inr ((), t\<lparr>mem_pools := (mem_pools t)(p := None)\<rparr>)"
    using run_lock_pool [OF p free] v(1) t(1) by (simp add: cilk_fiber_pool_destroy_def run del: run_bindP)
  then show ?thesis using d g w(2) v(3) u(2) by simp
qed

section \<open>Who owns a fiber\<close>

text \<open>
  C21. No fiber has two owners. Whatever sequence of requests workers make of a hierarchy of pools that is as the
  runtime makes it, taking a fiber returns, and gives NULL or a fiber that no one has; when they are
  served the fibers in use are those that were taken and not given back, no pool is locked, and
  the pools hold the others, each of them once. The only way to fail is that the
  operating system has no memory for another stack.
\<close>

theorem no_fiber_has_two_owners:
  assumes "heap_ok heap" and "quiet s" and "\<forall>r \<in> set rs. well_directed (pool_source levels s) (pool_sink s) r"
  shows "(\<exists>V t. serve (fiber_allocate heap levels) fiber_remove_reference rs (in_use s) s = Inr (V, t)
       \<and> quiet t \<and> in_use t = V)
    \<or> serve (fiber_allocate heap levels) fiber_remove_reference rs (in_use s) s = Inl out_of_stacks"
  using pools.served [of heap s "in_use s" rs levels] assms by (auto simp: pools_hold_def)

definition example_heap :: heap where
  "example_heap n L = (Suc (Max (insert 0 L)), True)"

lemma example_heap_ok: "plentiful example_heap"
proof -
  have "Suc (Max (insert 0 L)) \<notin> L" if "finite L" for L :: "nat set"
    using that Max_ge [of "insert 0 L" "Suc (Max (insert 0 L))"] by fastforce
  then show ?thesis by (simp add: plentiful_def heap_ok_def example_heap_def)
qed

text \<open>A global pool with one fiber and the pool of a worker with another one.\<close>

definition example_memory :: fiber_memory where
  "example_memory = \<lparr>mem_pools =
      [1 \<mapsto> \<lparr>pl_lock = Some \<lparr>sm_lock = 0\<rparr>, pl_stack_size = 0, pl_parent = 0, pl_fibers = [5, 0], pl_max_size = 2,
              pl_size = 1, pl_total = 0, pl_high_water = 0, pl_alloc_max = 1\<rparr>,
       2 \<mapsto> \<lparr>pl_lock = None, pl_stack_size = 0, pl_parent = 1, pl_fibers = [7], pl_max_size = 1,
              pl_size = 1, pl_total = 0, pl_high_water = 0, pl_alloc_max = 0\<rparr>],
     mem_fibers = [5 \<mapsto> fresh_fiber, 7 \<mapsto> fresh_fiber], mem_calls = 0\<rparr>"

lemma example_memory_quiet: "quiet example_memory"
  by (auto simp: quiet_def pools_inv_def unlocked_def locks_of_def example_memory_def deref_def pool_ok_def
      pool_contents_def pool_fiber_def fresh_fiber_def split: if_splits)

lemma example_pools: "pool_source 2 example_memory 2" "pool_sink example_memory 2" "pool_sink example_memory 0"
  by (simp_all add: pool_source_def pool_sink_def frame_of_def example_memory_def deref_def pool_frame_def numeral_2_eq_2)

theorem no_fiber_has_two_owners_witness:
  "(\<exists>V t. serve (fiber_allocate example_heap 2) fiber_remove_reference [Take 2, Take 2, Give 2 7, Take 2, Give 0 7]
         (in_use example_memory) example_memory = Inr (V, t) \<and> quiet t \<and> in_use t = V)
    \<or> serve (fiber_allocate example_heap 2) fiber_remove_reference [Take 2, Take 2, Give 2 7, Take 2, Give 0 7]
         (in_use example_memory) example_memory = Inl out_of_stacks"
  by (rule no_fiber_has_two_owners)
    (use example_heap_ok example_memory_quiet example_pools in \<open>auto simp: plentiful_def\<close>)

text \<open>
  C22. Neither the limit nor the parent counts. \<open>cilk_fiber_allocate\<close> goes to the heap as soon as the pool it is
  given is empty: it ends with more fibers than the limit of the pool, which is 0 for the pools of
  workers and the setting \<open>nstacks\<close> for the global one, and it does not look into the
  parent, whatever that has in store.
\<close>

theorem limit_and_parent_are_ignored:
  assumes "quiet s" and "deref (mem_pools s) p = Some pl" and "pl_size pl = 0" and "pl_alloc_max pl \<le> pl_total pl"
    and "heap (mem_calls s) (dom (mem_fibers s)) = (f, True)" and "f \<noteq> NULL"
  shows "\<exists>t ql. fiber_allocate heap (Suc n) p s = Inr (f, t) \<and> deref (mem_pools t) p = Some ql
    \<and> pl_alloc_max ql < pl_total ql \<and> (\<forall>q. q \<noteq> p \<longrightarrow> mem_pools t q = mem_pools s q)"
proof -
  have "p \<noteq> 0" using assms(2) by (auto dest: deref_SomeD)
  then show ?thesis
    using assms(3-6)
    by (auto simp: run_fiber_allocate [OF assms(1,2)] allocate_counted_def allocate_from_heap_def malloc_fiber_def run
        counted_def Let_def)
qed

text \<open>The pool of the worker is empty here, and the global pool still has a fiber.\<close>

definition starved_memory :: fiber_memory where
  "starved_memory = with_pool example_memory 2
     \<lparr>pl_lock = None, pl_stack_size = 0, pl_parent = 1, pl_fibers = [7], pl_max_size = 1,
      pl_size = 0, pl_total = 0, pl_high_water = 0, pl_alloc_max = 0\<rparr>"

lemma starved_memory_quiet: "quiet starved_memory"
  by (auto simp: quiet_def pools_inv_def unlocked_def locks_of_def starved_memory_def example_memory_def deref_def
      pool_ok_def pool_contents_def pool_fiber_def fresh_fiber_def split: if_splits)

theorem limit_and_parent_are_ignored_witness:
  "\<exists>t ql. fiber_allocate example_heap (Suc 1) 2 starved_memory = Inr (8, t) \<and> deref (mem_pools t) 2 = Some ql
     \<and> pl_alloc_max ql < pl_total ql \<and> (\<forall>q. q \<noteq> 2 \<longrightarrow> mem_pools t q = mem_pools starved_memory q)"
proof -
  obtain pl where pl: "deref (mem_pools starved_memory) 2 = Some pl" "pl_size pl = 0" "pl_alloc_max pl \<le> pl_total pl"
    by (simp add: starved_memory_def)
  have "dom (mem_fibers starved_memory) = {5, 7}"
    by (auto simp: starved_memory_def example_memory_def split: if_splits)
  then have "example_heap (mem_calls starved_memory) (dom (mem_fibers starved_memory)) = (8, True)"
    by (simp add: example_heap_def)
  then show ?thesis
    by (rule limit_and_parent_are_ignored [where f = 8, OF starved_memory_quiet pl]) simp
qed

text \<open>
  The settings allow pools without any place: with an unlimited number of stacks nothing raises the
  size of the workers' pools that the program asked for.
\<close>

definition no_places :: "settings_call list" where
  "no_places = [Set_param (Some ''nstacks'') (Some ''0''), Set_param (Some ''local stacks'') (Some ''0''), Start]"

lemma grab_nothing:
  "deref (mem_pools s) p = Some pl \<Longrightarrow> pl_size pl \<le> keep \<Longrightarrow> grab_fibers b p keep s = Inr ([], s)"
  by (cases b) (auto simp: run)

lemma store_zero: "0 \<le> hi \<Longrightarrow> store_int Compared_as_long ''0'' 0 hi = (PARAM_SUCCESS, Some 0)"
  by (simp add: store_int_def strtol_def isspace_def isdigit_def digits_value_def digit_value_def limits Let_def)

lemma no_places_left:
  assumes "block (map (run_call mc) no_places) zero_settings = Inr ((), g)" and "machine_ok mc"
  shows "st_fiber_pool_size g = 0"
proof -
  obtain u where u: "cilkg_get_user_settable_values mc zero_settings = Inr ((), u)" "st_initialized u" "\<not> st_singleton u"
    by (rule settable_values_fresh [OF assms(2)])
  let ?v = "u\<lparr>st_max_stacks := 0, st_fiber_pool_size := 0\<rparr>"
  have "cilkg_init_global_state mc ?v = Inr ((), g)"
    using assms(1) u
    by (simp add: no_places_def run cilkg_set_param_def set_param_imp_def unless_late_def put_def store_zero
        settable_values_twice INT_MAX_def split: sum.splits prod.splits)
  then show ?thesis
    using u by (auto simp: cilkg_init_global_state_def run settable_values_twice bound_stacks_def
        cilkg_calc_total_workers_def cilkos_validate_stack_size_def split: if_splits)
qed

text \<open>
  C23. A pool without places stops the program. When a program sets \<open>nstacks\<close> and \<open>local stacks\<close> to 0, both
  accepted, and starts the runtime, the pool made with the resulting size cannot take back any
  fiber: one less than the size is the largest number of 32 bits, so the pool counts as empty enough,
  and the assertion that there is room for the fiber fails.
\<close>

theorem pool_without_places_asserts:
  assumes "block (map (run_call mc) no_places) zero_settings = Inr ((), g)" and "machine_ok mc"
    and "quiet s" and "f \<in> in_use s" and "mem_pools s p = None" and "p \<noteq> NULL"
  shows "block [cilk_fiber_pool_init heap p parent stack_size (of_int (st_fiber_pool_size g)) 0 False,
      bindP (fiber_remove_reference f p) (\<lambda>_. ret ())] s = Inl (Assertion ''pool->size < pool->max_size'')"
proof -
  have g: "st_fiber_pool_size g = 0" by (rule no_places_left [OF assms(1,2)])
  obtain fb where fb: "deref (mem_fibers s) f = Some fb" "\<not> fb_from_thread fb" using assms(4) by (auto simp: in_use_def pool_fiber_def)
  have "f \<noteq> 0" using assms(4) pool_fiber_nonnull by (auto simp: in_use_def)
  with fb assms(6) show ?thesis
    by (simp add: g run cilk_fiber_pool_init_def fiber_remove_reference_def deallocate_self_def lock_pool_def
        unlock_pool_def cilk_fiber_pool_free_fibers_from_pool_def run_loopP_Suc free_round_def decrement_pool_total_def
        grab_nothing)
qed

theorem pool_without_places_asserts_witness:
  "\<exists>g. block (map (run_call example_machine) no_places) zero_settings = Inr ((), g)
    \<and> block [cilk_fiber_pool_init example_heap 3 1 0 (of_int (st_fiber_pool_size g)) 0 False,
        bindP (fiber_remove_reference 7 3) (\<lambda>_. ret ())] starved_memory = Inl (Assertion ''pool->size < pool->max_size'')"
proof -
  have mc: "machine_ok example_machine" by (simp add: machine_ok_def example_machine_def limits)
  have "settings_inv example_machine zero_settings" by (simp add: settings_inv_def zero_settings_def)
  then obtain g where g: "block (map (run_call example_machine) no_places) zero_settings = Inr ((), g)"
    using calls_return [OF mc] by blast
  have "mem_pools starved_memory 3 = None" by (simp add: starved_memory_def example_memory_def)
  moreover have "7 \<in> in_use starved_memory"
    by (auto simp: in_use_def pooled_def pool_fiber_def fresh_fiber_def starved_memory_def example_memory_def deref_def
        pool_contents_def split: if_splits)
  ultimately show ?thesis
    using g pool_without_places_asserts [OF g mc starved_memory_quiet] by simp
qed

end
