(* ===== verification/Spec2Isabelle.thy ===== *)
theory Spec2Isabelle
  imports IO_Queue Steal_Lock Spawn_Tree RNG Reducer_Merge Reductions Reducer_Min_Max Reducer_Containers Steal Cilk_For THE_Protocol Hyperobject Worker_Setup Entry_Points Reduction_Order Fiber_Pool
begin

text \<open>
  Verification of the Cilk-L work-stealing runtime (\<open>src/cilk-l/runtime\<close>) and of the reducer library
  it ships with (\<open>src/cilk-l/include/cilk\<close>).

  \<^bold>\<open>The program.\<close> Cilk-L runs fork-join programs on a fixed set of \<^emph>\<open>workers\<close>. Compiled code calls the
  entry points of \<open>cilk-abi.c\<close>: a function that spawns pushes its stack frame on the \<^emph>\<open>deque\<close> of its worker
  (\<open>__cilkrts_detach\<close>), runs the child as an ordinary call and takes the frame back when it was not stolen. A
  worker without work steals the oldest frame of another deque, where owner and thief meet in the \<^emph>\<open>THE
  protocol\<close>. A stolen call stack is promoted to \<^emph>\<open>full frames\<close>, a tree that records who waits for whom. At a
  sync or at the return of a child whose parent was stolen, the maps of reducer views and the pending exceptions
  are merged in serial order, and the last one to arrive goes on with the parent (a \<^emph>\<open>provably good steal\<close>).
  Workers run on \<^emph>\<open>fibers\<close>, stacks taken from a hierarchy of pools. What distinguishes Cilk-L is that a
  strand may wait for I/O or for a future: its whole deque is \<^emph>\<open>suspended\<close>, later becomes \<^emph>\<open>resumable\<close>, and is
  resumed by its owner or \<^emph>\<open>mugged\<close> by a thief; each worker keeps pools of such deques and hands I/O requests
  to a thread of its own through a queue.

  \<^bold>\<open>How code is modelled.\<close> \<open>Prelude\<close> has the language: a function of the runtime is a \<open>('s, 'a) prog\<close>, from a state
  to a failure or to a result and the next state; \<open>CILK_ASSERT\<close>, \<open>__cilkrts_bug\<close>, \<open>abort\<close>, a read through a bad
  pointer and a wait without end are values of \<open>failure\<close>. Structures live in partial maps from addresses to
  records, one per C type, so that aliasing is what it is in the code. \<open>Runtime_State\<close> has these
  records (\<open>worker\<close>, \<open>sframe\<close> for \<open>__cilkrts_stack_frame\<close>, \<open>frame\<close> for \<open>full_frame\<close>, \<open>deque\<close>, \<open>fiber\<close> and so on, each field
  named after its C field) and \<open>rts\<close>, the state of them all. A theory whose code works on structures of its own has
  its own state. Numbers that wrap are words of the width of their C type. Where the interleaving of threads matters, every
  access to shared memory is a step of an \<open>inductive\<close> relation, and an invariant of all reachable states
  is proved by the locale \<open>stepping\<close>; memory is sequentially consistent.

  \<^bold>\<open>Theories.\<close> In the order in which they build on each other:

  \<^item> \<open>IO_Queue\<close> (\<open>cilk-io-queue.c\<close>): the ring between a worker and its I/O thread, with the contract \<open>bounded_fifo\<close>, as
    programs and as a machine of a producer and a consumer; nothing is lost, duplicated or reordered, and the
    counter of wake-ups never leaves the consumer asleep on a full queue.
  \<^item> \<open>Mutex\<close>, \<open>Worker_Lock\<close>, \<open>Steal_Lock\<close> (\<open>worker_mutex.c\<close>, \<open>spin_mutex.c\<close>, the locks of \<open>scheduler.c\<close>): the contract \<open>lock_interface\<close>;
    the machine of an owner and its thieves on its lock: exclusion, and that the \<open>do_not_steal\<close> flag, which thieves do not read, bounds nothing.
  \<^item> \<open>Frame_Malloc\<close>, \<open>Frame_Malloc_Safety\<close> (\<open>frame_malloc.c\<close>): the buckets, the batches between worker and global
    pool; blocks in use never overlap, and an allocation always ends with a block or the code's own out-of-memory.
  \<^item> \<open>Reducer_Map\<close>, \<open>Reducer_Lookup\<close>, \<open>Reducer_Merge\<close>, \<open>Hyperobject\<close> (\<open>reducer_impl.cpp\<close>): the hash table of views is a finite map
    (contract \<open>key_map\<close>); merging gives the serial order of reduce calls; the interface registers, finds and destroys.
  \<^item> \<open>Reducer_Monoid\<close>, \<open>Reducer_Min_Max\<close>, \<open>Reducer_Containers\<close> (\<open>reducer.h\<close>, \<open>reducer_op*.h\<close>, \<open>reducer_min_max.h\<close>, \<open>reducer_list.h\<close>, \<open>reducer_string.h\<close>,
    \<open>reducer_vector.h\<close>, \<open>c_reducers.c\<close>): the contract \<open>reducer_monoid\<close>, whose theorem \<open>executes_serially\<close> says that every way of
    stealing gives the serial value, interpreted on each reducer of the library.
  \<^item> \<open>RNG\<close> (\<open>myrand\<close>, \<open>mysrand\<close>): the generator never sticks at zero, and the victim is always another worker.
  \<^item> \<open>Full_Frame\<close>, \<open>Spawn_Tree\<close> (\<open>full_frame.c\<close>, parts of \<open>scheduler.c\<close>): frames, the list of children (contract \<open>container\<close>), its serial
    order, and the promotion of a stolen call stack to full frames.
  \<^item> \<open>Deque_Pool\<close>, \<open>Deque\<close> (\<open>deque_pool.c\<close>, \<open>deque.c\<close>): the vectors of suspended and resumable deques are bags
    (\<open>container\<close> again); making, switching, suspending, resuming, mugging deques and detaching a stolen frame.
  \<^item> \<open>THE_Protocol\<close> (\<open>cilk-abi.c\<close>, \<open>deque.c\<close>, \<open>scheduler.c\<close>): one owner and any number of thieves, every access a step; each frame
    pushed is taken exactly once, by the owner from the tail or by a thief from the head.
  \<^item> \<open>Fiber\<close>, \<open>Fiber_Pool\<close>, \<open>Settings\<close> (\<open>cilk_fiber.cpp\<close>, \<open>cilk_fiber-unix.cpp\<close>, \<open>cilk_fiber_pool.cpp\<close>, \<open>global_state.cpp\<close>): fibers as the scheduler uses
    them, from one supply; the hierarchy of pools that stands behind it, with the contract \<open>fiber_supply\<close> that both
    satisfy; and the parameters of the runtime, read from the environment or set by the program, that bound the pools.
  \<^item> \<open>Exceptions\<close> (\<open>except-gcc.cpp\<close>): the record of a pending exception; the order of merging does not matter for which one survives.
  \<^item> \<open>Pedigree\<close> (\<open>pedigrees.c\<close>, \<open>cilk-abi.c\<close>, \<open>scheduler.c\<close>): ranks and their chain do not depend on who ran what.
  \<^item> \<open>Reductions\<close>, \<open>Reduction_Order\<close> (the end of \<open>scheduler.c\<close>): the fast and slow paths at the return of a child and at a sync, as
    programs; then the strands of one frame interleaved: reductions keep the serial order and come to rest.
  \<^item> \<open>Sync\<close>, \<open>Signal_Tree\<close>, \<open>Steal\<close> (\<open>scheduler.c\<close>, \<open>signal_node.c\<close>): the switch into the runtime, the tree by which workers wake
    each other, the thief and the scheduling loop.
  \<^item> \<open>Cilk_For\<close> (\<open>cilk-abi-cilk-for.cpp\<close>): every index once, in any schedule; and when the grain makes it endless.
  \<^item> \<open>Worker_Setup\<close>, \<open>Entry_Points\<close> (\<open>scheduler.c\<close>, \<open>cilk-abi.c\<close>, \<open>cilk_api.c\<close>): making, binding and destroying workers; what compiled
    code calls, and that a run without steals leaves the runtime as it found it.

  \<^bold>\<open>Interfaces.\<close> \<open>bounded_fifo\<close>, \<open>lock_interface\<close>, \<open>container\<close>, \<open>key_map\<close>, \<open>reducer_monoid\<close>, \<open>fiber_supply\<close> and \<open>stepping\<close> are locales; each is
  interpreted on the model's own definitions in the theory that provides them, and their clients' lemmas are proved once.

  \<^bold>\<open>Bounds.\<close> Loops of the code run with a bound in the model, and a run over the bound is the failure \<open>Diverges\<close>, never a
  value. Loops that walk frames or call stacks have one round more than there are addresses in use (\<open>r_brk\<close>), more than any list
  without a cycle; the theorems on them start from such lists and conclude that a result is returned. The rounds of
  reductions are a field of the client (\<open>rc_rounds\<close>); \<open>reductions_come_to_rest\<close> shows that a bound exists. A batch of
  the frame allocator has as many rounds as the batch has bytes, each round takes at least 64 of them. The search for work has no bound in
  the code and its model is given one. The recursion over parents of fiber pools is given the number of levels; the
  runtime makes two.

  \<^bold>\<open>Configuration.\<close> The default Linux build: assertions are always active; statistics, record and replay, precomputed pedigrees,
  profiling, the debugging of locks and fibers and the counting of references to fibers are compiled out; \<open>long\<close> has 64 bits. The
  regions between \<open>START_INTERVAL\<close> and \<open>STOP_INTERVAL\<close> are empty there and have no counterpart in the model.

  \<^bold>\<open>Parameters.\<close> What is not in the sources is an argument: the code a strand runs (as a relation on the state or as a program
  that obeys the calling conventions), the reduce, identity and destroy functions of the client, its comparators,
  the addresses \<open>malloc\<close> and \<open>mmap\<close> return, the contents of the environment. What is required of them is a hypothesis of the theorem.

  \<^bold>\<open>Not modelled.\<close> Machine contexts, stacks and their layout (\<open>setjmp\<close>, \<open>longjmp\<close>, \<open>cilk-abi-vla.c\<close>): a switch of context is the
  change of the runtime's state around it. Calls of the operating system. The Windows port and the fibers of
  Windows. Unwinding, which is the C++ runtime's. Record and replay, statistics and profiling, which the default build leaves out. The
  reducers over streams and the holders, which rest on the C++ library's streams and allocators, and the
  deprecated wrapper classes, which only forward. The vendored safe string library and the
  benchmarks, which are not the runtime's logic.
\<close>

end
